(* ===== verification/Lwip_Prelude.thy ===== *)
theory Lwip_Prelude
  imports Main "HOL-Library.Word"
begin

unbundle bit_operations_syntax

text \<open>
  Shared vocabulary of the development: the fixed-width integers of
  \<^verbatim>\<open>lwipk66/arch/cc.h\<close>, the error codes of \<^verbatim>\<open>include/lwip/err.h\<close>, the byte-order
  functions of \<^verbatim>\<open>core/def.c\<close>, a flat byte memory with \<^verbatim>\<open>MEMCPY\<close>, and the generic lemmas on
  words and lists that the component theories use.  The collection \<open>unat_simps\<close> moves a
  statement on words to the natural numbers they stand for.
\<close>

named_theorems unat_simps

section \<open>Integers and error codes\<close>

type_synonym u8 = "8 word"
type_synonym u16 = "16 word"
type_synonym u32 = "32 word"

type_synonym addr = nat

abbreviation (input) NULL :: addr where
  "NULL \<equiv> 0"

datatype err_t =
    ERR_OK | ERR_MEM | ERR_BUF | ERR_TIMEOUT | ERR_RTE | ERR_INPROGRESS | ERR_VAL
  | ERR_WOULDBLOCK | ERR_USE | ERR_ISCONN | ERR_ABRT | ERR_RST | ERR_CLSD | ERR_CONN
  | ERR_ARG | ERR_IF

section \<open>Words as natural numbers\<close>

lemma unat_drop_bit [unat_simps]: "unat (drop_bit n w) = unat w div 2 ^ n"
  by (subst unat_drop_bit_eq) (rule drop_bit_eq_div)

lemma unat_take_bit [unat_simps]: "unat (take_bit n w) = unat w mod 2 ^ n"
  by (subst unsigned_take_bit_eq) (rule take_bit_eq_mod)

lemma unat_and_mask [unat_simps]: "unat (w AND mask n) = unat w mod 2 ^ n"
  using unat_take_bit [of n w] by (simp add: take_bit_eq_mask)

lemma unat_push_bit [unat_simps]:
  "unat (push_bit n (w :: 'a::len word)) = (unat w * 2 ^ n) mod 2 ^ LENGTH('a)"
  by (subst unsigned_push_bit_eq) (simp only: push_bit_eq_mult take_bit_eq_mod)

lemma unat_ucast_mod [unat_simps]:
  "unat (ucast (w :: 'a::len word) :: 'b::len word) = unat w mod 2 ^ LENGTH('b)"
  by (simp only: unsigned_ucast_eq take_bit_eq_mod)

lemma unat_lt_pow: "unat (w :: 'a::len word) < 2 ^ LENGTH('a)"
  by (rule unsigned_less)

lemma unat_u8_lt: "unat (b :: u8) < 256"
  using unat_lt_pow [of b] by simp

lemma unat_u16_lt: "unat (x :: u16) < 65536"
  using unat_lt_pow [of x] by simp

lemma unat_u32_lt: "unat (x :: u32) < 4294967296"
  using unat_lt_pow [of x] by simp

lemma unat_ucast_u8_u16 [simp]: "unat (ucast (b :: u8) :: u16) = unat b"
  using unat_u8_lt [of b] by (subst unat_ucast_mod) simp

lemma unat_ucast_u8_u32 [simp]: "unat (ucast (b :: u8) :: u32) = unat b"
  using unat_u8_lt [of b] by (subst unat_ucast_mod) simp

lemma unat_ucast_u16_u32 [simp]: "unat (ucast (x :: u16) :: u32) = unat x"
  using unat_u16_lt [of x] by (subst unat_ucast_mod) simp

lemma unat_not [unat_simps]: "unat (NOT (w :: 'a::len word)) = 2 ^ LENGTH('a) - 1 - unat w"
proof -
  have "NOT w = - 1 - w"
    by (simp add: not_eq_complement)
  moreover have "unat (- 1 - w) = unat (- 1 :: 'a word) - unat w"
    by (rule unat_sub) (rule word_n1_ge)
  ultimately show ?thesis
    by (simp add: unsigned_minus_1_eq_mask mask_eq_exp_minus_1)
qed

text \<open>The or of two words with no common bit is their sum.\<close>

lemma or_disjoint_plus: "x AND y = 0 \<Longrightarrow> x OR y = x + (y :: 'a::len word)"
  using word_plus_and_or [of x y] by simp

lemma bit_imp_le_unat: "bit (w :: 'a::len word) k \<Longrightarrow> 2 ^ k \<le> unat w"
proof (rule ccontr)
  assume b: "bit w k" and "\<not> 2 ^ k \<le> unat w"
  then have "unat w div 2 ^ k = 0"
    by simp
  moreover have "bit (unat w) k"
    using b by (simp add: bit_unsigned_iff)
  ultimately show False
    by (simp add: bit_iff_odd)
qed

lemma push_and_low:
  fixes x :: "'a::len word"
  assumes "unat y < 2 ^ n"
  shows "push_bit n x AND y = 0"
proof (rule bit_word_eqI)
  fix k
  have "\<not> bit y k" if "n \<le> k"
  proof
    assume "bit y k"
    then have "2 ^ k \<le> unat y"
      by (rule bit_imp_le_unat)
    moreover have "(2 :: nat) ^ n \<le> 2 ^ k"
      using that by simp
    ultimately show False
      using assms by linarith
  qed
  then show "bit (push_bit n x AND y) k \<longleftrightarrow> bit (0 :: 'a word) k"
    by (auto simp: bit_simps)
qed

lemma unat_push_or [unat_simps]:
  fixes x :: "'a::len word"
  assumes "unat y < 2 ^ n"
  shows "unat (push_bit n x OR y) = (unat x * 2 ^ n) mod 2 ^ LENGTH('a) + unat y"
proof -
  have "push_bit n x OR y = push_bit n x + y"
    using assms by (intro or_disjoint_plus push_and_low)
  moreover have "push_bit n x \<le> push_bit n x + y"
    using assms push_and_low [OF assms, of x] word_or_not
    by (metis or_disjoint_plus le_word_or2 or.commute)
  ultimately show ?thesis
    by (simp only: unat_plus_simple unat_push_bit)
qed

lemma unat_and_ff [unat_simps]: "unat (w AND 255 :: 'a::len word) = unat w mod 256"
  using unat_and_mask [of w 8] by (simp add: mask_numeral)

lemma unat_and_ffff [unat_simps]: "unat (w AND 65535 :: 'a::len word) = unat w mod 65536"
  using unat_and_mask [of w 16] by (simp add: mask_numeral)

section \<open>Byte order (core/def.c)\<close>

definition lwip_htons :: "u16 \<Rightarrow> u16" where
  "lwip_htons n = push_bit 8 (n AND 0xff) OR drop_bit 8 (n AND 0xff00)"

definition lwip_ntohs :: "u16 \<Rightarrow> u16" where
  "lwip_ntohs n = lwip_htons n"

definition lwip_htonl :: "u32 \<Rightarrow> u32" where
  "lwip_htonl n = push_bit 24 (n AND 0xff) OR push_bit 8 (n AND 0xff00)
     OR drop_bit 8 (n AND 0xff0000) OR drop_bit 24 (n AND 0xff000000)"

definition lwip_ntohl :: "u32 \<Rightarrow> u32" where
  "lwip_ntohl n = lwip_htonl n"

lemma unat_htons [unat_simps]: "unat (lwip_htons n) = (unat n mod 256) * 256 + unat n div 256"
proof -
  have lt: "unat n div 256 < 256"
    using unat_u16_lt [of n] by linarith
  have "drop_bit 8 (n AND 0xff00) = drop_bit 8 n AND (0xff :: u16)"
    by (simp add: drop_bit_and)
  then have "unat (drop_bit 8 (n AND 0xff00)) = unat n div 256"
    using lt by (simp add: unat_and_ff unat_drop_bit)
  then have "unat (lwip_htons n) = (unat (n AND 0xff) * 2 ^ 8) mod 2 ^ LENGTH(16) + unat n div 256"
    unfolding lwip_htons_def using lt by (subst unat_push_or) (auto simp del: drop_bit_and)
  then show ?thesis
    by (simp add: unat_and_ff)
qed

lemma htons_involutive [simp]: "lwip_htons (lwip_htons n) = n"
proof -
  have "unat n div 256 < 256"
    using unat_u16_lt [of n] by linarith
  then show ?thesis
    by (simp add: word_unat_eq_iff unat_htons)
qed

lemma htons_eq_iff [simp]: "lwip_htons a = lwip_htons b \<longleftrightarrow> a = b"
  by (metis htons_involutive)

lemma htons_zero [simp]: "lwip_htons 0 = 0"
  by (simp add: lwip_htons_def)

text \<open>The four octets of a 32-bit value, lowest address first on the little-endian target.\<close>

definition le_bytes32 :: "u32 \<Rightarrow> u8 list" where
  "le_bytes32 w = [ucast w, ucast (drop_bit 8 w), ucast (drop_bit 16 w), ucast (drop_bit 24 w)]"

definition of_le_bytes32 :: "u8 \<Rightarrow> u8 \<Rightarrow> u8 \<Rightarrow> u8 \<Rightarrow> u32" where
  "of_le_bytes32 a b c d =
     ucast a OR push_bit 8 (ucast b) OR push_bit 16 (ucast c) OR push_bit 24 (ucast d)"

lemma bit_u8_high [simp]: "8 \<le> k \<Longrightarrow> \<not> bit (b :: u8) k"
  using bit_imp_le_length [of b k] by auto

lemma less_32_cases: "(k :: nat) < 32 \<longleftrightarrow>
    k = 0 \<or> k = 1 \<or> k = 2 \<or> k = 3 \<or> k = 4 \<or> k = 5 \<or> k = 6 \<or> k = 7
  \<or> k = 8 \<or> k = 9 \<or> k = 10 \<or> k = 11 \<or> k = 12 \<or> k = 13 \<or> k = 14 \<or> k = 15
  \<or> k = 16 \<or> k = 17 \<or> k = 18 \<or> k = 19 \<or> k = 20 \<or> k = 21 \<or> k = 22 \<or> k = 23
  \<or> k = 24 \<or> k = 25 \<or> k = 26 \<or> k = 27 \<or> k = 28 \<or> k = 29 \<or> k = 30 \<or> k = 31"
  by arith

lemma u32_bits_eqI:
  assumes "\<And>k. k < 32 \<Longrightarrow> bit v k = bit w k"
  shows "v = (w :: u32)"
  using assms by (intro bit_word_eqI) simp

lemma of_le_bytes32_bytes [simp]:
  "of_le_bytes32 (ucast w) (ucast (drop_bit 8 w)) (ucast (drop_bit 16 w)) (ucast (drop_bit 24 w)) = w"
  by (rule u32_bits_eqI) (unfold less_32_cases of_le_bytes32_def, elim disjE; simp add: bit_simps)

lemma u32_octets_exhaust: obtains a b c d where "w = of_le_bytes32 a b c d"
  by (metis of_le_bytes32_bytes)

lemma htonl_of_le_bytes32 [simp]: "lwip_htonl (of_le_bytes32 a b c d) = of_le_bytes32 d c b a"
  by (rule u32_bits_eqI)
    (unfold less_32_cases lwip_htonl_def of_le_bytes32_def, elim disjE; simp add: bit_simps)

lemma htonl_involutive [simp]: "lwip_htonl (lwip_htonl w) = w"
  by (cases w rule: u32_octets_exhaust) simp

lemma htonl_eq_iff [simp]: "lwip_htonl v = lwip_htonl w \<longleftrightarrow> v = w"
  by (metis htonl_involutive)

lemma unat_of_le_bytes32 [unat_simps]:
  "unat (of_le_bytes32 a b c d) = unat a + 256 * (unat b + 256 * (unat c + 256 * unat d))"
proof -
  note sz = unat_u8_lt [of a] unat_u8_lt [of b] unat_u8_lt [of c] unat_u8_lt [of d]
  have "of_le_bytes32 a b c d =
      push_bit 24 (ucast d) OR (push_bit 16 (ucast c) OR (push_bit 8 (ucast b) OR ucast a))"
    by (simp add: of_le_bytes32_def ac_simps)
  moreover have ba: "unat (push_bit 8 (ucast b) OR ucast a :: u32) = 256 * unat b + unat a"
    using sz by (subst unat_push_or) simp_all
  moreover have "unat (push_bit 16 (ucast c) OR (push_bit 8 (ucast b) OR ucast a) :: u32)
      = 65536 * unat c + (256 * unat b + unat a)"
    using sz ba by (subst unat_push_or) simp_all
  ultimately show ?thesis
    using sz by (simp, subst unat_push_or) simp_all
qed

lemma horner_mod_div:
  assumes "(a :: nat) < 256"
  shows "(a + 256 * m) mod 256 = a" and "(a + 256 * m) div 256 = m"
  using assms by simp_all

lemma le_bytes32_of [simp]: "le_bytes32 (of_le_bytes32 a b c d) = [a, b, c, d]"
proof -
  note sz = unat_u8_lt [of a] unat_u8_lt [of b] unat_u8_lt [of c] unat_u8_lt [of d]
  have pow: "(2 :: nat) ^ LENGTH(8) = 256" "(2 :: nat) ^ 8 = 256" "(2 :: nat) ^ 16 = 256 * 256"
    "(2 :: nat) ^ 24 = 256 * (256 * 256)"
    by simp_all
  show ?thesis
    unfolding le_bytes32_def list.inject word_unat_eq_iff unat_simps pow div_mult2_eq
    by (simp only: horner_mod_div [OF sz(1)] horner_mod_div [OF sz(2)] horner_mod_div [OF sz(3)]
        mod_less [OF sz(4)] simp_thms)
qed

lemma le_bytes32_inj [simp]: "le_bytes32 v = le_bytes32 w \<longleftrightarrow> v = w"
proof
  assume eq: "le_bytes32 v = le_bytes32 w"
  obtain a b c d where v: "v = of_le_bytes32 a b c d"
    by (rule u32_octets_exhaust)
  obtain a' b' c' d' where w: "w = of_le_bytes32 a' b' c' d'"
    by (rule u32_octets_exhaust)
  from eq show "v = w"
    unfolding v w le_bytes32_of by simp
qed simp

section \<open>Byte memory\<close>

text \<open>
  The data memory of the target is a total function from addresses to octets; data pointers
  are addresses. \<open>mem_read\<close> is the contents of a range, \<open>mem_write\<close> the effect of storing a
  list of octets, and \<open>MEMCPY\<close> reads the whole source before it writes, which is what the C
  function promises for ranges that do not overlap.
\<close>

type_synonym bytes = "addr \<Rightarrow> u8"

definition mem_read :: "bytes \<Rightarrow> addr \<Rightarrow> nat \<Rightarrow> u8 list" where
  "mem_read m a n = map (\<lambda>i. m (a + i)) [0..<n]"

fun mem_write :: "bytes \<Rightarrow> addr \<Rightarrow> u8 list \<Rightarrow> bytes" where
  "mem_write m a [] = m"
| "mem_write m a (x # xs) = mem_write (m(a := x)) (Suc a) xs"

definition MEMCPY :: "bytes \<Rightarrow> addr \<Rightarrow> addr \<Rightarrow> nat \<Rightarrow> bytes" where
  "MEMCPY m dst src n = mem_write m dst (mem_read m src n)"

lemma length_mem_read [simp]: "length (mem_read m a n) = n"
  by (simp add: mem_read_def)

lemma mem_read_0 [simp]: "mem_read m a 0 = []"
  by (simp add: mem_read_def)

lemma nth_mem_read [simp]: "i < n \<Longrightarrow> mem_read m a n ! i = m (a + i)"
  by (simp add: mem_read_def)

lemma mem_read_add: "mem_read m a (i + j) = mem_read m a i @ mem_read m (a + i) j"
  by (rule nth_equalityI) (auto simp: nth_append)

lemma take_mem_read [simp]: "take k (mem_read m a n) = mem_read m a (min k n)"
  by (rule nth_equalityI) auto

lemma drop_mem_read [simp]: "drop k (mem_read m a n) = mem_read m (a + k) (n - k)"
  by (rule nth_equalityI) (auto simp: add.assoc)

lemma mem_write_apply:
  "mem_write m a xs b = (if a \<le> b \<and> b < a + length xs then xs ! (b - a) else m b)"
proof (induction m a xs rule: mem_write.induct)
  case (2 m a x xs)
  show ?case
    unfolding mem_write.simps "2.IH" by (cases "a < b") (auto simp: nth_Cons' Suc_diff_Suc)
qed auto

lemma mem_read_write_same [simp]: "mem_read (mem_write m a xs) a (length xs) = xs"
  by (rule nth_equalityI) (auto simp: mem_write_apply)

lemma mem_read_write_other:
  "a + length xs \<le> b \<or> b + n \<le> a \<Longrightarrow> mem_read (mem_write m a xs) b n = mem_read m b n"
  by (rule nth_equalityI) (auto simp: mem_write_apply)

lemma mem_read_cong: "(\<And>i. i < n \<Longrightarrow> m (a + i) = m' (a + i)) \<Longrightarrow> mem_read m a n = mem_read m' a n"
  by (rule nth_equalityI) auto

end
