(* ===== verification/Ip_Addr.thy ===== *)
theory Ip_Addr
  imports Lwip_Prelude
begin

text \<open>
  IPv4 addresses: \<^verbatim>\<open>core/ipv4/ip_addr.c\<close> and the macros of
  \<^verbatim>\<open>include/ipv4/lwip/ip_addr.h\<close>.  An address is the 32-bit value the code keeps, in network
  order, so that its octets in memory (\<open>le_bytes32\<close> on the little-endian target) read in the
  usual order.  A C string is the list of its characters without the final NUL; reading at its
  end gives 0.  A function that returns a flag and stores a result through a pointer returns an
  option here.  The part of \<^verbatim>\<open>struct netif\<close> that the address and ARP code reads is the record
  \<open>netif\<close>.
\<close>

unbundle bit_operations_syntax

section \<open>Addresses and interfaces\<close>

type_synonym ip_addr = u32

definition IPADDR_NONE :: ip_addr where "IPADDR_NONE = 0xffffffff"
definition IPADDR_ANY :: ip_addr where "IPADDR_ANY = 0"
definition IPADDR_BROADCAST :: ip_addr where "IPADDR_BROADCAST = 0xffffffff"

lemmas ipaddr_consts = IPADDR_NONE_def IPADDR_ANY_def IPADDR_BROADCAST_def

definition NETIF_FLAG_BROADCAST :: u8 where "NETIF_FLAG_BROADCAST = 0x02"

record netif =
  netif_ip_addr :: ip_addr
  netif_netmask :: ip_addr
  netif_gw :: ip_addr
  netif_mtu :: u16
  netif_hwaddr :: "u8 list"
  netif_flags :: u8

definition IP4_ADDR :: "u8 \<Rightarrow> u8 \<Rightarrow> u8 \<Rightarrow> u8 \<Rightarrow> ip_addr" where
  "IP4_ADDR a b c d =
     push_bit 24 (ucast d) OR push_bit 16 (ucast c) OR push_bit 8 (ucast b) OR ucast a"

definition ip_addr_netcmp :: "ip_addr \<Rightarrow> ip_addr \<Rightarrow> ip_addr \<Rightarrow> bool" where
  "ip_addr_netcmp addr1 addr2 nm \<longleftrightarrow> addr1 AND nm = addr2 AND nm"

definition ip_addr_ismulticast :: "ip_addr \<Rightarrow> bool" where
  "ip_addr_ismulticast a \<longleftrightarrow> a AND lwip_htonl 0xf0000000 = lwip_htonl 0xe0000000"

definition ip_addr_islinklocal :: "ip_addr \<Rightarrow> bool" where
  "ip_addr_islinklocal a \<longleftrightarrow> a AND lwip_htonl 0xffff0000 = lwip_htonl 0xa9fe0000"

definition ip4_addr_isbroadcast :: "ip_addr \<Rightarrow> netif \<Rightarrow> bool" where
  "ip4_addr_isbroadcast addr netif =
     (if NOT addr = IPADDR_ANY \<or> addr = IPADDR_ANY then True
      else if netif_flags netif AND NETIF_FLAG_BROADCAST = 0 then False
      else if addr = netif_ip_addr netif then False
      else if ip_addr_netcmp addr (netif_ip_addr netif) (netif_netmask netif)
              \<and> addr AND NOT (netif_netmask netif) = IPADDR_BROADCAST AND NOT (netif_netmask netif)
           then True
      else False)"

section \<open>Netmasks\<close>

lemma drop_bit_1_less: "w \<noteq> 0 \<Longrightarrow> unat (drop_bit 1 w) < unat (w :: 'a::len word)"
  by (simp only: unat_drop_bit power_one_right) (simp add: unat_gt_0)

text \<open>The two loops of \<^verbatim>\<open>ip4_addr_netmask_valid\<close>: to the first zero, then no one after it.\<close>

function first_zero :: "u32 \<Rightarrow> u32 \<Rightarrow> u32" where
  "first_zero nm m =
     (if m \<noteq> 0 then if nm AND m = 0 then m else first_zero nm (drop_bit 1 m) else m)"
  by pat_completeness auto
termination
  by (relation "measure (\<lambda>(nm, m). unat m)") (simp_all only: wf_measure in_measure prod.case drop_bit_1_less simp_thms)

function no_one_after :: "u32 \<Rightarrow> u32 \<Rightarrow> bool" where
  "no_one_after nm m =
     (if m \<noteq> 0 then if nm AND m \<noteq> 0 then False else no_one_after nm (drop_bit 1 m) else True)"
  by pat_completeness auto
termination
  by (relation "measure (\<lambda>(nm, m). unat m)") (simp_all only: wf_measure in_measure prod.case drop_bit_1_less simp_thms)

declare first_zero.simps [simp del] no_one_after.simps [simp del]

definition ip4_addr_netmask_valid :: "ip_addr \<Rightarrow> bool" where
  "ip4_addr_netmask_valid netmask =
     (let nm_hostorder = lwip_htonl netmask
      in no_one_after nm_hostorder (first_zero nm_hostorder (push_bit 31 1)))"

section \<open>Text form\<close>

abbreviation code :: "char \<Rightarrow> nat" where
  "code c \<equiv> of_char c"

definition peek :: "string \<Rightarrow> nat" where
  "peek cp = (case cp of [] \<Rightarrow> 0 | c # _ \<Rightarrow> code c)"

definition isdigit :: "nat \<Rightarrow> bool" where
  "isdigit c \<longleftrightarrow> code CHR ''0'' \<le> c \<and> c \<le> code CHR ''9''"

definition islower :: "nat \<Rightarrow> bool" where
  "islower c \<longleftrightarrow> code CHR ''a'' \<le> c \<and> c \<le> code CHR ''z''"

definition isxdigit :: "nat \<Rightarrow> bool" where
  "isxdigit c \<longleftrightarrow> isdigit c \<or> code CHR ''a'' \<le> c \<and> c \<le> code CHR ''f''
     \<or> code CHR ''A'' \<le> c \<and> c \<le> code CHR ''F''"

definition isspace :: "nat \<Rightarrow> bool" where
  "isspace c \<longleftrightarrow> c = 32 \<or> c = 12 \<or> c = 10 \<or> c = 13 \<or> c = 9 \<or> c = 11"

text \<open>The inner loop of \<^verbatim>\<open>ipaddr_aton\<close>: one number in the given base.\<close>

fun aton_number :: "u32 \<Rightarrow> nat \<Rightarrow> string \<Rightarrow> u32 \<times> string" where
  "aton_number val base [] = (val, [])"
| "aton_number val base (c # cp) =
     (if isdigit (code c) then
        aton_number (val * of_nat base + of_nat (code c - code CHR ''0'')) base cp
      else if base = 16 \<and> isxdigit (code c) then
        aton_number (push_bit 4 val OR of_nat (code c + 10 -
          (if islower (code c) then code CHR ''a'' else code CHR ''A''))) base cp
      else (val, c # cp))"

lemma aton_number_length: "length (snd (aton_number val base cp)) \<le> length cp"
  by (induction val base cp rule: aton_number.induct) auto

definition aton_base :: "string \<Rightarrow> nat \<times> string" where
  "aton_base cp =
     (if peek cp = code CHR ''0'' then
        (let cp = tl cp
         in if peek cp = code CHR ''x'' \<or> peek cp = code CHR ''X'' then (16, tl cp) else (8, cp))
      else (10, cp))"

text \<open>The outer loop: the parts before the last one, the last one, and what follows it.\<close>

function aton_parts :: "u32 list \<Rightarrow> string \<Rightarrow> (u32 list \<times> u32 \<times> string) option" where
  "aton_parts parts cp =
     (if \<not> isdigit (peek cp) then None
      else
        let (val, cp') = aton_number 0 (fst (aton_base cp)) (snd (aton_base cp))
        in if peek cp' = code CHR ''.'' then
             if length parts \<ge> 3 then None
             else aton_parts (parts @ [val]) (tl cp')
           else Some (parts, val, cp'))"
  by pat_completeness auto
termination
  by (relation "measure (\<lambda>(parts, cp). 4 - length parts)") auto

declare aton_parts.simps [simp del]

definition ipaddr_aton :: "string \<Rightarrow> ip_addr option" where
  "ipaddr_aton cp =
     (case aton_parts [] cp of
        None \<Rightarrow> None
      | Some (parts, val, cp) \<Rightarrow>
          if peek cp \<noteq> 0 \<and> \<not> isspace (peek cp) then None
          else
            (case parts of
               [] \<Rightarrow> Some (lwip_htonl val)
             | [p0] \<Rightarrow>
                 if val > 0xffffff then None
                 else Some (lwip_htonl (val OR push_bit 24 p0))
             | [p0, p1] \<Rightarrow>
                 if val > 0xffff then None
                 else Some (lwip_htonl (val OR (push_bit 24 p0 OR push_bit 16 p1)))
             | [p0, p1, p2] \<Rightarrow>
                 if val > 0xff then None
                 else Some (lwip_htonl (val OR (push_bit 24 p0 OR push_bit 16 p1 OR push_bit 8 p2)))
             | _ \<Rightarrow> Some (lwip_htonl val)))"

definition ipaddr_addr :: "string \<Rightarrow> ip_addr" where
  "ipaddr_addr cp = (case ipaddr_aton cp of Some val \<Rightarrow> val | None \<Rightarrow> IPADDR_NONE)"

text \<open>
  Printing.  The do-while loop collects the digits of an octet from the last to the first in
  \<^verbatim>\<open>inv\<close>; \<open>ntoa_put\<close> is the store with its check of the buffer length, \<open>ntoa_octets\<close> the loop over
  the octets.  \<open>None\<close> is the NULL result.
\<close>

fun ntoa_inv :: "nat \<Rightarrow> string" where
  "ntoa_inv ap = char_of (48 + ap mod 10) # (if ap div 10 \<noteq> 0 then ntoa_inv (ap div 10) else [])"

declare ntoa_inv.simps [simp del]

fun ntoa_put :: "int \<Rightarrow> string \<Rightarrow> string \<Rightarrow> string option" where
  "ntoa_put buflen out [] = Some out"
| "ntoa_put buflen out (c # cs) =
     (if int (length out) \<ge> buflen then None else ntoa_put buflen (out @ [c]) cs)"

fun ntoa_octets :: "int \<Rightarrow> string \<Rightarrow> u8 list \<Rightarrow> string option" where
  "ntoa_octets buflen out [] = Some out"
| "ntoa_octets buflen out (ap # aps) =
     (case ntoa_put buflen out (rev (ntoa_inv (unat ap))) of
        None \<Rightarrow> None
      | Some out \<Rightarrow>
          (case ntoa_put buflen out ''.'' of
             None \<Rightarrow> None
           | Some out \<Rightarrow> ntoa_octets buflen out aps))"

definition ipaddr_ntoa_r :: "ip_addr \<Rightarrow> int \<Rightarrow> string option" where
  "ipaddr_ntoa_r addr buflen = map_option butlast (ntoa_octets buflen [] (le_bytes32 addr))"

definition ipaddr_ntoa :: "ip_addr \<Rightarrow> string option" where
  "ipaddr_ntoa addr = ipaddr_ntoa_r addr 16"

section \<open>Lemmas\<close>

lemma IP4_ADDR_bytes: "IP4_ADDR a b c d = of_le_bytes32 a b c d"
  by (simp add: IP4_ADDR_def of_le_bytes32_def ac_simps)

text \<open>The loops over the bits, seen from bit \<open>k\<close> down.\<close>

lemma first_zero_0 [simp]: "first_zero nm 0 = 0"
  by (simp add: first_zero.simps)

lemma no_one_after_0 [simp]: "no_one_after nm 0"
  by (simp add: no_one_after.simps)

definition one_bit :: "nat \<Rightarrow> u32" where
  "one_bit k = push_bit k 1"

lemma bit_one_bit [simp]: "bit (one_bit k) i \<longleftrightarrow> i = k \<and> k < 32"
  by (auto simp: one_bit_def bit_simps)

lemma and_one_bit_eq_0 [simp]: "k < 32 \<Longrightarrow> (w AND one_bit k = 0) \<longleftrightarrow> \<not> bit w k"
  by (metis (no_types, lifting) bit_and_iff bit_one_bit bit_word_eqI bit_0_eq bot_apply bot_bool_def)

lemma one_bit_neq_0 [simp]: "k < 32 \<Longrightarrow> one_bit k \<noteq> 0"
  by (metis bit_0_eq bit_one_bit bot_apply bot_bool_def)

lemma shift_one_bit [simp]: "Suc k < 32 \<Longrightarrow> drop_bit (Suc 0) (one_bit (Suc k)) = one_bit k"
  by (rule bit_word_eqI) (auto simp: bit_drop_bit_eq)

lemma shift_one_bit_0 [simp]: "drop_bit (Suc 0) (one_bit 0) = 0"
  by (rule bit_word_eqI) (auto simp: bit_drop_bit_eq)

lemma no_one_after_bits:
  "k < 32 \<Longrightarrow> no_one_after nm (one_bit k) \<longleftrightarrow> (\<forall>i\<le>k. \<not> bit nm i)"
proof (induction k)
  case 0
  then show ?case
    by (simp add: no_one_after.simps [of nm "one_bit 0"])
next
  case (Suc k)
  then show ?case
    by (auto simp: no_one_after.simps [of nm "one_bit (Suc k)"] le_Suc_eq)
qed

lemma first_zero_bits:
  assumes "k < 32"
  shows "(\<exists>j\<le>k. \<not> bit nm j \<and> (\<forall>i. j < i \<and> i \<le> k \<longrightarrow> bit nm i) \<and> first_zero nm (one_bit k) = one_bit j)
    \<or> (\<forall>i\<le>k. bit nm i) \<and> first_zero nm (one_bit k) = 0"
  using assms
proof (induction k)
  case 0
  then show ?case
    by (simp add: first_zero.simps [of nm "one_bit 0"])
next
  case (Suc k)
  then consider "bit nm (Suc k)" "\<forall>i\<le>k. bit nm i" "first_zero nm (one_bit k) = 0"
    | j where "bit nm (Suc k)" "j \<le> k" "\<not> bit nm j" "\<forall>i. j < i \<and> i \<le> k \<longrightarrow> bit nm i"
        "first_zero nm (one_bit k) = one_bit j"
    | "\<not> bit nm (Suc k)"
    by auto
  then show ?case
  proof cases
    case 1
    then show ?thesis
      using Suc.prems by (auto simp: first_zero.simps [of nm "one_bit (Suc k)"] le_Suc_eq)
  next
    case (2 j)
    then show ?thesis
      using Suc.prems by (intro disjI1 exI [of _ j])
        (auto simp: first_zero.simps [of nm "one_bit (Suc k)"] le_Suc_eq)
  next
    case 3
    then show ?thesis
      using Suc.prems by (intro disjI1 exI [of _ "Suc k"])
        (auto simp: first_zero.simps [of nm "one_bit (Suc k)"])
  qed
qed

lemma bit_not_mask32: "bit (NOT (mask n) :: u32) i \<longleftrightarrow> n \<le> i \<and> i < 32"
  by (auto simp: bit_simps)

lemma netmask_valid_iff_prefix:
  "ip4_addr_netmask_valid netmask \<longleftrightarrow> (\<exists>n\<le>32. lwip_htonl netmask = NOT (mask n))"
proof -
  define nm where "nm = lwip_htonl netmask"
  have valid: "ip4_addr_netmask_valid netmask \<longleftrightarrow> no_one_after nm (first_zero nm (one_bit 31))"
    unfolding ip4_addr_netmask_valid_def Let_def nm_def one_bit_def ..
  consider (all) "\<forall>i\<le>31. bit nm i" "first_zero nm (one_bit 31) = 0"
    | (some) j where "j \<le> 31" "\<not> bit nm j" "\<forall>i. j < i \<and> i \<le> 31 \<longrightarrow> bit nm i"
        "first_zero nm (one_bit 31) = one_bit j"
    using first_zero_bits [of 31 nm] by auto
  then have "ip4_addr_netmask_valid netmask \<longleftrightarrow> (\<exists>n\<le>32. nm = NOT (mask n))"
  proof cases
    case all
    then have "nm = NOT (mask 0)"
      by (intro bit_word_eqI) (simp add: bit_not_mask32)
    with all show ?thesis
      unfolding valid by auto
  next
    case (some j)
    have "(\<forall>i\<le>j. \<not> bit nm i) \<longleftrightarrow> (\<exists>n\<le>32. nm = NOT (mask n))"
    proof
      assume low: "\<forall>i\<le>j. \<not> bit nm i"
      have "nm = NOT (mask (Suc j))"
        using some low by (intro bit_word_eqI) (auto simp: bit_not_mask32 Suc_le_eq not_less)
      then show "\<exists>n\<le>32. nm = NOT (mask n)"
        using some(1) by (intro exI [of _ "Suc j"]) auto
    next
      assume "\<exists>n\<le>32. nm = NOT (mask n)"
      then show "\<forall>i\<le>j. \<not> bit nm i"
        using some by (auto simp: bit_not_mask32)
    qed
    then show ?thesis
      unfolding valid using some no_one_after_bits [of j nm] by simp
  qed
  then show ?thesis
    by (simp add: nm_def)
qed

text \<open>A directed broadcast address: the network part of the interface and all ones.\<close>

lemma directed_broadcast_iff:
  "addr AND nm = ip AND nm \<and> addr AND NOT nm = - 1 AND NOT nm
    \<longleftrightarrow> addr = (ip AND nm) OR NOT (nm :: u32)"
proof
  assume "addr AND nm = ip AND nm \<and> addr AND NOT nm = - 1 AND NOT nm"
  moreover have "addr = (addr AND nm) OR (addr AND NOT nm)"
    by (rule bit_word_eqI) (auto simp: bit_simps)
  ultimately show "addr = (ip AND nm) OR NOT nm"
    by simp
next
  assume "addr = (ip AND nm) OR NOT nm"
  then show "addr AND nm = ip AND nm \<and> addr AND NOT nm = - 1 AND NOT nm"
    by (auto intro!: bit_word_eqI simp: bit_simps)
qed

text \<open>Decimal digits.\<close>

lemma code_char_of [simp]: "n < 256 \<Longrightarrow> code (char_of n) = n"
  by (simp add: of_char_of)

lemma isdigit_digit: "isdigit (48 + n mod 10)"
  by (simp add: isdigit_def)

lemma code_digit: "code (char_of (48 + n mod 10 :: nat)) = 48 + n mod 10"
proof -
  have "n mod 10 < 10"
    by simp
  then have "48 + n mod 10 < 256"
    by linarith
  then show ?thesis
    by (rule code_char_of)
qed

lemma ntoa_inv_digits: "c \<in> set (ntoa_inv n) \<Longrightarrow> isdigit (code c)"
proof (induction n rule: ntoa_inv.induct)
  case (1 n)
  then show ?case
    by (auto simp: ntoa_inv.simps [of n] code_digit isdigit_digit split: if_splits)
qed

lemma ntoa_inv_nonempty [simp]: "ntoa_inv n \<noteq> []"
  by (simp add: ntoa_inv.simps [of n])

lemma ntoa_inv_length: "n < 256 \<Longrightarrow> length (ntoa_inv n) \<le> 3"
  by (simp add: ntoa_inv.simps [of n] ntoa_inv.simps [of "n div 10"] ntoa_inv.simps [of "n div 10 div 10"])

lemma ntoa_inv_last: "0 < n \<Longrightarrow> code (last (ntoa_inv n)) \<noteq> code CHR ''0''"
proof (induction n rule: ntoa_inv.induct)
  case (1 n)
  show ?case
  proof (cases "n div 10 = 0")
    case True
    then show ?thesis
      using "1.prems" by (auto simp: ntoa_inv.simps [of n] code_digit)
  next
    case False
    then show ?thesis
      using "1.IH" by (simp add: ntoa_inv.simps [of n])
  qed
qed

lemma aton_number_digits:
  assumes "\<forall>c\<in>set ds. isdigit (code c)" and "\<not> isdigit (peek rest)"
  shows "aton_number val 10 (ds @ rest) =
    (foldl (\<lambda>v c. v * 10 + of_nat (code c - 48)) val ds, rest)"
  using assms
proof (induction ds arbitrary: val)
  case Nil
  then show ?case
    by (cases rest) (auto simp: peek_def)
qed auto

lemma foldl_ntoa_inv:
  "foldl (\<lambda>v c. v * 10 + of_nat (code c - 48)) (0 :: u32) (rev (ntoa_inv n)) = of_nat n"
proof (induction n rule: ntoa_inv.induct)
  case (1 n)
  have "foldl (\<lambda>v c. v * 10 + of_nat (code c - 48)) (0 :: u32) (rev (ntoa_inv n))
      = of_nat (n div 10) * 10 + of_nat (n mod 10)"
    using 1 by (cases "n div 10 = 0") (simp_all add: ntoa_inv.simps [of n] code_digit)
  also have "\<dots> = of_nat (n div 10 * 10 + n mod 10)"
    by (simp only: of_nat_add of_nat_mult of_nat_numeral)
  finally show ?case
    by (simp only: div_mult_mod_eq)
qed

text \<open>One octet is read back, whether it is zero (then in base 8) or not.\<close>

lemma aton_octet:
  assumes "\<not> isxdigit (peek rest)" and "peek rest \<noteq> code CHR ''x''" and "peek rest \<noteq> code CHR ''X''"
  shows "isdigit (peek (rev (ntoa_inv n) @ rest))"
    and "aton_number 0 (fst (aton_base (rev (ntoa_inv n) @ rest))) (snd (aton_base (rev (ntoa_inv n) @ rest)))
      = (of_nat n, rest)"
proof -
  obtain c cs where cs: "rev (ntoa_inv n) = c # cs"
    by (cases "rev (ntoa_inv n)") auto
  have "c = last (ntoa_inv n)"
    using cs by (metis hd_rev list.sel(1) ntoa_inv_nonempty)
  have dig: "\<forall>c\<in>set (rev (ntoa_inv n)). isdigit (code c)"
    using ntoa_inv_digits by auto
  then show "isdigit (peek (rev (ntoa_inv n) @ rest))"
    by (simp add: cs peek_def)
  have rest: "\<not> isdigit (peek rest)"
    using assms(1) by (simp add: isxdigit_def)
  show "aton_number 0 (fst (aton_base (rev (ntoa_inv n) @ rest))) (snd (aton_base (rev (ntoa_inv n) @ rest)))
      = (of_nat n, rest)"
  proof (cases "n = 0")
    case True
    have "char_of (48 :: nat) = CHR ''0''"
      by code_simp
    then have "rev (ntoa_inv 0) = ''0''"
      by (simp add: ntoa_inv.simps)
    moreover have "aton_number 0 8 rest = (0, rest)"
      using rest by (cases rest) (auto simp: peek_def)
    ultimately show ?thesis
      using assms True by (simp add: aton_base_def peek_def [of "_ # _"])
  next
    case False
    then have "peek (rev (ntoa_inv n) @ rest) \<noteq> code CHR ''0''"
      using ntoa_inv_last [of n] \<open>c = last (ntoa_inv n)\<close> by (simp add: cs peek_def)
    then have "aton_base (rev (ntoa_inv n) @ rest) = (10, rev (ntoa_inv n) @ rest)"
      by (simp add: aton_base_def)
    then show ?thesis
      using aton_number_digits [OF dig rest] foldl_ntoa_inv by simp
  qed
qed


text \<open>Printing succeeds when the buffer has room for the octets and their dots.\<close>

lemma ntoa_put_room:
  "int (length out + length cs) \<le> buflen \<Longrightarrow> ntoa_put buflen out cs = Some (out @ cs)"
  by (induction buflen out cs rule: ntoa_put.induct) auto

definition octet_text :: "u8 \<Rightarrow> string" where
  "octet_text b = rev (ntoa_inv (unat b))"

lemma octet_text_length: "length (octet_text b) \<le> 3"
  using ntoa_inv_length [of "unat b"] unat_u8_lt [of b] by (simp add: octet_text_def)

lemma ntoa_octets_room:
  "int (length out) + 4 * int (length bs) \<le> buflen
    \<Longrightarrow> ntoa_octets buflen out bs = Some (out @ concat (map (\<lambda>b. octet_text b @ ''.'') bs))"
proof (induction buflen out bs rule: ntoa_octets.induct)
  case (2 buflen out b bs)
  note len = octet_text_length [of b]
  have "ntoa_put buflen out (octet_text b) = Some (out @ octet_text b)"
    using "2.prems" len by (intro ntoa_put_room) simp
  moreover have "ntoa_put buflen (out @ octet_text b) ''.'' = Some (out @ octet_text b @ ''.'')"
    using "2.prems" len by (subst ntoa_put_room) simp_all
  ultimately show ?case
    using 2 len by (simp add: octet_text_def)
qed simp

lemma ipaddr_ntoa_text:
  "ipaddr_ntoa (of_le_bytes32 a b c d) =
     Some (octet_text a @ ''.'' @ octet_text b @ ''.'' @ octet_text c @ ''.'' @ octet_text d)"
  by (simp add: ipaddr_ntoa_def ipaddr_ntoa_r_def ntoa_octets_room butlast_append del: ntoa_octets.simps)

lemma aton_parts_dot:
  "length parts < 3 \<Longrightarrow>
     aton_parts parts (octet_text b @ CHR ''.'' # rest) = aton_parts (parts @ [ucast b]) rest"
  using aton_octet [of "CHR ''.'' # rest" "unat b"]
  by (subst aton_parts.simps) (simp add: octet_text_def peek_def [of "_ # _"] isxdigit_def isdigit_def)

lemma aton_parts_end: "aton_parts parts (octet_text b) = Some (parts, ucast b, [])"
  using aton_octet [of "[]" "unat b"]
  by (subst aton_parts.simps) (simp add: octet_text_def peek_def [of "[]"] isxdigit_def isdigit_def)

section \<open>Properties\<close>

text \<open>The two loops of \<open>ip4_addr_netmask_valid\<close> accept exactly the prefix masks: in host
  order, ones down to some bit \<open>n\<close> and zeros below it.\<close>

theorem ip4_addr_netmask_valid_prefix:
  "ip4_addr_netmask_valid netmask \<longleftrightarrow> (\<exists>n\<le>32. lwip_htonl netmask = NOT (mask n))"
  by (rule netmask_valid_iff_prefix)

text \<open>\<open>ip4_addr_isbroadcast\<close> holds exactly for all ones, all zeros, and, on an interface with
  the broadcast flag, the network part of its address followed by ones, unless that is the
  address of the interface itself.\<close>

theorem ip4_addr_isbroadcast_iff:
  "ip4_addr_isbroadcast addr netif \<longleftrightarrow>
     addr = IPADDR_BROADCAST \<or> addr = IPADDR_ANY
     \<or> netif_flags netif AND NETIF_FLAG_BROADCAST \<noteq> 0 \<and> addr \<noteq> netif_ip_addr netif
       \<and> addr = (netif_ip_addr netif AND netif_netmask netif) OR NOT (netif_netmask netif)"
proof -
  have all_ones: "NOT addr = 0 \<longleftrightarrow> addr = - 1"
    by (metis bit.compl_zero bit.double_compl)
  have cs: "IPADDR_BROADCAST = - 1" "IPADDR_ANY = 0"
    by (simp_all add: ipaddr_consts)
  show ?thesis
    unfolding ip4_addr_isbroadcast_def ip_addr_netcmp_def cs all_ones directed_broadcast_iff
    by (simp only: if_True if_False split: if_split) blast
qed

text \<open>C20. \<open>ipaddr_ntoa\<close>, whose static buffer has 16 bytes, prints every address, its text and the
  final NUL fit in the buffer, and \<open>ipaddr_aton\<close> reads the same address back.\<close>

theorem ipaddr_ntoa_aton_roundtrip:
  "\<exists>s. ipaddr_ntoa addr = Some s \<and> length s < 16 \<and> ipaddr_aton s = Some addr"
proof -
  obtain a b c d where addr: "addr = of_le_bytes32 a b c d"
    by (rule u32_octets_exhaust)
  have "unat (ucast d :: u32) \<le> 255"
    using unat_u8_lt [of d] by simp
  then have "\<not> (255 :: u32) < ucast d"
    by (simp add: word_less_nat_alt)
  moreover have "ucast d OR (push_bit 24 (ucast a) OR push_bit 16 (ucast b) OR push_bit 8 (ucast c))
      = of_le_bytes32 d c b a"
    by (simp add: of_le_bytes32_def ac_simps)
  ultimately show ?thesis
    using octet_text_length [of a] octet_text_length [of b] octet_text_length [of c]
      octet_text_length [of d]
    by (simp add: addr ipaddr_ntoa_text ipaddr_aton_def aton_parts_dot aton_parts_end peek_def)
qed

text \<open>The parts before the last one are not checked for their range: the text
  \<open>256.0.0.1\<close> is accepted, and as the address \<open>0.0.0.1\<close>.\<close>

theorem ipaddr_aton_accepts_256: "ipaddr_aton ''256.0.0.1'' = Some (IP4_ADDR 0 0 0 1)"
  by code_simp

end
