(* ===== verification/Inet_Chksum.thy ===== *)
theory Inet_Chksum
  imports Lwip_Prelude
begin

text \<open>
  The Internet checksum: the three portable versions of \<^verbatim>\<open>lwip_standard_chksum\<close> and the
  checksums over buffers, pbuf chains and pseudo headers of
  \<^verbatim>\<open>core/ipv4/inet_chksum.c\<close>, and the Thumb-2 assembly routine of
  \<^verbatim>\<open>lwipk66/arch/checksum.c\<close>.  A buffer is its start address and its octets; only the
  alignment of the address matters.  A pbuf chain is the list of the buffers of its pbufs.

  The specification is \<open>oc16 (le_sum bs)\<close>: the one's complement sum of the little-endian
  16-bit words of \<open>bs\<close>.  The locale \<open>inet_sum\<close> is the contract of \<^verbatim>\<open>LWIP_CHKSUM\<close>; every
  routine is an instance of it, and what the callers promise is proved once inside it.
\<close>

unbundle bit_operations_syntax

section \<open>The routines\<close>

definition FOLD_U32T :: "u32 \<Rightarrow> u32" where
  "FOLD_U32T u = drop_bit 16 u + (u AND 0xffff)"

definition SWAP_BYTES_IN_WORD :: "u32 \<Rightarrow> u32" where
  "SWAP_BYTES_IN_WORD w = push_bit 8 (w AND 0xff) OR drop_bit 8 (w AND 0xff00)"

text \<open>Version 1: two octets at a time, most significant first.\<close>

fun chksum1_loop :: "u32 \<Rightarrow> u8 list \<Rightarrow> u32" where
  "chksum1_loop acc (a # b # bs) =
     (let src = (push_bit 8 (ucast a) :: u16);
          src = src OR ucast b
      in chksum1_loop (acc + ucast src) bs)"
| "chksum1_loop acc [a] = acc + ucast (push_bit 8 (ucast a) :: u16)"
| "chksum1_loop acc [] = acc"

definition lwip_standard_chksum_1 :: "u8 list \<Rightarrow> u16" where
  "lwip_standard_chksum_1 bs =
     (let acc = chksum1_loop 0 bs;
          acc = drop_bit 16 acc + (acc AND 0x0000ffff);
          acc = (if acc AND 0xffff0000 \<noteq> 0 then drop_bit 16 acc + (acc AND 0x0000ffff) else acc)
      in lwip_htons (ucast acc))"

text \<open>
  Versions 2 and 3 read 16- and 32-bit words through pointers, so in the byte order of the
  target.  The loops return the sum and the octets that are left over.
\<close>

definition ld16 :: "u8 \<Rightarrow> u8 \<Rightarrow> u16" where
  "ld16 a b = push_bit 8 (ucast b) OR ucast a"

fun chksum16_loop :: "u32 \<Rightarrow> u8 list \<Rightarrow> u32 \<times> u8 list" where
  "chksum16_loop acc (a # b # bs) = chksum16_loop (acc + ucast (ld16 a b)) bs"
| "chksum16_loop acc bs = (acc, bs)"

definition set_t1 :: "u8 list \<Rightarrow> u16" where
  "set_t1 bs = (case bs of [] \<Rightarrow> 0 | b # _ \<Rightarrow> push_bit 8 (ucast b))"

definition set_t0 :: "u16 \<Rightarrow> u8 list \<Rightarrow> u16" where
  "set_t0 t bs = (case bs of [] \<Rightarrow> t | b # _ \<Rightarrow> (t AND 0xff00) OR ucast b)"

definition lwip_standard_chksum_2 :: "addr \<Rightarrow> u8 list \<Rightarrow> u16" where
  "lwip_standard_chksum_2 dataptr bs =
     (let is_odd = (dataptr mod 2 = 1);
          t = (if is_odd then set_t1 bs else 0);
          pb = (if is_odd then tl bs else bs);
          (acc, rest) = chksum16_loop 0 pb;
          t = set_t0 t rest;
          acc = acc + ucast t;
          acc = FOLD_U32T acc;
          acc = FOLD_U32T acc;
          acc = (if is_odd then SWAP_BYTES_IN_WORD acc else acc)
      in ucast acc)"

function chksum32_loop :: "u32 \<Rightarrow> u8 list \<Rightarrow> u32 \<times> u8 list" where
  "chksum32_loop acc bs =
     (if length bs > 7 then
        let x = of_le_bytes32 (bs ! 0) (bs ! 1) (bs ! 2) (bs ! 3);
            y = of_le_bytes32 (bs ! 4) (bs ! 5) (bs ! 6) (bs ! 7);
            tmp = acc + x;
            tmp = (if tmp < acc then tmp + 1 else tmp);
            acc1 = tmp + y;
            acc1 = (if acc1 < tmp then acc1 + 1 else acc1)
        in chksum32_loop acc1 (drop 8 bs)
      else (acc, bs))"
  by pat_completeness auto
termination
  by (relation "measure (\<lambda>(acc, bs). length bs)") auto

definition lwip_standard_chksum_3 :: "addr \<Rightarrow> u8 list \<Rightarrow> u16" where
  "lwip_standard_chksum_3 dataptr bs =
     (let is_odd = (dataptr mod 2 = 1);
          t = (if is_odd then set_t1 bs else 0);
          pb = (if is_odd then tl bs else bs);
          ps = (if is_odd \<and> bs \<noteq> [] then dataptr + 1 else dataptr);
          (acc, pb) = (if ps mod 4 \<noteq> 0 \<and> length pb > 1
                       then (ucast (ld16 (pb ! 0) (pb ! 1)), drop 2 pb) else (0, pb));
          (acc, pb) = chksum32_loop acc pb;
          acc = FOLD_U32T acc;
          (acc, rest) = chksum16_loop acc pb;
          t = set_t0 t rest;
          acc = acc + ucast t;
          acc = FOLD_U32T acc;
          acc = FOLD_U32T acc;
          acc = (if is_odd then SWAP_BYTES_IN_WORD acc else acc)
      in ucast acc)"

text \<open>
  The Thumb-2 routine.  \<open>adds_adc\<close> is the pair \<^verbatim>\<open>adds r2, r4; adc r2, r2, #0\<close>; the loop over
  two words is at label \<^verbatim>\<open>2$\<close>, the one over half-words at label \<^verbatim>\<open>3$\<close>, the trailing octet at
  label \<^verbatim>\<open>7$\<close>.
\<close>

definition adds_adc :: "u32 \<Rightarrow> u32 \<Rightarrow> u32" where
  "adds_adc r x = (if unat r + unat x < 2 ^ 32 then r + x else r + x + 1)"

function thumb2_words :: "u32 \<Rightarrow> u8 list \<Rightarrow> u32 \<times> u8 list" where
  "thumb2_words r2 bs =
     (if length bs < 8 then (r2, bs)
      else
        let r2 = adds_adc r2 (of_le_bytes32 (bs ! 0) (bs ! 1) (bs ! 2) (bs ! 3));
            r2 = adds_adc r2 (of_le_bytes32 (bs ! 4) (bs ! 5) (bs ! 6) (bs ! 7))
        in thumb2_words r2 (drop 8 bs))"
  by pat_completeness auto
termination
  by (relation "measure (\<lambda>(r2, bs). length bs)") auto

fun thumb2_halfwords :: "u32 \<Rightarrow> u8 list \<Rightarrow> u32 \<times> u8 list" where
  "thumb2_halfwords r2 (a # b # bs) = thumb2_halfwords (adds_adc r2 (ucast (ld16 a b))) bs"
| "thumb2_halfwords r2 bs = (r2, bs)"

definition thumb2_tail :: "u32 \<Rightarrow> u8 list \<Rightarrow> u32" where
  "thumb2_tail r2 bs = (case bs of [] \<Rightarrow> r2 | b # _ \<Rightarrow> adds_adc r2 (ucast b))"

definition thumb2_checksum :: "addr \<Rightarrow> u8 list \<Rightarrow> u16" where
  "thumb2_checksum pData bs =
     (let r3 = (pData mod 2 = 1)
      in if r3 \<and> bs = [] then 0
         else
           let r2 = (if r3 then push_bit 8 (ucast (hd bs)) else 0 :: u32);
               r0 = (if r3 then pData + 1 else pData);
               bs = (if r3 then tl bs else bs);
               r2 = (if r0 mod 4 \<noteq> 0
                     then if length bs < 2 then thumb2_tail r2 bs
                          else
                            let (r, rest) = thumb2_words (r2 + ucast (ld16 (bs ! 0) (bs ! 1))) (drop 2 bs);
                                (r, rest) = thumb2_halfwords r rest
                            in thumb2_tail r rest
                     else
                       let (r, rest) = thumb2_words r2 bs;
                           (r, rest) = thumb2_halfwords r rest
                       in thumb2_tail r rest);
               r2 = FOLD_U32T r2;
               r2 = FOLD_U32T r2
           in ucast (if r3 then SWAP_BYTES_IN_WORD r2 else r2))"

text \<open>The callers, for any routine \<open>chk\<close> in the place of \<^verbatim>\<open>LWIP_CHKSUM\<close>.\<close>

type_synonym buf = "addr \<times> u8 list"

fun chksum_chain :: "(addr \<Rightarrow> u8 list \<Rightarrow> u16) \<Rightarrow> u32 \<Rightarrow> bool \<Rightarrow> buf list \<Rightarrow> u32 \<times> bool" where
  "chksum_chain chk acc swapped [] = (acc, swapped)"
| "chksum_chain chk acc swapped ((payload, bs) # qs) =
     (let acc = acc + ucast (chk payload bs);
          acc = FOLD_U32T acc
      in if length bs mod 2 \<noteq> 0 then chksum_chain chk (SWAP_BYTES_IN_WORD acc) (\<not> swapped) qs
         else chksum_chain chk acc swapped qs)"

definition chksum_pseudo_finish :: "u32 \<Rightarrow> bool \<Rightarrow> u32 \<Rightarrow> u32 \<Rightarrow> u8 \<Rightarrow> u16 \<Rightarrow> u16" where
  "chksum_pseudo_finish acc swapped src dest proto proto_len =
     (let acc = (if swapped then SWAP_BYTES_IN_WORD acc else acc);
          acc = acc + (src AND 0xffff);
          acc = acc + (drop_bit 16 src AND 0xffff);
          acc = acc + (dest AND 0xffff);
          acc = acc + (drop_bit 16 dest AND 0xffff);
          acc = acc + ucast (lwip_htons (ucast proto));
          acc = acc + ucast (lwip_htons proto_len);
          acc = FOLD_U32T acc;
          acc = FOLD_U32T acc
      in ucast (NOT (acc AND 0xffff)))"

definition inet_chksum_pseudo ::
  "(addr \<Rightarrow> u8 list \<Rightarrow> u16) \<Rightarrow> buf list \<Rightarrow> u32 \<Rightarrow> u32 \<Rightarrow> u8 \<Rightarrow> u16 \<Rightarrow> u16" where
  "inet_chksum_pseudo chk p src dest proto proto_len =
     (let (acc, swapped) = chksum_chain chk 0 False p
      in chksum_pseudo_finish acc swapped src dest proto proto_len)"

fun chksum_chain_partial ::
  "(addr \<Rightarrow> u8 list \<Rightarrow> u16) \<Rightarrow> u32 \<Rightarrow> bool \<Rightarrow> nat \<Rightarrow> buf list \<Rightarrow> u32 \<times> bool" where
  "chksum_chain_partial chk acc swapped chksum_len [] = (acc, swapped)"
| "chksum_chain_partial chk acc swapped chksum_len ((payload, bs) # qs) =
     (if chksum_len > 0 then
        let chklen = (if length bs > chksum_len then chksum_len else length bs);
            acc = acc + ucast (chk payload (take chklen bs));
            chksum_len = chksum_len - chklen;
            acc = FOLD_U32T acc
        in if length bs mod 2 \<noteq> 0
           then chksum_chain_partial chk (SWAP_BYTES_IN_WORD acc) (\<not> swapped) chksum_len qs
           else chksum_chain_partial chk acc swapped chksum_len qs
      else (acc, swapped))"

definition inet_chksum_pseudo_partial ::
  "(addr \<Rightarrow> u8 list \<Rightarrow> u16) \<Rightarrow> buf list \<Rightarrow> u32 \<Rightarrow> u32 \<Rightarrow> u8 \<Rightarrow> u16 \<Rightarrow> u16 \<Rightarrow> u16" where
  "inet_chksum_pseudo_partial chk p src dest proto proto_len chksum_len =
     (let (acc, swapped) = chksum_chain_partial chk 0 False (unat chksum_len) p
      in chksum_pseudo_finish acc swapped src dest proto proto_len)"

definition inet_chksum :: "(addr \<Rightarrow> u8 list \<Rightarrow> u16) \<Rightarrow> addr \<Rightarrow> u8 list \<Rightarrow> u16" where
  "inet_chksum chk dataptr bs = NOT (chk dataptr bs)"

definition inet_chksum_pbuf :: "(addr \<Rightarrow> u8 list \<Rightarrow> u16) \<Rightarrow> buf list \<Rightarrow> u16" where
  "inet_chksum_pbuf chk p =
     (let (acc, swapped) = chksum_chain chk 0 False p;
          acc = (if swapped then SWAP_BYTES_IN_WORD acc else acc)
      in ucast (NOT (acc AND 0xffff)))"

definition lwip_chksum_copy :: "(addr \<Rightarrow> u8 list \<Rightarrow> u16) \<Rightarrow> bytes \<Rightarrow> addr \<Rightarrow> addr \<Rightarrow> u16 \<Rightarrow> bytes \<times> u16" where
  "lwip_chksum_copy chk m dst src len =
     (let m = MEMCPY m dst src (unat len)
      in (m, chk dst (mem_read m dst (unat len))))"

section \<open>One's complement sums\<close>

fun le_sum :: "u8 list \<Rightarrow> nat" where
  "le_sum (a # b # bs) = unat a + 256 * unat b + le_sum bs"
| "le_sum [a] = unat a"
| "le_sum [] = 0"

definition oc16 :: "nat \<Rightarrow> nat" where
  "oc16 n = (if n = 0 then 0 else (n - 1) mod 65535 + 1)"

text \<open>Two sums that fold to the same 16-bit value.\<close>

definition oc_eq :: "nat \<Rightarrow> nat \<Rightarrow> bool" where
  "oc_eq m n \<longleftrightarrow> m mod 65535 = n mod 65535 \<and> (m = 0 \<longleftrightarrow> n = 0)"

named_theorems oc_simps

lemma oc_eq_refl [simp]: "oc_eq n n"
  by (simp add: oc_eq_def)

lemma oc_eq_sym: "oc_eq m n \<Longrightarrow> oc_eq n m"
  by (auto simp: oc_eq_def)

lemma oc_eq_trans [trans]: "oc_eq m n \<Longrightarrow> oc_eq n k \<Longrightarrow> oc_eq m k"
  by (auto simp: oc_eq_def)

lemma oc_eq_add: "oc_eq m n \<Longrightarrow> oc_eq m' n' \<Longrightarrow> oc_eq (m + m') (n + n')"
  unfolding oc_eq_def by (metis add_is_0 mod_add_cong)

lemma oc_eq_mult: "oc_eq m n \<Longrightarrow> oc_eq (k * m) (k * n)"
  unfolding oc_eq_def by (metis mod_mult_right_eq mult_is_0)

lemma oc_eq_65536: "oc_eq (65536 * n) n"
proof -
  have "65536 * n = n + 65535 * n"
    by simp
  then show ?thesis
    unfolding oc_eq_def by (metis add_is_0 mod_mult_self2 mult_is_0)
qed

lemma oc16_lt [simp]: "oc16 n < 65536"
  by (simp add: oc16_def Suc_le_lessD order.strict_trans1)

lemma oc16_oc_eq: "oc_eq (oc16 n) n"
  by (cases n) (auto simp: oc16_def oc_eq_def mod_Suc)

lemma oc_eq_small:
  assumes "oc_eq m n" and "m < 65536" and "n < 65536"
  shows "m = n"
proof -
  have "k mod 65535 = (if k = 65535 then 0 else k)" if "k < 65536" for k :: nat
    using that by simp
  then show ?thesis
    using assms by (auto simp: oc_eq_def split: if_splits)
qed

lemma oc16_unique: "oc_eq m n \<Longrightarrow> m < 65536 \<Longrightarrow> m = oc16 n"
  using oc16_oc_eq [of n] by (intro oc_eq_small) (auto intro: oc_eq_trans oc_eq_sym)

lemma oc16_cong: "oc_eq m n \<Longrightarrow> oc16 m = oc16 n"
  using oc16_oc_eq [of m] by (intro oc16_unique) (auto intro: oc_eq_trans)

lemma unat_FOLD [unat_simps]: "unat (FOLD_U32T u) = unat u div 65536 + unat u mod 65536"
proof -
  have "unat u div 65536 < 65536"
    using unat_u32_lt [of u] by linarith
  moreover have "unat u mod 65536 < 65536"
    by simp
  ultimately show ?thesis
    unfolding FOLD_U32T_def unat_word_ariths(1) unat_drop_bit unat_and_ffff by simp
qed

lemma FOLD_oc_eq: "oc_eq (unat (FOLD_U32T u)) (unat u)"
proof -
  have "oc_eq (65536 * (unat u div 65536) + unat u mod 65536) (unat u div 65536 + unat u mod 65536)"
    by (rule oc_eq_add [OF oc_eq_65536 oc_eq_refl])
  then show ?thesis
    by (simp add: unat_FOLD oc_eq_sym)
qed

lemma FOLD_small: "unat u < 131071 \<Longrightarrow> unat (FOLD_U32T u) < 65536"
  unfolding unat_FOLD by (cases "unat u < 65536") (simp_all add: le_div_geq le_mod_geq)

lemma FOLD_FOLD_lt: "unat (FOLD_U32T (FOLD_U32T u)) < 65536"
proof (rule FOLD_small)
  have "unat u div 65536 \<le> 65535"
    using unat_u32_lt [of u] by linarith
  moreover have "unat u mod 65536 \<le> 65535"
    using mod_less_divisor [of 65536 "unat u"] by linarith
  ultimately show "unat (FOLD_U32T u) < 131071"
    unfolding unat_FOLD by linarith
qed

lemma unat_SWAP:
  assumes "unat u < 65536"
  shows "unat (SWAP_BYTES_IN_WORD u) = (unat u mod 256) * 256 + unat u div 256"
proof -
  have h: "unat u div 256 < 256"
    using assms by linarith
  have "drop_bit 8 (u AND 0xff00) = drop_bit 8 u AND (0xff :: u32)"
    by (simp add: drop_bit_and)
  then have "unat (drop_bit 8 (u AND 0xff00)) = unat u div 256"
    using h by (simp add: unat_and_ff unat_drop_bit)
  then show ?thesis
    unfolding SWAP_BYTES_IN_WORD_def using h
    by (subst unat_push_or) (auto simp del: drop_bit_and simp: unat_and_ff)
qed

lemma SWAP_oc_eq:
  assumes "unat u < 65536"
  shows "oc_eq (unat (SWAP_BYTES_IN_WORD u)) (256 * unat u)"
proof -
  have "oc_eq (65536 * (unat u div 256) + 256 * (unat u mod 256))
      (unat u div 256 + 256 * (unat u mod 256))"
    by (rule oc_eq_add [OF oc_eq_65536 oc_eq_refl])
  moreover have "65536 * (unat u div 256) + 256 * (unat u mod 256) = 256 * unat u"
    using mult_div_mod_eq [of 256 "unat u"] by linarith
  ultimately show ?thesis
    using assms by (simp add: unat_SWAP oc_eq_sym add.commute mult.commute)
qed

lemma SWAP_lt: "unat u < 65536 \<Longrightarrow> unat (SWAP_BYTES_IN_WORD u) < 65536"
  using mod_less_divisor [of 256 "unat u"] by (simp add: unat_SWAP)

lemma adds_adc_oc_eq: "oc_eq (unat (adds_adc r x)) (unat r + unat x)"
proof (cases "unat r + unat x < 4294967296")
  case True
  then show ?thesis
    by (simp add: adds_adc_def unat_word_ariths)
next
  case False
  let ?n = "unat r + unat x"
  have "unat (adds_adc r x) = (?n + 1) mod 4294967296"
    using False by (simp add: adds_adc_def unat_word_ariths mod_simps)
  also have "\<dots> = ?n - 4294967295"
    using False unat_u32_lt [of r] unat_u32_lt [of x] by (simp add: mod_if)
  finally have eq: "unat (adds_adc r x) = ?n - 4294967295" .
  have "?n = (?n - 4294967295) + 65535 * 65537"
    using False by simp
  then have "?n mod 65535 = (?n - 4294967295) mod 65535"
    by (metis mod_mult_self2)
  then show ?thesis
    using False by (auto simp: eq oc_eq_def)
qed

lemma carry_adds_adc: "(if r + x < r then r + x + 1 else r + x) = adds_adc r x"
proof -
  have "r + x < r \<longleftrightarrow> \<not> unat r + unat x < 2 ^ 32"
    using unat_add_lem [of r x] unat_plus_simple [of r x] by (auto simp: not_le [symmetric])
  then show ?thesis
    by (simp add: adds_adc_def)
qed


section \<open>Each routine sums to the specification\<close>

lemma le_sum_Cons: "oc_eq (le_sum (b # bs)) (unat b + 256 * le_sum bs)"
proof (induction bs arbitrary: b rule: le_sum.induct)
  case (1 c d ds)
  have "oc_eq (unat c + 256 * unat d + 65536 * le_sum ds) (unat c + 256 * unat d + le_sum ds)"
    by (rule oc_eq_add [OF oc_eq_refl oc_eq_65536])
  have "oc_eq (le_sum (d # ds)) (unat d + 256 * le_sum ds)"
    using 1 by simp
  then have "oc_eq (unat b + 256 * unat c + le_sum (d # ds))
      (unat b + 256 * unat c + (unat d + 256 * le_sum ds))"
    by (rule oc_eq_add [OF oc_eq_refl])
  also have "oc_eq \<dots> (unat b + 256 * unat c + (65536 * unat d + 256 * le_sum ds))"
    by (intro oc_eq_add oc_eq_refl oc_eq_sym [OF oc_eq_65536])
  finally show ?case
    by (simp add: algebra_simps)
qed simp_all

lemma le_sum_append_even: "even (length xs) \<Longrightarrow> le_sum (xs @ ys) = le_sum xs + le_sum ys"
  by (induction xs rule: le_sum.induct) auto

lemma le_sum_append:
  "oc_eq (le_sum (xs @ ys)) (le_sum xs + (if even (length xs) then 1 else 256) * le_sum ys)"
proof (induction xs rule: le_sum.induct)
  case (1 a b xs)
  then have "oc_eq (unat a + 256 * unat b + le_sum (xs @ ys))
    (unat a + 256 * unat b + (le_sum xs + (if even (length xs) then 1 else 256) * le_sum ys))"
    by (intro oc_eq_add oc_eq_refl)
  then show ?case
    by (simp add: algebra_simps)
qed (simp_all add: le_sum_Cons)

lemma le_sum_bound: "le_sum bs \<le> 65535 * ((length bs + 1) div 2)"
proof (induction bs rule: le_sum.induct)
  case (1 a b bs)
  have "unat a + 256 * unat b \<le> 65535"
    using unat_u8_lt [of a] unat_u8_lt [of b] by linarith
  with 1 show ?case
    by simp
next
  case (2 a)
  show ?case
    using unat_u8_lt [of a] by simp
qed simp

lemma unat_ld16 [simp]: "unat (ld16 a b) = unat a + 256 * unat b"
proof -
  have "unat b * 256 < 65536"
    using unat_u8_lt [of b] by simp
  then show ?thesis
    unfolding ld16_def using unat_u8_lt [of a] by (subst unat_push_or) simp_all
qed

lemma unat_shift_u8 [simp]: "unat (push_bit 8 (ucast (a :: u8)) :: u16) = 256 * unat a"
proof -
  have "unat a * 256 < 65536"
    using unat_u8_lt [of a] by simp
  then show ?thesis
    by (simp add: unat_push_bit)
qed

lemma chksum16_loop_sum:
  assumes "unat acc + le_sum bs < 4294967296"
  shows "unat (fst (chksum16_loop acc bs)) + le_sum (snd (chksum16_loop acc bs)) = unat acc + le_sum bs"
  using assms
proof (induction acc bs rule: chksum16_loop.induct)
  case (1 acc a b bs)
  then have "unat (acc + ucast (ld16 a b)) = unat acc + (unat a + 256 * unat b)"
    by (simp add: unat_word_ariths)
  with 1 show ?case
    by simp
qed simp_all

lemma chksum16_loop_rest: "length (snd (chksum16_loop acc bs)) = length bs mod 2"
  by (induction acc bs rule: chksum16_loop.induct) auto

text \<open>The end octets: the low octet of \<open>t\<close> is the left-over octet, its high octet the first one.\<close>

lemma unat_set_t0:
  assumes "length rest \<le> 1" and "t = 0 \<or> t = push_bit 8 (ucast (b :: u8))"
  shows "unat (set_t0 t rest) = unat t + le_sum rest"
proof (cases rest)
  case Nil
  then show ?thesis
    by (simp add: set_t0_def)
next
  case (Cons c cs)
  have hi: "push_bit 8 (ucast b) AND 0xff00 = (push_bit 8 (ucast b) :: u16)"
  proof -
    have "(0xff00 :: u16) = push_bit 8 0xff"
      by simp
    moreover have "ucast b AND 0xff = (ucast b :: u16)"
      using unat_u8_lt [of b] by (simp add: word_unat_eq_iff unat_and_ff)
    ultimately show ?thesis
      by (simp only: push_bit_and [symmetric])
  qed
  have "unat b * 256 < 65536"
    using unat_u8_lt [of b] by simp
  then have "unat (push_bit 8 (ucast b) OR ucast c :: u16) = 256 * unat b + unat c"
    using unat_u8_lt [of c] by (subst unat_push_or) simp_all
  then show ?thesis
    using assms Cons by (auto simp: set_t0_def hi simp del: push_bit_and)
qed

text \<open>
  Versions 2 and 3 and the Thumb-2 routine end in the same way: a 32-bit sum that is congruent to
  the sum of the octets (seen from an odd address: of the octets shifted by one place) is
  folded twice and swapped back.
\<close>

definition align_sum :: "bool \<Rightarrow> u8 list \<Rightarrow> nat" where
  "align_sum odd_addr bs = (if odd_addr then 256 * le_sum bs else le_sum bs)"

lemma finish_oc16:
  assumes "oc_eq (unat acc) (align_sum odd_addr bs)"
  shows "unat (ucast (if odd_addr then SWAP_BYTES_IN_WORD (FOLD_U32T (FOLD_U32T acc))
      else FOLD_U32T (FOLD_U32T acc)) :: u16) = oc16 (le_sum bs)"
proof -
  let ?f = "FOLD_U32T (FOLD_U32T acc)"
  have f: "oc_eq (unat ?f) (align_sum odd_addr bs)"
    using FOLD_oc_eq assms oc_eq_trans by blast
  have "oc_eq (unat (SWAP_BYTES_IN_WORD ?f)) (le_sum bs)" if odd_addr
  proof -
    have "oc_eq (unat (SWAP_BYTES_IN_WORD ?f)) (256 * unat ?f)"
      by (rule SWAP_oc_eq [OF FOLD_FOLD_lt])
    also have "oc_eq \<dots> (256 * (256 * le_sum bs))"
      using f that by (intro oc_eq_mult) (simp add: align_sum_def)
    also have "oc_eq \<dots> (le_sum bs)"
      using oc_eq_65536 [of "le_sum bs"] by (simp add: mult.assoc [symmetric])
    finally show ?thesis .
  qed
  then show ?thesis
    using f FOLD_FOLD_lt [of acc] SWAP_lt [OF FOLD_FOLD_lt, of acc]
    by (auto simp: unat_ucast_mod align_sum_def intro: oc16_unique)
qed

lemma align_sum_odd: "oc_eq (256 * unat b + le_sum bs) (align_sum True (b # bs))"
proof -
  have "oc_eq (256 * le_sum (b # bs)) (256 * (unat b + 256 * le_sum bs))"
    by (rule oc_eq_mult [OF le_sum_Cons])
  moreover have "oc_eq (256 * unat b + 65536 * le_sum bs) (256 * unat b + le_sum bs)"
    by (rule oc_eq_add [OF oc_eq_refl oc_eq_65536])
  ultimately show ?thesis
    unfolding align_sum_def by (auto simp: algebra_simps intro: oc_eq_trans oc_eq_sym)
qed

lemma align_start:
  assumes "odd_addr \<longrightarrow> bs \<noteq> []"
  shows "oc_eq ((if odd_addr then 256 * unat (hd bs) else 0) + le_sum (if odd_addr then tl bs else bs))
    (align_sum odd_addr bs)"
  using assms align_sum_odd [of "hd bs" "tl bs"] by (auto simp: align_sum_def)

declare chksum32_loop.simps [simp del] thumb2_words.simps [simp del]

lemma chksum32_loop_thumb2: "chksum32_loop acc bs = thumb2_words acc bs"
proof (induction "length bs" arbitrary: acc bs rule: less_induct)
  case less
  then show ?case
    by (auto simp: chksum32_loop.simps [of acc bs] thumb2_words.simps [of acc bs] Let_def
        carry_adds_adc)
qed

lemma of_le_bytes32_oc_eq:
  "oc_eq (unat (of_le_bytes32 a b c d)) (unat a + 256 * unat b + (unat c + 256 * unat d))"
proof -
  have "oc_eq (unat a + 256 * unat b + 65536 * (unat c + 256 * unat d))
      (unat a + 256 * unat b + (unat c + 256 * unat d))"
    by (rule oc_eq_add [OF oc_eq_refl oc_eq_65536])
  then show ?thesis
    by (simp add: unat_of_le_bytes32 algebra_simps)
qed

lemma adds_adc_trans: "oc_eq (unat x) n \<Longrightarrow> oc_eq (unat (adds_adc r x)) (unat r + n)"
  by (rule oc_eq_trans [OF adds_adc_oc_eq]) (rule oc_eq_add [OF oc_eq_refl])

lemma two_words_oc_eq:
  assumes "length bs \<ge> 8"
  shows "oc_eq (unat (adds_adc (adds_adc r (of_le_bytes32 (bs ! 0) (bs ! 1) (bs ! 2) (bs ! 3)))
    (of_le_bytes32 (bs ! 4) (bs ! 5) (bs ! 6) (bs ! 7))) + le_sum (drop 8 bs)) (unat r + le_sum bs)"
proof -
  from assms obtain a b c d e f g h ds where bs: "bs = a # b # c # d # e # f # g # h # ds"
    by (auto simp: numeral_eq_Suc Suc_le_length_iff)
  let ?x = "of_le_bytes32 a b c d" and ?y = "of_le_bytes32 e f g h"
  have "oc_eq (unat (adds_adc (adds_adc r ?x) ?y))
      (unat (adds_adc r ?x) + (unat e + 256 * unat f + (unat g + 256 * unat h)))"
    by (rule adds_adc_trans [OF of_le_bytes32_oc_eq])
  also have "oc_eq \<dots> (unat r + (unat a + 256 * unat b + (unat c + 256 * unat d))
      + (unat e + 256 * unat f + (unat g + 256 * unat h)))"
    by (intro oc_eq_add oc_eq_refl adds_adc_trans [OF of_le_bytes32_oc_eq])
  finally have "oc_eq (unat (adds_adc (adds_adc r ?x) ?y) + le_sum ds)
      (unat r + (unat a + 256 * unat b + (unat c + 256 * unat d))
        + (unat e + 256 * unat f + (unat g + 256 * unat h)) + le_sum ds)"
    by (rule oc_eq_add) simp
  then show ?thesis
    by (simp add: bs add.assoc)
qed

lemma thumb2_words_sum:
  "oc_eq (unat (fst (thumb2_words r bs)) + le_sum (snd (thumb2_words r bs))) (unat r + le_sum bs)"
proof (induction r bs rule: thumb2_words.induct)
  case (1 r bs)
  show ?case
  proof (cases "length bs < 8")
    case True
    then show ?thesis
      by (simp add: thumb2_words.simps [of r bs])
  next
    case False
    then show ?thesis
      using "1.IH" [OF False refl refl] two_words_oc_eq [of bs r]
      by (simp add: thumb2_words.simps [of r bs] Let_def) (rule oc_eq_trans)
  qed
qed

lemma thumb2_words_rest: "length (snd (thumb2_words r bs)) = length bs mod 8"
proof (induction r bs rule: thumb2_words.induct)
  case (1 r bs)
  then show ?case
    by (simp add: thumb2_words.simps [of r bs] Let_def le_mod_geq)
qed

lemma thumb2_halfwords_sum:
  "oc_eq (unat (fst (thumb2_halfwords r bs)) + le_sum (snd (thumb2_halfwords r bs))) (unat r + le_sum bs)"
proof (induction r bs rule: thumb2_halfwords.induct)
  case (1 r a b bs)
  have "oc_eq (unat (adds_adc r (ucast (ld16 a b))) + le_sum bs)
      (unat r + unat (ucast (ld16 a b) :: u32) + le_sum bs)"
    by (intro oc_eq_add oc_eq_refl adds_adc_oc_eq)
  with 1 show ?case
    by (simp add: add.assoc) (rule oc_eq_trans)
qed simp_all

lemma thumb2_halfwords_rest: "length (snd (thumb2_halfwords r bs)) = length bs mod 2"
  by (induction r bs rule: thumb2_halfwords.induct) auto

lemma thumb2_tail_sum:
  "length bs \<le> 1 \<Longrightarrow> oc_eq (unat (thumb2_tail r bs)) (unat r + le_sum bs)"
  using adds_adc_oc_eq [of r "ucast (hd bs)"]
  by (cases bs) (auto simp: thumb2_tail_def)

lemma thumb2_loops_sum:
  "oc_eq (unat (case thumb2_words r bs of (r, rest) \<Rightarrow>
      case thumb2_halfwords r rest of (r, rest) \<Rightarrow> thumb2_tail r rest)) (unat r + le_sum bs)"
proof -
  obtain r1 bs1 where w: "thumb2_words r bs = (r1, bs1)"
    by fastforce
  obtain r2 bs2 where h: "thumb2_halfwords r1 bs1 = (r2, bs2)"
    by fastforce
  have "length bs2 \<le> 1"
    using thumb2_halfwords_rest [of r1 bs1] h by simp
  then have "oc_eq (unat (thumb2_tail r2 bs2)) (unat r2 + le_sum bs2)"
    by (rule thumb2_tail_sum)
  also have "oc_eq \<dots> (unat r1 + le_sum bs1)"
    using thumb2_halfwords_sum [of r1 bs1] h by simp
  also have "oc_eq \<dots> (unat r + le_sum bs)"
    using thumb2_words_sum [of r bs] w by simp
  finally show ?thesis
    by (simp add: w h)
qed

lemma thumb2_checksum_oc16: "unat (thumb2_checksum a bs) = oc16 (le_sum bs)"
proof (cases "a mod 2 = 1 \<and> bs = []")
  case True
  then show ?thesis
    by (simp add: thumb2_checksum_def oc16_def)
next
  case False
  define is_odd where "is_odd \<longleftrightarrow> a mod 2 = 1"
  define r2 :: u32 where "r2 = (if is_odd then push_bit 8 (ucast (hd bs)) else 0)"
  define bs' where "bs' = (if is_odd then tl bs else bs)"
  have r2: "unat r2 = (if is_odd then 256 * unat (hd bs) else 0)"
    using unat_u8_lt [of "hd bs"] by (simp add: r2_def unat_push_bit)
  have half: "oc_eq (unat (r2 + ucast (ld16 (bs' ! 0) (bs' ! 1))) + le_sum (drop 2 bs')) (unat r2 + le_sum bs')"
    if "\<not> length bs' < 2"
  proof -
    from that obtain x y zs where "bs' = x # y # zs"
      by (cases bs' rule: le_sum.cases) auto
    moreover have "unat r2 + (unat x + 256 * unat y) < 4294967296"
      using unat_u8_lt [of "hd bs"] unat_u8_lt [of x] unat_u8_lt [of y] r2 by auto
    ultimately show ?thesis
      by (simp add: unat_word_ariths add.assoc)
  qed
  define r where "r = (if (if is_odd then a + 1 else a) mod 4 \<noteq> 0
      then if length bs' < 2 then thumb2_tail r2 bs'
           else (case thumb2_words (r2 + ucast (ld16 (bs' ! 0) (bs' ! 1))) (drop 2 bs') of (r, rest) \<Rightarrow>
             case thumb2_halfwords r rest of (r, rest) \<Rightarrow> thumb2_tail r rest)
      else (case thumb2_words r2 bs' of (r, rest) \<Rightarrow>
             case thumb2_halfwords r rest of (r, rest) \<Rightarrow> thumb2_tail r rest))"
  have "oc_eq (unat r) (unat r2 + le_sum bs')"
    using thumb2_loops_sum [of r2 bs'] thumb2_tail_sum [of bs' r2] half
      oc_eq_trans [OF thumb2_loops_sum half] by (auto simp: r_def)
  also have "oc_eq (unat r2 + le_sum bs') (align_sum is_odd bs)"
    using False align_start [of is_odd bs] r2 unfolding bs'_def is_odd_def by (auto split: if_splits)
  finally have "oc_eq (unat r) (align_sum is_odd bs)" .
  from finish_oc16 [OF this] show ?thesis
    using False unfolding thumb2_checksum_def Let_def r_def r2_def bs'_def is_odd_def
    by (simp only: if_False)
qed

lemma chksum_2_oc16:
  assumes "length bs \<le> 0x20000"
  shows "unat (lwip_standard_chksum_2 a bs) = oc16 (le_sum bs)"
proof -
  define is_odd where "is_odd \<longleftrightarrow> a mod 2 = 1"
  define bs' where "bs' = (if is_odd then tl bs else bs)"
  define t where "t = (if is_odd then set_t1 bs else 0)"
  obtain acc rest where loop: "chksum16_loop 0 bs' = (acc, rest)"
    by fastforce
  have rest: "length rest \<le> 1"
    using chksum16_loop_rest [of 0 bs'] loop by simp
  have t: "t = 0 \<or> t = push_bit 8 (ucast (hd bs))"
    by (auto simp: t_def set_t1_def split: list.splits)
  have t_val: "unat t = (if is_odd \<and> bs \<noteq> [] then 256 * unat (hd bs) else 0)"
    by (auto simp: t_def set_t1_def split: list.splits)
  have bound: "unat t + le_sum bs' < 4294967296"
  proof (cases is_odd)
    case True
    then have "length bs' \<le> 0x1ffff"
      using assms by (simp add: bs'_def)
    then have "le_sum bs' \<le> 65535 * 65536"
      using le_sum_bound [of bs'] by (auto intro: order_trans)
    moreover have "unat t < 65536"
      by (rule unat_u16_lt)
    ultimately show ?thesis
      by linarith
  next
    case False
    have "le_sum bs' \<le> 65535 * 65536"
      using le_sum_bound [of bs'] assms False by (auto intro: order_trans simp: bs'_def)
    then show ?thesis
      using False t_val by simp
  qed
  have "unat acc + le_sum rest = le_sum bs'"
    using chksum16_loop_sum [of 0 bs'] loop bound by simp
  then have "unat (acc + ucast (set_t0 t rest)) = unat t + le_sum bs'"
    using bound unat_set_t0 [OF rest t] by (simp add: unat_word_ariths)
  moreover have "oc_eq (unat t + le_sum bs') (align_sum is_odd bs)"
    using align_start [of is_odd bs] t_val
    by (cases "bs = []") (auto simp: bs'_def align_sum_def)
  ultimately have "oc_eq (unat (acc + ucast (set_t0 t rest))) (align_sum is_odd bs)"
    by simp
  from finish_oc16 [OF this] show ?thesis
    using loop unfolding lwip_standard_chksum_2_def Let_def t_def bs'_def is_odd_def
    by simp
qed

lemma chksum_3_oc16: "unat (lwip_standard_chksum_3 a bs) = oc16 (le_sum bs)"
proof -
  define is_odd where "is_odd \<longleftrightarrow> a mod 2 = 1"
  define bs' where "bs' = (if is_odd then tl bs else bs)"
  define t where "t = (if is_odd then set_t1 bs else 0)"
  define ps where "ps = (if is_odd \<and> bs \<noteq> [] then a + 1 else a)"
  obtain acc0 :: u32 and pb where start: "(if ps mod 4 \<noteq> 0 \<and> length bs' > 1
      then (ucast (ld16 (bs' ! 0) (bs' ! 1)), drop 2 bs') else (0, bs')) = (acc0, pb)"
    by fastforce
  obtain acc1 pb1 where words: "thumb2_words acc0 pb = (acc1, pb1)"
    by fastforce
  obtain acc2 rest where loop: "chksum16_loop (FOLD_U32T acc1) pb1 = (acc2, rest)"
    by fastforce
  have t: "t = 0 \<or> t = push_bit 8 (ucast (hd bs))"
    by (auto simp: t_def set_t1_def split: list.splits)
  have t_val: "unat t = (if is_odd \<and> bs \<noteq> [] then 256 * unat (hd bs) else 0)"
    by (auto simp: t_def set_t1_def split: list.splits)
  have s0: "unat acc0 + le_sum pb = le_sum bs'"
  proof (cases "ps mod 4 \<noteq> 0 \<and> length bs' > 1")
    case True
    then obtain x y zs where "bs' = x # y # zs"
      by (cases bs' rule: le_sum.cases) auto
    with True start show ?thesis
      by auto
  qed (use start in auto)
  have s1: "oc_eq (unat (FOLD_U32T acc1) + le_sum pb1) (le_sum bs')"
    using thumb2_words_sum [of acc0 pb] words s0 oc_eq_add [OF FOLD_oc_eq oc_eq_refl]
    by (auto intro: oc_eq_trans)
  have bound: "unat t + (unat (FOLD_U32T acc1) + le_sum pb1) < 4294967296"
  proof -
    have "length pb1 \<le> 7"
      using thumb2_words_rest [of acc0 pb] words by simp
    then have "le_sum pb1 \<le> 65535 * 4"
      using le_sum_bound [of pb1] by (auto intro: order_trans)
    moreover have "unat (FOLD_U32T acc1) < 131072"
    proof -
      have "unat acc1 div 65536 < 65536"
        using unat_u32_lt [of acc1] by linarith
      then show ?thesis
        unfolding unat_FOLD using mod_less_divisor [of 65536 "unat acc1"] by linarith
    qed
    moreover have "unat t < 65536"
      by (rule unat_u16_lt)
    ultimately show ?thesis
      by linarith
  qed
  have rest: "length rest \<le> 1"
    using chksum16_loop_rest [of "FOLD_U32T acc1" pb1] loop by simp
  have "unat acc2 + le_sum rest = unat (FOLD_U32T acc1) + le_sum pb1"
    using chksum16_loop_sum [of "FOLD_U32T acc1" pb1] loop bound by simp
  then have "unat (acc2 + ucast (set_t0 t rest)) = unat t + (unat (FOLD_U32T acc1) + le_sum pb1)"
    using bound unat_set_t0 [OF rest t] by (simp add: unat_word_ariths)
  also have "oc_eq \<dots> (unat t + le_sum bs')"
    by (rule oc_eq_add [OF oc_eq_refl s1])
  also have "oc_eq \<dots> (align_sum is_odd bs)"
    using align_start [of is_odd bs] t_val
    by (cases "bs = []") (auto simp: bs'_def align_sum_def)
  finally have "oc_eq (unat (acc2 + ucast (set_t0 t rest))) (align_sum is_odd bs)" .
  from finish_oc16 [OF this] show ?thesis
    using start words loop
    unfolding lwip_standard_chksum_3_def Let_def t_def bs'_def is_odd_def ps_def chksum32_loop_thumb2
    by (simp only: prod.case)
qed

text \<open>Version 1 sums the words most significant octet first and swaps at the end.\<close>

fun be_sum :: "u8 list \<Rightarrow> nat" where
  "be_sum (a # b # bs) = 256 * unat a + unat b + be_sum bs"
| "be_sum [a] = 256 * unat a"
| "be_sum [] = 0"

lemma be_sum_oc_eq: "oc_eq (be_sum bs) (256 * le_sum bs)"
proof (induction bs rule: be_sum.induct)
  case (1 a b bs)
  have "oc_eq (256 * unat a + unat b + be_sum bs) (256 * unat a + 65536 * unat b + 256 * le_sum bs)"
    using 1 by (intro oc_eq_add oc_eq_refl oc_eq_sym [OF oc_eq_65536])
  then show ?case
    by (simp add: algebra_simps)
qed simp_all

lemma be_sum_bound: "be_sum bs \<le> 65535 * ((length bs + 1) div 2)"
proof (induction bs rule: be_sum.induct)
  case (1 a b bs)
  have "256 * unat a + unat b \<le> 65535"
    using unat_u8_lt [of a] unat_u8_lt [of b] by linarith
  with 1 show ?case
    by simp
next
  case (2 a)
  show ?case
    using unat_u8_lt [of a] by simp
qed simp

lemma chksum1_loop_sum:
  assumes "unat acc + be_sum bs < 4294967296"
  shows "unat (chksum1_loop acc bs) = unat acc + be_sum bs"
  using assms
proof (induction acc bs rule: chksum1_loop.induct)
  case (1 acc a b bs)
  have w: "unat (push_bit 8 (ucast a) OR ucast b :: u16) = 256 * unat a + unat b"
    using unat_u8_lt [of a] unat_u8_lt [of b] by (subst unat_push_or) simp_all
  have "unat (acc + ucast (push_bit 8 (ucast a) OR ucast b :: u16)) = unat acc + (256 * unat a + unat b)"
    using 1(2) w by (simp add: unat_word_ariths)
  then show ?case
    using 1 by (simp add: Let_def)
qed (simp_all add: unat_word_ariths)

lemma chksum_1_oc16:
  assumes "length bs < 65536"
  shows "unat (lwip_standard_chksum_1 bs) = oc16 (le_sum bs)"
proof -
  define acc where "acc = chksum1_loop 0 bs"
  define f where "f = (if FOLD_U32T acc AND 0xffff0000 \<noteq> 0 then FOLD_U32T (FOLD_U32T acc) else FOLD_U32T acc)"
  have "be_sum bs \<le> 65535 * 32768"
    using be_sum_bound [of bs] assms by (auto intro: order_trans)
  then have acc: "unat acc = be_sum bs"
    unfolding acc_def by (subst chksum1_loop_sum) simp_all
  have small: "unat u < 65536" if "u AND 0xffff0000 = 0" for u :: u32
  proof -
    have "drop_bit 16 (u AND 0xffff0000) = drop_bit 16 u AND 0xffff"
      by (simp add: drop_bit_and)
    then have "unat (drop_bit 16 u AND 0xffff) = 0"
      using that by simp
    then have "unat u div 65536 mod 65536 = 0"
      by (simp add: unat_and_ffff unat_drop_bit)
    then show ?thesis
      using unat_u32_lt [of u] by (simp add: div_less_iff_less_mult less_mult_imp_div_less)
  qed
  have f_lt: "unat f < 65536"
    using FOLD_FOLD_lt small by (auto simp: f_def)
  have "oc_eq (unat f) (be_sum bs)"
    using FOLD_oc_eq [of acc] FOLD_oc_eq [of "FOLD_U32T acc"] acc by (auto simp: f_def intro: oc_eq_trans)
  also have "oc_eq \<dots> (256 * le_sum bs)"
    by (rule be_sum_oc_eq)
  finally have f: "oc_eq (unat f) (256 * le_sum bs)" .
  have "unat (lwip_htons (ucast f)) = unat (SWAP_BYTES_IN_WORD f)"
    using f_lt by (simp add: unat_htons unat_SWAP unat_ucast_mod)
  also have "oc_eq \<dots> (256 * unat f)"
    by (rule SWAP_oc_eq [OF f_lt])
  also have "oc_eq \<dots> (256 * (256 * le_sum bs))"
    by (rule oc_eq_mult [OF f])
  also have "oc_eq \<dots> (le_sum bs)"
    using oc_eq_65536 [of "le_sum bs"] by (simp add: mult.assoc [symmetric])
  finally have "oc_eq (unat (lwip_htons (ucast f))) (le_sum bs)" .
  then have "unat (lwip_htons (ucast f)) = oc16 (le_sum bs)"
    by (rule oc16_unique) (rule unat_u16_lt)
  then show ?thesis
    unfolding lwip_standard_chksum_1_def Let_def f_def acc_def FOLD_U32T_def .
qed


section \<open>The contract of LWIP\_CHKSUM and its callers\<close>

definition pseudo_header :: "u32 \<Rightarrow> u32 \<Rightarrow> u8 \<Rightarrow> u16 \<Rightarrow> u8 list" where
  "pseudo_header src dest proto proto_len =
     le_bytes32 src @ le_bytes32 dest @ [0, proto, ucast (drop_bit 8 proto_len), ucast proto_len]"

abbreviation data_of :: "buf list \<Rightarrow> u8 list" where
  "data_of p \<equiv> concat (map snd p)"

abbreviation lens_ok :: "buf list \<Rightarrow> bool" where
  "lens_ok p \<equiv> list_all (\<lambda>q. length (snd q) < 65536) p"

lemma le_sum_u32: "le_sum (le_bytes32 w) = unat w mod 65536 + unat w div 65536"
proof (cases w rule: u32_octets_exhaust)
  case (1 a b c d)
  have "unat a + 256 * unat b < 65536"
    using unat_u8_lt [of a] unat_u8_lt [of b] by linarith
  moreover have "unat w = (unat a + 256 * unat b) + 65536 * (unat c + 256 * unat d)"
    by (simp add: 1 unat_of_le_bytes32)
  ultimately have "unat w mod 65536 = unat a + 256 * unat b" "unat w div 65536 = unat c + 256 * unat d"
    by (simp_all only: mod_mult_self2 div_mult_self2 mod_less div_less)
  then show ?thesis
    by (simp add: 1)
qed

lemma u16_sum_be: "le_sum [ucast (drop_bit 8 w), ucast w] = unat (lwip_htons w)"
proof -
  have "unat w div 256 < 256"
    using unat_u16_lt [of w] by linarith
  then show ?thesis
    by (simp add: unat_htons unat_ucast_mod unat_drop_bit)
qed

lemma le_sum_pseudo_header:
  "le_sum (pseudo_header src dest proto len) =
    (unat src mod 65536 + unat src div 65536) + (unat dest mod 65536 + unat dest div 65536)
    + unat (lwip_htons (ucast proto)) + unat (lwip_htons len)"
proof -
  have len: "length (le_bytes32 w) = 4" for w
    by (simp add: le_bytes32_def)
  have "le_sum [0, proto] = unat (lwip_htons (ucast proto))"
    using unat_u8_lt [of proto] by (simp add: unat_htons)
  moreover have "le_sum [0, proto, x, y] = le_sum [0, proto] + le_sum [x, y]" for x y
    by simp
  ultimately have "le_sum [0, proto, ucast (drop_bit 8 len), ucast len]
      = unat (lwip_htons (ucast proto)) + unat (lwip_htons len)"
    by (simp only: u16_sum_be)
  then show ?thesis
    unfolding pseudo_header_def by (simp add: le_sum_append_even len le_sum_u32)
qed

text \<open>
  What the loops over a pbuf chain keep.  \<open>chain_sum\<close>: the accumulator fits in 16 bits and is
  the sum of the data so far, with the octets exchanged when \<open>swapped\<close> is set.
  \<open>chain_inv\<close>: it is set after an odd number of octets.
\<close>

definition chain_sum :: "u32 \<Rightarrow> bool \<Rightarrow> u8 list \<Rightarrow> bool" where
  "chain_sum acc swapped ds \<longleftrightarrow> unat acc < 65536 \<and>
     oc_eq (unat acc) ((if swapped then 256 else 1) * le_sum ds)"

definition chain_inv :: "u32 \<Rightarrow> bool \<Rightarrow> u8 list \<Rightarrow> bool" where
  "chain_inv acc swapped ds \<longleftrightarrow> chain_sum acc swapped ds \<and> swapped = odd (length ds)"

lemma chain_inv_start: "chain_inv 0 False []"
  by (simp add: chain_inv_def chain_sum_def)

lemma chain_sum_step:
  assumes "chain_inv acc swapped ds" and "unat (c :: u16) = oc16 (le_sum bs)"
  shows "chain_sum (if par then SWAP_BYTES_IN_WORD (FOLD_U32T (acc + ucast c)) else FOLD_U32T (acc + ucast c))
    (swapped \<noteq> par) (ds @ bs)"
proof -
  let ?acc = "FOLD_U32T (acc + ucast c)"
  have acc: "unat acc < 65536" and sw: "swapped = odd (length ds)"
    and eq: "oc_eq (unat acc) ((if swapped then 256 else 1) * le_sum ds)"
    using assms(1) by (auto simp: chain_inv_def chain_sum_def)
  have plus: "unat (acc + ucast c) = unat acc + unat c"
    using acc unat_u16_lt [of c] by (simp add: unat_word_ariths)
  then have lt: "unat ?acc < 65536"
    using acc unat_u16_lt [of c] by (intro FOLD_small) linarith
  have "oc_eq (unat ?acc) (unat acc + unat c)"
    using FOLD_oc_eq [of "acc + ucast c"] plus by simp
  also have "oc_eq \<dots> ((if swapped then 256 else 1) * le_sum ds + le_sum bs)"
    using eq oc16_oc_eq [of "le_sum bs"] assms(2) by (intro oc_eq_add) simp_all
  also have "oc_eq \<dots> ((if swapped then 256 else 1) * le_sum (ds @ bs))"
  proof (cases swapped)
    case True
    then have "oc_eq (256 * le_sum (ds @ bs)) (256 * (le_sum ds + 256 * le_sum bs))"
      using le_sum_append [of ds bs] sw by (intro oc_eq_mult) simp
    moreover have "oc_eq (256 * le_sum ds + 65536 * le_sum bs) (256 * le_sum ds + le_sum bs)"
      by (rule oc_eq_add [OF oc_eq_refl oc_eq_65536])
    ultimately show ?thesis
      using True by (auto simp: algebra_simps intro: oc_eq_sym oc_eq_trans)
  next
    case False
    then show ?thesis
      using sw by (simp add: le_sum_append_even)
  qed
  finally have acc': "oc_eq (unat ?acc) ((if swapped then 256 else 1) * le_sum (ds @ bs))" .
  have sw': "oc_eq (unat (SWAP_BYTES_IN_WORD ?acc)) ((if swapped then 1 else 256) * le_sum (ds @ bs))"
  proof -
    have "oc_eq (unat (SWAP_BYTES_IN_WORD ?acc)) (256 * ((if swapped then 256 else 1) * le_sum (ds @ bs)))"
      using SWAP_oc_eq [OF lt] oc_eq_mult [OF acc'] by (rule oc_eq_trans)
    then show ?thesis
      using oc_eq_65536 [of "le_sum (ds @ bs)"]
      by (auto simp: mult.assoc [symmetric] split: if_splits intro: oc_eq_trans)
  qed
  show ?thesis
    using acc' sw' lt SWAP_lt [OF lt] by (auto simp: chain_sum_def)
qed

lemma chain_inv_step:
  assumes "chain_inv acc swapped ds" and "unat (c :: u16) = oc16 (le_sum bs)"
    and "par \<longleftrightarrow> odd (length bs)"
  shows "chain_inv (if par then SWAP_BYTES_IN_WORD (FOLD_U32T (acc + ucast c)) else FOLD_U32T (acc + ucast c))
    (swapped \<noteq> par) (ds @ bs)"
  using chain_sum_step [OF assms(1,2), of par] assms by (auto simp: chain_inv_def)

lemma chain_sum_unswap:
  assumes "chain_sum acc swapped ds"
  shows "unat (if swapped then SWAP_BYTES_IN_WORD acc else acc) = oc16 (le_sum ds)"
proof (rule oc16_unique)
  show "unat (if swapped then SWAP_BYTES_IN_WORD acc else acc) < 65536"
    using assms SWAP_lt by (auto simp: chain_sum_def)
  have "oc_eq (unat (SWAP_BYTES_IN_WORD acc)) (256 * (256 * le_sum ds))" if swapped
    using assms that SWAP_oc_eq [of acc] oc_eq_mult [of "unat acc" "256 * le_sum ds" 256]
    by (auto simp: chain_sum_def intro: oc_eq_trans)
  then show "oc_eq (unat (if swapped then SWAP_BYTES_IN_WORD acc else acc)) (le_sum ds)"
    using assms oc_eq_65536 [of "le_sum ds"]
    by (auto simp: chain_sum_def mult.assoc [symmetric] intro: oc_eq_trans)
qed

lemma ucast_not_low:
  assumes "unat (acc :: u32) < 65536"
  shows "ucast (NOT (acc AND 0xffff)) = NOT (of_nat (unat acc) :: u16)"
proof -
  have "unat (ucast (NOT (acc AND 0xffff)) :: u16) = (4294967295 - unat acc) mod 65536"
    unfolding unat_ucast_mod unat_not unat_and_ffff using assms by simp
  also have "4294967295 - unat acc = (65535 - unat acc) + 65536 * 65535"
    using assms by simp
  also have "\<dots> mod 65536 = 65535 - unat acc"
    by (simp only: mod_mult_self2) simp
  finally show ?thesis
    using assms by (simp add: word_unat_eq_iff unat_not unat_ucast_mod)
qed

lemma pseudo_finish_sum:
  assumes "chain_sum acc swapped ds"
  shows "chksum_pseudo_finish acc swapped src dest proto len
    = NOT (of_nat (oc16 (le_sum (pseudo_header src dest proto len @ ds))))"
proof -
  define a where "a = (if swapped then SWAP_BYTES_IN_WORD acc else acc)"
  have a: "unat a = oc16 (le_sum ds)"
    unfolding a_def by (rule chain_sum_unswap [OF assms])
  let ?h = "pseudo_header src dest proto len"
  define b where "b = a + (src AND 0xffff) + (drop_bit 16 src AND 0xffff) + (dest AND 0xffff)
    + (drop_bit 16 dest AND 0xffff) + ucast (lwip_htons (ucast proto)) + ucast (lwip_htons len)"
  have hi: "unat w div 65536 < 65536" for w :: u32
    using unat_u32_lt [of w] by linarith
  have lo: "unat w mod 65536 < 65536" for w :: u32
    by simp
  have b: "unat b = oc16 (le_sum ds) + le_sum ?h"
  proof -
    have "oc16 (le_sum ds) + le_sum ?h < 4294967296"
      using oc16_lt [of "le_sum ds"] hi [of src] lo [of src] hi [of dest] lo [of dest]
        unat_u16_lt [of "lwip_htons (ucast proto)"] unat_u16_lt [of "lwip_htons len"]
      unfolding le_sum_pseudo_header by linarith
    moreover have "unat (drop_bit 16 w AND 0xffff) = unat w div 65536" for w :: u32
      using hi [of w] by (simp add: unat_and_ffff unat_drop_bit)
    ultimately show ?thesis
      unfolding b_def unat_word_ariths(1) a unat_and_ffff le_sum_pseudo_header unat_ucast_u16_u32
      by (simp only: mod_add_left_eq add.assoc [symmetric]) simp
  qed
  have "length ?h = 12"
    by (simp add: pseudo_header_def le_bytes32_def)
  then have "le_sum (?h @ ds) = le_sum ?h + le_sum ds"
    by (simp add: le_sum_append_even)
  then have "oc_eq (unat b) (le_sum (?h @ ds))"
    unfolding b by (simp add: add.commute oc_eq_add oc16_oc_eq)
  then have "oc_eq (unat (FOLD_U32T (FOLD_U32T b))) (le_sum (?h @ ds))"
    using FOLD_oc_eq oc_eq_trans by blast
  then have "unat (FOLD_U32T (FOLD_U32T b)) = oc16 (le_sum (?h @ ds))"
    using FOLD_FOLD_lt by (rule oc16_unique)
  then show ?thesis
    unfolding chksum_pseudo_finish_def Let_def a_def [symmetric] b_def [symmetric]
    by (simp only: ucast_not_low [OF FOLD_FOLD_lt])
qed

text \<open>
  A checksum is stored in a 16-bit field that held zero while it was computed.  Summing the
  data again with the field filled in gives all ones.
\<close>

lemma oc16_complement: "oc16 (n + (65535 - oc16 n)) = 65535"
proof -
  have "oc_eq (n + (65535 - oc16 n)) (oc16 n + (65535 - oc16 n))"
    by (intro oc_eq_add oc_eq_refl oc_eq_sym [OF oc16_oc_eq])
  also have "oc16 n + (65535 - oc16 n) = 65535"
    using oc16_lt [of n] by linarith
  finally have "oc16 (n + (65535 - oc16 n)) = oc16 65535"
    by (rule oc16_cong)
  then show ?thesis
    by (simp add: oc16_def)
qed

lemma le_sum_field:
  assumes "even (length xs)"
  shows "le_sum (xs @ [ucast ck, ucast (drop_bit 8 ck)] @ ys) = le_sum (xs @ [0, 0] @ ys) + unat (ck :: u16)"
proof -
  have "unat ck div 256 < 256"
    using unat_u16_lt [of ck] by linarith
  then have "unat (ucast ck :: u8) + 256 * unat (ucast (drop_bit 8 ck) :: u8) = unat ck"
    by (simp add: unat_ucast_mod unat_drop_bit)
  then show ?thesis
    using assms by (simp add: le_sum_append_even)
qed

lemma oc16_field_verifies:
  assumes "even (length xs)" and "ck = NOT (of_nat (oc16 (le_sum (xs @ [0, 0] @ ys))) :: u16)"
  shows "NOT (of_nat (oc16 (le_sum (xs @ [ucast ck, ucast (drop_bit 8 ck)] @ ys))) :: u16) = 0"
proof -
  have "unat ck = 65535 - oc16 (le_sum (xs @ [0, 0] @ ys))"
    using oc16_lt [of "le_sum (xs @ [0, 0] @ ys)"] by (simp add: assms(2) unat_not unat_of_nat)
  then have "oc16 (le_sum (xs @ [ucast ck, ucast (drop_bit 8 ck)] @ ys)) = 65535"
    unfolding le_sum_field [OF assms(1)] by (simp only: oc16_complement)
  then show ?thesis
    by simp
qed

locale inet_sum =
  fixes chk :: "addr \<Rightarrow> u8 list \<Rightarrow> u16"
  assumes chk_sum: "length bs < 65536 \<Longrightarrow> unat (chk a bs) = oc16 (le_sum bs)"
begin

lemma inet_chksum_eq:
  "length bs < 65536 \<Longrightarrow> inet_chksum chk a bs = NOT (of_nat (oc16 (le_sum bs)))"
  by (simp add: inet_chksum_def word_unat_eq_iff unat_not unat_of_nat chk_sum)

lemma chksum_chain_inv:
  assumes "chain_inv acc swapped ds" and "lens_ok qs" and "chksum_chain chk acc swapped qs = (acc', swapped')"
  shows "chain_inv acc' swapped' (ds @ data_of qs)"
  using assms
proof (induction qs arbitrary: acc swapped ds)
  case (Cons q qs)
  obtain payload bs where q: "q = (payload, bs)"
    by (cases q)
  have "chain_inv (if odd (length bs) then SWAP_BYTES_IN_WORD (FOLD_U32T (acc + ucast (chk payload bs)))
      else FOLD_U32T (acc + ucast (chk payload bs))) (swapped \<noteq> odd (length bs)) (ds @ bs)"
    using Cons.prems q by (intro chain_inv_step) (auto simp: chk_sum)
  from Cons.IH [OF this] show ?case
    using Cons.prems q by (auto simp: Let_def odd_iff_mod_2_eq_one split: if_splits)
qed simp

lemma inet_chksum_pbuf_eq:
  assumes "lens_ok p"
  shows "inet_chksum_pbuf chk p = NOT (of_nat (oc16 (le_sum (data_of p))))"
proof -
  obtain acc swapped where c: "chksum_chain chk 0 False p = (acc, swapped)"
    by fastforce
  have "chain_sum acc swapped (data_of p)"
    using chksum_chain_inv [OF chain_inv_start assms c] by (auto simp: chain_inv_def)
  note sum = chain_sum_unswap [OF this]
  have "unat (if swapped then SWAP_BYTES_IN_WORD acc else acc) < 65536"
    unfolding sum by (rule oc16_lt)
  from ucast_not_low [OF this] show ?thesis
    unfolding inet_chksum_pbuf_def c Let_def prod.case sum .
qed

lemma inet_chksum_pseudo_eq:
  assumes "lens_ok p"
  shows "inet_chksum_pseudo chk p src dest proto len
    = NOT (of_nat (oc16 (le_sum (pseudo_header src dest proto len @ data_of p))))"
proof -
  obtain acc swapped where c: "chksum_chain chk 0 False p = (acc, swapped)"
    by fastforce
  have "chain_sum acc swapped (data_of p)"
    using chksum_chain_inv [OF chain_inv_start assms c] by (auto simp: chain_inv_def)
  then show ?thesis
    unfolding inet_chksum_pseudo_def c Let_def prod.case by (rule pseudo_finish_sum)
qed

text \<open>
  The partial version stops after \<open>chksum_len\<close> octets.  In the pbuf it stops in it exchanges
  the octets by the parity of the whole pbuf, not of the part it summed; the exchange after
  the loop undoes it, so the sum is right all the same.
\<close>

lemma chksum_chain_partial_sum:
  assumes "chain_inv acc swapped ds" and "lens_ok qs"
    and "chksum_chain_partial chk acc swapped n qs = (acc', swapped')"
  shows "chain_sum acc' swapped' (ds @ take n (data_of qs))"
  using assms
proof (induction qs arbitrary: acc swapped ds n)
  case (Cons q qs)
  obtain payload bs where q: "q = (payload, bs)"
    by (cases q)
  let ?c = "chk payload (take n bs)"
  have c: "unat ?c = oc16 (le_sum (take n bs))"
    using Cons.prems(2) q by (intro chk_sum) auto
  consider "n = 0" | "0 < n" "n < length bs" | "0 < n" "length bs \<le> n"
    by linarith
  then show ?case
  proof cases
    case 1
    then show ?thesis
      using Cons.prems q by (auto simp: chain_inv_def)
  next
    case 2
    have stop: "chksum_chain_partial chk a w 0 qs = (a, w)" for a w
      by (cases qs) auto
    show ?thesis
      using Cons.prems q 2 chain_sum_step [OF Cons.prems(1) c, of "odd (length bs)"]
      by (auto simp: Let_def stop odd_iff_mod_2_eq_one split: if_splits)
  next
    case 3
    then have "chain_inv (if odd (length bs) then SWAP_BYTES_IN_WORD (FOLD_U32T (acc + ucast ?c))
        else FOLD_U32T (acc + ucast ?c)) (swapped \<noteq> odd (length bs)) (ds @ bs)"
      using c by (intro chain_inv_step Cons.prems) simp_all
    from Cons.IH [OF this] show ?thesis
      using Cons.prems q 3 by (auto simp: Let_def odd_iff_mod_2_eq_one split: if_splits)
  qed
qed (simp add: chain_inv_def)

lemma inet_chksum_pseudo_partial_eq:
  assumes "lens_ok p"
  shows "inet_chksum_pseudo_partial chk p src dest proto len chksum_len
    = NOT (of_nat (oc16 (le_sum (pseudo_header src dest proto len @ take (unat chksum_len) (data_of p)))))"
proof -
  obtain acc swapped where c: "chksum_chain_partial chk 0 False (unat chksum_len) p = (acc, swapped)"
    by fastforce
  have "chain_sum acc swapped (take (unat chksum_len) (data_of p))"
    using chksum_chain_partial_sum [OF chain_inv_start assms c] by simp
  then show ?thesis
    unfolding inet_chksum_pseudo_partial_def c Let_def prod.case by (rule pseudo_finish_sum)
qed

end

interpretation chksum_1: inet_sum "\<lambda>_. lwip_standard_chksum_1"
  by unfold_locales (rule chksum_1_oc16)

interpretation chksum_2: inet_sum lwip_standard_chksum_2
  by unfold_locales (rule chksum_2_oc16, simp)

interpretation chksum_3: inet_sum lwip_standard_chksum_3
  by unfold_locales (rule chksum_3_oc16)

interpretation thumb2: inet_sum thumb2_checksum
  by unfold_locales (rule thumb2_checksum_oc16)


section \<open>Properties\<close>

text \<open>
  C5. The four checksum routines of the repository (the three portable versions and the Thumb-2
  assembly) return the same value on every buffer whose length fits in \<^verbatim>\<open>u16_t\<close>, whatever the
  alignment of the buffer.
\<close>

theorem chksum_routines_agree:
  assumes "length bs < 65536"
  shows "lwip_standard_chksum_1 bs = lwip_standard_chksum_2 a bs \<and>
    lwip_standard_chksum_2 a bs = lwip_standard_chksum_3 b bs \<and>
    lwip_standard_chksum_3 b bs = thumb2_checksum c bs"
  using assms chksum_1.chk_sum [of bs] chksum_2.chk_sum [of bs a] chksum_3.chk_sum [of bs b]
    thumb2.chk_sum [of bs c] by (simp add: word_unat_eq_iff)

theorem chksum_routines_agree_witness:
  "length [0x45, 0, 0x7f :: u8] < 65536 \<and>
   lwip_standard_chksum_1 [0x45, 0, 0x7f] = lwip_standard_chksum_2 1 [0x45, 0, 0x7f] \<and>
   lwip_standard_chksum_2 1 [0x45, 0, 0x7f] = lwip_standard_chksum_3 2 [0x45, 0, 0x7f] \<and>
   lwip_standard_chksum_3 2 [0x45, 0, 0x7f] = thumb2_checksum 3 [0x45, 0, 0x7f]"
proof
  show l: "length [0x45, 0, 0x7f :: u8] < 65536"
    by simp
  show "lwip_standard_chksum_1 [0x45, 0, 0x7f] = lwip_standard_chksum_2 1 [0x45, 0, 0x7f] \<and>
   lwip_standard_chksum_2 1 [0x45, 0, 0x7f] = lwip_standard_chksum_3 2 [0x45, 0, 0x7f] \<and>
   lwip_standard_chksum_3 2 [0x45, 0, 0x7f] = thumb2_checksum 3 [0x45, 0, 0x7f]"
    by (rule chksum_routines_agree [OF l])
qed

text \<open>
  Version 2 is right for every length up to and including 0x20000, as its comment says: the
  32-bit accumulator does not overflow and the result is the folded sum of the 16-bit words.
\<close>

theorem chksum_2_long_buffers:
  assumes "length bs \<le> 0x20000"
  shows "unat (lwip_standard_chksum_2 a bs) = oc16 (le_sum bs)"
  using assms by (rule chksum_2_oc16)

theorem chksum_2_long_buffers_witness:
  "length (replicate 70000 (0 :: u8)) \<le> 0x20000 \<and>
   unat (lwip_standard_chksum_2 1 (replicate 70000 0)) = oc16 (le_sum (replicate 70000 0))"
proof
  show l: "length (replicate 70000 (0 :: u8)) \<le> 0x20000"
    by (simp only: length_replicate)
  show "unat (lwip_standard_chksum_2 1 (replicate 70000 0)) = oc16 (le_sum (replicate 70000 0))"
    by (rule chksum_2_long_buffers [OF l])
qed

text \<open>
  The checksum over a pbuf chain depends on the data only, not on how it is cut into pbufs
  or where these lie: it is the checksum of the same octets in one buffer.
\<close>

theorem inet_chksum_pbuf_flat:
  assumes "length (data_of p) < 65536"
  shows "inet_chksum_pbuf (\<lambda>_. lwip_standard_chksum_1) p
    = inet_chksum (\<lambda>_. lwip_standard_chksum_1) a (data_of p)"
proof -
  have "length bs \<le> length (data_of p)" if "(x, bs) \<in> set p" for x bs
    using that by (induction p) auto
  then have "lens_ok p"
    using assms by (fastforce simp: list_all_iff)
  then show ?thesis
    using assms by (simp add: chksum_1.inet_chksum_pbuf_eq chksum_1.inet_chksum_eq)
qed

theorem inet_chksum_pbuf_flat_witness:
  "length (data_of [(0, [1, 2, 3]), (7, [4]), (9, [5, 6])]) < 65536 \<and>
   inet_chksum_pbuf (\<lambda>_. lwip_standard_chksum_1) [(0, [1, 2, 3]), (7, [4]), (9, [5, 6])]
     = inet_chksum (\<lambda>_. lwip_standard_chksum_1) 0 [1, 2, 3, 4, 5, 6]"
  using inet_chksum_pbuf_flat [of "[(0, [1, 2, 3]), (7, [4]), (9, [5, 6])]" 0] by simp

text \<open>
  C17. Sender and receiver agree: a segment whose checksum field, at an even offset, is filled
  with \<^verbatim>\<open>inet_chksum_pseudo\<close> of the segment with a zero field passes the receiver's test, also
  when the receiver has it cut into pbufs in another way.
\<close>

theorem inet_chksum_pseudo_verifies:
  assumes "even (length xs)" and "lens_ok p" and "data_of p = xs @ [0, 0] @ ys"
    and "ck = inet_chksum_pseudo (\<lambda>_. lwip_standard_chksum_1) p src dest proto len"
    and "lens_ok p'" and "data_of p' = xs @ [ucast ck, ucast (drop_bit 8 ck)] @ ys"
  shows "inet_chksum_pseudo (\<lambda>_. lwip_standard_chksum_1) p' src dest proto len = 0"
proof -
  let ?h = "pseudo_header src dest proto len"
  have h: "even (length (?h @ xs))"
    using assms(1) by (simp add: pseudo_header_def le_bytes32_def)
  have "ck = NOT (of_nat (oc16 (le_sum ((?h @ xs) @ [0, 0] @ ys))))"
    using assms(2-4) by (simp add: chksum_1.inet_chksum_pseudo_eq)
  from oc16_field_verifies [OF h this] show ?thesis
    using assms(5,6) by (simp add: chksum_1.inet_chksum_pseudo_eq)
qed

theorem inet_chksum_pseudo_verifies_witness:
  "inet_chksum_pseudo (\<lambda>_. lwip_standard_chksum_1)
     [(0, [0x12, 0x34, ucast (inet_chksum_pseudo (\<lambda>_. lwip_standard_chksum_1) [(0, [0x12, 0x34, 0, 0, 7])] 1 2 17 5)]),
      (3, [ucast (drop_bit 8 (inet_chksum_pseudo (\<lambda>_. lwip_standard_chksum_1) [(0, [0x12, 0x34, 0, 0, 7])] 1 2 17 5)), 7])]
     1 2 17 5 = 0"
  by (rule inet_chksum_pseudo_verifies [where xs = "[0x12, 0x34]" and ys = "[7]"
        and p = "[(0, [0x12, 0x34, 0, 0, 7])]", OF _ _ _ refl]) simp_all

text \<open>
  \<^verbatim>\<open>inet_chksum_pseudo_partial\<close> is the checksum of the pseudo header and the first
  \<open>chksum_len\<close> octets of the chain (what UDP-Lite covers), although its parity test looks at
  the whole length of the pbuf it stops in.
\<close>

theorem inet_chksum_pseudo_partial_covers:
  assumes "lens_ok p" and "length (pseudo_header src dest proto len @ take (unat chksum_len) (data_of p)) < 65536"
  shows "inet_chksum_pseudo_partial (\<lambda>_. lwip_standard_chksum_1) p src dest proto len chksum_len
    = inet_chksum (\<lambda>_. lwip_standard_chksum_1) a
        (pseudo_header src dest proto len @ take (unat chksum_len) (data_of p))"
  using assms by (simp add: chksum_1.inet_chksum_pseudo_partial_eq chksum_1.inet_chksum_eq)

theorem inet_chksum_pseudo_partial_covers_witness:
  "inet_chksum_pseudo_partial (\<lambda>_. lwip_standard_chksum_1) [(0, [1, 2, 3]), (8, [4, 5, 6])] 10 20 136 6 4
    = inet_chksum (\<lambda>_. lwip_standard_chksum_1) 0
        (pseudo_header 10 20 136 6 @ take (unat (4 :: u16)) [1, 2, 3, 4, 5, 6])"
  using inet_chksum_pseudo_partial_covers [of "[(0, [1, 2, 3]), (8, [4, 5, 6])]" 10 20 136 6 4 0]
  by (simp add: pseudo_header_def le_bytes32_def)

end
