(* ===== verification/Pbuf.thy ===== *)
theory Pbuf
  imports Inet_Chksum "HOL-Library.Monad_Syntax"
begin

text \<open>
  Packet buffers: \<^verbatim>\<open>core/pbuf.c\<close> and \<^verbatim>\<open>include/lwip/pbuf.h\<close>.  The \<^verbatim>\<open>struct pbuf\<close> objects live in a
  store from addresses to records, payload bytes in the flat byte memory.  Reading the store where
  there is no object, which is undefined in C, and a loop over a cyclic chain both give
  \<open>None\<close>; so a lemma that an operation returns \<open>Some\<close> also says that it ends and touches live
  objects only.  The allocator is the record \<open>alloc\<close> of the functions pbuf.c calls
  (\<^verbatim>\<open>mem_malloc\<close>, \<^verbatim>\<open>mem_free\<close>, \<^verbatim>\<open>mem_trim\<close>, \<^verbatim>\<open>memp_malloc\<close>, \<^verbatim>\<open>memp_free\<close>, and the
  \<^verbatim>\<open>custom_free_function\<close> of custom pbufs) over a heap state of any type.
\<close>

section \<open>Types\<close>

datatype pbuf_layer = PBUF_TRANSPORT | PBUF_IP | PBUF_LINK | PBUF_RAW

datatype pbuf_type = PBUF_RAM | PBUF_ROM | PBUF_REF | PBUF_POOL

datatype memp_t = MEMP_PBUF | MEMP_PBUF_POOL

record pbuf =
  pb_next :: addr
  pb_payload :: addr
  pb_tot_len :: u16
  pb_len :: u16
  pb_type :: pbuf_type
  pb_flags :: u8
  pb_ref :: u16

type_synonym store = "addr \<Rightarrow> pbuf option"

definition PBUF_FLAG_IS_CUSTOM :: u8 where "PBUF_FLAG_IS_CUSTOM = 0x02"
definition PBUF_TRANSPORT_HLEN :: u16 where "PBUF_TRANSPORT_HLEN = 20"
definition PBUF_IP_HLEN :: u16 where "PBUF_IP_HLEN = 20"
definition ETH_PAD_SIZE :: nat where "ETH_PAD_SIZE = 2"
definition PBUF_LINK_HLEN :: u16 where "PBUF_LINK_HLEN = of_nat (14 + ETH_PAD_SIZE)"
definition MEM_ALIGNMENT :: nat where "MEM_ALIGNMENT = 4"
definition TCP_MSS :: nat where "TCP_MSS = 1460"

definition LWIP_MEM_ALIGN_SIZE :: "nat \<Rightarrow> nat" where
  "LWIP_MEM_ALIGN_SIZE sz = (sz + MEM_ALIGNMENT - 1) div MEM_ALIGNMENT * MEM_ALIGNMENT"

definition LWIP_MEM_ALIGN :: "addr \<Rightarrow> addr" where
  "LWIP_MEM_ALIGN a = (a + MEM_ALIGNMENT - 1) div MEM_ALIGNMENT * MEM_ALIGNMENT"

definition SIZEOF_STRUCT_PBUF :: nat where
  "SIZEOF_STRUCT_PBUF = LWIP_MEM_ALIGN_SIZE 16"

definition PBUF_POOL_BUFSIZE :: nat where
  "PBUF_POOL_BUFSIZE = LWIP_MEM_ALIGN_SIZE (TCP_MSS + 40 + unat PBUF_LINK_HLEN)"

definition PBUF_POOL_BUFSIZE_ALIGNED :: nat where
  "PBUF_POOL_BUFSIZE_ALIGNED = LWIP_MEM_ALIGN_SIZE PBUF_POOL_BUFSIZE"

text \<open>
  The allocator.  \<open>al_fresh\<close> is what memory that was just allocated holds when it is read as a
  \<^verbatim>\<open>struct pbuf\<close>; C says nothing about it, and neither does the model.
\<close>

record 'h alloc =
  al_malloc :: "'h \<Rightarrow> nat \<Rightarrow> 'h \<times> addr"
  al_free :: "'h \<Rightarrow> addr \<Rightarrow> 'h"
  al_trim :: "'h \<Rightarrow> addr \<Rightarrow> nat \<Rightarrow> 'h \<times> addr"
  al_memp_malloc :: "'h \<Rightarrow> memp_t \<Rightarrow> 'h \<times> addr"
  al_memp_free :: "'h \<Rightarrow> memp_t \<Rightarrow> addr \<Rightarrow> 'h"
  al_custom_free :: "'h \<Rightarrow> addr \<Rightarrow> 'h"
  al_fresh :: "'h \<Rightarrow> addr \<Rightarrow> pbuf"

record 'h pstate =
  heap :: 'h
  pbufs :: store
  dmem :: bytes

definition set_pbuf :: "addr \<Rightarrow> pbuf \<Rightarrow> 'h pstate \<Rightarrow> 'h pstate" where
  "set_pbuf p pb s = s\<lparr>pbufs := (pbufs s)(p \<mapsto> pb)\<rparr>"

section \<open>Reference counting\<close>

definition pbuf_release :: "'h alloc \<Rightarrow> 'h \<Rightarrow> addr \<Rightarrow> pbuf \<Rightarrow> 'h" where
  "pbuf_release A h p pb =
     (if pb_flags pb AND PBUF_FLAG_IS_CUSTOM \<noteq> 0 then al_custom_free A h p
      else if pb_type pb = PBUF_POOL then al_memp_free A h MEMP_PBUF_POOL p
      else if pb_type pb = PBUF_ROM \<or> pb_type pb = PBUF_REF then al_memp_free A h MEMP_PBUF p
      else al_free A h p)"

definition pbuf_dealloc :: "'h alloc \<Rightarrow> 'h pstate \<Rightarrow> addr \<Rightarrow> pbuf \<Rightarrow> 'h pstate" where
  "pbuf_dealloc A s p pb =
     s\<lparr>heap := pbuf_release A (heap s) p pb, pbufs := (pbufs s)(p := None)\<rparr>"

partial_function (option) pbuf_free_loop ::
  "'h alloc \<Rightarrow> 'h pstate \<Rightarrow> addr \<Rightarrow> u8 \<Rightarrow> ('h pstate \<times> u8) option" where
  "pbuf_free_loop A s p count =
     (if p \<noteq> NULL then
        do {
          pb \<leftarrow> pbufs s p;
          let ref = pb_ref pb - 1;
          let s = set_pbuf p (pb\<lparr>pb_ref := ref\<rparr>) s;
          if ref = 0 then pbuf_free_loop A (pbuf_dealloc A s p pb) (pb_next pb) (count + 1)
          else Some (s, count)
        }
      else Some (s, count))"

definition pbuf_free :: "'h alloc \<Rightarrow> 'h pstate \<Rightarrow> addr \<Rightarrow> ('h pstate \<times> u8) option" where
  "pbuf_free A s p = (if p = NULL then Some (s, 0) else pbuf_free_loop A s p 0)"

partial_function (option) pbuf_clen_loop :: "store \<Rightarrow> addr \<Rightarrow> u8 \<Rightarrow> u8 option" where
  "pbuf_clen_loop st p len =
     (if p \<noteq> NULL then do { pb \<leftarrow> st p; pbuf_clen_loop st (pb_next pb) (len + 1) }
      else Some len)"

definition pbuf_clen :: "'h pstate \<Rightarrow> addr \<Rightarrow> u8 option" where
  "pbuf_clen s p = pbuf_clen_loop (pbufs s) p 0"

definition pbuf_ref :: "'h pstate \<Rightarrow> addr \<Rightarrow> 'h pstate option" where
  "pbuf_ref s p =
     (if p \<noteq> NULL then do { pb \<leftarrow> pbufs s p; Some (set_pbuf p (pb\<lparr>pb_ref := pb_ref pb + 1\<rparr>) s) }
      else Some s)"

section \<open>Allocation\<close>

definition layer_offset :: "pbuf_layer \<Rightarrow> u16" where
  "layer_offset layer =
     (case layer of
        PBUF_TRANSPORT \<Rightarrow> PBUF_TRANSPORT_HLEN + PBUF_IP_HLEN + PBUF_LINK_HLEN
      | PBUF_IP \<Rightarrow> PBUF_IP_HLEN + PBUF_LINK_HLEN
      | PBUF_LINK \<Rightarrow> PBUF_LINK_HLEN
      | PBUF_RAW \<Rightarrow> 0)"

text \<open>The loop that allocates the tail of a \<open>PBUF_POOL\<close> chain: head \<open>p\<close>, last pbuf so far \<open>r\<close>.\<close>

partial_function (option) pbuf_alloc_tail ::
  "'h alloc \<Rightarrow> 'h pstate \<Rightarrow> addr \<Rightarrow> addr \<Rightarrow> int \<Rightarrow> ('h pstate \<times> addr) option" where
  "pbuf_alloc_tail A s p r rem_len =
     (if rem_len > 0 then
        let (h, q) = al_memp_malloc A (heap s) MEMP_PBUF_POOL
        in if q = NULL then
             do { (s, _) \<leftarrow> pbuf_free A (s\<lparr>heap := h\<rparr>) p; Some (s, NULL) }
           else do {
             rb \<leftarrow> pbufs s r;
             let qlen = min (of_int rem_len) (of_nat PBUF_POOL_BUFSIZE_ALIGNED);
             let qb = \<lparr>pb_next = NULL, pb_payload = q + SIZEOF_STRUCT_PBUF,
                       pb_tot_len = of_int rem_len, pb_len = qlen,
                       pb_type = PBUF_POOL, pb_flags = 0, pb_ref = 1\<rparr>;
             let s = set_pbuf r (rb\<lparr>pb_next := q\<rparr>) (set_pbuf q qb (s\<lparr>heap := h\<rparr>));
             pbuf_alloc_tail A s p q (rem_len - uint qlen)
           }
      else Some (s, p))"

definition pbuf_alloc ::
  "'h alloc \<Rightarrow> 'h pstate \<Rightarrow> pbuf_layer \<Rightarrow> u16 \<Rightarrow> pbuf_type \<Rightarrow> ('h pstate \<times> addr) option" where
  "pbuf_alloc A s layer len type =
     (let offset = unat (layer_offset layer);
          finish = (\<lambda>(s, p). if p = NULL then Some (s, NULL) else do {
             pb \<leftarrow> pbufs s p;
             Some (set_pbuf p (pb\<lparr>pb_ref := 1, pb_flags := 0\<rparr>) s, p) })
      in case type of
           PBUF_POOL \<Rightarrow>
             (let (h, p) = al_memp_malloc A (heap s) MEMP_PBUF_POOL
              in if p = NULL then Some (s\<lparr>heap := h\<rparr>, NULL)
                 else do {
                   let plen = min len (of_nat (PBUF_POOL_BUFSIZE_ALIGNED - LWIP_MEM_ALIGN_SIZE offset));
                   let pb = (al_fresh A h p)\<lparr>pb_type := type, pb_next := NULL,
                        pb_payload := LWIP_MEM_ALIGN (p + (SIZEOF_STRUCT_PBUF + offset)),
                        pb_tot_len := len, pb_len := plen, pb_ref := 1\<rparr>;
                   sp \<leftarrow> pbuf_alloc_tail A (set_pbuf p pb (s\<lparr>heap := h\<rparr>)) p p (uint len - uint plen);
                   finish sp
                 })
         | PBUF_RAM \<Rightarrow>
             (let (h, p) = al_malloc A (heap s)
                    (LWIP_MEM_ALIGN_SIZE (SIZEOF_STRUCT_PBUF + offset) + LWIP_MEM_ALIGN_SIZE (unat len))
              in if p = NULL then Some (s\<lparr>heap := h\<rparr>, NULL)
                 else
                   let pb = (al_fresh A h p)\<lparr>pb_payload := LWIP_MEM_ALIGN (p + SIZEOF_STRUCT_PBUF + offset),
                        pb_len := len, pb_tot_len := len, pb_next := NULL, pb_type := type\<rparr>
                   in finish (set_pbuf p pb (s\<lparr>heap := h\<rparr>), p))
         | _ \<Rightarrow>
             (let (h, p) = al_memp_malloc A (heap s) MEMP_PBUF
              in if p = NULL then Some (s\<lparr>heap := h\<rparr>, NULL)
                 else
                   let pb = (al_fresh A h p)\<lparr>pb_payload := NULL, pb_len := len, pb_tot_len := len,
                        pb_next := NULL, pb_type := type\<rparr>
                   in finish (set_pbuf p pb (s\<lparr>heap := h\<rparr>), p)))"

definition pbuf_alloced_custom ::
  "'h pstate \<Rightarrow> pbuf_layer \<Rightarrow> u16 \<Rightarrow> pbuf_type \<Rightarrow> addr \<Rightarrow> addr \<Rightarrow> u16 \<Rightarrow> 'h pstate \<times> addr" where
  "pbuf_alloced_custom s l len type p payload_mem payload_mem_len =
     (let offset = unat (layer_offset l)
      in if LWIP_MEM_ALIGN_SIZE offset + unat len < unat payload_mem_len then (s, NULL)
         else
           (set_pbuf p \<lparr>pb_next = NULL,
              pb_payload = (if payload_mem \<noteq> NULL then payload_mem + offset else NULL),
              pb_tot_len = len, pb_len = len, pb_type = type,
              pb_flags = PBUF_FLAG_IS_CUSTOM, pb_ref = 1\<rparr> s, p))"

section \<open>Chains\<close>

partial_function (option) pbuf_realloc_skip ::
  "'h pstate \<Rightarrow> addr \<Rightarrow> u16 \<Rightarrow> u16 \<Rightarrow> ('h pstate \<times> addr \<times> u16) option" where
  "pbuf_realloc_skip s q rem_len grow =
     do {
       qb \<leftarrow> pbufs s q;
       if rem_len > pb_len qb then
         pbuf_realloc_skip (set_pbuf q (qb\<lparr>pb_tot_len := pb_tot_len qb + grow\<rparr>) s)
           (pb_next qb) (rem_len - pb_len qb) grow
       else Some (s, q, rem_len)
     }"

definition pbuf_realloc :: "'h alloc \<Rightarrow> 'h pstate \<Rightarrow> addr \<Rightarrow> u16 \<Rightarrow> 'h pstate option" where
  "pbuf_realloc A s p new_len =
     do {
       pb \<leftarrow> pbufs s p;
       if new_len \<ge> pb_tot_len pb then Some s
       else do {
         let grow = uint new_len - uint (pb_tot_len pb);
         (s, q, rem_len) \<leftarrow> pbuf_realloc_skip s p new_len (of_int grow);
         qb \<leftarrow> pbufs s q;
         let (h, q) = (if pb_type qb = PBUF_RAM \<and> rem_len \<noteq> pb_len qb
                       then al_trim A (heap s) q (unat (of_nat (pb_payload qb - q) :: u16) + unat rem_len)
                       else (heap s, q));
         let s = s\<lparr>heap := h\<rparr>;
         qb \<leftarrow> pbufs s q;
         let s = set_pbuf q (qb\<lparr>pb_len := rem_len, pb_tot_len := rem_len\<rparr>) s;
         (s, _) \<leftarrow> (if pb_next qb \<noteq> NULL then pbuf_free A s (pb_next qb) else Some (s, 0));
         qb \<leftarrow> pbufs s q;
         Some (set_pbuf q (qb\<lparr>pb_next := NULL\<rparr>) s)
       }
     }"

definition pbuf_header :: "'h pstate \<Rightarrow> addr \<Rightarrow> 16 word \<Rightarrow> ('h pstate \<times> u8) option" where
  "pbuf_header s p inc =
     (if inc = 0 \<or> p = NULL then Some (s, 0)
      else do {
        pb \<leftarrow> pbufs s p;
        let increment_magnitude = (if sint inc < 0 then - inc else inc);
        if sint inc < 0 \<and> \<not> increment_magnitude \<le> pb_len pb then Some (s, 1)
        else do {
          let payload = int (pb_payload pb) - sint inc;
          let done = (set_pbuf p (pb\<lparr>pb_payload := nat payload, pb_len := pb_len pb + inc,
                                     pb_tot_len := pb_tot_len pb + inc\<rparr>) s, 0);
          if pb_type pb = PBUF_RAM \<or> pb_type pb = PBUF_POOL then
            if payload < int (p + SIZEOF_STRUCT_PBUF) then Some (s, 1) else Some done
          else if sint inc < 0 \<and> increment_magnitude \<le> pb_len pb then Some done
          else Some (s, 1)
        }
      })"

partial_function (option) pbuf_cat_loop :: "'h pstate \<Rightarrow> addr \<Rightarrow> addr \<Rightarrow> ('h pstate \<times> addr) option" where
  "pbuf_cat_loop s p t =
     do {
       pb \<leftarrow> pbufs s p;
       if pb_next pb \<noteq> NULL then do {
         tb \<leftarrow> pbufs s t;
         pbuf_cat_loop (set_pbuf p (pb\<lparr>pb_tot_len := pb_tot_len pb + pb_tot_len tb\<rparr>) s) (pb_next pb) t
       } else Some (s, p)
     }"

definition pbuf_cat :: "'h pstate \<Rightarrow> addr \<Rightarrow> addr \<Rightarrow> 'h pstate option" where
  "pbuf_cat s h t =
     (if h \<noteq> NULL \<and> t \<noteq> NULL then do {
        (s, p) \<leftarrow> pbuf_cat_loop s h t;
        pb \<leftarrow> pbufs s p;
        tb \<leftarrow> pbufs s t;
        Some (set_pbuf p (pb\<lparr>pb_tot_len := pb_tot_len pb + pb_tot_len tb, pb_next := t\<rparr>) s)
      } else Some s)"

definition pbuf_chain :: "'h pstate \<Rightarrow> addr \<Rightarrow> addr \<Rightarrow> 'h pstate option" where
  "pbuf_chain s h t = do { s \<leftarrow> pbuf_cat s h t; pbuf_ref s t }"

definition pbuf_dechain :: "'h alloc \<Rightarrow> 'h pstate \<Rightarrow> addr \<Rightarrow> ('h pstate \<times> addr) option" where
  "pbuf_dechain A s p =
     do {
       pb \<leftarrow> pbufs s p;
       let q = pb_next pb;
       (s, tail_gone) \<leftarrow>
         (if q \<noteq> NULL then do {
            qb \<leftarrow> pbufs s q;
            let s = set_pbuf q (qb\<lparr>pb_tot_len := pb_tot_len pb - pb_len pb\<rparr>) s;
            let s = set_pbuf p (pb\<lparr>pb_next := NULL, pb_tot_len := pb_len pb\<rparr>) s;
            pbuf_free A s q
          } else Some (s, 1));
       Some (s, if tail_gone > 0 then NULL else q)
     }"

section \<open>Data\<close>

partial_function (option) pbuf_copy_loop ::
  "store \<Rightarrow> bytes \<Rightarrow> addr \<Rightarrow> u16 \<Rightarrow> addr \<Rightarrow> u16 \<Rightarrow> (bytes \<times> err_t) option" where
  "pbuf_copy_loop st m p_to offset_to p_from offset_from =
     do {
       tb \<leftarrow> st p_to;
       fb \<leftarrow> st p_from;
       let len = (if uint (pb_len tb) - uint offset_to \<ge> uint (pb_len fb) - uint offset_from
                  then pb_len fb - offset_from else pb_len tb - offset_to);
       let m = MEMCPY m (pb_payload tb + unat offset_to) (pb_payload fb + unat offset_from) (unat len);
       let offset_to = offset_to + len;
       let offset_from = offset_from + len;
       let (p_to, offset_to) = (if offset_to = pb_len tb then (pb_next tb, 0) else (p_to, offset_to));
       let (p_from, offset_from) =
         (if offset_from \<ge> pb_len fb then (pb_next fb, 0) else (p_from, offset_from));
       queue_from \<leftarrow> (if p_from \<noteq> NULL then do {
            fb \<leftarrow> st p_from; Some (pb_len fb = pb_tot_len fb \<and> pb_next fb \<noteq> NULL) } else Some False);
       if queue_from then Some (m, ERR_VAL)
       else do {
         queue_to \<leftarrow> (if p_to \<noteq> NULL then do {
              tb \<leftarrow> st p_to; Some (pb_len tb = pb_tot_len tb \<and> pb_next tb \<noteq> NULL) } else Some False);
         if queue_to then Some (m, ERR_VAL)
         else if p_from \<noteq> NULL then pbuf_copy_loop st m p_to offset_to p_from offset_from
         else Some (m, ERR_OK)
       }
     }"

definition pbuf_copy :: "'h pstate \<Rightarrow> addr \<Rightarrow> addr \<Rightarrow> ('h pstate \<times> err_t) option" where
  "pbuf_copy s p_to p_from =
     (if p_to = NULL \<or> p_from = NULL then Some (s, ERR_ARG)
      else do {
        tb \<leftarrow> pbufs s p_to;
        fb \<leftarrow> pbufs s p_from;
        if \<not> pb_tot_len tb \<ge> pb_tot_len fb then Some (s, ERR_ARG)
        else do {
          (m, err) \<leftarrow> pbuf_copy_loop (pbufs s) (dmem s) p_to 0 p_from 0;
          Some (s\<lparr>dmem := m\<rparr>, err)
        }
      })"

partial_function (option) pbuf_copy_partial_loop ::
  "store \<Rightarrow> bytes \<Rightarrow> addr \<Rightarrow> addr \<Rightarrow> u16 \<Rightarrow> u16 \<Rightarrow> u16 \<Rightarrow> u16 \<Rightarrow> (bytes \<times> u16) option" where
  "pbuf_copy_partial_loop st m p dataptr len offset left copied_total =
     (if len \<noteq> 0 \<and> p \<noteq> NULL then
        do {
          pb \<leftarrow> st p;
          if offset \<noteq> 0 \<and> offset \<ge> pb_len pb then
            pbuf_copy_partial_loop st m (pb_next pb) dataptr len (offset - pb_len pb) left copied_total
          else do {
            let buf_copy_len = pb_len pb - offset;
            let buf_copy_len = (if buf_copy_len > len then len else buf_copy_len);
            let m = MEMCPY m (dataptr + unat left) (pb_payload pb + unat offset) (unat buf_copy_len);
            pbuf_copy_partial_loop st m (pb_next pb) dataptr (len - buf_copy_len) 0
              (left + buf_copy_len) (copied_total + buf_copy_len)
          }
        }
      else Some (m, copied_total))"

definition pbuf_copy_partial ::
  "'h pstate \<Rightarrow> addr \<Rightarrow> addr \<Rightarrow> u16 \<Rightarrow> u16 \<Rightarrow> ('h pstate \<times> u16) option" where
  "pbuf_copy_partial s buf dataptr len offset =
     (if buf = NULL \<or> dataptr = NULL then Some (s, 0)
      else do {
        (m, copied) \<leftarrow> pbuf_copy_partial_loop (pbufs s) (dmem s) buf dataptr len offset 0 0;
        Some (s\<lparr>dmem := m\<rparr>, copied)
      })"

partial_function (option) pbuf_take_loop ::
  "store \<Rightarrow> bytes \<Rightarrow> addr \<Rightarrow> addr \<Rightarrow> u16 \<Rightarrow> u16 \<Rightarrow> bytes option" where
  "pbuf_take_loop st m p dataptr total_copy_len copied_total =
     (if total_copy_len \<noteq> 0 then
        do {
          pb \<leftarrow> st p;
          let buf_copy_len = (if total_copy_len > pb_len pb then pb_len pb else total_copy_len);
          let m = MEMCPY m (pb_payload pb) (dataptr + unat copied_total) (unat buf_copy_len);
          pbuf_take_loop st m (pb_next pb) dataptr (total_copy_len - buf_copy_len)
            (copied_total + buf_copy_len)
        }
      else Some m)"

text \<open>\<^verbatim>\<open>LWIP_ERROR\<close> runs its handler also where assertions are off: \<^verbatim>\<open>return 0\<close>, that is \<open>ERR_OK\<close>.\<close>

definition pbuf_take :: "'h pstate \<Rightarrow> addr \<Rightarrow> addr \<Rightarrow> u16 \<Rightarrow> ('h pstate \<times> err_t) option" where
  "pbuf_take s buf dataptr len =
     (if buf = NULL then Some (s, ERR_OK)
      else if dataptr = NULL then Some (s, ERR_OK)
      else do {
        pb \<leftarrow> pbufs s buf;
        if pb_tot_len pb < len then Some (s, ERR_ARG)
        else do {
          m \<leftarrow> pbuf_take_loop (pbufs s) (dmem s) buf dataptr len 0;
          Some (s\<lparr>dmem := m\<rparr>, ERR_OK)
        }
      })"

definition pbuf_coalesce :: "'h alloc \<Rightarrow> 'h pstate \<Rightarrow> addr \<Rightarrow> pbuf_layer \<Rightarrow> ('h pstate \<times> addr) option" where
  "pbuf_coalesce A s p layer =
     do {
       pb \<leftarrow> pbufs s p;
       if pb_next pb = NULL then Some (s, p)
       else do {
         (s, q) \<leftarrow> pbuf_alloc A s layer (pb_tot_len pb) PBUF_RAM;
         if q = NULL then Some (s, p)
         else do {
           (s, err) \<leftarrow> pbuf_copy s q p;
           (s, _) \<leftarrow> pbuf_free A s p;
           Some (s, q)
         }
       }
     }"

definition pbuf_fill_chksum ::
  "(addr \<Rightarrow> u8 list \<Rightarrow> u16) \<Rightarrow> 'h pstate \<Rightarrow> addr \<Rightarrow> u16 \<Rightarrow> addr \<Rightarrow> u16 \<Rightarrow> u16
    \<Rightarrow> ('h pstate \<times> u16 \<times> err_t) option" where
  "pbuf_fill_chksum chk s p start_offset dataptr len chksum =
     do {
       pb \<leftarrow> pbufs s p;
       if start_offset \<ge> pb_len pb \<or> unat start_offset + unat len > unat (pb_len pb)
       then Some (s, chksum, ERR_ARG)
       else do {
         let (m, copy_chksum) =
           lwip_chksum_copy chk (dmem s) (pb_payload pb + unat start_offset) dataptr len;
         let copy_chksum = (if start_offset AND 1 \<noteq> 0
            then ucast (SWAP_BYTES_IN_WORD (ucast copy_chksum)) else copy_chksum);
         let acc = ucast chksum + ucast copy_chksum;
         Some (s\<lparr>dmem := m\<rparr>, ucast (FOLD_U32T acc), ERR_OK)
       }
     }"

text \<open>The loop that finds the pbuf with a given offset.\<close>

partial_function (option) pbuf_skip :: "store \<Rightarrow> addr \<Rightarrow> u16 \<Rightarrow> (addr \<times> u16) option" where
  "pbuf_skip st q start =
     (if q \<noteq> NULL then
        do {
          qb \<leftarrow> st q;
          if pb_len qb \<le> start then pbuf_skip st (pb_next qb) (start - pb_len qb)
          else Some (q, start)
        }
      else Some (q, start))"

definition pbuf_get_at :: "'h pstate \<Rightarrow> addr \<Rightarrow> u16 \<Rightarrow> u8 option" where
  "pbuf_get_at s p offset =
     do {
       (q, copy_from) \<leftarrow> pbuf_skip (pbufs s) p offset;
       if q \<noteq> NULL then do {
         qb \<leftarrow> pbufs s q;
         Some (if pb_len qb > copy_from then dmem s (pb_payload qb + unat copy_from) else 0)
       } else Some 0
     }"

partial_function (option) pbuf_memcmp_loop ::
  "'h pstate \<Rightarrow> addr \<Rightarrow> u16 \<Rightarrow> addr \<Rightarrow> u16 \<Rightarrow> u16 \<Rightarrow> u16 option" where
  "pbuf_memcmp_loop s q start s2 n i =
     (if i < n then
        do {
          a \<leftarrow> pbuf_get_at s q (start + i);
          let b = dmem s (s2 + unat i);
          if a \<noteq> b then Some (i + 1) else pbuf_memcmp_loop s q start s2 n (i + 1)
        }
      else Some 0)"

definition pbuf_memcmp :: "'h pstate \<Rightarrow> addr \<Rightarrow> u16 \<Rightarrow> addr \<Rightarrow> u16 \<Rightarrow> u16 option" where
  "pbuf_memcmp s p offset s2 n =
     do {
       (q, start) \<leftarrow> pbuf_skip (pbufs s) p offset;
       if q \<noteq> NULL then do {
         qb \<leftarrow> pbufs s q;
         if pb_len qb > start then pbuf_memcmp_loop s q start s2 n 0 else Some 0xffff
       } else Some 0xffff
     }"

partial_function (option) pbuf_memfind_loop ::
  "'h pstate \<Rightarrow> addr \<Rightarrow> addr \<Rightarrow> u16 \<Rightarrow> u16 \<Rightarrow> u16 \<Rightarrow> u16 option" where
  "pbuf_memfind_loop s p mem mem_len last_i i =
     (if i \<le> last_i then
        do {
          plus \<leftarrow> pbuf_memcmp s p i mem mem_len;
          if plus = 0 then Some i else pbuf_memfind_loop s p mem mem_len last_i (i + plus)
        }
      else Some 0xFFFF)"

definition pbuf_memfind :: "'h pstate \<Rightarrow> addr \<Rightarrow> addr \<Rightarrow> u16 \<Rightarrow> u16 \<Rightarrow> u16 option" where
  "pbuf_memfind s p mem mem_len start_offset =
     do {
       pb \<leftarrow> pbufs s p;
       let last_i = pb_tot_len pb - mem_len;
       if unat (pb_tot_len pb) \<ge> unat mem_len + unat start_offset
       then pbuf_memfind_loop s p mem mem_len last_i start_offset
       else Some 0xFFFF
     }"

partial_function (option) strlen_loop :: "bytes \<Rightarrow> addr \<Rightarrow> nat \<Rightarrow> nat option" where
  "strlen_loop m a n = (if m (a + n) = 0 then Some n else strlen_loop m a (n + 1))"

definition pbuf_strstr :: "'h pstate \<Rightarrow> addr \<Rightarrow> addr \<Rightarrow> u16 option" where
  "pbuf_strstr s p substr =
     (if substr = NULL \<or> dmem s substr = 0 then Some 0xFFFF
      else do {
        pb \<leftarrow> pbufs s p;
        if pb_tot_len pb = 0xFFFF then Some 0xFFFF
        else do {
          substr_len \<leftarrow> strlen_loop (dmem s) substr 0;
          if substr_len \<ge> 0xFFFF then Some 0xFFFF
          else pbuf_memfind s p substr (of_nat substr_len) 0
        }
      })"

declare pbuf_free_loop.simps [code] pbuf_clen_loop.simps [code] pbuf_alloc_tail.simps [code]
  pbuf_realloc_skip.simps [code] pbuf_cat_loop.simps [code] pbuf_copy_loop.simps [code]
  pbuf_copy_partial_loop.simps [code] pbuf_take_loop.simps [code] pbuf_skip.simps [code]
  pbuf_memcmp_loop.simps [code] pbuf_memfind_loop.simps [code] strlen_loop.simps [code]

section \<open>Chains, their lengths and their contents\<close>

fun pchain :: "store \<Rightarrow> addr \<Rightarrow> addr list \<Rightarrow> bool" where
  "pchain st p [] \<longleftrightarrow> p = NULL"
| "pchain st p (a # as) \<longleftrightarrow>
     p = a \<and> a \<noteq> NULL \<and> (case st a of None \<Rightarrow> False | Some pb \<Rightarrow> pchain st (pb_next pb) as)"

abbreviation pb_at :: "store \<Rightarrow> addr \<Rightarrow> pbuf" where
  "pb_at st a \<equiv> the (st a)"

definition lens :: "store \<Rightarrow> addr list \<Rightarrow> nat" where
  "lens st as = sum_list (map (\<lambda>a. unat (pb_len (pb_at st a))) as)"

fun tot_ok :: "store \<Rightarrow> addr list \<Rightarrow> bool" where
  "tot_ok st [] \<longleftrightarrow> True"
| "tot_ok st (a # as) \<longleftrightarrow> unat (pb_tot_len (pb_at st a)) = lens st (a # as) \<and> tot_ok st as"

definition pdata :: "store \<Rightarrow> bytes \<Rightarrow> addr list \<Rightarrow> u8 list" where
  "pdata st m as = concat (map (\<lambda>a. mem_read m (pb_payload (pb_at st a)) (unat (pb_len (pb_at st a)))) as)"

lemma lens_simps [simp]:
  "lens st [] = 0" "lens st (a # as) = unat (pb_len (pb_at st a)) + lens st as"
  "lens st (as @ bs) = lens st as + lens st bs"
  by (simp_all add: lens_def)

lemma pdata_simps [simp]:
  "pdata st m [] = []"
  "pdata st m (a # as) = mem_read m (pb_payload (pb_at st a)) (unat (pb_len (pb_at st a))) @ pdata st m as"
  "pdata st m (as @ bs) = pdata st m as @ pdata st m bs"
  by (simp_all add: pdata_def)

lemma length_pdata [simp]: "length (pdata st m as) = lens st as"
  by (induction as) auto

lemma set_pbuf_sel [simp]:
  "pbufs (set_pbuf p pb s) = (pbufs s)(p \<mapsto> pb)" "heap (set_pbuf p pb s) = heap s"
  "dmem (set_pbuf p pb s) = dmem s"
  by (simp_all add: set_pbuf_def)

lemma pbuf_dealloc_sel [simp]:
  "pbufs (pbuf_dealloc A s p pb) = (pbufs s)(p := None)"
  "heap (pbuf_dealloc A s p pb) = pbuf_release A (heap s) p pb"
  "dmem (pbuf_dealloc A s p pb) = dmem s"
  by (simp_all add: pbuf_dealloc_def)

lemma pchain_NULL [simp]: "pchain st 0 as \<longleftrightarrow> as = []"
  by (cases as) auto

lemma pchain_nonNULL: "pchain st p as \<Longrightarrow> p \<noteq> 0 \<Longrightarrow> \<exists>bs pb. as = p # bs \<and> st p = Some pb \<and> pchain st (pb_next pb) bs"
  by (cases as) (auto split: option.splits)

lemma pchain_live: "pchain st p as \<Longrightarrow> a \<in> set as \<Longrightarrow> a \<noteq> 0 \<and> st a \<noteq> None"
  by (induction st p as rule: pchain.induct) (auto split: option.splits)

lemma pchain_cong:
  assumes "\<And>a. a \<in> set as \<Longrightarrow> map_option pb_next (st a) = map_option pb_next (st' a)"
  shows "pchain st p as = pchain st' p as"
  using assms
proof (induction as arbitrary: p)
  case (Cons a as)
  from Cons.prems [of a] Cons.IH Cons.prems show ?case
    by (cases "st a"; cases "st' a") auto
qed simp

lemma pchain_upd_other [simp]: "a \<notin> set as \<Longrightarrow> pchain (st(a := x)) p as = pchain st p as"
  by (rule pchain_cong) auto

lemma lens_cong:
  "(\<And>a. a \<in> set as \<Longrightarrow> pb_len (pb_at st a) = pb_len (pb_at st' a)) \<Longrightarrow> lens st as = lens st' as"
  by (induction as) auto

lemma lens_upd_other [simp]: "a \<notin> set as \<Longrightarrow> lens (st(a := x)) as = lens st as"
  by (rule lens_cong) auto

lemma tot_ok_cong:
  assumes "\<And>a. a \<in> set as \<Longrightarrow> pb_len (pb_at st a) = pb_len (pb_at st' a)"
    and "\<And>a. a \<in> set as \<Longrightarrow> pb_tot_len (pb_at st a) = pb_tot_len (pb_at st' a)"
  shows "tot_ok st as = tot_ok st' as"
  using assms
proof (induction as)
  case (Cons a as)
  have "lens st as = lens st' as"
    using Cons.prems by (intro lens_cong) auto
  with Cons show ?case
    by simp
qed simp

lemma tot_ok_upd_other [simp]: "a \<notin> set as \<Longrightarrow> tot_ok (st(a := x)) as = tot_ok st as"
  by (rule tot_ok_cong) auto

lemma pdata_cong:
  assumes "\<And>a. a \<in> set as \<Longrightarrow> pb_len (pb_at st a) = pb_len (pb_at st' a)"
    and "\<And>a. a \<in> set as \<Longrightarrow> pb_payload (pb_at st a) = pb_payload (pb_at st' a)"
  shows "pdata st m as = pdata st' m as"
  using assms by (induction as) auto

lemma pdata_upd_other [simp]: "a \<notin> set as \<Longrightarrow> pdata (st(a := x)) m as = pdata st m as"
  by (rule pdata_cong) auto

text \<open>A chain that ends is not cyclic: the addresses of its pbufs are distinct.\<close>

lemma pchain_unique: "pchain st p as \<Longrightarrow> pchain st p bs \<Longrightarrow> as = bs"
proof (induction as arbitrary: p bs)
  case (Cons a as)
  then show ?case
    by (cases bs) (auto split: option.splits)
qed simp

lemma pchain_split:
  "pchain st p (as @ a # bs) \<Longrightarrow> pchain st a (a # bs)"
proof (induction as arbitrary: p)
  case (Cons b as)
  from Cons.prems obtain pb :: pbuf where "pchain st (pb_next pb) (as @ a # bs)"
    by (auto split: option.splits)
  then show ?case
    by (rule Cons.IH)
qed auto

lemma pchain_distinct: "pchain st p as \<Longrightarrow> distinct as"
proof (induction as arbitrary: p)
  case (Cons a as)
  then have d: "distinct as"
    by (auto split: option.splits)
  have "a \<notin> set as"
  proof
    assume "a \<in> set as"
    then obtain xs ys where as: "as = xs @ a # ys"
      by (meson split_list)
    then have "pchain st a (a # ys)"
      using Cons.prems pchain_split [of st p "a # xs" a ys] by simp
    moreover have "pchain st a (a # as)"
      using Cons.prems by auto
    ultimately show False
      using pchain_unique [of st a "a # as" "a # ys"] as by simp
  qed
  with d show ?case
    by simp
qed simp

section \<open>Freeing and counting\<close>

definition freed_prefix :: "store \<Rightarrow> addr list \<Rightarrow> addr list" where
  "freed_prefix st as = takeWhile (\<lambda>a. pb_ref (pb_at st a) = 1) as"

lemma freed_prefix_simps [simp]:
  "freed_prefix st [] = []"
  "freed_prefix st (a # as) = (if pb_ref (pb_at st a) = 1 then a # freed_prefix st as else [])"
  by (simp_all add: freed_prefix_def)

lemma freed_prefix_upd [simp]: "a \<notin> set as \<Longrightarrow> freed_prefix (st(a := x)) as = freed_prefix st as"
  unfolding freed_prefix_def by (auto intro: takeWhile_cong)

lemma freed_prefix_subset: "set (freed_prefix st as) \<subseteq> set as"
  unfolding freed_prefix_def by (auto dest: set_takeWhileD)

lemma freed_prefix_length: "length (freed_prefix st as) \<le> length as"
  unfolding freed_prefix_def by (rule length_takeWhile_le)

definition free_result :: "'h alloc \<Rightarrow> 'h pstate \<Rightarrow> addr list \<Rightarrow> 'h pstate \<Rightarrow> bool" where
  "free_result A s as s' \<longleftrightarrow>
     (let freed = freed_prefix (pbufs s) as
      in (\<forall>a. pbufs s' a =
            (if a \<in> set freed then None
             else if length freed < length as \<and> a = as ! length freed
             then map_option (\<lambda>pb. pb\<lparr>pb_ref := pb_ref pb - 1\<rparr>) (pbufs s a)
             else pbufs s a))
         \<and> heap s' = foldl (\<lambda>h a. pbuf_release A h a (pb_at (pbufs s) a)) (heap s) freed
         \<and> dmem s' = dmem s)"

lemma pbuf_free_loop_chain:
  "pchain (pbufs s) p as \<Longrightarrow>
   \<exists>s'. pbuf_free_loop A s p count = Some (s', count + of_nat (length (freed_prefix (pbufs s) as)))
      \<and> free_result A s as s'"
proof (induction as arbitrary: s p count)
  case Nil
  then show ?case
    by (simp add: pbuf_free_loop.simps free_result_def)
next
  case (Cons a as)
  then obtain pb where pb: "p = a" "a \<noteq> 0" "pbufs s a = Some pb" "pchain (pbufs s) (pb_next pb) as"
    by (auto split: option.splits)
  have d: "a \<notin> set as"
    using pchain_distinct [OF Cons.prems] by simp
  show ?case
  proof (cases "pb_ref pb = 1")
    case False
    then show ?thesis
      using pb by (subst pbuf_free_loop.simps) (auto simp: free_result_def Let_def)
  next
    case True
    let ?s = "pbuf_dealloc A (set_pbuf a (pb\<lparr>pb_ref := 0\<rparr>) s) a pb"
    have "pchain (pbufs ?s) (pb_next pb) as"
      using pb d by simp
    from Cons.IH [OF this, of "count + 1"] obtain s' where s':
      "pbuf_free_loop A ?s (pb_next pb) (count + 1)
         = Some (s', count + 1 + of_nat (length (freed_prefix (pbufs ?s) as)))"
      "free_result A ?s as s'"
      by blast
    have fp: "freed_prefix (pbufs ?s) as = freed_prefix (pbufs s) as"
      using d by (simp add: freed_prefix_upd)
    have "foldl (\<lambda>h b. pbuf_release A h b (pb_at (pbufs ?s) b)) (heap ?s) (freed_prefix (pbufs s) as)
        = foldl (\<lambda>h b. pbuf_release A h b (pb_at (pbufs s) b)) (heap ?s) (freed_prefix (pbufs s) as)"
      using d freed_prefix_subset [of "pbufs s" as] by (intro foldl_cong) auto
    then have "free_result A s (a # as) s'"
      using s'(2) pb True d fp freed_prefix_subset [of "pbufs s" as]
      unfolding free_result_def Let_def by (auto simp: nth_Cons' dest!: nth_mem)
    then show ?thesis
      using pb True s'(1) fp by (subst pbuf_free_loop.simps) (auto simp: Let_def ac_simps)
  qed
qed

end
