(* ===== verification/Pbuf_Chain.thy ===== *)
theory Pbuf_Chain
  imports Pbuf
begin

text \<open>
  Properties of the operations on the structure of pbuf chains: freeing, counting, concatenating,
  splitting, shrinking, and moving the payload pointer.  A chain is well formed when it ends
  (\<open>pchain\<close>) and every \<^verbatim>\<open>tot_len\<close> is the sum of the \<^verbatim>\<open>len\<close> fields from there on (\<open>tot_ok\<close>), the
  invariant that \<^verbatim>\<open>include/lwip/pbuf.h\<close> states.
\<close>

section \<open>Counting and concatenation\<close>

lemma pbuf_clen_loop_chain: "pchain st p as \<Longrightarrow> pbuf_clen_loop st p n = Some (n + of_nat (length as))"
proof (induction as arbitrary: p n)
  case Nil
  then show ?case
    by (simp add: pbuf_clen_loop.simps)
next
  case (Cons a as)
  then show ?case
    by (subst pbuf_clen_loop.simps) (auto split: option.splits)
qed

text \<open>A chain stays a chain when its last link is redirected to another chain.\<close>

lemma pchain_append:
  assumes "pchain st h as" "as \<noteq> []" "pchain st' t bs"
    and "\<And>a. a \<in> set as \<Longrightarrow> map_option pb_next (st' a)
      = Some (if a = last as then t else pb_next (pb_at st a))"
  shows "pchain st' h (as @ bs)"
  using assms
proof (induction as arbitrary: h)
  case (Cons a as)
  from Cons.prems obtain pb where pb: "h = a" "a \<noteq> 0" "st a = Some pb" "pchain st (pb_next pb) as"
    by (auto split: option.splits)
  from Cons.prems(4) [of a] obtain pb' where pb': "st' a = Some pb'"
    "pb_next pb' = (if a = last (a # as) then t else pb_next pb)"
    using pb by auto
  show ?case
  proof (cases "as = []")
    case True
    then show ?thesis
      using pb pb' Cons.prems(3) by simp
  next
    case False
    have d: "distinct (a # as)"
      using Cons.prems(1) by (rule pchain_distinct)
    have "pchain st' (pb_next pb) (as @ bs)"
      using False Cons.prems pb by (intro Cons.IH) auto
    moreover have "a \<noteq> last as"
      using d False by auto
    ultimately show ?thesis
      using pb pb' False by simp
  qed
qed simp

lemma tot_ok_append:
  assumes "tot_ok st as" "tot_ok st' bs" "unat T = lens st' bs" "lens st as + lens st' bs < 65536"
    and "\<And>a. a \<in> set as \<Longrightarrow> pb_len (pb_at st' a) = pb_len (pb_at st a)"
    and "\<And>a. a \<in> set as \<Longrightarrow> pb_tot_len (pb_at st' a) = pb_tot_len (pb_at st a) + T"
  shows "tot_ok st' (as @ bs)"
  using assms
proof (induction as)
  case (Cons a as)
  have "lens st' (a # as) = lens st (a # as)"
    using Cons.prems by (intro lens_cong) auto
  moreover have "tot_ok st' (as @ bs)"
    using Cons.prems by (intro Cons.IH) auto
  moreover have "unat (pb_tot_len (pb_at st a) + T) = unat (pb_tot_len (pb_at st a)) + unat T"
    using Cons.prems by (intro unat_add_lem [THEN iffD1]) simp
  ultimately show ?case
    using Cons.prems by simp
qed simp

definition add_tot :: "u16 \<Rightarrow> pbuf \<Rightarrow> pbuf" where
  "add_tot T pb = pb\<lparr>pb_tot_len := pb_tot_len pb + T\<rparr>"

lemma pbuf_cat_loop_chain:
  assumes "pchain (pbufs s) p as" "as \<noteq> []" "t \<notin> set as" "pbufs s t = Some tb"
  shows "\<exists>s'. pbuf_cat_loop s p t = Some (s', last as) \<and> heap s' = heap s \<and> dmem s' = dmem s
    \<and> pbufs s' = (\<lambda>a. if a \<in> set (butlast as) then map_option (add_tot (pb_tot_len tb)) (pbufs s a)
                      else pbufs s a)"
  using assms
proof (induction as arbitrary: s p)
  case (Cons a as)
  from Cons.prems obtain pb where pb: "p = a" "a \<noteq> 0" "pbufs s a = Some pb" "pchain (pbufs s) (pb_next pb) as"
    by (auto split: option.splits)
  have d: "a \<notin> set as"
    using pchain_distinct [OF Cons.prems(1)] by simp
  show ?case
  proof (cases "as = []")
    case True
    then show ?thesis
      using pb by (subst pbuf_cat_loop.simps) simp
  next
    case False
    then have next_pb: "pb_next pb \<noteq> 0"
      using pb(4) by (metis pchain_NULL)
    let ?s = "set_pbuf a (pb\<lparr>pb_tot_len := pb_tot_len pb + pb_tot_len tb\<rparr>) s"
    have ch: "pchain (pbufs ?s) (pb_next pb) as"
      using pb d by simp
    have "t \<notin> set as" "pbufs ?s t = Some tb"
      using Cons.prems by auto
    from Cons.IH [OF ch False this] obtain s' where s': "pbuf_cat_loop ?s (pb_next pb) t = Some (s', last as)" "heap s' = heap s"
      "dmem s' = dmem s" "pbufs s' = (\<lambda>b. if b \<in> set (butlast as) then map_option (add_tot (pb_tot_len tb)) (pbufs ?s b)
                      else pbufs ?s b)"
      by (metis set_pbuf_sel(2,3))
    have "a \<notin> set (butlast as)"
      using d by (meson in_set_butlastD)
    then show ?thesis
      using s' pb next_pb False Cons.prems
      by (subst pbuf_cat_loop.simps) (auto simp: add_tot_def fun_eq_iff)
  qed
qed simp

definition cat_store :: "store \<Rightarrow> addr list \<Rightarrow> addr \<Rightarrow> store" where
  "cat_store st as t = (\<lambda>a. if a \<in> set as
     then map_option (\<lambda>pb. pb\<lparr>pb_tot_len := pb_tot_len pb + pb_tot_len (pb_at st t),
        pb_next := (if a = last as then t else pb_next pb)\<rparr>) (st a)
     else st a)"

lemma set_butlast_last: "as \<noteq> [] \<Longrightarrow> distinct as \<Longrightarrow> a \<in> set (butlast as) \<longleftrightarrow> a \<in> set as \<and> a \<noteq> last as"
  by (induction as) auto

lemma pbuf_cat_store:
  assumes "pchain (pbufs s) h as" "h \<noteq> NULL" "t \<notin> set as" "pbufs s t \<noteq> None" "t \<noteq> NULL"
  shows "pbuf_cat s h t = Some (s\<lparr>pbufs := cat_store (pbufs s) as t\<rparr>)"
proof -
  have ne: "as \<noteq> []"
    using assms by auto
  have d: "distinct as"
    using assms(1) by (rule pchain_distinct)
  obtain tb where tb: "pbufs s t = Some tb"
    using assms by auto
  from pbuf_cat_loop_chain [OF assms(1) ne assms(3) tb] obtain s' where s':
    "pbuf_cat_loop s h t = Some (s', last as)" "heap s' = heap s" "dmem s' = dmem s"
    "pbufs s' = (\<lambda>a. if a \<in> set (butlast as) then map_option (add_tot (pb_tot_len tb)) (pbufs s a)
       else pbufs s a)"
    by blast
  obtain lb where lb: "pbufs s (last as) = Some lb"
    using pchain_live [OF assms(1), of "last as"] ne by auto
  have t: "t \<noteq> last as" "t \<notin> set (butlast as)"
    using assms(3) ne by (auto dest: in_set_butlastD)
  have st: "pbufs s' (last as) = Some lb" "pbufs s' t = Some tb"
    using s' lb tb t set_butlast_last [OF ne d] by auto
  have "(pbufs s')(last as \<mapsto> lb\<lparr>pb_tot_len := pb_tot_len lb + pb_tot_len tb, pb_next := t\<rparr>)
      = cat_store (pbufs s) as t"
    using s' lb tb ne set_butlast_last [OF ne d]
    by (auto simp: fun_eq_iff cat_store_def add_tot_def intro!: option.map_cong)
  moreover have "s'\<lparr>pbufs := X\<rparr> = s\<lparr>pbufs := X\<rparr>" for X
    using s' by simp
  ultimately show ?thesis
    using assms s'(1) st by (simp add: pbuf_cat_def set_pbuf_def)
qed

lemma cat_store_chain:
  assumes "pchain st h as" "as \<noteq> []" "pchain st t bs" "bs \<noteq> []" "set as \<inter> set bs = {}"
    and "tot_ok st as" "tot_ok st bs" "lens st (as @ bs) < 65536"
  shows "pchain (cat_store st as t) h (as @ bs)" and "tot_ok (cat_store st as t) (as @ bs)"
    and "pdata (cat_store st as t) m (as @ bs) = pdata st m as @ pdata st m bs"
proof -
  let ?st = "cat_store st as t"
  have live: "\<exists>pb. st a = Some pb" if "a \<in> set as" for a
    using pchain_live [OF assms(1) that] by auto
  have t: "t \<in> set bs" "t \<notin> set as"
    using assms by (cases bs; auto)+
  have same: "?st a = st a" if "a \<in> set bs" for a
    using that assms(5) by (auto simp: cat_store_def)
  have "pchain ?st t bs"
    using assms(3) pchain_cong [of bs ?st st t] same by simp
  then show "pchain ?st h (as @ bs)"
    using assms(1,2) live by (intro pchain_append [where st = st]) (fastforce simp: cat_store_def)+
  have "unat (pb_tot_len (pb_at st t)) = lens st bs"
    using assms by (cases bs) auto
  moreover have "lens ?st bs = lens st bs" "tot_ok ?st bs"
    using assms(7) tot_ok_cong [of bs ?st st] lens_cong [of bs ?st st] same by simp_all
  ultimately show "tot_ok ?st (as @ bs)"
    using assms(6,8) live by (intro tot_ok_append [where st = st and T = "pb_tot_len (pb_at st t)"])
      (auto simp: cat_store_def dest!: live)
  have "pdata ?st m as = pdata st m as"
    using live by (intro pdata_cong) (fastforce simp: cat_store_def)+
  moreover have "pdata ?st m bs = pdata st m bs"
    using same by (intro pdata_cong) auto
  ultimately show "pdata ?st m (as @ bs) = pdata st m as @ pdata st m bs"
    by simp
qed

section \<open>Shrinking\<close>

text \<open>The number of pbufs that \<^verbatim>\<open>pbuf_realloc\<close> leaves in front of the new last one.\<close>

fun kept :: "store \<Rightarrow> addr list \<Rightarrow> nat \<Rightarrow> addr list" where
  "kept st [] n = []"
| "kept st (a # as) n =
     (if n > unat (pb_len (pb_at st a)) then a # kept st as (n - unat (pb_len (pb_at st a))) else [])"

lemma kept_upd_other [simp]: "a \<notin> set as \<Longrightarrow> kept (st(a := x)) as n = kept st as n"
  by (induction st as n rule: kept.induct) auto

lemma kept_split:
  assumes "n \<le> lens st as" "as \<noteq> []"
  shows "\<exists>q ys. as = kept st as n @ q # ys \<and> lens st (kept st as n) \<le> n
    \<and> n \<le> lens st (kept st as n) + unat (pb_len (pb_at st q))"
  using assms
proof (induction st as n rule: kept.induct)
  case (2 st a as n)
  show ?case
  proof (cases "n > unat (pb_len (pb_at st a))")
    case True
    then have "n - unat (pb_len (pb_at st a)) \<le> lens st as" "as \<noteq> []"
      using "2.prems" by auto
    from "2.IH" [OF True this] obtain q ys where
      "as = kept st as (n - unat (pb_len (pb_at st a))) @ q # ys"
      "lens st (kept st as (n - unat (pb_len (pb_at st a)))) \<le> n - unat (pb_len (pb_at st a))"
      "n - unat (pb_len (pb_at st a)) \<le> lens st (kept st as (n - unat (pb_len (pb_at st a)))) + unat (pb_len (pb_at st q))"
      by blast
    then show ?thesis
      using True by (intro exI [of _ q] exI [of _ ys]) auto
  next
    case False
    then show ?thesis
      by auto
  qed
qed simp

lemma pbuf_realloc_skip_chain:
  assumes "pchain (pbufs s) p (xs @ q # ys)" "xs = kept (pbufs s) (xs @ q # ys) (unat n)"
  shows "pbuf_realloc_skip s p n g = Some (s\<lparr>pbufs := (\<lambda>a. if a \<in> set xs then map_option (add_tot g) (pbufs s a)
      else pbufs s a)\<rparr>, q, n - of_nat (lens (pbufs s) xs))"
  using assms
proof (induction xs arbitrary: s p n)
  case Nil
  then have "\<not> n > pb_len (pb_at (pbufs s) q)"
    by (auto simp: word_less_nat_alt split: if_splits)
  then show ?case
    using Nil.prems by (subst pbuf_realloc_skip.simps) (auto split: option.splits)
next
  case (Cons a xs)
  from Cons.prems obtain pb where pb: "p = a" "a \<noteq> 0" "pbufs s a = Some pb"
    "pchain (pbufs s) (pb_next pb) (xs @ q # ys)"
    by (auto split: option.splits)
  have d: "a \<notin> set (xs @ q # ys)"
    using pchain_distinct [OF Cons.prems(1)] by simp
  have gt: "n > pb_len pb" and k: "xs = kept (pbufs s) (xs @ q # ys) (unat n - unat (pb_len pb))"
    using Cons.prems(2) pb by (auto simp: word_less_nat_alt split: if_splits)
  have un: "unat (n - pb_len pb) = unat n - unat (pb_len pb)"
    using gt by (simp add: unat_sub)
  let ?s = "set_pbuf a (pb\<lparr>pb_tot_len := pb_tot_len pb + g\<rparr>) s"
  have ch: "pchain (pbufs ?s) (pb_next pb) (xs @ q # ys)"
    using pb d by simp
  have k': "xs = kept (pbufs ?s) (xs @ q # ys) (unat (n - pb_len pb))"
    using k un d by simp
  have l: "lens (pbufs ?s) xs = lens (pbufs s) xs"
    using d by simp
  show ?case
    using pb gt Cons.IH [OF ch k'] d unfolding l
    by (subst pbuf_realloc_skip.simps) (auto simp: add_tot_def fun_eq_iff set_pbuf_def diff_diff_eq)
qed

lemma tot_ok_appendD: "tot_ok st (as @ bs) \<Longrightarrow> tot_ok st bs"
  by (induction as) auto

lemma tot_ok_shrink:
  assumes "tot_ok st (xs @ ys)" "n < lens st (xs @ ys)" "lens st xs \<le> n" "lens st (xs @ ys) < 65536"
    and "tot_ok st' zs" "lens st' zs = n - lens st xs"
    and "\<And>a. a \<in> set xs \<Longrightarrow> pb_len (pb_at st' a) = pb_len (pb_at st a)"
    and "\<And>a. a \<in> set xs \<Longrightarrow>
      pb_tot_len (pb_at st' a) = pb_tot_len (pb_at st a) + of_int (int n - int (lens st (xs @ ys)))"
  shows "tot_ok st' (xs @ zs)"
  using assms
proof (induction xs arbitrary: n)
  case (Cons a xs)
  have ls: "lens st' (a # xs) = lens st (a # xs)"
    using Cons.prems by (intro lens_cong) auto
  have "int n - int (lens st (a # xs @ ys))
      = int (n - unat (pb_len (pb_at st a))) - int (lens st (xs @ ys))"
    using Cons.prems by simp
  then have ok: "tot_ok st' (xs @ zs)"
    using Cons.prems by (intro Cons.IH [of "n - unat (pb_len (pb_at st a))"]) auto
  have "unat (pb_tot_len (pb_at st a)) = lens st (a # xs @ ys)"
    using Cons.prems by simp
  then have "pb_tot_len (pb_at st a) = of_nat (lens st (a # xs @ ys))"
    by (metis of_nat_unat ucast_id)
  then have "pb_tot_len (pb_at st' a) = of_nat n"
    using Cons.prems(8) [of a] by simp
  then have "unat (pb_tot_len (pb_at st' a)) = n"
    using Cons.prems(2,4) by (simp add: unat_of_nat)
  then show ?case
    using ok ls Cons.prems by simp
qed simp

lemma pbuf_free_chain:
  assumes "pchain (pbufs s) p as"
  shows "\<exists>s'. pbuf_free A s p = Some (s', of_nat (length (freed_prefix (pbufs s) as)))
    \<and> free_result A s as s'"
proof (cases "p = NULL")
  case True
  then show ?thesis
    using assms by (simp add: pbuf_free_def free_result_def)
next
  case False
  then show ?thesis
    using pbuf_free_loop_chain [OF assms, of A 0] by (simp add: pbuf_free_def)
qed

lemma free_result_other:
  assumes "free_result A s as s'" "a \<notin> set as"
  shows "pbufs s' a = pbufs s a"
  using assms freed_prefix_subset [of "pbufs s" as]
  by (auto simp: free_result_def Let_def)

lemma free_result_dmem: "free_result A s as s' \<Longrightarrow> dmem s' = dmem s"
  by (simp add: free_result_def Let_def)

lemma freed_prefix_all: "(\<And>a. a \<in> set as \<Longrightarrow> pb_ref (pb_at st a) = 1) \<Longrightarrow> freed_prefix st as = as"
  by (simp add: freed_prefix_def)

lemma free_result_all:
  assumes "free_result A s as s'" "\<And>a. a \<in> set as \<Longrightarrow> pb_ref (pb_at (pbufs s) a) = 1" "a \<in> set as"
  shows "pbufs s' a = None"
  using assms by (simp add: free_result_def Let_def freed_prefix_all)

definition shrink_store :: "store \<Rightarrow> addr list \<Rightarrow> addr \<Rightarrow> u16 \<Rightarrow> u16 \<Rightarrow> store" where
  "shrink_store st xs q g r =
     (\<lambda>a. if a \<in> set xs then map_option (add_tot g) (st a)
          else if a = q then map_option (\<lambda>pb. pb\<lparr>pb_len := r, pb_tot_len := r\<rparr>) (st a)
          else st a)"

lemma pbuf_realloc_steps:
  assumes ch: "pchain (pbufs s) p (xs @ q # ys)" and xs: "xs = kept (pbufs s) (xs @ q # ys) (unat n)"
    and n: "unat n < lens (pbufs s) (xs @ q # ys)" and tot: "tot_ok (pbufs s) (xs @ q # ys)"
    and trim: "\<And>h a k. snd (al_trim A h a k) = a"
  defines "st \<equiv> shrink_store (pbufs s) xs q (of_int (int (unat n) - int (lens (pbufs s) (xs @ q # ys))))
      (n - of_nat (lens (pbufs s) xs))"
  shows "\<exists>s1 s2. pbuf_realloc A s p n = Some (s2\<lparr>pbufs := (pbufs s2)(q := map_option (\<lambda>pb. pb\<lparr>pb_next := NULL\<rparr>) (st q))\<rparr>)
    \<and> pbufs s1 = st \<and> dmem s1 = dmem s \<and> free_result A s1 ys s2"
proof -
  let ?g = "of_int (int (unat n) - int (lens (pbufs s) (xs @ q # ys))) :: u16"
  let ?r = "n - of_nat (lens (pbufs s) xs)"
  have d: "q \<notin> set xs" "q \<notin> set ys"
    using pchain_distinct [OF ch] by auto
  obtain qb where qb: "pbufs s q = Some qb" "pchain (pbufs s) (pb_next qb) ys"
    using pchain_split [OF ch] by (auto split: option.splits)
  obtain pb where pb: "pbufs s p = Some pb" "unat (pb_tot_len pb) = lens (pbufs s) (xs @ q # ys)"
    using ch tot by (cases xs) (auto split: option.splits)
  have lt: "\<not> n \<ge> pb_tot_len pb"
    using n pb(2) by (simp add: word_le_nat_alt)
  have g: "of_int (uint n - uint (pb_tot_len pb)) = ?g"
    by (simp only: uint_nat pb(2))
  define h where "h = (if pb_type qb = PBUF_RAM \<and> ?r \<noteq> pb_len qb
      then fst (al_trim A (heap s) q (unat (of_nat (pb_payload qb - q) :: u16) + unat ?r)) else heap s)"
  define s1 where "s1 = s\<lparr>heap := h, pbufs := st\<rparr>"
  have "st a = pbufs s a" if "a \<in> set ys" for a
    using that d pchain_distinct [OF ch] by (auto simp: st_def shrink_store_def)
  then have "pchain (pbufs s1) (pb_next qb) ys"
    using qb(2) pchain_cong [of ys "pbufs s" st] by (simp add: s1_def)
  from pbuf_free_chain [OF this, of A] obtain s2 where s2:
    "pbuf_free A s1 (pb_next qb) = Some (s2, of_nat (length (freed_prefix (pbufs s1) ys)))"
    "free_result A s1 ys s2"
    by blast
  have q2: "pbufs s2 q = st q"
    using free_result_other [OF s2(2) d(2)] by (simp add: s1_def)
  have "pbuf_realloc A s p n = Some (s2\<lparr>pbufs := (pbufs s2)(q := map_option (\<lambda>pb. pb\<lparr>pb_next := NULL\<rparr>) (st q))\<rparr>)"
  proof -
    define sk where "sk = s\<lparr>pbufs := (\<lambda>a. if a \<in> set xs then map_option (add_tot ?g) (pbufs s a) else pbufs s a)\<rparr>"
    have skip: "pbuf_realloc_skip s p n ?g = Some (sk, q, ?r)"
      unfolding sk_def by (rule pbuf_realloc_skip_chain [OF ch xs])
    have sel: "pbufs sk q = Some qb" "heap sk = heap s"
      using qb d by (simp_all add: sk_def)
    have trim_q: "al_trim A (heap s) q k = (fst (al_trim A (heap s) q k), q)" for k
      using trim [of "heap s" q k] by (metis prod.collapse)
    have s1: "set_pbuf q (qb\<lparr>pb_len := ?r, pb_tot_len := ?r\<rparr>) (sk\<lparr>heap := h\<rparr>) = s1"
      using qb d by (simp add: s1_def set_pbuf_def sk_def st_def shrink_store_def fun_eq_iff)
    have stq: "st q = Some (qb\<lparr>pb_len := ?r, pb_tot_len := ?r\<rparr>)"
      using qb d by (simp add: st_def shrink_store_def)
    have free: "(if pb_next qb \<noteq> NULL then pbuf_free A s1 (pb_next qb) else Some (s1, 0))
        = Some (s2, of_nat (length (freed_prefix (pbufs s1) ys)))"
      using s2(1) by (cases "pb_next qb = 0") (auto simp: pbuf_free_def)
    have trimmed: "(if pb_type qb = PBUF_RAM \<and> ?r \<noteq> pb_len qb
        then al_trim A (heap s) q (unat (of_nat (pb_payload qb - q) :: u16) + unat ?r)
        else (heap s, q)) = (h, q)"
      unfolding h_def using trim_q by simp
    have sel': "pbufs (sk\<lparr>heap := h\<rparr>) q = Some qb"
      using sel by simp
    show ?thesis
      unfolding pbuf_realloc_def pb(1) bind.bind_lunit if_not_P [OF lt] Let_def g skip prod.case sel trimmed
        sel' s1 free q2 stq
      by (simp add: set_pbuf_def)
  qed
  then show ?thesis
    using s2(2) by (intro exI [of _ s1] exI [of _ s2]) (simp add: s1_def)
qed

text \<open>The store after a shrink: the chain ends at \<open>q\<close>, with the first \<open>n\<close> bytes.\<close>

lemma take_pdata_split:
  assumes "lens st xs \<le> n" "n \<le> lens st xs + unat (pb_len (pb_at st q))"
  shows "take n (pdata st m (xs @ q # ys)) =
    pdata st m xs @ mem_read m (pb_payload (pb_at st q)) (n - lens st xs)"
proof -
  have "n - lens st xs \<le> unat (pb_len (pb_at st q))"
    using assms by linarith
  then show ?thesis
    using assms by (simp add: min_absorb1)
qed

lemma pchain_cut:
  assumes "pchain st p (xs @ q # ys)" "map_option pb_next (st' q) = Some NULL"
    and "\<And>a. a \<in> set xs \<Longrightarrow> map_option pb_next (st' a) = map_option pb_next (st a)"
  shows "pchain st' p (xs @ [q])"
  using assms
proof (induction xs arbitrary: p)
  case (Cons a xs)
  from Cons.prems obtain pb where pb: "p = a" "a \<noteq> 0" "st a = Some pb" "pchain st (pb_next pb) (xs @ q # ys)"
    by (auto split: option.splits)
  moreover obtain pb' where "st' a = Some pb'" "pb_next pb' = pb_next pb"
    using Cons.prems(3) [of a] pb by auto
  moreover have "pchain st' (pb_next pb) (xs @ [q])"
    using Cons.prems pb by (intro Cons.IH) auto
  ultimately show ?case
    by simp
qed (auto split: option.splits)

lemma pbuf_realloc_chain:
  assumes ch: "pchain (pbufs s) p as" and tot: "tot_ok (pbufs s) as"
    and n: "unat n < lens (pbufs s) as" and small: "lens (pbufs s) as < 65536"
    and trim: "\<And>h a k. snd (al_trim A h a k) = a"
  shows "\<exists>s' bs cs. pbuf_realloc A s p n = Some s' \<and> as = bs @ cs \<and> bs \<noteq> []
    \<and> pchain (pbufs s') p bs \<and> tot_ok (pbufs s') bs \<and> lens (pbufs s') bs = unat n
    \<and> pdata (pbufs s') (dmem s') bs = take (unat n) (pdata (pbufs s) (dmem s) as)
    \<and> ((\<forall>a\<in>set cs. pb_ref (pb_at (pbufs s) a) = 1) \<longrightarrow> (\<forall>a\<in>set cs. pbufs s' a = None))"
proof -
  define xs where "xs = kept (pbufs s) as (unat n)"
  have "as \<noteq> []"
    using n by auto
  with n kept_split [of "unat n" "pbufs s" as] obtain q ys where as: "as = xs @ q # ys"
    and l: "lens (pbufs s) xs \<le> unat n" "unat n \<le> lens (pbufs s) xs + unat (pb_len (pb_at (pbufs s) q))"
    unfolding xs_def by auto
  have xs: "xs = kept (pbufs s) (xs @ q # ys) (unat n)"
    using as xs_def by simp
  let ?g = "of_int (int (unat n) - int (lens (pbufs s) (xs @ q # ys))) :: u16"
  let ?r = "n - of_nat (lens (pbufs s) xs)"
  let ?st = "shrink_store (pbufs s) xs q ?g ?r"
  from pbuf_realloc_steps [OF ch [unfolded as] xs n [unfolded as] tot [unfolded as] trim]
  obtain s1 s2 where run: "pbuf_realloc A s p n =
      Some (s2\<lparr>pbufs := (pbufs s2)(q := map_option (\<lambda>pb. pb\<lparr>pb_next := NULL\<rparr>) (?st q))\<rparr>)"
    and s1: "pbufs s1 = ?st" "dmem s1 = dmem s" and s2: "free_result A s1 ys s2"
    by blast
  define s' where "s' = s2\<lparr>pbufs := (pbufs s2)(q := map_option (\<lambda>pb. pb\<lparr>pb_next := NULL\<rparr>) (?st q))\<rparr>"
  have d: "q \<notin> set xs" "q \<notin> set ys" "set xs \<inter> set ys = {}"
    using pchain_distinct [OF ch] by (auto simp: as)
  obtain qb where qb: "pbufs s q = Some qb"
    using pchain_live [OF ch, of q] by (auto simp: as)
  have q': "pbufs s' q = Some (qb\<lparr>pb_next := NULL, pb_len := ?r, pb_tot_len := ?r\<rparr>)"
    using qb d by (simp add: s'_def shrink_store_def)
  have xs': "pbufs s' a = map_option (add_tot ?g) (pbufs s a)" if "a \<in> set xs" for a
  proof -
    have "a \<noteq> q" "a \<notin> set ys"
      using that d by auto
    then show ?thesis
      using that free_result_other [OF s2, of a] by (simp add: s'_def s1 shrink_store_def)
  qed
  have live: "\<exists>pb. pbufs s a = Some pb" if "a \<in> set as" for a
    using pchain_live [OF ch that] by auto
  have r: "unat ?r = unat n - lens (pbufs s) xs"
  proof -
    have le: "of_nat (lens (pbufs s) xs) \<le> n" and "unat (of_nat (lens (pbufs s) xs) :: u16) = lens (pbufs s) xs"
      using l small by (simp_all add: as word_le_nat_alt unat_of_nat)
    then show ?thesis
      by (simp add: unat_sub)
  qed
  have fields: "pb_len (pb_at (pbufs s') a) = pb_len (pb_at (pbufs s) a)"
    "pb_payload (pb_at (pbufs s') a) = pb_payload (pb_at (pbufs s) a)"
    "pb_tot_len (pb_at (pbufs s') a) = pb_tot_len (pb_at (pbufs s) a) + ?g" if "a \<in> set xs" for a
    unfolding xs' [OF that] using that live [of a] by (auto simp: as add_tot_def)
  have "pchain (pbufs s') p (xs @ [q])"
  proof (rule pchain_cut [OF ch [unfolded as]])
    show "map_option pb_next (pbufs s' q) = Some NULL"
      unfolding q' by simp
    show "map_option pb_next (pbufs s' a) = map_option pb_next (pbufs s a)" if "a \<in> set xs" for a
      unfolding xs' [OF that] by (simp add: option.map_comp comp_def add_tot_def)
  qed
  moreover have "tot_ok (pbufs s') (xs @ [q])"
  proof (rule tot_ok_shrink [OF tot [unfolded as] n [unfolded as] l(1) small [unfolded as]])
    show "tot_ok (pbufs s') [q]" "lens (pbufs s') [q] = unat n - lens (pbufs s) xs"
      unfolding tot_ok.simps lens_simps q' using r by simp_all
  qed (simp_all only: fields)
  moreover have "lens (pbufs s') xs = lens (pbufs s) xs"
    by (rule lens_cong) (rule fields)
  moreover have "pdata (pbufs s') m xs = pdata (pbufs s) m xs" for m
    by (rule pdata_cong) (rule fields, assumption)+
  moreover have "pbufs s' a = None" if "\<forall>a\<in>set ys. pb_ref (pb_at (pbufs s) a) = 1" "a \<in> set ys" for a
  proof -
    have "pb_ref (pb_at (pbufs s1) b) = 1" if "b \<in> set ys" for b
      using that \<open>\<forall>a\<in>set ys. _\<close> d by (auto simp: s1 shrink_store_def)
    then have "pbufs s2 a = None"
      using free_result_all [OF s2] \<open>a \<in> set ys\<close> by blast
    then show ?thesis
      using \<open>a \<in> set ys\<close> d by (auto simp: s'_def)
  qed
  moreover have "dmem s' = dmem s"
    using free_result_dmem [OF s2] s1(2) by (simp add: s'_def)
  ultimately show ?thesis
    using run [folded s'_def] q' qb l r take_pdata_split [OF l]
    by (intro exI [of _ s'] exI [of _ "xs @ [q]"] exI [of _ ys]) (auto simp: as)
qed

section \<open>Headers\<close>

lemma sint_u16_range: "- 32768 \<le> sint (w :: u16)" "sint (w :: u16) < 32768"
  using sint_ge [of w] sint_lt [of w] by simp_all

lemma unat_sint_u16: "int (unat (w :: u16)) = sint w mod 65536"
  using uint_sint [of w] by (simp add: take_bit_eq_mod)

lemma sint_u16_pos: "0 \<le> sint (w :: u16) \<Longrightarrow> int (unat w) = sint w"
  unfolding unat_sint_u16 using sint_u16_range [of w] by (intro mod_pos_pos_trivial) auto

lemma sint_u16_neg: "sint (w :: u16) < 0 \<Longrightarrow> int (unat w) = sint w + 65536"
proof -
  assume "sint w < 0"
  then have "(sint w + 65536) mod 65536 = sint w + 65536"
    using sint_u16_range [of w] by (intro mod_pos_pos_trivial) auto
  then show ?thesis
    unfolding unat_sint_u16 by simp
qed

lemma sint_u16_minus: "sint (w :: u16) \<noteq> - 32768 \<Longrightarrow> sint (- w) = - sint w"
  using sint_u16_range [of w] by (simp add: sint_word_minus) (rule signed_take_bit_int_eq_self; simp)

lemma unat_u16_minus: "sint (w :: u16) < 0 \<Longrightarrow> int (unat (- w)) = - sint w"
proof (cases "sint w = - 32768")
  case True
  then have "w = - 32768"
    by (metis of_int_sint of_int_minus of_int_numeral scast_id)
  then show ?thesis
    using True by simp
next
  case False
  assume "sint w < 0"
  with False have "0 \<le> sint (- w)" "sint (- w) = - sint w"
    by (simp_all add: sint_u16_minus)
  then show ?thesis
    using sint_u16_pos [of "- w"] by simp
qed

text \<open>Adding a signed increment to an unsigned length that has room for it.\<close>

lemma unat_plus_sint:
  assumes "0 \<le> int (unat (x :: u16)) + sint inc" "int (unat x) + sint inc < 65536"
  shows "int (unat (x + inc)) = int (unat x) + sint inc"
proof -
  have "int (unat (x + inc)) = (int (unat x) + int (unat inc)) mod 65536"
    by (simp add: unat_word_ariths zmod_int)
  also have "\<dots> = (int (unat x) + sint inc) mod 65536"
    unfolding unat_sint_u16 [of inc] by (rule mod_add_right_eq)
  also have "\<dots> = int (unat x) + sint inc"
    using assms by (intro mod_pos_pos_trivial) auto
  finally show ?thesis .
qed

lemma pbuf_header_ok:
  assumes "pbufs s p = Some pb" "p \<noteq> NULL" "inc \<noteq> 0"
    and "sint inc < 0 \<Longrightarrow> unat (- inc) \<le> unat (pb_len pb)"
    and "pb_type pb = PBUF_RAM \<or> pb_type pb = PBUF_POOL
      \<Longrightarrow> int (p + SIZEOF_STRUCT_PBUF) \<le> int (pb_payload pb) - sint inc"
    and "\<not> (pb_type pb = PBUF_RAM \<or> pb_type pb = PBUF_POOL) \<Longrightarrow> sint inc < 0"
  shows "pbuf_header s p inc =
    Some (set_pbuf p (pb\<lparr>pb_payload := nat (int (pb_payload pb) - sint inc), pb_len := pb_len pb + inc,
       pb_tot_len := pb_tot_len pb + inc\<rparr>) s, 0)"
  using assms by (auto simp: pbuf_header_def word_le_nat_alt Let_def)

lemma set_pbuf_same: "pbufs s p = Some pb \<Longrightarrow> set_pbuf p pb (set_pbuf p pb' s) = s"
  by (simp add: set_pbuf_def fun_upd_idem)

lemma pbuf_header_hide_fields:
  assumes "sint inc < 0" "unat (- inc) \<le> unat (pb_len pb)" "unat (pb_len pb) \<le> unat (pb_tot_len pb)"
  shows "unat (pb_len pb + inc) = unat (pb_len pb) - unat (- inc)"
    and "unat (pb_tot_len pb + inc) = unat (pb_tot_len pb) - unat (- inc)"
    and "nat (int (pb_payload pb) - sint inc) = pb_payload pb + unat (- inc)"
proof -
  have m: "int (unat (- inc)) = - sint inc"
    by (rule unat_u16_minus [OF assms(1)])
  then show "nat (int (pb_payload pb) - sint inc) = pb_payload pb + unat (- inc)"
    by linarith
  have "int (unat (pb_len pb + inc)) = int (unat (pb_len pb)) + sint inc"
    using assms m unat_u16_lt [of "pb_len pb"] by (intro unat_plus_sint) linarith+
  then show "unat (pb_len pb + inc) = unat (pb_len pb) - unat (- inc)"
    using m by linarith
  have "int (unat (pb_tot_len pb + inc)) = int (unat (pb_tot_len pb)) + sint inc"
    using assms m unat_u16_lt [of "pb_tot_len pb"] by (intro unat_plus_sint) linarith+
  then show "unat (pb_tot_len pb + inc) = unat (pb_tot_len pb) - unat (- inc)"
    using m by linarith
qed

section \<open>Properties\<close>

text \<open>
  An example memory for the witnesses: pbufs at 100, 200 and 300, of which the first two are a
  chain of 5 bytes and the third stands alone.
\<close>

definition demo_pb :: "addr \<Rightarrow> addr \<Rightarrow> u16 \<Rightarrow> u16 \<Rightarrow> pbuf" where
  "demo_pb nxt pay tot l = \<lparr>pb_next = nxt, pb_payload = pay, pb_tot_len = tot, pb_len = l,
     pb_type = PBUF_RAM, pb_flags = 0, pb_ref = 1\<rparr>"

definition demo_state :: "unit pstate" where
  "demo_state = \<lparr>heap = (),
     pbufs = [100 \<mapsto> demo_pb 200 120 5 3, 200 \<mapsto> demo_pb 0 220 2 2, 300 \<mapsto> demo_pb 0 320 4 4],
     dmem = (\<lambda>a. of_nat a)\<rparr>"

definition demo_alloc :: "unit alloc" where
  "demo_alloc = \<lparr>al_malloc = (\<lambda>h n. (h, 0)), al_free = (\<lambda>h a. h), al_trim = (\<lambda>h a n. (h, a)),
     al_memp_malloc = (\<lambda>h t. (h, 0)), al_memp_free = (\<lambda>h t a. h), al_custom_free = (\<lambda>h a. h),
     al_fresh = (\<lambda>h a. demo_pb 0 0 0 0)\<rparr>"

lemmas demo_defs = demo_pb_def demo_state_def demo_alloc_def

text \<open>C6. \<open>pbuf_free\<close> on a chain ends and returns the number of pbufs it freed (modulo 256, the
  width of its counter).  It frees exactly the longest prefix of pbufs with reference count one,
  each through the allocator it came from, takes one reference from the pbuf that follows, and
  changes nothing else.\<close>

theorem pbuf_free_prefix:
  assumes "pchain (pbufs s) p as"
  defines "freed \<equiv> takeWhile (\<lambda>a. pb_ref (pb_at (pbufs s) a) = 1) as"
  shows "\<exists>s'. pbuf_free A s p = Some (s', of_nat (length freed))
    \<and> (\<forall>a. pbufs s' a =
          (if a \<in> set freed then None
           else if length freed < length as \<and> a = as ! length freed
           then map_option (\<lambda>pb. pb\<lparr>pb_ref := pb_ref pb - 1\<rparr>) (pbufs s a)
           else pbufs s a))
    \<and> heap s' = foldl (\<lambda>h a. pbuf_release A h a (pb_at (pbufs s) a)) (heap s) freed
    \<and> dmem s' = dmem s"
  using pbuf_free_chain [OF assms(1), of A]
  by (simp only: free_result_def Let_def freed_prefix_def freed_def [symmetric])

theorem pbuf_free_prefix_witness:
  "\<exists>s'. pbuf_free demo_alloc demo_state 100 = Some (s', 2) \<and> pbufs s' 100 = None \<and> pbufs s' 200 = None
    \<and> pbufs s' 300 = pbufs demo_state 300"
proof -
  have ch: "pchain (pbufs demo_state) 100 [100, 200]"
    by (simp add: demo_defs)
  have "takeWhile (\<lambda>a. pb_ref (pb_at (pbufs demo_state) a) = 1) [100, 200] = [100, 200 :: nat]"
    by (simp add: demo_defs)
  with pbuf_free_prefix [OF ch, of demo_alloc] show ?thesis
    by auto
qed

text \<open>\<open>pbuf_cat\<close> of two well-formed chains that share no pbuf and whose contents fit in
  16 bits of length is one well-formed chain with the contents of the first followed by the
  contents of the second; nothing outside the first chain changes.\<close>

theorem pbuf_cat_appends:
  assumes "pchain (pbufs s) h as" "pchain (pbufs s) t bs" "h \<noteq> NULL" "t \<noteq> NULL"
    and "set as \<inter> set bs = {}" "tot_ok (pbufs s) as" "tot_ok (pbufs s) bs"
    and "lens (pbufs s) as + lens (pbufs s) bs < 65536"
  shows "\<exists>s'. pbuf_cat s h t = Some s' \<and> pchain (pbufs s') h (as @ bs) \<and> tot_ok (pbufs s') (as @ bs)
    \<and> pdata (pbufs s') (dmem s') (as @ bs) = pdata (pbufs s) (dmem s) as @ pdata (pbufs s) (dmem s) bs
    \<and> (\<forall>a. a \<notin> set as \<longrightarrow> pbufs s' a = pbufs s a)"
proof -
  have ne: "as \<noteq> []" "bs \<noteq> []" and t: "t \<in> set bs" "t \<notin> set as"
    using assms by (cases bs; auto)+
  have "pbufs s t \<noteq> None"
    using pchain_live [OF assms(2) t(1)] by simp
  with assms t have "pbuf_cat s h t = Some (s\<lparr>pbufs := cat_store (pbufs s) as t\<rparr>)"
    by (intro pbuf_cat_store) auto
  then show ?thesis
    using cat_store_chain [OF assms(1) ne(1) assms(2) ne(2) assms(5-7)] assms(8)
    by (intro exI [of _ "s\<lparr>pbufs := cat_store (pbufs s) as t\<rparr>"]) (auto simp: cat_store_def)
qed

theorem pbuf_cat_appends_witness:
  "\<exists>s'. pbuf_cat demo_state 100 300 = Some s' \<and> pchain (pbufs s') 100 [100, 200, 300]"
  using pbuf_cat_appends [of demo_state 100 "[100, 200]" 300 "[300]"]
  by (auto simp: demo_defs)

text \<open>\<open>pbuf_dechain\<close> undoes \<open>pbuf_chain\<close>: for a single pbuf \<open>h\<close> and a tail \<open>t\<close> whose reference
  count can grow by one, the tail is returned and the whole state is as before.\<close>

theorem pbuf_dechain_undoes_chain:
  assumes "pbufs s h = Some hb" "pbufs s t = Some tb" "h \<noteq> NULL" "t \<noteq> NULL" "h \<noteq> t"
    and "pb_next hb = NULL" "pb_tot_len hb = pb_len hb" "pb_ref tb \<noteq> 0"
  shows "\<exists>s'. pbuf_chain s h t = Some s' \<and> pbuf_dechain A s' h = Some (s, t)"
proof -
  define hb' where "hb' = hb\<lparr>pb_tot_len := pb_tot_len hb + pb_tot_len tb, pb_next := t\<rparr>"
  define tb' where "tb' = tb\<lparr>pb_ref := pb_ref tb + 1\<rparr>"
  define s' where "s' = set_pbuf t tb' (set_pbuf h hb' s)"
  have "cat_store (pbufs s) [h] t = (pbufs s)(h \<mapsto> hb')"
    using assms by (auto simp: cat_store_def fun_eq_iff hb'_def)
  then have "pbuf_cat s h t = Some (set_pbuf h hb' s)"
    using assms pbuf_cat_store [of s h "[h]" t] by (simp add: set_pbuf_def)
  then have chain: "pbuf_chain s h t = Some s'"
    using assms by (simp add: pbuf_chain_def pbuf_ref_def s'_def tb'_def)
  have sel: "pbufs s' h = Some hb'" "pbufs s' t = Some tb'"
    using assms by (simp_all add: s'_def)
  let ?s1 = "set_pbuf h (hb'\<lparr>pb_next := NULL, pb_tot_len := pb_len hb'\<rparr>)
    (set_pbuf t (tb'\<lparr>pb_tot_len := pb_tot_len hb' - pb_len hb'\<rparr>) s')"
  have tb1: "pbufs ?s1 t = Some (tb\<lparr>pb_ref := pb_ref tb + 1\<rparr>)"
    using assms by (simp add: hb'_def tb'_def)
  have free: "pbuf_free A ?s1 t = Some (s, 0)"
    using assms unfolding pbuf_free_def
    by (subst pbuf_free_loop.simps)
      (simp add: tb1 set_pbuf_def s'_def hb'_def tb'_def fun_upd_twist fun_upd_idem)
  have "pb_next hb' = t"
    by (simp add: hb'_def)
  then have "pbuf_dechain A s' h = Some (s, t)"
    using assms free sel by (simp add: pbuf_dechain_def Let_def)
  with chain show ?thesis
    by blast
qed

theorem pbuf_dechain_undoes_chain_witness:
  "\<exists>s'. pbuf_chain demo_state 300 100 = Some s' \<and> pbuf_dechain demo_alloc s' 300 = Some (demo_state, 100)"
  by (rule pbuf_dechain_undoes_chain [of demo_state 300 "demo_pb 0 320 4 4" 100 "demo_pb 200 120 5 3"])
    (simp_all add: demo_defs)

text \<open>C21. \<open>pbuf_realloc\<close> to a smaller length keeps a non-empty prefix of the chain, well formed, with
  exactly the first \<open>new_len\<close> bytes of the contents, and frees the pbufs behind it when nobody
  else refers to them.  The allocator is assumed to trim a block in place, as \<open>mem_trim\<close> does.\<close>

theorem pbuf_realloc_truncates:
  assumes "pchain (pbufs s) p as" "tot_ok (pbufs s) as" "unat new_len < lens (pbufs s) as"
    and "lens (pbufs s) as < 65536" "\<And>h a k. snd (al_trim A h a k) = a"
  shows "\<exists>s' bs cs. pbuf_realloc A s p new_len = Some s' \<and> as = bs @ cs \<and> bs \<noteq> []
    \<and> pchain (pbufs s') p bs \<and> tot_ok (pbufs s') bs \<and> lens (pbufs s') bs = unat new_len
    \<and> pdata (pbufs s') (dmem s') bs = take (unat new_len) (pdata (pbufs s) (dmem s) as)
    \<and> ((\<forall>a\<in>set cs. pb_ref (pb_at (pbufs s) a) = 1) \<longrightarrow> (\<forall>a\<in>set cs. pbufs s' a = None))"
  using assms by (rule pbuf_realloc_chain)

theorem pbuf_realloc_truncates_witness:
  "\<exists>s' bs. pbuf_realloc demo_alloc demo_state 100 2 = Some s'
    \<and> pdata (pbufs s') (dmem s') bs = take 2 (pdata (pbufs demo_state) (dmem demo_state) [100, 200])"
proof -
  have "\<exists>s' bs cs. pbuf_realloc demo_alloc demo_state 100 2 = Some s' \<and> [100, 200] = bs @ cs \<and> bs \<noteq> []
    \<and> pchain (pbufs s') 100 bs \<and> tot_ok (pbufs s') bs \<and> lens (pbufs s') bs = unat (2 :: u16)
    \<and> pdata (pbufs s') (dmem s') bs = take (unat (2 :: u16)) (pdata (pbufs demo_state) (dmem demo_state) [100, 200])
    \<and> ((\<forall>a\<in>set cs. pb_ref (pb_at (pbufs demo_state) a) = 1) \<longrightarrow> (\<forall>a\<in>set cs. pbufs s' a = None))"
    by (rule pbuf_realloc_truncates) (simp_all add: demo_defs)
  then obtain s' bs cs where "pbuf_realloc demo_alloc demo_state 100 2 = Some s'"
    "pdata (pbufs s') (dmem s') bs = take (unat (2 :: u16)) (pdata (pbufs demo_state) (dmem demo_state) [100, 200])"
    by blast
  then show ?thesis
    by auto
qed

text \<open>Hiding a header: a negative increment no larger than the first pbuf succeeds, keeps the
  chain well formed, and drops that many bytes from the front of its contents.\<close>

theorem pbuf_header_hides:
  assumes "pchain (pbufs s) p (p # as)" "tot_ok (pbufs s) (p # as)" "sint inc < 0"
    and "unat (- inc) \<le> unat (pb_len (pb_at (pbufs s) p))"
    and "p + SIZEOF_STRUCT_PBUF \<le> pb_payload (pb_at (pbufs s) p)"
  shows "\<exists>s'. pbuf_header s p inc = Some (s', 0) \<and> pchain (pbufs s') p (p # as) \<and> tot_ok (pbufs s') (p # as)
    \<and> pdata (pbufs s') (dmem s') (p # as) = drop (unat (- inc)) (pdata (pbufs s) (dmem s) (p # as))"
proof -
  from assms(1) obtain pb where pb: "pbufs s p = Some pb" "p \<noteq> 0" "pchain (pbufs s) (pb_next pb) as"
    by (auto split: option.splits)
  have d: "p \<notin> set as"
    using pchain_distinct [OF assms(1)] by simp
  have l: "unat (pb_len pb) \<le> unat (pb_tot_len pb)" "unat (- inc) \<le> unat (pb_len pb)"
    using assms pb by auto
  note f = pbuf_header_hide_fields [OF assms(3) l(2) l(1)]
  define pb' where "pb' = pb\<lparr>pb_payload := nat (int (pb_payload pb) - sint inc), pb_len := pb_len pb + inc,
     pb_tot_len := pb_tot_len pb + inc\<rparr>"
  have "pbuf_header s p inc = Some (set_pbuf p pb' s, 0)"
    unfolding pb'_def using assms pb by (intro pbuf_header_ok) auto
  moreover have "pchain (pbufs (set_pbuf p pb' s)) p (p # as)"
    using pb d by (simp add: pb'_def)
  moreover have "tot_ok (pbufs (set_pbuf p pb' s)) (p # as)"
    using assms(2) pb d l by (simp add: pb'_def f)
  moreover have "pdata (pbufs (set_pbuf p pb' s)) m (p # as) = drop (unat (- inc)) (pdata (pbufs s) m (p # as))" for m
    using pb d l(2) by (simp add: pb'_def f)
  ultimately show ?thesis
    by (intro exI [of _ "set_pbuf p pb' s"]) simp
qed

theorem pbuf_header_hides_witness:
  "\<exists>s'. pbuf_header demo_state 100 (- 2) = Some (s', 0) \<and> pchain (pbufs s') 100 [100, 200]"
  using pbuf_header_hides [of demo_state 100 "[200]" "- 2"]
  by (auto simp: demo_defs SIZEOF_STRUCT_PBUF_def LWIP_MEM_ALIGN_SIZE_def MEM_ALIGNMENT_def)

text \<open>Adding a header and removing it again restores the whole state, and so does removing and
  adding, for a pbuf whose payload is its own memory.\<close>

theorem pbuf_header_undo:
  assumes "pbufs s p = Some pb" "p \<noteq> NULL" "pb_type pb = PBUF_RAM \<or> pb_type pb = PBUF_POOL"
    and "p + SIZEOF_STRUCT_PBUF \<le> pb_payload pb" "int (unat (pb_len pb)) + sint inc < 65536"
    and "sint inc \<noteq> - 32768" "pbuf_header s p inc = Some (s', 0)"
  shows "pbuf_header s' p (- inc) = Some (s, 0)"
proof (cases "inc = 0")
  case True
  then show ?thesis
    using assms by (simp add: pbuf_header_def)
next
  case False
  define pb' where "pb' = pb\<lparr>pb_payload := nat (int (pb_payload pb) - sint inc), pb_len := pb_len pb + inc,
     pb_tot_len := pb_tot_len pb + inc\<rparr>"
  have ok: "sint inc < 0 \<Longrightarrow> unat (- inc) \<le> unat (pb_len pb)"
    and pay: "int (p + SIZEOF_STRUCT_PBUF) \<le> int (pb_payload pb) - sint inc"
    using assms False by (auto simp: pbuf_header_def Let_def word_le_nat_alt split: if_splits)
  have s': "s' = set_pbuf p pb' s"
    using pbuf_header_ok [OF assms(1,2) False ok] pay assms(3,7) by (auto simp: pb'_def)
  have neg: "sint (- inc) = - sint inc"
    using assms(6) by (rule sint_u16_minus)
  have "unat (- (- inc)) \<le> unat (pb_len pb')" if "sint (- inc) < 0"
  proof -
    have "int (unat (pb_len pb + inc)) = int (unat (pb_len pb)) + sint inc"
      using assms(5) that neg by (intro unat_plus_sint) auto
    moreover have l: "pb_len pb' = pb_len pb + inc"
      by (simp add: pb'_def)
    moreover have "int (unat inc) = sint inc"
      using that neg by (intro sint_u16_pos) simp
    ultimately show ?thesis
      unfolding minus_minus l by linarith
  qed
  then have "pbuf_header s' p (- inc) = Some (set_pbuf p (pb'\<lparr>pb_payload := nat (int (pb_payload pb') - sint (- inc)),
      pb_len := pb_len pb' + - inc, pb_tot_len := pb_tot_len pb' + - inc\<rparr>) s', 0)"
    using assms False pay neg by (intro pbuf_header_ok) (auto simp: s' pb'_def)
  moreover have "pb'\<lparr>pb_payload := nat (int (pb_payload pb') - sint (- inc)),
      pb_len := pb_len pb' + - inc, pb_tot_len := pb_tot_len pb' + - inc\<rparr> = pb"
    using pay by (simp add: pb'_def neg)
  ultimately show ?thesis
    using assms(1) by (simp add: s' set_pbuf_same)
qed

theorem pbuf_header_undo_witness:
  "\<exists>s'. pbuf_header demo_state 100 (- 2) = Some (s', 0) \<and> pbuf_header s' 100 2 = Some (demo_state, 0)"
proof -
  have run: "pbuf_header demo_state 100 (- 2) =
      Some (set_pbuf 100 (demo_pb 200 122 3 1) demo_state, 0)"
    by (simp add: pbuf_header_def demo_defs SIZEOF_STRUCT_PBUF_def LWIP_MEM_ALIGN_SIZE_def MEM_ALIGNMENT_def
        set_pbuf_def)
  have "pbuf_header (set_pbuf 100 (demo_pb 200 122 3 1) demo_state) 100 (- (- 2)) = Some (demo_state, 0)"
    by (rule pbuf_header_undo [OF _ _ _ _ _ _ run, of "demo_pb 200 120 5 3"])
      (simp_all add: demo_defs SIZEOF_STRUCT_PBUF_def LWIP_MEM_ALIGN_SIZE_def MEM_ALIGNMENT_def)
  with run show ?thesis
    by simp
qed

end
