(* ===== verification/Pbuf_Data.thy ===== *)
theory Pbuf_Data
  imports Pbuf_Chain
begin

text \<open>
  Properties of the operations that move the contents of pbuf chains: copying out
  (\<^verbatim>\<open>pbuf_copy_partial\<close>), copying in (\<^verbatim>\<open>pbuf_take\<close>), reading one byte, comparing and searching.
  The contents of a chain are the list \<open>pdata\<close>; that two ranges of memory do not overlap is
  \<open>disj_rng\<close>.
\<close>

section \<open>Ranges of memory\<close>

definition disj_rng :: "addr \<Rightarrow> nat \<Rightarrow> addr \<Rightarrow> nat \<Rightarrow> bool" where
  "disj_rng a n b k \<longleftrightarrow> a + n \<le> b \<or> b + k \<le> a"

definition apart :: "store \<Rightarrow> addr list \<Rightarrow> addr \<Rightarrow> nat \<Rightarrow> bool" where
  "apart st as d n \<longleftrightarrow> (\<forall>a\<in>set as. disj_rng (pb_payload (pb_at st a)) (unat (pb_len (pb_at st a))) d n)"

fun pays_disj :: "store \<Rightarrow> addr list \<Rightarrow> bool" where
  "pays_disj st [] \<longleftrightarrow> True"
| "pays_disj st (a # as) \<longleftrightarrow>
     apart st as (pb_payload (pb_at st a)) (unat (pb_len (pb_at st a))) \<and> pays_disj st as"

lemma apart_simps [simp]:
  "apart st [] d n"
  "apart st (a # as) d n \<longleftrightarrow> disj_rng (pb_payload (pb_at st a)) (unat (pb_len (pb_at st a))) d n \<and> apart st as d n"
  by (simp_all add: apart_def)

lemma apart_mono: "apart st as d n \<Longrightarrow> d \<le> e \<Longrightarrow> e + k \<le> d + n \<Longrightarrow> apart st as e k"
  by (fastforce simp: apart_def disj_rng_def)

lemma mem_write_append: "mem_write (mem_write m a xs) (a + length xs) ys = mem_write m a (xs @ ys)"
  by (rule ext) (auto simp: mem_write_apply nth_append)

lemma mem_read_write_disj: "disj_rng b n a (length xs) \<Longrightarrow> mem_read (mem_write m a xs) b n = mem_read m b n"
  by (rule mem_read_write_other) (auto simp: disj_rng_def)

lemma mem_read_write_prefix:
  "length xs \<le> n \<Longrightarrow> mem_read (mem_write m a xs) a n = xs @ drop (length xs) (mem_read m a n)"
  by (rule nth_equalityI) (auto simp: mem_write_apply nth_append)

lemma pdata_write_apart: "apart st as a (length xs) \<Longrightarrow> pdata st (mem_write m a xs) as = pdata st m as"
  by (induction as) (simp_all add: mem_read_write_disj)

section \<open>Copying out\<close>

lemma unat_minus_u16: "(a :: u16) \<le> b \<Longrightarrow> unat (b - a) = unat b - unat a"
  by (rule unat_sub)

lemma unat_add_u16: "unat (a :: u16) + unat b < 65536 \<Longrightarrow> unat (a + b) = unat a + unat b"
  by (rule unat_add_lem [THEN iffD1]) simp

lemma pbuf_copy_partial_loop_chain:
  assumes "pchain st p as" "apart st as d N" "unat left + unat len \<le> N" "unat left + unat len < 65536"
  shows "pbuf_copy_partial_loop st m p d len offset left copied =
    Some (mem_write m (d + unat left) (take (unat len) (drop (unat offset) (pdata st m as))),
          copied + of_nat (min (unat len) (lens st as - unat offset)))"
  using assms
proof (induction as arbitrary: m p len offset left copied)
  case Nil
  then show ?case
    by (simp add: pbuf_copy_partial_loop.simps)
next
  case (Cons a as)
  from Cons.prems obtain pb where pb: "p = a" "a \<noteq> 0" "st a = Some pb" "pchain st (pb_next pb) as"
    by (auto split: option.splits)
  consider (stop) "len = 0" | (skip) "len \<noteq> 0" "offset \<noteq> 0" "pb_len pb \<le> offset"
    | (copy) "len \<noteq> 0" "offset \<le> pb_len pb" "\<not> (offset \<noteq> 0 \<and> offset \<ge> pb_len pb)"
    by force
  then show ?case
  proof cases
    case stop
    then show ?thesis
      by (simp add: pbuf_copy_partial_loop.simps)
  next
    case skip
    have "unat (offset - pb_len pb) = unat offset - unat (pb_len pb)"
      using skip by (intro unat_minus_u16)
    moreover have "unat (pb_len pb) \<le> unat offset"
      using skip by (simp add: word_le_nat_alt)
    ultimately show ?thesis
      using skip pb Cons.prems
      by (subst pbuf_copy_partial_loop.simps) (simp add: Cons.IH add.commute)
  next
    case copy
    define k where "k = (if pb_len pb - offset > len then len else pb_len pb - offset)"
    have uo: "unat offset \<le> unat (pb_len pb)"
      using copy by (simp add: word_le_nat_alt)
    have uk: "unat k = min (unat (pb_len pb) - unat offset) (unat len)"
      using copy by (auto simp: k_def word_less_nat_alt unat_minus_u16 min_def)
    then have kl: "unat k \<le> unat len" "k \<le> len"
      by (simp_all add: word_le_nat_alt)
    define m1 where "m1 = MEMCPY m (d + unat left) (pb_payload pb + unat offset) (unat k)"
    have left: "unat (left + k) = unat left + unat k" "unat (len - k) = unat len - unat k"
      using Cons.prems(4) kl by (auto intro: unat_add_u16 unat_minus_u16)
    have m1: "m1 = mem_write m (d + unat left) (mem_read m (pb_payload pb + unat offset) (unat k))"
      by (simp add: m1_def MEMCPY_def)
    have "apart st as (d + unat left) (unat k)"
      using Cons.prems kl by (auto intro: apart_mono)
    then have same: "pdata st m1 as = pdata st m as"
      by (simp add: m1 pdata_write_apart)
    have IH: "pbuf_copy_partial_loop st m1 (pb_next pb) d (len - k) 0 (left + k) (copied + k) =
      Some (mem_write m1 (d + unat (left + k)) (take (unat (len - k)) (drop (unat (0 :: u16)) (pdata st m1 as))),
            copied + k + of_nat (min (unat (len - k)) (lens st as - unat (0 :: u16))))"
      using Cons.prems pb left kl by (intro Cons.IH) auto
    have step: "pbuf_copy_partial_loop st m p d len offset left copied
        = pbuf_copy_partial_loop st m1 (pb_next pb) d (len - k) 0 (left + k) (copied + k)"
      using copy(1) pb
      by (subst pbuf_copy_partial_loop.simps) (simp add: copy(3) k_def m1_def Let_def del: de_Morgan_conj)
    have td: "take (unat len) (drop (unat offset) (pdata st m (a # as)))
        = mem_read m (pb_payload pb + unat offset) (unat k) @ take (unat len - unat k) (pdata st m as)"
      using pb uo uk by (auto simp: min_def)
    have "min (unat len) (lens st (a # as) - unat offset) = unat k + min (unat len - unat k) (lens st as)"
      using pb uo uk by (auto simp: min_def)
    then show ?thesis
      unfolding step IH unfolding td same left unfolding m1
      using mem_write_append [of m "d + unat left" "mem_read m (pb_payload pb + unat offset) (unat k)"]
      by (simp add: add.assoc)
  qed
qed

section \<open>Copying in\<close>

lemma pbuf_take_loop_chain:
  assumes "pchain st p as" "pays_disj st as" "apart st as d N" "unat copied + unat tot \<le> N"
    and "unat tot \<le> lens st as" "unat copied + unat tot < 65536"
  shows "\<exists>m'. pbuf_take_loop st m p d tot copied = Some m'
    \<and> pdata st m' as = mem_read m (d + unat copied) (unat tot) @ drop (unat tot) (pdata st m as)
    \<and> (\<forall>b n. apart st as b n \<longrightarrow> mem_read m' b n = mem_read m b n)"
  using assms
proof (induction as arbitrary: m p tot copied)
  case Nil
  then show ?case
    by (simp add: pbuf_take_loop.simps unat_eq_0)
next
  case (Cons a as)
  from Cons.prems obtain pb where pb: "p = a" "a \<noteq> 0" "st a = Some pb" "pchain st (pb_next pb) as"
    by (auto split: option.splits)
  show ?case
  proof (cases "tot = 0")
    case True
    then show ?thesis
      by (simp add: pbuf_take_loop.simps)
  next
    case False
    define k where "k = (if tot > pb_len pb then pb_len pb else tot)"
    have uk: "unat k = min (unat (pb_len pb)) (unat tot)" "k \<le> tot"
      by (auto simp: k_def word_less_nat_alt word_le_nat_alt min_def)
    define m1 where "m1 = MEMCPY m (pb_payload pb) (d + unat copied) (unat k)"
    have m1: "m1 = mem_write m (pb_payload pb) (mem_read m (d + unat copied) (unat k))"
      by (simp add: m1_def MEMCPY_def)
    have "unat k \<le> unat tot"
      using uk by simp
    then have ar: "unat (copied + k) = unat copied + unat k" "unat (tot - k) = unat tot - unat k"
      using Cons.prems(6) unat_add_u16 [of copied k] unat_minus_u16 [OF uk(2)] by linarith+
    have ap: "apart st as (pb_payload pb) (unat k)"
      using Cons.prems(2) pb uk by (auto intro: apart_mono)
    from Cons.prems pb uk have "\<exists>m'. pbuf_take_loop st m1 (pb_next pb) d (tot - k) (copied + k) = Some m'
      \<and> pdata st m' as = mem_read m1 (d + unat (copied + k)) (unat (tot - k)) @ drop (unat (tot - k)) (pdata st m1 as)
      \<and> (\<forall>b n. apart st as b n \<longrightarrow> mem_read m' b n = mem_read m1 b n)"
      by (intro Cons.IH) (auto simp: ar)
    then obtain m' where m': "pbuf_take_loop st m1 (pb_next pb) d (tot - k) (copied + k) = Some m'"
      "pdata st m' as = mem_read m1 (d + unat copied + unat k) (unat tot - unat k) @ drop (unat tot - unat k) (pdata st m1 as)"
      "\<And>b n. apart st as b n \<Longrightarrow> mem_read m' b n = mem_read m1 b n"
      unfolding ar by (auto simp: add.assoc)
    have step: "pbuf_take_loop st m p d tot copied = Some m'"
      using False pb m'(1) by (subst pbuf_take_loop.simps) (simp add: k_def m1_def Let_def)
    have same: "pdata st m1 as = pdata st m as"
      using ap by (simp add: m1 pdata_write_apart)
    have src: "mem_read m1 (d + unat copied + unat k) (unat tot - unat k)
        = mem_read m (d + unat copied + unat k) (unat tot - unat k)"
      using Cons.prems pb uk by (auto simp: m1 disj_rng_def intro!: mem_read_write_disj)
    have first: "mem_read m' (pb_payload pb) (unat (pb_len pb)) = mem_read m1 (pb_payload pb) (unat (pb_len pb))"
      using Cons.prems(2) pb by (intro m'(3)) simp
    have "mem_read m1 (pb_payload pb) (unat (pb_len pb)) =
        mem_read m (d + unat copied) (unat k) @ drop (unat k) (mem_read m (pb_payload pb) (unat (pb_len pb)))"
      using uk by (simp add: m1 mem_read_write_prefix)
    then have "pdata st m' (a # as) = mem_read m (d + unat copied) (unat tot) @ drop (unat tot) (pdata st m (a # as))"
      using pb uk src mem_read_add [of m "d + unat copied" "unat k" "unat tot - unat k"]
      by (cases "unat tot \<le> unat (pb_len pb)") (simp_all add: m'(2) same src first)
    moreover have "mem_read m' b n = mem_read m b n" if "apart st (a # as) b n" for b n
      using that m'(3) [of b n] pb uk by (auto simp: m1 disj_rng_def intro!: mem_read_write_disj)
    ultimately show ?thesis
      using step by blast
  qed
qed

section \<open>Reading, comparing and searching\<close>

lemma pbuf_skip_chain:
  assumes "pchain st p as"
  shows "\<exists>xs ys q r. as = xs @ ys \<and> pbuf_skip st p off = Some (q, r) \<and> pchain st q ys
    \<and> unat off = lens st xs + unat r \<and> (ys \<noteq> [] \<longrightarrow> unat r < unat (pb_len (pb_at st q)))"
  using assms
proof (induction as arbitrary: p off)
  case Nil
  then show ?case
    by (simp add: pbuf_skip.simps)
next
  case (Cons a as)
  from Cons.prems obtain pb where pb: "p = a" "a \<noteq> 0" "st a = Some pb" "pchain st (pb_next pb) as"
    by (auto split: option.splits)
  show ?case
  proof (cases "pb_len pb \<le> off")
    case True
    from Cons.IH [OF pb(4), of "off - pb_len pb"] obtain xs ys q r where
      "as = xs @ ys" "pbuf_skip st (pb_next pb) (off - pb_len pb) = Some (q, r)" "pchain st q ys"
      "unat (off - pb_len pb) = lens st xs + unat r" "ys \<noteq> [] \<longrightarrow> unat r < unat (pb_len (pb_at st q))"
      by blast
    then have "a # as = (a # xs) @ ys \<and> pbuf_skip st p off = Some (q, r) \<and> pchain st q ys
        \<and> unat off = lens st (a # xs) + unat r \<and> (ys \<noteq> [] \<longrightarrow> unat r < unat (pb_len (pb_at st q)))"
      using pb True unat_minus_u16 [OF True] by (simp add: pbuf_skip.simps [of st a off] word_le_nat_alt)
    then show ?thesis
      by blast
  next
    case False
    then have "a # as = [] @ (a # as) \<and> pbuf_skip st p off = Some (p, off) \<and> pchain st p (a # as)
        \<and> unat off = lens st [] + unat off \<and> (a # as \<noteq> [] \<longrightarrow> unat off < unat (pb_len (pb_at st p)))"
      using pb Cons.prems by (simp add: pbuf_skip.simps [of st a off] word_le_nat_alt)
    then show ?thesis
      by blast
  qed
qed

lemma pbuf_get_at_chain:
  assumes "pchain (pbufs s) p as"
  shows "pbuf_get_at s p off =
    Some (if unat off < lens (pbufs s) as then pdata (pbufs s) (dmem s) as ! unat off else 0)"
proof -
  from pbuf_skip_chain [OF assms, of off] obtain xs ys q r where
    sk: "as = xs @ ys" "pbuf_skip (pbufs s) p off = Some (q, r)" "pchain (pbufs s) q ys"
      "unat off = lens (pbufs s) xs + unat r" "ys \<noteq> [] \<longrightarrow> unat r < unat (pb_len (pb_at (pbufs s) q))"
    by blast
  show ?thesis
  proof (cases ys)
    case Nil
    then show ?thesis
      using sk by (simp add: pbuf_get_at_def)
  next
    case (Cons b zs)
    then show ?thesis
      using sk by (auto simp: pbuf_get_at_def nth_append word_less_nat_alt split: option.splits)
  qed
qed

lemma pbuf_memcmp_loop_chain:
  assumes "pchain (pbufs s) q ys" "unat start + unat n \<le> lens (pbufs s) ys" "lens (pbufs s) ys < 65536"
    and "i \<le> n"
  defines "d \<equiv> \<lambda>j. pdata (pbufs s) (dmem s) ys ! (unat start + j)"
  shows "\<exists>r. pbuf_memcmp_loop s q start s2 n i = Some r
    \<and> (r = 0 \<longrightarrow> (\<forall>j. unat i \<le> j \<and> j < unat n \<longrightarrow> d j = dmem s (s2 + j)))
    \<and> (r \<noteq> 0 \<longrightarrow> unat i < unat r \<and> unat r \<le> unat n \<and> d (unat r - 1) \<noteq> dmem s (s2 + (unat r - 1))
         \<and> (\<forall>j. unat i \<le> j \<and> j < unat r - 1 \<longrightarrow> d j = dmem s (s2 + j)))"
  using assms(4)
proof (induction "unat n - unat i" arbitrary: i)
  case 0
  then have "i = n"
    by (simp add: word_le_nat_alt word_unat_eq_iff)
  then show ?case
    by (auto simp: pbuf_memcmp_loop.simps)
next
  case (Suc k)
  then have lt: "i < n"
    by (simp add: word_less_nat_alt)
  have ui: "unat (i + 1) = unat i + 1"
    using lt unat_u16_lt [of n] by (subst unat_add_u16) (auto simp: word_less_nat_alt)
  have us: "unat (start + i) = unat start + unat i"
    using lt assms(2,3) by (intro unat_add_u16) (simp add: word_less_nat_alt)
  have get: "pbuf_get_at s q (start + i) = Some (d (unat i))"
    using lt assms(2) by (subst pbuf_get_at_chain [OF assms(1)]) (simp add: us d_def word_less_nat_alt)
  show ?case
  proof (cases "d (unat i) = dmem s (s2 + unat i)")
    case False
    have "i + 1 \<noteq> 0"
      using ui by (auto simp: word_unat_eq_iff)
    then show ?thesis
      using False lt get ui
      by (intro exI [of _ "i + 1"]) (auto simp: pbuf_memcmp_loop.simps [of s q start s2 n i] word_less_nat_alt)
  next
    case True
    have "\<exists>r. pbuf_memcmp_loop s q start s2 n (i + 1) = Some r
      \<and> (r = 0 \<longrightarrow> (\<forall>j. unat (i + 1) \<le> j \<and> j < unat n \<longrightarrow> d j = dmem s (s2 + j)))
      \<and> (r \<noteq> 0 \<longrightarrow> unat (i + 1) < unat r \<and> unat r \<le> unat n \<and> d (unat r - 1) \<noteq> dmem s (s2 + (unat r - 1))
         \<and> (\<forall>j. unat (i + 1) \<le> j \<and> j < unat r - 1 \<longrightarrow> d j = dmem s (s2 + j)))"
      using Suc.hyps lt ui by (intro Suc.hyps(1)) (auto simp: word_le_nat_alt word_less_nat_alt)
    then obtain r where r: "pbuf_memcmp_loop s q start s2 n (i + 1) = Some r"
      "r = 0 \<longrightarrow> (\<forall>j. unat i + 1 \<le> j \<and> j < unat n \<longrightarrow> d j = dmem s (s2 + j))"
      "r \<noteq> 0 \<longrightarrow> unat i + 1 < unat r \<and> unat r \<le> unat n \<and> d (unat r - 1) \<noteq> dmem s (s2 + (unat r - 1))
         \<and> (\<forall>j. unat i + 1 \<le> j \<and> j < unat r - 1 \<longrightarrow> d j = dmem s (s2 + j))"
      unfolding ui by blast
    have "pbuf_memcmp_loop s q start s2 n i = Some r"
      using lt get True r(1) by (simp add: pbuf_memcmp_loop.simps [of s q start s2 n i])
    moreover have "(\<forall>j. unat i \<le> j \<and> j < k \<longrightarrow> d j = dmem s (s2 + j))
        \<longleftrightarrow> (\<forall>j. unat i + 1 \<le> j \<and> j < k \<longrightarrow> d j = dmem s (s2 + j))" for k
      using True by (metis Suc_eq_plus1 Suc_leD le_antisym not_less_eq_eq)
    ultimately show ?thesis
      using r(2,3) by (intro exI [of _ r]) auto
  qed
qed

lemma pbuf_memcmp_chain:
  assumes "pchain (pbufs s) p as" "unat off + unat n \<le> lens (pbufs s) as" "lens (pbufs s) as < 65536"
    and "unat off < lens (pbufs s) as"
  defines "d \<equiv> \<lambda>j. pdata (pbufs s) (dmem s) as ! (unat off + j)"
  shows "\<exists>r. pbuf_memcmp s p off s2 n = Some r
    \<and> (r = 0 \<longrightarrow> (\<forall>j < unat n. d j = dmem s (s2 + j)))
    \<and> (r \<noteq> 0 \<longrightarrow> 0 < unat r \<and> unat r \<le> unat n \<and> d (unat r - 1) \<noteq> dmem s (s2 + (unat r - 1))
         \<and> (\<forall>j < unat r - 1. d j = dmem s (s2 + j)))"
proof -
  from pbuf_skip_chain [OF assms(1), of off] obtain xs ys q r where
    sk: "as = xs @ ys" "pbuf_skip (pbufs s) p off = Some (q, r)" "pchain (pbufs s) q ys"
      "unat off = lens (pbufs s) xs + unat r" "ys \<noteq> [] \<longrightarrow> unat r < unat (pb_len (pb_at (pbufs s) q))"
    by blast
  have ys: "ys \<noteq> []"
    using sk assms(4) by auto
  then obtain qb where qb: "q \<noteq> 0" "pbufs s q = Some qb" "r < pb_len qb"
    using sk by (cases ys) (auto simp: word_less_nat_alt split: option.splits)
  then have "pbuf_memcmp s p off s2 n = pbuf_memcmp_loop s q r s2 n 0"
    by (simp add: pbuf_memcmp_def sk)
  moreover have "d = (\<lambda>j. pdata (pbufs s) (dmem s) ys ! (unat r + j))"
    by (simp add: d_def fun_eq_iff sk nth_append)
  ultimately show ?thesis
    using pbuf_memcmp_loop_chain [OF sk(3), of r n 0 s2] assms(2,3) sk(1,4) by simp
qed

lemma pbuf_memfind_loop_chain:
  assumes "pchain (pbufs s) p as" "lens (pbufs s) as < 65535" "mem_len \<noteq> 0" "unat mem_len \<le> lens (pbufs s) as"
    and "unat mx = lens (pbufs s) as - unat mem_len"
  shows "unat i \<le> lens (pbufs s) as \<Longrightarrow> \<exists>r. pbuf_memfind_loop s p mem mem_len mx i = Some r
    \<and> (r \<noteq> 0xFFFF \<longrightarrow> unat i \<le> unat r \<and> unat r + unat mem_len \<le> lens (pbufs s) as
         \<and> (\<forall>j < unat mem_len. pdata (pbufs s) (dmem s) as ! (unat r + j) = dmem s (mem + j)))"
proof (induction "lens (pbufs s) as - unat i" arbitrary: i rule: less_induct)
  case less
  show ?case
  proof (cases "i \<le> mx")
    case False
    then show ?thesis
      by (simp add: pbuf_memfind_loop.simps)
  next
    case True
    have pos: "0 < unat mem_len"
      using assms(3) by (simp add: unat_gt_0)
    have fit: "unat i + unat mem_len \<le> lens (pbufs s) as"
      using True assms(4,5) by (simp add: word_le_nat_alt)
    from pbuf_memcmp_chain [OF assms(1) fit, of mem] assms(2) pos fit obtain r where
      r: "pbuf_memcmp s p i mem mem_len = Some r"
      "r = 0 \<longrightarrow> (\<forall>j < unat mem_len. pdata (pbufs s) (dmem s) as ! (unat i + j) = dmem s (mem + j))"
      "r \<noteq> 0 \<longrightarrow> 0 < unat r \<and> unat r \<le> unat mem_len"
      by auto
    show ?thesis
    proof (cases "r = 0")
      case True
      then show ?thesis
        using r \<open>i \<le> mx\<close> fit by (intro exI [of _ i]) (simp add: pbuf_memfind_loop.simps [of s p mem mem_len mx i])
    next
      case False
      have ui: "unat (i + r) = unat i + unat r"
        using r(3) False fit assms(2) by (intro unat_add_u16) linarith
      have "lens (pbufs s) as - unat (i + r) < lens (pbufs s) as - unat i" "unat (i + r) \<le> lens (pbufs s) as"
        using r(3) False fit ui by linarith+
      from less.hyps [OF this] obtain r' where
        "pbuf_memfind_loop s p mem mem_len mx (i + r) = Some r'"
        "r' \<noteq> 0xFFFF \<longrightarrow> unat (i + r) \<le> unat r' \<and> unat r' + unat mem_len \<le> lens (pbufs s) as
         \<and> (\<forall>j < unat mem_len. pdata (pbufs s) (dmem s) as ! (unat r' + j) = dmem s (mem + j))"
        by blast
      then show ?thesis
        using r(1) False \<open>i \<le> mx\<close> ui
        by (intro exI [of _ r']) (auto simp: pbuf_memfind_loop.simps [of s p mem mem_len mx i])
    qed
  qed
qed

section \<open>Copying between chains\<close>

text \<open>
  What is left of a chain from an offset in its first pbuf on, as a list of memory segments; the
  loop of \<^verbatim>\<open>pbuf_copy\<close> takes the same number of bytes from the front of two such lists.
\<close>

fun segs :: "store \<Rightarrow> addr list \<Rightarrow> nat \<Rightarrow> (addr \<times> nat) list" where
  "segs st [] off = []"
| "segs st (a # as) off =
     (pb_payload (pb_at st a) + off, unat (pb_len (pb_at st a)) - off) # segs st as 0"

definition seg_read :: "bytes \<Rightarrow> (addr \<times> nat) list \<Rightarrow> u8 list" where
  "seg_read m ss = concat (map (\<lambda>(a, n). mem_read m a n) ss)"

lemma seg_read_simps [simp]: "seg_read m [] = []" "seg_read m ((a, n) # ss) = mem_read m a n @ seg_read m ss"
  by (simp_all add: seg_read_def)

lemma seg_read_segs: "seg_read m (segs st as 0) = pdata st m as"
  by (induction as) auto

definition seg_apart :: "(addr \<times> nat) list \<Rightarrow> addr \<Rightarrow> nat \<Rightarrow> bool" where
  "seg_apart ss b k \<longleftrightarrow> (\<forall>(a, n)\<in>set ss. disj_rng a n b k)"

lemma seg_apart_simps [simp]:
  "seg_apart [] b k" "seg_apart ((a, n) # ss) b k \<longleftrightarrow> disj_rng a n b k \<and> seg_apart ss b k"
  by (simp_all add: seg_apart_def)

lemma seg_read_write: "seg_apart ss b (length xs) \<Longrightarrow> seg_read (mem_write m b xs) ss = seg_read m ss"
  by (induction ss) (auto simp: mem_read_write_disj)

fun seg_disj :: "(addr \<times> nat) list \<Rightarrow> bool" where
  "seg_disj [] \<longleftrightarrow> True"
| "seg_disj ((a, n) # ss) \<longleftrightarrow> seg_apart ss a n \<and> seg_disj ss"

text \<open>Taking \<open>k\<close> bytes off the front.\<close>

fun seg_adv :: "(addr \<times> nat) list \<Rightarrow> nat \<Rightarrow> (addr \<times> nat) list" where
  "seg_adv [] k = []"
| "seg_adv ((a, n) # ss) k = (if k = n then ss else (a + k, n - k) # ss)"

lemma seg_read_adv: "k \<le> n \<Longrightarrow> seg_read m ((a, n) # ss) = mem_read m a k @ seg_read m (seg_adv ((a, n) # ss) k)"
  using mem_read_add [of m a k "n - k"] by auto

lemma seg_apart_adv: "seg_apart ss b k \<Longrightarrow> l \<le> snd (hd ss) \<Longrightarrow> seg_apart (seg_adv ss l) b k"
  by (cases ss) (auto simp: disj_rng_def)

lemma seg_apart_shrink: "seg_apart ss b k \<Longrightarrow> b \<le> c \<Longrightarrow> c + l \<le> b + k \<Longrightarrow> seg_apart ss c l"
  by (fastforce simp: seg_apart_def disj_rng_def)

lemma seg_disj_adv: "seg_disj ss \<Longrightarrow> k \<le> snd (hd ss) \<Longrightarrow> seg_disj (seg_adv ss k)"
  by (cases ss) (auto elim!: seg_apart_shrink)

lemma seg_adv_apart_front: "seg_disj ((a, n) # ss) \<Longrightarrow> k \<le> n \<Longrightarrow> seg_apart (seg_adv ((a, n) # ss) k) a k"
  by (auto simp: disj_rng_def elim!: seg_apart_shrink)

definition segs_cross :: "(addr \<times> nat) list \<Rightarrow> (addr \<times> nat) list \<Rightarrow> bool" where
  "segs_cross ss ts \<longleftrightarrow> (\<forall>(b, k)\<in>set ts. seg_apart ss b k)"

lemma segs_cross_simps [simp]:
  "segs_cross ss []" "segs_cross ss ((b, k) # ts) \<longleftrightarrow> seg_apart ss b k \<and> segs_cross ss ts"
  by (auto simp: segs_cross_def)

lemma segs_cross_adv_right:
  "segs_cross ss ts \<Longrightarrow> k \<le> snd (hd ts) \<Longrightarrow> segs_cross ss (seg_adv ts k)"
proof (induction ts k rule: seg_adv.induct)
  case (2 b n ts k)
  then have "seg_apart ss (b + k) (n - k)"
    using seg_apart_shrink [of ss b n "b + k" "n - k"] by simp
  then show ?case
    using 2 by simp
qed simp

lemma segs_cross_adv:
  assumes "segs_cross ss ts" "k \<le> snd (hd ss)" "k \<le> snd (hd ts)"
  shows "segs_cross (seg_adv ss k) (seg_adv ts k)"
proof (rule segs_cross_adv_right)
  show "segs_cross (seg_adv ss k) ts"
    using assms(1,2) by (auto simp: segs_cross_def intro: seg_apart_adv)
qed (rule assms)

lemma segs_cross_front: "segs_cross ((a, n) # ss) ts \<Longrightarrow> k \<le> n \<Longrightarrow> seg_apart ts a k"
  by (auto simp: segs_cross_def seg_apart_def disj_rng_def)

text \<open>A frame: memory that only changed inside the segments.\<close>

definition only_segs :: "bytes \<Rightarrow> bytes \<Rightarrow> (addr \<times> nat) list \<Rightarrow> bool" where
  "only_segs m m' ss \<longleftrightarrow> (\<forall>b n. seg_apart ss b n \<longrightarrow> mem_read m' b n = mem_read m b n)"

lemma seg_copy_step:
  assumes "seg_disj ((a, n) # ts)" "segs_cross ((a, n) # ts) ((b, l) # fs)" "k \<le> n" "k \<le> l"
    and m1: "m1 = MEMCPY m a b k"
    and "seg_read m1 (seg_adv ((b, l) # fs) k) = take r (seg_read m' (seg_adv ((a, n) # ts) k))"
    and "only_segs m1 m' (seg_adv ((a, n) # ts) k)"
  shows "seg_read m ((b, l) # fs) = take (k + r) (seg_read m' ((a, n) # ts))"
    and "only_segs m m' ((a, n) # ts)"
proof -
  have front: "mem_read m' a k = mem_read m b k"
    using assms(7) seg_adv_apart_front [OF assms(1,3)]
    by (auto simp: only_segs_def m1 MEMCPY_def mem_read_write_prefix)
  have "segs_cross ((a, n) # ts) (seg_adv ((b, l) # fs) k)"
    using assms(2,4) by (intro segs_cross_adv_right) simp_all
  then have "seg_apart (seg_adv ((b, l) # fs) k) a k"
    using assms(3) by (rule segs_cross_front)
  then have "seg_read m1 (seg_adv ((b, l) # fs) k) = seg_read m (seg_adv ((b, l) # fs) k)"
    by (simp add: m1 MEMCPY_def seg_read_write)
  then have "seg_read m ((b, l) # fs) = mem_read m' a k @ take r (seg_read m' (seg_adv ((a, n) # ts) k))"
    using assms(6) front unfolding seg_read_adv [OF assms(4), of m b fs] by simp
  then show "seg_read m ((b, l) # fs) = take (k + r) (seg_read m' ((a, n) # ts))"
    unfolding seg_read_adv [OF assms(3), of m' a ts] by simp
  show "only_segs m m' ((a, n) # ts)"
    unfolding only_segs_def
  proof (intro allI impI)
    fix c j
    assume ap: "seg_apart ((a, n) # ts) c j"
    then have "mem_read m' c j = mem_read m1 c j"
      using assms(3,7) seg_apart_adv [OF ap, of k] by (simp add: only_segs_def)
    also have "\<dots> = mem_read m c j"
      using ap assms(3) by (auto simp: m1 MEMCPY_def disj_rng_def intro!: mem_read_write_disj)
    finally show "mem_read m' c j = mem_read m c j" .
  qed
qed

text \<open>Chains without empty pbufs are not mistaken for packet queues.\<close>

definition nonempty :: "store \<Rightarrow> addr list \<Rightarrow> bool" where
  "nonempty st as \<longleftrightarrow> (\<forall>a\<in>set as. pb_len (pb_at st a) \<noteq> 0)"

lemma nonempty_simps [simp]:
  "nonempty st []" "nonempty st (a # as) \<longleftrightarrow> pb_len (pb_at st a) \<noteq> 0 \<and> nonempty st as"
  by (simp_all add: nonempty_def)

lemma nonempty_lens: "nonempty st as \<Longrightarrow> lens st as = 0 \<longleftrightarrow> as = []"
  by (cases as) (auto simp: unat_eq_0)

lemma not_queue:
  assumes "pchain st p as" "tot_ok st as" "nonempty st as" "p \<noteq> NULL"
  shows "\<exists>pb. st p = Some pb \<and> \<not> (pb_len pb = pb_tot_len pb \<and> pb_next pb \<noteq> NULL)"
proof -
  from assms(1,4) obtain pb bs where pb: "as = p # bs" "st p = Some pb" "pchain st (pb_next pb) bs"
    by (cases as) (auto split: option.splits)
  moreover have "pb_next pb = 0" if "pb_len pb = pb_tot_len pb"
    using assms pb that nonempty_lens [of st bs] by (auto simp: word_unat_eq_iff)
  ultimately show ?thesis
    by blast
qed

text \<open>The rest of a chain after \<open>k\<close> more bytes, as the loop moves on to the next pbuf.\<close>

definition adv_list :: "store \<Rightarrow> addr list \<Rightarrow> u16 \<Rightarrow> u16 \<Rightarrow> addr list \<times> u16" where
  "adv_list st as off k = (if off + k = pb_len (pb_at st (hd as)) then (tl as, 0) else (as, off + k))"

lemma adv_list_props:
  assumes "pchain st p as" "tot_ok st as" "nonempty st as" "as \<noteq> []"
    and "unat k \<le> unat (pb_len (pb_at st p)) - unat off" "unat off < unat (pb_len (pb_at st p))"
    and "adv_list st as off k = (bs, off')"
  shows "\<exists>q. pchain st q bs" "tot_ok st bs" "nonempty st bs"
    and "bs \<noteq> [] \<Longrightarrow> unat off' < unat (pb_len (pb_at st (hd bs)))"
    and "segs st bs (unat off') = seg_adv (segs st as (unat off)) (unat k)"
    and "lens st bs - unat off' = lens st as - unat off - unat k"
    and "length bs = (if off + k = pb_len (pb_at st p) then length as - 1 else length as)"
    and "pchain st (if off + k = pb_len (pb_at st p) then pb_next (pb_at st p) else p) bs"
proof -
  from assms(1,4) obtain cs pb where as: "as = p # cs" and pb: "st p = Some pb" "pchain st (pb_next pb) cs"
    by (cases as) (auto split: option.splits)
  have u: "unat (off + k) = unat off + unat k"
    using assms(5,6) unat_u16_lt [of "pb_len (pb_at st p)"] by (intro unat_add_u16) linarith
  have eq: "off + k = pb_len (pb_at st p) \<longleftrightarrow> unat off + unat k = unat (pb_len (pb_at st p))"
    unfolding word_unat_eq_iff u ..
  show "\<exists>q. pchain st q bs" "tot_ok st bs" "nonempty st bs"
    "length bs = (if off + k = pb_len (pb_at st p) then length as - 1 else length as)"
    "pchain st (if off + k = pb_len (pb_at st p) then pb_next (pb_at st p) else p) bs"
    using assms pb by (auto simp: adv_list_def as split: if_splits)
  show "unat off' < unat (pb_len (pb_at st (hd bs)))" if "bs \<noteq> []"
  proof (cases "off + k = pb_len (pb_at st p)")
    case True
    then show ?thesis
      using assms(3,7) that by (cases cs) (auto simp: adv_list_def as unat_gt_0)
  next
    case False
    then show ?thesis
      using assms(5,6,7) eq u by (auto simp: adv_list_def as)
  qed
  show "segs st bs (unat off') = seg_adv (segs st as (unat off)) (unat k)"
    using assms(5,6,7) eq u by (cases "off + k = pb_len (pb_at st p)") (auto simp: adv_list_def as add.assoc)
  show "lens st bs - unat off' = lens st as - unat off - unat k"
    using assms(5,6,7) eq u by (cases "off + k = pb_len (pb_at st p)") (auto simp: adv_list_def as)
qed

lemma copy_chunk:
  fixes ot off lt lf :: u16
  assumes "ot < lt" "off < lf"
  shows "unat (if uint lt - uint ot \<ge> uint lf - uint off then lf - off else lt - ot)
    = min (unat lt - unat ot) (unat lf - unat off)"
proof -
  have le: "unat ot \<le> unat lt" "unat off \<le> unat lf"
    using assms by (simp_all add: word_less_nat_alt)
  have u: "unat (lf - off) = unat lf - unat off" "unat (lt - ot) = unat lt - unat ot"
    using assms by (simp_all add: unat_minus_u16)
  show ?thesis
    unfolding uint_nat if_distrib [of unat] u min_def using le by (split if_split)+ linarith
qed

lemma pbuf_copy_loop_chain:
  assumes "pchain st t ts" "pchain st f fs" "tot_ok st ts" "tot_ok st fs" "nonempty st ts" "nonempty st fs"
    and "ts \<noteq> []" "fs \<noteq> []"
    and "unat ot < unat (pb_len (pb_at st t))" "unat off < unat (pb_len (pb_at st f))"
    and "lens st fs - unat off \<le> lens st ts - unat ot"
    and "seg_disj (segs st ts (unat ot))" "segs_cross (segs st ts (unat ot)) (segs st fs (unat off))"
  shows "\<exists>m'. pbuf_copy_loop st m t ot f off = Some (m', ERR_OK)
    \<and> seg_read m (segs st fs (unat off)) = take (lens st fs - unat off) (seg_read m' (segs st ts (unat ot)))
    \<and> only_segs m m' (segs st ts (unat ot))"
  using assms
proof (induction "length ts + length fs" arbitrary: m t ts f fs ot off rule: less_induct)
  case less
  from less.prems obtain ts' tb where ts: "ts = t # ts'" and tb: "st t = Some tb" "t \<noteq> 0"
    by (cases ts) (auto split: option.splits)
  from less.prems obtain fs' fb where fs: "fs = f # fs'" and fb: "st f = Some fb" "f \<noteq> 0"
    by (cases fs) (auto split: option.splits)
  define k where "k = (if uint (pb_len tb) - uint ot \<ge> uint (pb_len fb) - uint off
      then pb_len fb - off else pb_len tb - ot)"
  have lt: "ot < pb_len tb" "off < pb_len fb"
    using less.prems(9,10) tb fb by (simp_all add: word_less_nat_alt)
  have uk: "unat k = min (unat (pb_len tb) - unat ot) (unat (pb_len fb) - unat off)"
    by (rule copy_chunk [OF lt, folded k_def])
  define m1 where "m1 = MEMCPY m (pb_payload tb + unat ot) (pb_payload fb + unat off) (unat k)"
  obtain ts2 ot2 where adv_t: "adv_list st ts ot k = (ts2, ot2)"
    by fastforce
  obtain fs2 off2 where adv_f: "adv_list st fs off k = (fs2, off2)"
    by fastforce
  have kt: "unat k \<le> unat (pb_len (pb_at st t)) - unat ot" and kf: "unat k \<le> unat (pb_len (pb_at st f)) - unat off"
    using uk tb fb by simp_all
  note T = adv_list_props [OF less.prems(1,3,5,7) kt less.prems(9) adv_t]
  note F = adv_list_props [OF less.prems(2,4,6,8) kf less.prems(10) adv_f]
  define t2 where "t2 = (if ot + k = pb_len tb then pb_next tb else t)"
  define f2 where "f2 = (if off + k = pb_len fb then pb_next fb else f)"
  have ch: "pchain st t2 ts2" "pchain st f2 fs2"
    unfolding t2_def f2_def using T(8) F(8) by (simp_all only: tb(1) fb(1) option.sel)
  have off: "(if ot + k = pb_len tb then (pb_next tb, 0) else (t, ot + k)) = (t2, ot2)"
    "(if off + k \<ge> pb_len fb then (pb_next fb, 0) else (f, off + k)) = (f2, off2)"
  proof -
    have "unat (off + k) = unat off + unat k"
      using kf fb unat_u16_lt [of "pb_len fb"] lt by (intro unat_add_u16) (auto simp: word_less_nat_alt)
    then have "off + k \<le> pb_len fb"
      using kf fb lt by (simp add: word_le_nat_alt word_less_nat_alt)
    then have "pb_len fb \<le> off + k \<longleftrightarrow> off + k = pb_len fb"
      by auto
    then show "(if off + k \<ge> pb_len fb then (pb_next fb, 0) else (f, off + k)) = (f2, off2)"
      using adv_f fb by (auto simp: adv_list_def fs f2_def)
    show "(if ot + k = pb_len tb then (pb_next tb, 0) else (t, ot + k)) = (t2, ot2)"
      using adv_t tb by (auto simp: adv_list_def ts t2_def)
  qed
  have queue: "(if q \<noteq> NULL then do { b \<leftarrow> st q; Some (pb_len b = pb_tot_len b \<and> pb_next b \<noteq> NULL) } else Some False)
      = Some False" if "pchain st q qs" "tot_ok st qs" "nonempty st qs" for q qs
    using not_queue [OF that] by auto
  have step: "pbuf_copy_loop st m t ot f off =
      (if f2 \<noteq> NULL then pbuf_copy_loop st m1 t2 ot2 f2 off2 else Some (m1, ERR_OK))"
    unfolding pbuf_copy_loop.simps [of st m t ot f off] tb(1) fb(1) bind.bind_lunit Let_def
      k_def [symmetric] m1_def [symmetric] off prod.case queue [OF ch(2) F(2,3)] queue [OF ch(1) T(2,3)]
    by simp
  have sc: "seg_disj (segs st ts (unat ot))" "segs_cross (segs st ts (unat ot)) (segs st fs (unat off))"
    by (rule less.prems)+
  have smaller: "length ts2 + length fs2 < length ts + length fs"
  proof -
    have "ot + k = pb_len tb \<or> off + k = pb_len fb"
      unfolding k_def by simp
    then show ?thesis
      using T(7) F(7) tb fb by (auto simp: ts fs)
  qed
  have "\<exists>m'. pbuf_copy_loop st m t ot f off = Some (m', ERR_OK)
    \<and> seg_read m1 (segs st fs2 (unat off2)) = take (lens st fs2 - unat off2) (seg_read m' (segs st ts2 (unat ot2)))
    \<and> only_segs m1 m' (segs st ts2 (unat ot2))"
  proof (cases "fs2 = []")
    case True
    then show ?thesis
      using ch(2) step by (auto simp: only_segs_def)
  next
    case False
    have "unat off2 < lens st fs2"
      using F(4) [OF False] False by (cases fs2) auto
    then have ts2: "ts2 \<noteq> []"
      using T(6) F(6) less.prems(11) by auto
    have hds: "hd ts2 = t2" "hd fs2 = f2" "f2 \<noteq> 0"
      using ch ts2 False by (cases ts2; cases fs2; auto)+
    have rest: "lens st fs2 - unat off2 \<le> lens st ts2 - unat ot2"
      using T(6) F(6) less.prems(11) by linarith
    have k_hd: "unat k \<le> snd (hd (segs st ts (unat ot)))" "unat k \<le> snd (hd (segs st fs (unat off)))"
      using kt kf by (simp_all add: ts fs)
    have "seg_disj (segs st ts2 (unat ot2))" "segs_cross (segs st ts2 (unat ot2)) (segs st fs2 (unat off2))"
      unfolding T(5) F(5) using seg_disj_adv [OF sc(1) k_hd(1)] segs_cross_adv [OF sc(2) k_hd] by simp_all
    with T(4) [OF ts2] F(4) [OF False] show ?thesis
      unfolding step if_P [OF hds(3)] hds
      by (intro less.hyps [OF smaller ch T(2) F(2) T(3) F(3) ts2 False _ _ rest])
  qed
  then obtain m' where m': "pbuf_copy_loop st m t ot f off = Some (m', ERR_OK)"
    "seg_read m1 (segs st fs2 (unat off2)) = take (lens st fs2 - unat off2) (seg_read m' (segs st ts2 (unat ot2)))"
    "only_segs m1 m' (segs st ts2 (unat ot2))"
    by blast
  have "lens st fs - unat off = unat k + (lens st fs2 - unat off2)"
    using F(6) kf fb by (simp add: fs)
  then show ?case
    using m' sc seg_copy_step [of "pb_payload tb + unat ot" "unat (pb_len tb) - unat ot" "segs st ts' 0"
        "pb_payload fb + unat off" "unat (pb_len fb) - unat off" "segs st fs' 0" "unat k" m1 m
        "lens st fs2 - unat off2" m'] m1_def kt kf
    unfolding T(5) F(5) by (simp add: ts fs tb fb del: seg_adv.simps seg_disj.simps segs_cross_simps)
qed

lemma segs_zero: "segs st as 0 = map (\<lambda>a. (pb_payload (pb_at st a), unat (pb_len (pb_at st a)))) as"
  by (induction as) auto

lemma seg_apart_segs: "seg_apart (segs st as 0) b k = apart st as b k"
  by (auto simp: segs_zero seg_apart_def apart_def)

lemma seg_disj_segs: "seg_disj (segs st as 0) = pays_disj st as"
  by (induction as) (auto simp: seg_apart_segs)

section \<open>Properties\<close>

text \<open>\<open>pbuf_copy_partial\<close> into a buffer that does not overlap the payloads stores the bytes of
  the contents from \<open>offset\<close> on, at most \<open>len\<close> of them, and returns how many it copied; the pbufs
  and all other memory stay as they are.\<close>

theorem pbuf_copy_partial_reads:
  assumes "pchain (pbufs s) buf as" "buf \<noteq> NULL" "dataptr \<noteq> NULL" "apart (pbufs s) as dataptr (unat len)"
  shows "pbuf_copy_partial s buf dataptr len offset =
    Some (s\<lparr>dmem := mem_write (dmem s) dataptr (take (unat len) (drop (unat offset) (pdata (pbufs s) (dmem s) as)))\<rparr>,
          of_nat (min (unat len) (lens (pbufs s) as - unat offset)))"
  using assms pbuf_copy_partial_loop_chain [OF assms(1,4), of 0 len "dmem s" offset 0] unat_u16_lt [of len]
  by (simp add: pbuf_copy_partial_def)

theorem pbuf_copy_partial_reads_witness:
  "pbuf_copy_partial demo_state 100 700 3 1 =
     Some (demo_state\<lparr>dmem := mem_write (dmem demo_state) 700 [121, 122, 220]\<rparr>, 3)"
proof -
  have "pbuf_copy_partial demo_state 100 700 3 1 =
      Some (demo_state\<lparr>dmem := mem_write (dmem demo_state) 700
          (take (unat (3 :: u16)) (drop (unat (1 :: u16)) (pdata (pbufs demo_state) (dmem demo_state) [100, 200])))\<rparr>,
        of_nat (min (unat (3 :: u16)) (lens (pbufs demo_state) [100, 200] - unat (1 :: u16))))"
    by (rule pbuf_copy_partial_reads) (simp_all add: demo_defs disj_rng_def)
  moreover have "take (unat (3 :: u16)) (drop (unat (1 :: u16)) (pdata (pbufs demo_state) (dmem demo_state) [100, 200]))
      = [121, 122, 220]"
    by (simp add: demo_defs mem_read_def upt_rec)
  moreover have "lens (pbufs demo_state) [100, 200] = 5"
    by (simp add: demo_defs)
  ultimately show ?thesis
    by simp
qed

text \<open>C22. What \<open>pbuf_take\<close> stores is what \<open>pbuf_copy_partial\<close> reads: data that fits in the chain
  comes back unchanged in a second buffer.\<close>

theorem pbuf_take_copy_roundtrip:
  assumes "pchain (pbufs s) buf as" "tot_ok (pbufs s) as" "buf \<noteq> NULL" "src \<noteq> NULL" "dst \<noteq> NULL"
    and "pays_disj (pbufs s) as" "apart (pbufs s) as src (unat len)" "apart (pbufs s) as dst (unat len)"
    and "unat len \<le> lens (pbufs s) as"
  shows "\<exists>s1 s2. pbuf_take s buf src len = Some (s1, ERR_OK)
    \<and> pbuf_copy_partial s1 buf dst len 0 = Some (s2, len)
    \<and> mem_read (dmem s2) dst (unat len) = mem_read (dmem s) src (unat len)"
proof -
  from pchain_nonNULL [OF assms(1,3)] obtain pb bs where pb: "pbufs s buf = Some pb" "as = buf # bs"
    by blast
  have fits: "\<not> pb_tot_len pb < len"
    using assms(2,9) pb by (simp add: word_less_nat_alt)
  from pbuf_take_loop_chain [OF assms(1,6,7), of 0 len "dmem s"] assms(9) unat_u16_lt [of len]
  obtain m where m: "pbuf_take_loop (pbufs s) (dmem s) buf src len 0 = Some m"
    "pdata (pbufs s) m as = mem_read (dmem s) src (unat len) @ drop (unat len) (pdata (pbufs s) (dmem s) as)"
    by auto
  then have take: "pbuf_take s buf src len = Some (s\<lparr>dmem := m\<rparr>, ERR_OK)"
    using assms(3,4) pb fits by (simp add: pbuf_take_def)
  have "pbuf_copy_partial (s\<lparr>dmem := m\<rparr>) buf dst len 0 =
      Some (s\<lparr>dmem := mem_write m dst (mem_read (dmem s) src (unat len))\<rparr>, len)"
    using assms pbuf_copy_partial_loop_chain [OF assms(1,8), of 0 len m 0 0] unat_u16_lt [of len]
    by (simp add: pbuf_copy_partial_def m(2) min_absorb1)
  moreover have "mem_read (mem_write m dst (mem_read (dmem s) src (unat len))) dst (unat len)
      = mem_read (dmem s) src (unat len)"
    using mem_read_write_same [of m dst "mem_read (dmem s) src (unat len)"] by simp
  ultimately show ?thesis
    using take by auto
qed

theorem pbuf_take_copy_roundtrip_witness:
  "\<exists>s1 s2. pbuf_take demo_state 100 500 4 = Some (s1, ERR_OK)
    \<and> pbuf_copy_partial s1 100 700 4 0 = Some (s2, 4)
    \<and> mem_read (dmem s2) 700 (unat (4 :: u16)) = mem_read (dmem demo_state) 500 (unat (4 :: u16))"
  by (rule pbuf_take_copy_roundtrip [of demo_state 100 "[100, 200]"])
    (simp_all add: demo_defs disj_rng_def)

text \<open>C23. \<open>pbuf_copy\<close> between well-formed chains without empty pbufs, whose payloads do not overlap,
  into a target that is at least as long: it returns \<open>ERR_OK\<close>, the target starts with the contents
  of the source, and only the target's payloads change.\<close>

theorem pbuf_copy_copies:
  assumes "pchain (pbufs s) p_to ts" "pchain (pbufs s) p_from fs" "p_to \<noteq> NULL" "p_from \<noteq> NULL"
    and "tot_ok (pbufs s) ts" "tot_ok (pbufs s) fs" "nonempty (pbufs s) ts" "nonempty (pbufs s) fs"
    and "lens (pbufs s) fs \<le> lens (pbufs s) ts" "pays_disj (pbufs s) ts"
    and "\<And>f. f \<in> set fs \<Longrightarrow> apart (pbufs s) ts (pb_payload (pb_at (pbufs s) f)) (unat (pb_len (pb_at (pbufs s) f)))"
  shows "\<exists>m. pbuf_copy s p_to p_from = Some (s\<lparr>dmem := m\<rparr>, ERR_OK)
    \<and> take (lens (pbufs s) fs) (pdata (pbufs s) m ts) = pdata (pbufs s) (dmem s) fs
    \<and> (\<forall>b n. apart (pbufs s) ts b n \<longrightarrow> mem_read m b n = mem_read (dmem s) b n)"
proof -
  from pchain_nonNULL [OF assms(1,3)] obtain ts' tb where t: "ts = p_to # ts'" "pbufs s p_to = Some tb"
    by blast
  from pchain_nonNULL [OF assms(2,4)] obtain fs' fb where f: "fs = p_from # fs'" "pbufs s p_from = Some fb"
    by blast
  have "segs_cross (segs (pbufs s) ts 0) (segs (pbufs s) fs 0)"
    using assms(11) by (auto simp: segs_cross_def segs_zero [of _ fs] seg_apart_segs)
  moreover have "seg_disj (segs (pbufs s) ts 0)"
    using assms(10) by (simp add: seg_disj_segs)
  ultimately have "\<exists>m'. pbuf_copy_loop (pbufs s) (dmem s) p_to 0 p_from 0 = Some (m', ERR_OK)
      \<and> seg_read (dmem s) (segs (pbufs s) fs (unat (0 :: u16)))
        = take (lens (pbufs s) fs - unat (0 :: u16)) (seg_read m' (segs (pbufs s) ts (unat (0 :: u16))))
      \<and> only_segs (dmem s) m' (segs (pbufs s) ts (unat (0 :: u16)))"
    using assms t f by (intro pbuf_copy_loop_chain) (auto simp: unat_gt_0)
  moreover have "\<not> \<not> pb_tot_len tb \<ge> pb_tot_len fb"
    using assms(5,6,9) t f by (simp add: word_le_nat_alt)
  ultimately show ?thesis
    using assms(3,4) t f by (auto simp: pbuf_copy_def seg_read_segs only_segs_def seg_apart_segs)
qed

theorem pbuf_copy_copies_witness:
  "\<exists>m. pbuf_copy demo_state 100 300 = Some (demo_state\<lparr>dmem := m\<rparr>, ERR_OK)
    \<and> take 4 (pdata (pbufs demo_state) m [100, 200]) = pdata (pbufs demo_state) (dmem demo_state) [300]"
proof -
  have "lens (pbufs demo_state) [300] = 4"
    by (simp add: demo_defs)
  then show ?thesis
    using pbuf_copy_copies [of demo_state 100 "[100, 200]" 300 "[300]"]
    by (auto simp: demo_defs disj_rng_def)
qed

text \<open>\<open>pbuf_memcmp\<close> within the contents returns zero exactly if the \<open>n\<close> bytes at \<open>offset\<close> are
  those at \<open>s2\<close>, and otherwise one more than the position of the first byte that differs.\<close>

theorem pbuf_memcmp_first_difference:
  assumes "pchain (pbufs s) p as" "unat offset + unat n \<le> lens (pbufs s) as" "lens (pbufs s) as < 65536"
    and "unat offset < lens (pbufs s) as"
  defines "d \<equiv> \<lambda>j. pdata (pbufs s) (dmem s) as ! (unat offset + j)"
  shows "\<exists>r. pbuf_memcmp s p offset s2 n = Some r
    \<and> (r = 0 \<longleftrightarrow> (\<forall>j < unat n. d j = dmem s (s2 + j)))
    \<and> (r \<noteq> 0 \<longrightarrow> d (unat r - 1) \<noteq> dmem s (s2 + (unat r - 1)) \<and> unat r \<le> unat n
         \<and> (\<forall>j < unat r - 1. d j = dmem s (s2 + j)))"
proof -
  from pbuf_memcmp_chain [OF assms(1-4), of s2] obtain r where r: "pbuf_memcmp s p offset s2 n = Some r"
    "r = 0 \<longrightarrow> (\<forall>j < unat n. d j = dmem s (s2 + j))"
    "r \<noteq> 0 \<longrightarrow> 0 < unat r \<and> unat r \<le> unat n \<and> d (unat r - 1) \<noteq> dmem s (s2 + (unat r - 1))
         \<and> (\<forall>j < unat r - 1. d j = dmem s (s2 + j))"
    unfolding d_def by blast
  have "r = 0" if "\<forall>j < unat n. d j = dmem s (s2 + j)"
    using that r(3) by (cases "r = 0") auto
  with r show ?thesis
    by blast
qed

theorem pbuf_memcmp_first_difference_witness:
  "\<exists>r. pbuf_memcmp demo_state 100 1 121 2 = Some r \<and> r = 0"
proof -
  have j: "j < 2 \<Longrightarrow> j = 0 \<or> j = 1" for j :: nat
    by auto
  have "\<exists>r. pbuf_memcmp demo_state 100 1 121 2 = Some r
    \<and> (r = 0 \<longleftrightarrow> (\<forall>j < unat (2 :: u16). pdata (pbufs demo_state) (dmem demo_state) [100, 200] ! (unat (1 :: u16) + j)
         = dmem demo_state (121 + j)))
    \<and> (r \<noteq> 0 \<longrightarrow> pdata (pbufs demo_state) (dmem demo_state) [100, 200] ! (unat (1 :: u16) + (unat r - 1))
           \<noteq> dmem demo_state (121 + (unat r - 1)) \<and> unat r \<le> unat (2 :: u16)
         \<and> (\<forall>j < unat r - 1. pdata (pbufs demo_state) (dmem demo_state) [100, 200] ! (unat (1 :: u16) + j)
              = dmem demo_state (121 + j)))"
    by (rule pbuf_memcmp_first_difference) (simp_all add: demo_defs)
  moreover have "\<forall>j < unat (2 :: u16). pdata (pbufs demo_state) (dmem demo_state) [100, 200] ! (unat (1 :: u16) + j)
      = dmem demo_state (121 + j)"
    by (auto simp: demo_defs mem_read_def upt_rec dest!: j)
  ultimately show ?thesis
    by blast
qed

text \<open>\<open>pbuf_memfind\<close> for a non-empty pattern ends, and an offset it returns is a real occurrence
  of the pattern in the contents, at or after the start offset.\<close>

theorem pbuf_memfind_sound:
  assumes "pchain (pbufs s) p as" "tot_ok (pbufs s) as" "p \<noteq> NULL" "lens (pbufs s) as < 65535" "mem_len \<noteq> 0"
  shows "\<exists>r. pbuf_memfind s p mem mem_len start = Some r
    \<and> (r \<noteq> 0xFFFF \<longrightarrow> unat start \<le> unat r \<and> unat r + unat mem_len \<le> lens (pbufs s) as
         \<and> (\<forall>j < unat mem_len. pdata (pbufs s) (dmem s) as ! (unat r + j) = dmem s (mem + j)))"
proof -
  from assms(1-3) obtain pb where pb: "pbufs s p = Some pb" "unat (pb_tot_len pb) = lens (pbufs s) as"
    by (cases as) (auto split: option.splits)
  show ?thesis
  proof (cases "unat (pb_tot_len pb) \<ge> unat mem_len + unat start")
    case False
    then show ?thesis
      using pb by (simp add: pbuf_memfind_def)
  next
    case True
    have "unat (pb_tot_len pb - mem_len) = lens (pbufs s) as - unat mem_len"
      using True pb(2) by (subst unat_minus_u16) (simp_all add: word_le_nat_alt)
    then show ?thesis
      using True pb assms pbuf_memfind_loop_chain [OF assms(1,4,5), of "pb_tot_len pb - mem_len" start mem]
      by (simp add: pbuf_memfind_def)
  qed
qed

theorem pbuf_memfind_sound_witness:
  "\<exists>r. pbuf_memfind demo_state 100 220 2 0 = Some r
    \<and> (r \<noteq> 0xFFFF \<longrightarrow> unat r + unat (2 :: u16) \<le> lens (pbufs demo_state) [100, 200])"
  using pbuf_memfind_sound [of demo_state 100 "[100, 200]" 2 220 0] by (auto simp: demo_defs)

definition demo_find :: "unit pstate" where
  "demo_find = \<lparr>heap = (), pbufs = [100 \<mapsto> demo_pb 0 120 3 3],
     dmem = (\<lambda>a. if a = 120 then 97 else if a = 121 then 97 else if a = 122 then 98
        else if a = 500 then 97 else if a = 501 then 98 else 0)\<rparr>"

text \<open>
  \<open>pbuf_memfind\<close> is not complete: after a mismatch it skips the bytes it compared.  In a pbuf that
  holds \<open>aab\<close> it does not find \<open>ab\<close>, which is there at offset 1.
\<close>

theorem pbuf_memfind_misses:
  "pdata (pbufs demo_find) (dmem demo_find) [100] = [97, 97, 98]
   \<and> mem_read (dmem demo_find) 500 2 = [97, 98]
   \<and> pbuf_memfind demo_find 100 500 2 0 = Some 0xFFFF"
  by code_simp

end
