(* ===== verification/Mem_Heap.thy ===== *)
theory Mem_Heap
  imports Pbuf
begin

text \<open>
  The heap of \<^verbatim>\<open>core/mem.c\<close> (the variant without pools): the block headers \<^verbatim>\<open>struct mem\<close> by their
  offset in \<^verbatim>\<open>ram\<close>, and \<^verbatim>\<open>lfree\<close>, the offset of the lowest free block.  Offsets are natural
  numbers; every one stored in a reachable heap is at most \<open>MEM_SIZE_ALIGNED\<close>, which fits in the
  16 bits of \<^verbatim>\<open>mem_size_t\<close> for the configured \<^verbatim>\<open>MEM_SIZE\<close>.  The sizes a caller passes are 16-bit
  words, and where the code stores the aligned size back into \<^verbatim>\<open>mem_size_t\<close> the model reduces it
  modulo \<open>2 ^ 16\<close>.  A loop that does not end gives \<open>None\<close>.
\<close>

section \<open>Data\<close>

record mem_blk =
  m_next :: nat
  m_prev :: nat
  m_used :: bool

record mem_heap =
  ram_ptr :: addr
  ram :: "nat \<Rightarrow> mem_blk"
  lfree :: nat

definition MEM_SIZE :: nat where "MEM_SIZE = 48000"
definition MIN_SIZE_ALIGNED :: nat where "MIN_SIZE_ALIGNED = LWIP_MEM_ALIGN_SIZE 12"
definition SIZEOF_STRUCT_MEM :: nat where "SIZEOF_STRUCT_MEM = LWIP_MEM_ALIGN_SIZE 6"
definition MEM_SIZE_ALIGNED :: nat where "MEM_SIZE_ALIGNED = LWIP_MEM_ALIGN_SIZE MEM_SIZE"

lemma mem_consts [simp]:
  "MIN_SIZE_ALIGNED = 12" "SIZEOF_STRUCT_MEM = 8" "MEM_SIZE_ALIGNED = 48000" "SIZEOF_STRUCT_PBUF = 16"
  by (simp_all add: MIN_SIZE_ALIGNED_def SIZEOF_STRUCT_MEM_def MEM_SIZE_ALIGNED_def MEM_SIZE_def
      SIZEOF_STRUCT_PBUF_def LWIP_MEM_ALIGN_SIZE_def MEM_ALIGNMENT_def)

definition upd_blk :: "nat \<Rightarrow> (mem_blk \<Rightarrow> mem_blk) \<Rightarrow> mem_heap \<Rightarrow> mem_heap" where
  "upd_blk a f h = h\<lparr>ram := (ram h)(a := f (ram h a))\<rparr>"

lemma upd_blk_sel [simp]:
  "ram (upd_blk a f h) = (ram h)(a := f (ram h a))" "lfree (upd_blk a f h) = lfree h"
  "ram_ptr (upd_blk a f h) = ram_ptr h"
  by (simp_all add: upd_blk_def)

section \<open>Operations\<close>

text \<open>\<^verbatim>\<open>plug_holes\<close> merges a block with the one behind it, and then the one before it with the result;
  both branches of the code do what \<open>mem_combine\<close> does.\<close>

definition mem_combine :: "mem_heap \<Rightarrow> nat \<Rightarrow> nat \<Rightarrow> mem_heap" where
  "mem_combine h mem nmem =
     (let h = (if lfree h = nmem then h\<lparr>lfree := mem\<rparr> else h);
          h = upd_blk mem (\<lambda>b. b\<lparr>m_next := m_next (ram h nmem)\<rparr>) h
      in upd_blk (m_next (ram h nmem)) (\<lambda>b. b\<lparr>m_prev := mem\<rparr>) h)"

definition plug_holes :: "mem_heap \<Rightarrow> nat \<Rightarrow> mem_heap" where
  "plug_holes h mem =
     (let nmem = m_next (ram h mem);
          h = (if mem \<noteq> nmem \<and> \<not> m_used (ram h nmem) \<and> nmem \<noteq> MEM_SIZE_ALIGNED
               then mem_combine h mem nmem else h);
          pmem = m_prev (ram h mem)
      in if pmem \<noteq> mem \<and> \<not> m_used (ram h pmem) then mem_combine h pmem mem else h)"

definition mem_init :: "addr \<Rightarrow> (nat \<Rightarrow> mem_blk) \<Rightarrow> mem_heap" where
  "mem_init ram_heap r =
     \<lparr>ram_ptr = LWIP_MEM_ALIGN ram_heap,
      ram = r(0 := \<lparr>m_next = MEM_SIZE_ALIGNED, m_prev = 0, m_used = False\<rparr>,
              MEM_SIZE_ALIGNED := \<lparr>m_next = MEM_SIZE_ALIGNED, m_prev = MEM_SIZE_ALIGNED, m_used = True\<rparr>),
      lfree = 0\<rparr>"

definition mem_free :: "mem_heap \<Rightarrow> addr \<Rightarrow> mem_heap" where
  "mem_free h rmem =
     (if rmem = NULL then h
      else if rmem < ram_ptr h \<or> rmem \<ge> ram_ptr h + MEM_SIZE_ALIGNED then h
      else
        let mem = rmem - SIZEOF_STRUCT_MEM - ram_ptr h;
            h = upd_blk mem (\<lambda>b. b\<lparr>m_used := False\<rparr>) h;
            h = (if mem < lfree h then h\<lparr>lfree := mem\<rparr> else h)
        in plug_holes h mem)"

definition mem_size_align :: "u16 \<Rightarrow> nat" where
  "mem_size_align sz =
     (let sz = unat (of_nat (LWIP_MEM_ALIGN_SIZE (unat sz)) :: u16)
      in if sz < MIN_SIZE_ALIGNED then MIN_SIZE_ALIGNED else sz)"

definition mem_trim :: "mem_heap \<Rightarrow> addr \<Rightarrow> u16 \<Rightarrow> mem_heap \<times> addr" where
  "mem_trim h rmem newsz =
     (let newsize = mem_size_align newsz
      in if newsize > MEM_SIZE_ALIGNED then (h, NULL)
         else if rmem < ram_ptr h \<or> rmem \<ge> ram_ptr h + MEM_SIZE_ALIGNED then (h, rmem)
         else
           let ptr = rmem - SIZEOF_STRUCT_MEM - ram_ptr h;
               sz = m_next (ram h ptr) - ptr - SIZEOF_STRUCT_MEM;
               mem2 = m_next (ram h ptr);
               ptr2 = ptr + SIZEOF_STRUCT_MEM + newsize
           in if newsize > sz then (h, NULL)
              else if newsize = sz then (h, rmem)
              else if \<not> m_used (ram h mem2) then
                let nxt = m_next (ram h mem2);
                    h = (if lfree h = mem2 then h\<lparr>lfree := ptr2\<rparr> else h);
                    h = upd_blk ptr2 (\<lambda>b. b\<lparr>m_used := False, m_next := nxt, m_prev := ptr\<rparr>) h;
                    h = upd_blk ptr (\<lambda>b. b\<lparr>m_next := ptr2\<rparr>) h;
                    h = (if nxt \<noteq> MEM_SIZE_ALIGNED then upd_blk nxt (\<lambda>b. b\<lparr>m_prev := ptr2\<rparr>) h else h)
                in (h, rmem)
              else if newsize + SIZEOF_STRUCT_MEM + MIN_SIZE_ALIGNED \<le> sz then
                let h = (if ptr2 < lfree h then h\<lparr>lfree := ptr2\<rparr> else h);
                    h = upd_blk ptr2 (\<lambda>b. b\<lparr>m_used := False, m_next := mem2, m_prev := ptr\<rparr>) h;
                    h = upd_blk ptr (\<lambda>b. b\<lparr>m_next := ptr2\<rparr>) h;
                    h = (if mem2 \<noteq> MEM_SIZE_ALIGNED then upd_blk mem2 (\<lambda>b. b\<lparr>m_prev := ptr2\<rparr>) h else h)
                in (h, rmem)
              else (h, rmem))"

text \<open>The search of \<^verbatim>\<open>mem_malloc\<close> from \<^verbatim>\<open>lfree\<close> on, and its update of \<^verbatim>\<open>lfree\<close>.\<close>

partial_function (option) mem_scan :: "(nat \<Rightarrow> mem_blk) \<Rightarrow> nat \<Rightarrow> nat \<Rightarrow> nat option option" where
  "mem_scan r sz ptr =
     (if ptr < MEM_SIZE_ALIGNED - sz then
        if \<not> m_used (r ptr) \<and> int (m_next (r ptr)) - int (ptr + SIZEOF_STRUCT_MEM) \<ge> int sz
        then Some (Some ptr)
        else mem_scan r sz (m_next (r ptr))
      else Some None)"

partial_function (option) mem_next_free :: "(nat \<Rightarrow> mem_blk) \<Rightarrow> nat \<Rightarrow> nat option" where
  "mem_next_free r l =
     (if m_used (r l) \<and> l \<noteq> MEM_SIZE_ALIGNED then mem_next_free r (m_next (r l)) else Some l)"

declare mem_scan.simps [code] mem_next_free.simps [code]

definition mem_take :: "mem_heap \<Rightarrow> nat \<Rightarrow> nat \<Rightarrow> mem_heap" where
  "mem_take h ptr sz =
     (if int (m_next (ram h ptr)) - int (ptr + SIZEOF_STRUCT_MEM) \<ge> int (sz + SIZEOF_STRUCT_MEM + MIN_SIZE_ALIGNED)
      then
        let ptr2 = ptr + SIZEOF_STRUCT_MEM + sz;
            nxt = m_next (ram h ptr);
            h = upd_blk ptr2 (\<lambda>b. b\<lparr>m_used := False, m_next := nxt, m_prev := ptr\<rparr>) h;
            h = upd_blk ptr (\<lambda>b. b\<lparr>m_next := ptr2, m_used := True\<rparr>) h
        in if nxt \<noteq> MEM_SIZE_ALIGNED then upd_blk nxt (\<lambda>b. b\<lparr>m_prev := ptr2\<rparr>) h else h
      else upd_blk ptr (\<lambda>b. b\<lparr>m_used := True\<rparr>) h)"

definition mem_malloc :: "mem_heap \<Rightarrow> u16 \<Rightarrow> (mem_heap \<times> addr) option" where
  "mem_malloc h size0 =
     (if size0 = 0 then Some (h, NULL)
      else
        let sz = mem_size_align size0
        in if sz > MEM_SIZE_ALIGNED then Some (h, NULL)
           else do {
             found \<leftarrow> mem_scan (ram h) sz (lfree h);
             case found of
               None \<Rightarrow> Some (h, NULL)
             | Some ptr \<Rightarrow> do {
                 let h' = mem_take h ptr sz;
                 l \<leftarrow> (if ptr = lfree h then mem_next_free (ram h') (lfree h') else Some (lfree h'));
                 Some (h'\<lparr>lfree := l\<rparr>, ram_ptr h + ptr + SIZEOF_STRUCT_MEM)
               }
           })"

text \<open>\<^verbatim>\<open>mem_calloc\<close> passes the product through the 16-bit parameter of \<^verbatim>\<open>mem_malloc\<close>, but clears the
  whole product.\<close>

definition mem_calloc :: "mem_heap \<Rightarrow> bytes \<Rightarrow> u16 \<Rightarrow> u16 \<Rightarrow> (mem_heap \<times> bytes \<times> addr) option" where
  "mem_calloc h m count sz =
     do {
       (h, p) \<leftarrow> mem_malloc h (count * sz);
       Some (h, if p \<noteq> NULL then mem_write m p (replicate (unat count * unat sz) 0) else m, p)
     }"

section \<open>The list of blocks\<close>

text \<open>
  \<open>hlist r p o as e\<close>: from offset \<open>o\<close> to \<open>e\<close> the heap is exactly the blocks \<open>as\<close>, linked both ways,
  with \<open>p\<close> before the first; each has room for its header and the minimal data.
\<close>

fun hlist :: "(nat \<Rightarrow> mem_blk) \<Rightarrow> nat \<Rightarrow> nat \<Rightarrow> nat list \<Rightarrow> nat \<Rightarrow> bool" where
  "hlist r p off [] e \<longleftrightarrow> off = e"
| "hlist r p off (a # as) e \<longleftrightarrow>
     off = a \<and> m_prev (r a) = p \<and> a + 20 \<le> m_next (r a) \<and> hlist r a (m_next (r a)) as e"

abbreviation no_adj :: "(nat \<Rightarrow> mem_blk) \<Rightarrow> nat list \<Rightarrow> bool" where
  "no_adj r \<equiv> successively (\<lambda>a b. m_used (r a) \<or> m_used (r b))"

definition mem_inv :: "mem_heap \<Rightarrow> nat list \<Rightarrow> bool" where
  "mem_inv h as \<longleftrightarrow>
     hlist (ram h) 0 0 as MEM_SIZE_ALIGNED \<and> m_used (ram h MEM_SIZE_ALIGNED) \<and> no_adj (ram h) as
     \<and> (\<forall>a\<in>set as. 4 dvd a) \<and> 4 dvd ram_ptr h \<and> 0 < ram_ptr h
     \<and> (\<forall>a\<in>set as. a < lfree h \<longrightarrow> m_used (ram h a))
     \<and> (lfree h = MEM_SIZE_ALIGNED \<or> lfree h \<in> set as \<and> \<not> m_used (ram h (lfree h)))"

text \<open>The blocks in use, by offset, with the size of their data.\<close>

definition used_blocks :: "(nat \<Rightarrow> mem_blk) \<Rightarrow> nat list \<Rightarrow> nat \<rightharpoonup> nat" where
  "used_blocks r as a = (if a \<in> set as \<and> m_used (r a) then Some (m_next (r a) - a - SIZEOF_STRUCT_MEM) else None)"

lemma hlist_le: "hlist r p off as e \<Longrightarrow> off \<le> e"
  by (induction r p off as e rule: hlist.induct) auto

lemma hlist_bounds:
  "hlist r p off as e \<Longrightarrow> a \<in> set as \<Longrightarrow> off \<le> a \<and> a + 20 \<le> m_next (r a) \<and> m_next (r a) \<le> e"
proof (induction r p off as e rule: hlist.induct)
  case (2 r p off b as e)
  then show ?case
    using hlist_le [of r b "m_next (r b)" as e] by (cases "a = b") fastforce+
qed simp

lemma hlist_cong:
  "(\<And>a. a \<in> set as \<Longrightarrow> r' a = r a) \<Longrightarrow> hlist r' p off as e = hlist r p off as e"
  by (induction r p off as e rule: hlist.induct) auto

lemma hlist_upd_other [simp]: "a \<notin> set as \<Longrightarrow> hlist (r(a := x)) p off as e = hlist r p off as e"
  by (rule hlist_cong) auto

lemma hlist_append:
  "hlist r p off (xs @ ys) e \<longleftrightarrow> (\<exists>m. hlist r p off xs m \<and> hlist r (last (p # xs)) m ys e)"
  by (induction xs arbitrary: p off) auto

lemma hlist_mid:
  "hlist r p off (xs @ a # ys) e \<longleftrightarrow>
     hlist r p off xs a \<and> m_prev (r a) = last (p # xs) \<and> a + 20 \<le> m_next (r a) \<and> hlist r a (m_next (r a)) ys e"
  by (auto simp: hlist_append)

lemma hlist_mid_bounds:
  assumes "hlist r p off (xs @ a # ys) e"
  shows "x \<in> set xs \<Longrightarrow> x + 20 \<le> a" and "y \<in> set ys \<Longrightarrow> m_next (r a) \<le> y \<and> a + 20 \<le> y \<and> y + 20 \<le> e"
    and "m_next (r a) \<le> e" "a + 20 \<le> m_next (r a)"
proof -
  have h: "hlist r p off xs a" "a + 20 \<le> m_next (r a)" "hlist r a (m_next (r a)) ys e"
    using assms by (auto simp: hlist_mid)
  show "x + 20 \<le> a" if "x \<in> set xs"
    using hlist_bounds [OF h(1) that] by linarith
  show "m_next (r a) \<le> y \<and> a + 20 \<le> y \<and> y + 20 \<le> e" if "y \<in> set ys"
    using hlist_bounds [OF h(3) that] h(2) by linarith
  show "m_next (r a) \<le> e" "a + 20 \<le> m_next (r a)"
    using hlist_le [OF h(3)] h(2) by auto
qed

lemma hlist_distinct: "hlist r p off as e \<Longrightarrow> distinct as"
proof (induction r p off as e rule: hlist.induct)
  case (2 r p off a as e)
  then show ?case
    using hlist_bounds [of r a "m_next (r a)" as e a] by auto
qed simp

text \<open>Writing the back link of what follows.\<close>

lemma hlist_set_prev:
  assumes "hlist r p n ys e" "\<And>y. y \<in> set ys \<Longrightarrow> y \<noteq> n \<Longrightarrow> r' y = r y"
    and "ys \<noteq> [] \<Longrightarrow> r' n = (r n)\<lparr>m_prev := q\<rparr>"
  shows "hlist r' q n ys e"
proof (cases ys)
  case Nil
  then show ?thesis
    using assms(1) by simp
next
  case (Cons y zs)
  have d: "y \<notin> set zs" and y: "y = n"
    using hlist_distinct [OF assms(1)] assms(1) by (auto simp: Cons)
  have "hlist r' y (m_next (r y)) zs e = hlist r y (m_next (r y)) zs e"
    using assms(2) d by (intro hlist_cong) (auto simp: Cons y)
  then show ?thesis
    using assms(1,3) y by (simp add: Cons)
qed

text \<open>Cutting a block in two, and merging two neighbours.\<close>

lemma hlist_split:
  assumes "hlist r p off (xs @ a # ys) e" "n = m_next (r a)" "a + 20 \<le> b" "b + 20 \<le> n"
    and "r' a = (r a)\<lparr>m_next := b, m_used := u\<rparr>" "m_next (r' b) = n" "m_prev (r' b) = a"
    and "\<And>x. x \<in> set xs \<union> set ys \<Longrightarrow> x \<noteq> n \<Longrightarrow> r' x = r x" "ys \<noteq> [] \<Longrightarrow> r' n = (r n)\<lparr>m_prev := b\<rparr>"
  shows "hlist r' p off (xs @ a # b # ys) e"
proof -
  have h: "hlist r p off xs a" "m_prev (r a) = last (p # xs)" "hlist r a n ys e"
    using assms(1,2) by (auto simp: hlist_mid)
  have "r' x = r x" if "x \<in> set xs" for x
    using that assms(2,8) hlist_mid_bounds(1) [OF assms(1) that] hlist_mid_bounds(4) [OF assms(1)] by auto
  then have "hlist r' p off xs a"
    using h(1) hlist_cong [of xs r' r p off a] by blast
  moreover have "hlist r' b n ys e"
    using assms(8,9) by (intro hlist_set_prev [OF h(3)]) auto
  ultimately show ?thesis
    using assms h(2) by (auto simp: hlist_mid)
qed

lemma hlist_merge:
  assumes "hlist r p off (xs @ a # b # ys) e" "n = m_next (r b)"
    and "r' a = (r a)\<lparr>m_next := n\<rparr>"
    and "\<And>x. x \<in> set xs \<union> set ys \<Longrightarrow> x \<noteq> n \<Longrightarrow> r' x = r x" "ys \<noteq> [] \<Longrightarrow> r' n = (r n)\<lparr>m_prev := a\<rparr>"
  shows "hlist r' p off (xs @ a # ys) e"
proof -
  have h: "hlist r p off xs a" "m_prev (r a) = last (p # xs)" "a + 20 \<le> b" "b + 20 \<le> n" "hlist r b n ys e"
    using assms(1,2) by (auto simp: hlist_mid)
  have "r' x = r x" if "x \<in> set xs" for x
    using that assms(4) h(3,4) hlist_mid_bounds(1) [OF assms(1) that] by auto
  then have "hlist r' p off xs a"
    using h(1) hlist_cong [of xs r' r p off a] by blast
  moreover have "hlist r' a n ys e"
    using assms(4,5) by (intro hlist_set_prev [OF h(5)]) auto
  ultimately show ?thesis
    using assms(3) h by (auto simp: hlist_mid)
qed

section \<open>Allocating\<close>

lemma mem_scan_hlist:
  assumes "hlist r p off ys MEM_SIZE_ALIGNED" "sz \<le> MEM_SIZE_ALIGNED"
  shows "\<exists>res. mem_scan r sz off = Some res
    \<and> (case res of
         Some a \<Rightarrow> a \<in> set ys \<and> \<not> m_used (r a) \<and> a + 8 + sz \<le> m_next (r a)
       | None \<Rightarrow> \<forall>a\<in>set ys. \<not> (\<not> m_used (r a) \<and> a + 8 + sz \<le> m_next (r a)))"
  using assms
proof (induction ys arbitrary: p off)
  case Nil
  then show ?case
    by (subst mem_scan.simps) auto
next
  case (Cons a ys)
  then have a: "off = a" "hlist r a (m_next (r a)) ys MEM_SIZE_ALIGNED"
    by auto
  show ?case
  proof (cases "a < MEM_SIZE_ALIGNED - sz")
    case False
    have "\<not> b + 8 + sz \<le> m_next (r b)" if "b \<in> set (a # ys)" for b
      using hlist_bounds [OF Cons.prems(1) that] False a by auto
    then show ?thesis
      using False a by (subst mem_scan.simps) auto
  next
    case True
    show ?thesis
    proof (cases "\<not> m_used (r a) \<and> a + 8 + sz \<le> m_next (r a)")
      case fits: True
      then show ?thesis
        using True a by (intro exI [of _ "Some a"]) (simp add: mem_scan.simps [of r sz a])
    next
      case not_fits: False
      from Cons.IH [OF a(2) Cons.prems(2)] obtain res where
        res: "mem_scan r sz (m_next (r a)) = Some res"
        "case res of
         Some a \<Rightarrow> a \<in> set ys \<and> \<not> m_used (r a) \<and> a + 8 + sz \<le> m_next (r a)
       | None \<Rightarrow> \<forall>a\<in>set ys. \<not> (\<not> m_used (r a) \<and> a + 8 + sz \<le> m_next (r a))"
        by blast
      have "mem_scan r sz off = Some res"
        using True not_fits a res(1) by (subst mem_scan.simps) auto
      then show ?thesis
        using res(2) not_fits by (intro exI [of _ res]) (auto split: option.splits)
    qed
  qed
qed

lemma mem_next_free_hlist:
  assumes "hlist r p off ys MEM_SIZE_ALIGNED"
  shows "\<exists>l. mem_next_free r off = Some l \<and> (l = MEM_SIZE_ALIGNED \<or> l \<in> set ys \<and> \<not> m_used (r l))
    \<and> (\<forall>a\<in>set ys. a < l \<longrightarrow> m_used (r a))"
  using assms
proof (induction ys arbitrary: p off)
  case Nil
  then show ?case
    by (simp add: mem_next_free.simps)
next
  case (Cons a ys)
  then have a: "off = a" "hlist r a (m_next (r a)) ys MEM_SIZE_ALIGNED" "a \<noteq> MEM_SIZE_ALIGNED"
    using hlist_bounds [OF Cons.prems(1), of a] by auto
  show ?case
  proof (cases "m_used (r a)")
    case True
    from Cons.IH [OF a(2)] obtain l where l: "mem_next_free r (m_next (r a)) = Some l"
      "l = MEM_SIZE_ALIGNED \<or> l \<in> set ys \<and> \<not> m_used (r l)" "\<forall>a\<in>set ys. a < l \<longrightarrow> m_used (r a)"
      by blast
    have "mem_next_free r off = Some l"
      using True a l(1) by (subst mem_next_free.simps) auto
    with l True show ?thesis
      by (intro exI [of _ l]) auto
  next
    case False
    have "\<not> b < a" if "b \<in> set (a # ys)" for b
      using hlist_bounds [OF Cons.prems(1) that] a by auto
    with False a show ?thesis
      by (intro exI [of _ a]) (auto simp: mem_next_free.simps [of r a])
  qed
qed

lemma no_adj_cong: "(\<And>x. x \<in> set as \<Longrightarrow> m_used (r' x) = m_used (r x)) \<Longrightarrow> no_adj r' as = no_adj r as"
  by (rule successively_cong) auto

lemma no_adj_mono: "no_adj r as \<Longrightarrow> (\<And>x. m_used (r x) \<Longrightarrow> m_used (r' x)) \<Longrightarrow> no_adj r' as"
  by (erule successively_mono) auto

lemma used_blocks_eqI:
  assumes "\<And>x. x \<in> set as \<Longrightarrow> x \<noteq> a \<Longrightarrow> m_used (r' x) \<Longrightarrow> x \<in> set as' \<and> m_used (r x) \<and> m_next (r' x) = m_next (r x)"
    and "\<And>x. x \<in> set as' \<Longrightarrow> x \<noteq> a \<Longrightarrow> m_used (r x) \<Longrightarrow> x \<in> set as \<and> m_used (r' x)"
  shows "x \<noteq> a \<Longrightarrow> used_blocks r' as x = used_blocks r as' x"
  using assms by (auto simp: used_blocks_def)

lemma mem_size_align_props: "12 \<le> mem_size_align sz" "4 dvd mem_size_align sz"
proof -
  have "LWIP_MEM_ALIGN_SIZE (unat sz) = 4 * ((unat sz + 3) div 4)"
    by (simp add: LWIP_MEM_ALIGN_SIZE_def MEM_ALIGNMENT_def)
  then have "4 dvd LWIP_MEM_ALIGN_SIZE (unat sz) mod 65536"
    by (simp add: dvd_mod)
  then show "12 \<le> mem_size_align sz" "4 dvd mem_size_align sz"
    by (auto simp: mem_size_align_def Let_def unat_of_nat)
qed

lemma mem_take_props:
  assumes h: "hlist (ram h) 0 0 (xs @ a # ys) MEM_SIZE_ALIGNED" and endb: "m_used (ram h MEM_SIZE_ALIGNED)"
    and adj: "no_adj (ram h) (xs @ a # ys)" and free: "\<not> m_used (ram h a)"
    and sz: "12 \<le> sz" "a + 8 + sz \<le> m_next (ram h a)" "4 dvd sz" and al: "\<forall>x\<in>set (xs @ a # ys). 4 dvd x"
  shows "\<exists>bs. hlist (ram (mem_take h a sz)) 0 0 (xs @ a # bs @ ys) MEM_SIZE_ALIGNED
    \<and> m_used (ram (mem_take h a sz) MEM_SIZE_ALIGNED) \<and> no_adj (ram (mem_take h a sz)) (xs @ a # bs @ ys)
    \<and> (\<forall>x\<in>set (xs @ a # bs @ ys). 4 dvd x) \<and> (\<forall>b\<in>set bs. a < b \<and> \<not> m_used (ram (mem_take h a sz) b))
    \<and> a + 8 + sz \<le> m_next (ram (mem_take h a sz) a) \<and> m_used (ram (mem_take h a sz) a)
    \<and> (\<forall>x\<in>set (xs @ ys). m_used (ram (mem_take h a sz) x) = m_used (ram h x)
          \<and> m_next (ram (mem_take h a sz) x) = m_next (ram h x))"
proof -
  let ?n = "m_next (ram h a)"
  let ?b = "a + 8 + sz"
  note bd = hlist_mid_bounds [OF h]
  have hd_ys: "ys \<noteq> [] \<Longrightarrow> hd ys = ?n" "ys = [] \<Longrightarrow> ?n = MEM_SIZE_ALIGNED" and hl: "hlist (ram h) a ?n ys MEM_SIZE_ALIGNED"
    using h by (cases ys; auto simp: hlist_mid)+
  have ys_end: "y \<in> set ys \<Longrightarrow> y \<noteq> MEM_SIZE_ALIGNED" for y
    using bd(2) by fastforce
  have d: "a \<notin> set xs" "a \<notin> set ys" "?b \<notin> set xs" and lt: "a < ?b"
    using bd(1,2) by fastforce+
  show ?thesis
  proof (cases "?b + 20 \<le> ?n")
    case True
    define r' where "r' = ram (mem_take h a sz)"
    have take: "r' = (let r1 = (ram h)(?b := (ram h ?b)\<lparr>m_used := False, m_next := ?n, m_prev := a\<rparr>,
          a := (ram h a)\<lparr>m_next := ?b, m_used := True\<rparr>)
        in if ?n \<noteq> MEM_SIZE_ALIGNED then r1(?n := (r1 ?n)\<lparr>m_prev := ?b\<rparr>) else r1)"
      using True lt by (auto simp: r'_def mem_take_def Let_def)
    have nb: "?n \<noteq> a" "?n \<noteq> ?b" "?b \<notin> set ys"
      using True bd(2,4) by fastforce+
    have r': "r' a = (ram h a)\<lparr>m_next := ?b, m_used := True\<rparr>" "m_next (r' ?b) = ?n" "m_prev (r' ?b) = a"
      "\<not> m_used (r' ?b)" "m_used (r' MEM_SIZE_ALIGNED)"
      using nb lt endb True bd(3) by (auto simp: take Let_def)
    have other: "m_used (r' x) = m_used (ram h x) \<and> m_next (r' x) = m_next (ram h x) \<and> (x \<noteq> ?n \<longrightarrow> r' x = ram h x)"
      if "x \<in> set (xs @ ys)" for x
      using that d nb by (auto simp: take Let_def)
    have "hlist r' 0 0 (xs @ a # ?b # ys) MEM_SIZE_ALIGNED"
      using h True sz r' other nb hd_ys ys_end by (intro hlist_split [OF h refl])
        (auto simp: take Let_def)
    moreover have "no_adj r' (xs @ a # ?b # ys)"
    proof -
      have "no_adj r' xs = no_adj (ram h) xs" "no_adj r' ys = no_adj (ram h) ys"
        using other by (auto intro!: no_adj_cong)
      moreover have "ys \<noteq> [] \<Longrightarrow> m_used (r' (hd ys))"
        using adj free other [of "hd ys"] by (auto simp: successively_append_iff successively_Cons)
      ultimately show ?thesis
        using adj r' by (auto simp: successively_append_iff successively_Cons)
    qed
    moreover have "4 dvd ?b"
      using al sz by auto
    ultimately show ?thesis
      using r' other al lt unfolding r'_def [symmetric] by (intro exI [of _ "[?b]"]) auto
  next
    case False
    then have take: "ram (mem_take h a sz) = (ram h)(a := (ram h a)\<lparr>m_used := True\<rparr>)"
      by (auto simp: mem_take_def Let_def)
    have "hlist ((ram h)(a := (ram h a)\<lparr>m_used := True\<rparr>)) 0 0 (xs @ a # ys) MEM_SIZE_ALIGNED"
      using h d by (simp add: hlist_mid)
    moreover have "no_adj ((ram h)(a := (ram h a)\<lparr>m_used := True\<rparr>)) (xs @ a # ys)"
      using adj by (rule no_adj_mono) simp
    ultimately show ?thesis
      using al d endb sz by (intro exI [of _ "[]"]) (auto simp: take)
  qed
qed

text \<open>
  The outcome of \<open>mem_malloc\<close> in a heap that satisfies the invariant: either no free block has room
  and nothing changes, or a block that was free is in use, with room for the request, and no
  other block in use is touched.
\<close>

definition malloc_result :: "mem_heap \<Rightarrow> nat list \<Rightarrow> nat \<Rightarrow> mem_heap \<Rightarrow> addr \<Rightarrow> bool" where
  "malloc_result h as sz h' p \<longleftrightarrow>
     p = NULL \<and> h' = h \<and> (\<forall>a\<in>set as. m_used (ram h a) \<or> m_next (ram h a) < a + SIZEOF_STRUCT_MEM + sz)
     \<or> (\<exists>a as'. p = ram_ptr h + a + SIZEOF_STRUCT_MEM \<and> ram_ptr h' = ram_ptr h \<and> mem_inv h' as'
          \<and> used_blocks (ram h) as a = None
          \<and> (\<exists>k\<ge>sz. used_blocks (ram h') as' = (used_blocks (ram h) as)(a \<mapsto> k)))"

lemma mem_malloc_fits:
  assumes inv: "mem_inv h as" and size: "size0 \<noteq> 0" "mem_size_align size0 \<le> MEM_SIZE_ALIGNED"
  shows "\<exists>h' p. mem_malloc h size0 = Some (h', p) \<and> malloc_result h as (mem_size_align size0) h' p"
proof -
  define sz where "sz = mem_size_align size0"
  have h: "hlist (ram h) 0 0 as MEM_SIZE_ALIGNED" and endb: "m_used (ram h MEM_SIZE_ALIGNED)"
    and adj: "no_adj (ram h) as" and al: "\<forall>a\<in>set as. 4 dvd a"
    and low: "\<And>a. a \<in> set as \<Longrightarrow> a < lfree h \<Longrightarrow> m_used (ram h a)"
    and lf: "lfree h = MEM_SIZE_ALIGNED \<or> lfree h \<in> set as \<and> \<not> m_used (ram h (lfree h))"
    using inv by (auto simp: mem_inv_def)
  have sz: "12 \<le> sz" "4 dvd sz" "sz \<le> MEM_SIZE_ALIGNED"
    using size mem_size_align_props [of size0] by (simp_all add: sz_def)
  obtain ws vs p where split: "as = ws @ vs" "hlist (ram h) p (lfree h) vs MEM_SIZE_ALIGNED"
    and ws: "\<forall>a\<in>set ws. a < lfree h"
  proof (cases "lfree h = MEM_SIZE_ALIGNED")
    case True
    have "\<forall>a\<in>set as. a < lfree h"
      using hlist_bounds [OF h] True by fastforce
    then show ?thesis
      using that [of as "[]"] True by simp
  next
    case False
    then obtain ws zs where as: "as = ws @ lfree h # zs"
      using lf by (meson split_list)
    have "\<forall>a\<in>set ws. a < lfree h"
      using hlist_mid_bounds(1) [OF h [unfolded as]] by fastforce
    moreover have "hlist (ram h) (last (0 # ws)) (lfree h) (lfree h # zs) MEM_SIZE_ALIGNED"
      using h unfolding as hlist_mid by simp
    ultimately show ?thesis
      using that as by blast
  qed
  from mem_scan_hlist [OF split(2) sz(3)] obtain res where res: "mem_scan (ram h) sz (lfree h) = Some res"
    "case res of
         Some a \<Rightarrow> a \<in> set vs \<and> \<not> m_used (ram h a) \<and> a + 8 + sz \<le> m_next (ram h a)
       | None \<Rightarrow> \<forall>a\<in>set vs. \<not> (\<not> m_used (ram h a) \<and> a + 8 + sz \<le> m_next (ram h a))"
    by blast
  show ?thesis
  proof (cases res)
    case None
    then have run: "mem_malloc h size0 = Some (h, NULL)"
      using size res(1) by (simp add: mem_malloc_def sz_def)
    have "m_used (ram h a)" if "a \<in> set ws" for a
      using that ws low by (simp add: split(1))
    then have "malloc_result h as sz h NULL"
      using res(2) None by (auto simp: malloc_result_def split(1) not_le)
    with run show ?thesis
      by (auto simp: sz_def)
  next
    case (Some a)
    then have a: "a \<in> set as" "\<not> m_used (ram h a)" "a + 8 + sz \<le> m_next (ram h a)"
      using res(2) by (auto simp: split(1))
    then obtain xs ys where as: "as = xs @ a # ys"
      by (meson split_list)
    define h1 where "h1 = mem_take h a sz"
    from mem_take_props [OF h [unfolded as] endb adj [unfolded as] a(2) sz(1) a(3) sz(2) al [unfolded as]]
    obtain bs where bs: "hlist (ram h1) 0 0 (xs @ a # bs @ ys) MEM_SIZE_ALIGNED"
      "m_used (ram h1 MEM_SIZE_ALIGNED)" "no_adj (ram h1) (xs @ a # bs @ ys)"
      "\<forall>x\<in>set (xs @ a # bs @ ys). 4 dvd x" "\<forall>b\<in>set bs. a < b \<and> \<not> m_used (ram h1 b)"
      "a + 8 + sz \<le> m_next (ram h1 a)" "m_used (ram h1 a)"
      "\<forall>x\<in>set (xs @ ys). m_used (ram h1 x) = m_used (ram h x) \<and> m_next (ram h1 x) = m_next (ram h x)"
      unfolding h1_def by blast
    let ?as = "xs @ a # bs @ ys"
    have rp: "ram_ptr h1 = ram_ptr h" "lfree h1 = lfree h"
      by (simp_all add: h1_def mem_take_def Let_def)
    have "\<exists>l. (if a = lfree h then mem_next_free (ram h1) (lfree h1) else Some (lfree h1)) = Some l
      \<and> (l = MEM_SIZE_ALIGNED \<or> l \<in> set ?as \<and> \<not> m_used (ram h1 l)) \<and> (\<forall>x\<in>set ?as. x < l \<longrightarrow> m_used (ram h1 x))"
    proof (cases "a = lfree h")
      case True
      have "hlist (ram h1) (last (0 # xs)) a (a # bs @ ys) MEM_SIZE_ALIGNED"
        using bs(1) unfolding hlist_mid by simp
      from mem_next_free_hlist [OF this] obtain l where l: "mem_next_free (ram h1) a = Some l"
        "l = MEM_SIZE_ALIGNED \<or> l \<in> set (a # bs @ ys) \<and> \<not> m_used (ram h1 l)"
        "\<forall>x\<in>set (a # bs @ ys). x < l \<longrightarrow> m_used (ram h1 x)"
        by blast
      have "m_used (ram h1 x)" if "x \<in> set xs" for x
        using that bs(8) low hlist_mid_bounds(1) [OF bs(1) that] True by (auto simp: as)
      with l True rp show ?thesis
        by (intro exI [of _ l]) auto
    next
      case False
      have lt: "lfree h < a"
        using low [OF a(1)] a(2) False by fastforce
      moreover have "lfree h \<in> set as" "\<not> m_used (ram h (lfree h))"
        using lf lt hlist_bounds [OF h a(1)] by auto
      ultimately show ?thesis
        using False bs(5,8) low by (intro exI [of _ "lfree h"]) (auto simp: as rp)
    qed
    then obtain l where l: "(if a = lfree h then mem_next_free (ram h1) (lfree h1) else Some (lfree h1)) = Some l"
      "l = MEM_SIZE_ALIGNED \<or> l \<in> set ?as \<and> \<not> m_used (ram h1 l)" "\<forall>x\<in>set ?as. x < l \<longrightarrow> m_used (ram h1 x)"
      by blast
    have run: "mem_malloc h size0 = Some (h1\<lparr>lfree := l\<rparr>, ram_ptr h + a + SIZEOF_STRUCT_MEM)"
    proof -
      have ns: "\<not> sz > MEM_SIZE_ALIGNED"
        using sz(3) by simp
      show ?thesis
        unfolding mem_malloc_def if_not_P [OF size(1)] Let_def sz_def [symmetric] if_not_P [OF ns]
          res(1) Some bind.bind_lunit option.case h1_def [symmetric] l(1) ..
    qed
    have inv': "mem_inv (h1\<lparr>lfree := l\<rparr>) ?as"
      using inv bs l rp by (simp add: mem_inv_def)
    have "used_blocks (ram h1) ?as x = ((used_blocks (ram h) as)(a \<mapsto> m_next (ram h1 a) - a - 8)) x" for x
      using bs(5,7,8) a hlist_distinct [OF bs(1)] by (auto simp: used_blocks_def as)
    then have ub: "used_blocks (ram h1) ?as = (used_blocks (ram h) as)(a \<mapsto> m_next (ram h1 a) - a - 8)"
      by (rule ext)
    have "malloc_result h as sz (h1\<lparr>lfree := l\<rparr>) (ram_ptr h + a + SIZEOF_STRUCT_MEM)"
      unfolding malloc_result_def
      using inv' ub a(2) bs(6) rp by (intro disjI2 exI [of _ a] exI [of _ ?as])
        (auto simp: used_blocks_def intro!: exI [of _ "m_next (ram h1 a) - (a + 8)"])
    with run show ?thesis
      by (auto simp: sz_def)
  qed
qed

section \<open>Freeing\<close>

text \<open>Merging block \<open>b\<close> into its left neighbour \<open>a\<close>, the step that \<open>plug_holes\<close> does in both directions.\<close>

definition merge :: "(nat \<Rightarrow> mem_blk) \<Rightarrow> nat \<Rightarrow> nat \<Rightarrow> nat \<Rightarrow> mem_blk" where
  "merge r a b = (let n = m_next (r b); r1 = r(a := (r a)\<lparr>m_next := n\<rparr>) in r1(n := (r1 n)\<lparr>m_prev := a\<rparr>))"

lemma merge_props:
  assumes h: "hlist r 0 0 (xs @ a # b # ys) MEM_SIZE_ALIGNED"
  shows "hlist (merge r a b) 0 0 (xs @ a # ys) MEM_SIZE_ALIGNED"
    and "m_used (merge r a b x) = m_used (r x)"
    and "x \<noteq> a \<Longrightarrow> m_next (merge r a b x) = m_next (r x)"
    and "m_next (merge r a b a) = m_next (r b)" "m_prev (merge r a b a) = m_prev (r a)"
proof -
  have lt: "a < b" "b < m_next (r b)" and hl: "hlist r b (m_next (r b)) ys MEM_SIZE_ALIGNED"
    using h by (auto simp: hlist_mid)
  have d: "a \<notin> set (xs @ ys)"
    using hlist_distinct [OF h] by auto
  have m: "merge r a b x = (if x = a then (r a)\<lparr>m_next := m_next (r b)\<rparr>
      else if x = m_next (r b) then (r x)\<lparr>m_prev := a\<rparr> else r x)" for x
    using lt by (auto simp: merge_def Let_def)
  show "hlist (merge r a b) 0 0 (xs @ a # ys) MEM_SIZE_ALIGNED"
    using lt d by (intro hlist_merge [OF h refl]) (auto simp: m)
  show "m_used (merge r a b x) = m_used (r x)" "x \<noteq> a \<Longrightarrow> m_next (merge r a b x) = m_next (r x)"
    "m_next (merge r a b a) = m_next (r b)" "m_prev (merge r a b a) = m_prev (r a)"
    by (auto simp: m)
qed

lemma mem_combine_merge:
  "a \<noteq> b \<Longrightarrow> mem_combine h a b = h\<lparr>lfree := (if lfree h = b then a else lfree h), ram := merge (ram h) a b\<rparr>"
  by (simp add: mem_combine_def merge_def Let_def upd_blk_def)

text \<open>The invariant while a block is being freed: \<open>a\<close> may be next to free blocks.\<close>

definition free_inv :: "mem_heap \<Rightarrow> nat list \<Rightarrow> nat \<Rightarrow> nat list \<Rightarrow> bool" where
  "free_inv h xs a ys \<longleftrightarrow>
     hlist (ram h) 0 0 (xs @ a # ys) MEM_SIZE_ALIGNED \<and> m_used (ram h MEM_SIZE_ALIGNED)
     \<and> no_adj (ram h) xs \<and> no_adj (ram h) ys \<and> \<not> m_used (ram h a)
     \<and> (\<forall>x\<in>set (xs @ a # ys). 4 dvd x) \<and> 4 dvd ram_ptr h \<and> 0 < ram_ptr h
     \<and> (\<forall>x\<in>set (xs @ a # ys). x < lfree h \<longrightarrow> m_used (ram h x))
     \<and> lfree h \<in> set (xs @ [a]) \<and> \<not> m_used (ram h (lfree h))"

lemma free_inv_forward:
  assumes f: "free_inv h xs a ys"
  defines "nmem \<equiv> m_next (ram h a)"
  defines "h' \<equiv> (if a \<noteq> nmem \<and> \<not> m_used (ram h nmem) \<and> nmem \<noteq> MEM_SIZE_ALIGNED then mem_combine h a nmem else h)"
  shows "\<exists>zs. free_inv h' xs a zs \<and> (zs \<noteq> [] \<longrightarrow> m_used (ram h' (hd zs)))
    \<and> (\<forall>x. x \<noteq> a \<longrightarrow> used_blocks (ram h') (xs @ a # zs) x = used_blocks (ram h) (xs @ a # ys) x)
    \<and> ram_ptr h' = ram_ptr h \<and> lfree h' = lfree h"
proof -
  have h: "hlist (ram h) 0 0 (xs @ a # ys) MEM_SIZE_ALIGNED"
    using f by (simp add: free_inv_def)
  note bd = hlist_mid_bounds [OF h]
  have ys: "ys = [] \<and> nmem = MEM_SIZE_ALIGNED \<or> (\<exists>zs. ys = nmem # zs)"
    using h by (cases ys) (auto simp: hlist_mid nmem_def)
  show ?thesis
  proof (cases "a \<noteq> nmem \<and> \<not> m_used (ram h nmem) \<and> nmem \<noteq> MEM_SIZE_ALIGNED")
    case False
    have "m_used (ram h (hd ys))" if "ys \<noteq> []"
      using False ys that bd(2) [of nmem] by (auto simp: nmem_def)
    moreover have "h' = h"
      unfolding h'_def using False by (rule if_not_P)
    ultimately show ?thesis
      using f by (intro exI [of _ ys]) simp
  next
    case True
    then obtain zs where zs: "ys = nmem # zs"
      using ys by auto
    note m = merge_props [OF h [unfolded zs]]
    have d: "a \<notin> set (xs @ nmem # zs)" "nmem \<notin> set (xs @ zs)"
      using hlist_distinct [OF h] by (auto simp: zs)
    have lf: "lfree h \<noteq> nmem"
      using f d by (auto simp: free_inv_def)
    have h': "h' = h\<lparr>lfree := lfree h, ram := merge (ram h) a nmem\<rparr>"
      using True lf by (simp add: h'_def mem_combine_merge)
    have "no_adj (merge (ram h) a nmem) xs" "no_adj (merge (ram h) a nmem) zs" "zs \<noteq> [] \<longrightarrow> m_used (ram h (hd zs))"
      using f True by (auto simp: free_inv_def zs m(2) successively_Cons)
    then have "free_inv h' xs a zs" "zs \<noteq> [] \<longrightarrow> m_used (ram h' (hd zs))"
      using f m(1) by (auto simp: free_inv_def h' zs m(2))
    moreover have "used_blocks (ram h') (xs @ a # zs) x = used_blocks (ram h) (xs @ a # ys) x" if "x \<noteq> a" for x
      using that True by (auto simp: used_blocks_def h' zs m(2,3))
    ultimately show ?thesis
      by (auto simp: h')
  qed
qed

lemma free_inv_backward:
  assumes f: "free_inv h xs a zs" and zs: "zs \<noteq> [] \<longrightarrow> m_used (ram h (hd zs))"
  defines "pmem \<equiv> m_prev (ram h a)"
  defines "h' \<equiv> (if pmem \<noteq> a \<and> \<not> m_used (ram h pmem) then mem_combine h pmem a else h)"
  shows "\<exists>as. mem_inv h' as \<and> used_blocks (ram h') as = used_blocks (ram h) (xs @ a # zs) \<and> ram_ptr h' = ram_ptr h"
proof -
  have h: "hlist (ram h) 0 0 (xs @ a # zs) MEM_SIZE_ALIGNED"
    using f by (simp add: free_inv_def)
  note bd = hlist_mid_bounds [OF h]
  have pm: "pmem = last (0 # xs)" "xs = [] \<longrightarrow> a = 0"
    using h by (cases xs; auto simp: hlist_mid pmem_def)+
  show ?thesis
  proof (cases "pmem \<noteq> a \<and> \<not> m_used (ram h pmem)")
    case False
    then have "h' = h"
      unfolding h'_def by (rule if_not_P)
    moreover have "xs \<noteq> [] \<longrightarrow> m_used (ram h (last xs))"
      using False pm bd(1) [of "last xs"] by auto
    then have "mem_inv h (xs @ a # zs)"
      using f zs by (auto simp: free_inv_def mem_inv_def successively_append_iff successively_Cons)
    ultimately show ?thesis
      by blast
  next
    case True
    then have ne: "xs \<noteq> []"
      using pm by auto
    then obtain ws where xs: "xs = ws @ [pmem]"
      using pm by (metis append_butlast_last_id last_ConsR)
    have h2: "hlist (ram h) 0 0 (ws @ pmem # a # zs) MEM_SIZE_ALIGNED"
      using h by (simp add: xs)
    note m = merge_props [OF h2]
    have "lfree h \<le> pmem"
      using f True by (auto simp: free_inv_def xs not_less [symmetric])
    moreover have "pmem < a"
      using bd(1) [of pmem] by (simp add: xs)
    ultimately have lf: "lfree h \<noteq> a"
      by simp
    have h': "h' = h\<lparr>lfree := lfree h, ram := merge (ram h) pmem a\<rparr>"
      using True lf by (simp add: h'_def mem_combine_merge)
    have "no_adj (merge (ram h) pmem a) (ws @ pmem # zs)"
      using f zs by (auto simp: free_inv_def xs m(2) successively_append_iff successively_Cons)
    then have "mem_inv h' (ws @ pmem # zs)"
      using f m(1) lf by (auto simp: free_inv_def mem_inv_def h' xs m(2))
    moreover have "used_blocks (ram h') (ws @ pmem # zs) x = used_blocks (ram h) (xs @ a # zs) x" for x
      using True f by (cases "x = pmem") (auto simp: used_blocks_def h' xs m(2,3) free_inv_def)
    ultimately show ?thesis
      by (intro exI [of _ "ws @ pmem # zs"]) (auto simp: h' fun_eq_iff)
  qed
qed

text \<open>\<open>mem_free\<close> of a block in use gives back exactly that block.\<close>

lemma mem_free_used:
  assumes inv: "mem_inv h as" and a: "a \<in> set as" "m_used (ram h a)"
  shows "\<exists>as'. mem_inv (mem_free h (ram_ptr h + a + SIZEOF_STRUCT_MEM)) as'
    \<and> used_blocks (ram (mem_free h (ram_ptr h + a + SIZEOF_STRUCT_MEM))) as' = (used_blocks (ram h) as)(a := None)
    \<and> ram_ptr (mem_free h (ram_ptr h + a + SIZEOF_STRUCT_MEM)) = ram_ptr h"
proof -
  obtain xs ys where as: "as = xs @ a # ys"
    using a(1) by (meson split_list)
  have h: "hlist (ram h) 0 0 (xs @ a # ys) MEM_SIZE_ALIGNED"
    using inv by (simp add: mem_inv_def as)
  note bd = hlist_mid_bounds [OF h]
  have d: "a \<notin> set (xs @ ys)"
    using hlist_distinct [OF h] by auto
  define h1 where "h1 = upd_blk a (\<lambda>b. b\<lparr>m_used := False\<rparr>) h"
  define h2 where "h2 = (if a < lfree h1 then h1\<lparr>lfree := a\<rparr> else h1)"
  have free: "mem_free h (ram_ptr h + a + SIZEOF_STRUCT_MEM) = plug_holes h2 a"
    using bd(3,4) by (simp add: mem_free_def Let_def h2_def h1_def)
  have r2: "ram h2 = (ram h)(a := (ram h a)\<lparr>m_used := False\<rparr>)" "ram_ptr h2 = ram_ptr h"
    "lfree h2 = min a (lfree h)"
    by (auto simp: h2_def h1_def)
  have "hlist (ram h2) 0 0 (xs @ a # ys) MEM_SIZE_ALIGNED"
    using h d by (simp add: r2 hlist_mid)
  moreover have u: "m_used (ram h2 x) = m_used (ram h x)" if "x \<in> set (xs @ ys)" for x
    using that d by (auto simp: r2)
  have "no_adj (ram h2) xs = no_adj (ram h) xs" "no_adj (ram h2) ys = no_adj (ram h) ys"
    by (rule no_adj_cong, simp add: u)+
  then have "no_adj (ram h2) xs" "no_adj (ram h2) ys"
    using inv by (cases ys; simp add: mem_inv_def as successively_append_iff successively_Cons)+
  moreover have "m_used (ram h2 MEM_SIZE_ALIGNED)" "\<forall>x\<in>set (xs @ a # ys). x < lfree h2 \<longrightarrow> m_used (ram h2 x)"
    using inv bd(3,4) by (auto simp: mem_inv_def as r2)
  moreover have "lfree h2 \<in> set (xs @ [a]) \<and> \<not> m_used (ram h2 (lfree h2))"
  proof (cases "a < lfree h")
    case True
    then show ?thesis
      by (simp add: r2)
  next
    case False
    then have "lfree h \<noteq> MEM_SIZE_ALIGNED"
      using bd(3,4) by auto
    then have "lfree h \<in> set as" "\<not> m_used (ram h (lfree h))"
      using inv by (auto simp: mem_inv_def)
    moreover have "lfree h \<notin> set ys"
      using False bd(2) [of "lfree h"] by auto
    ultimately show ?thesis
      using False a(2) by (auto simp: r2 as min_def)
  qed
  ultimately have f: "free_inv h2 xs a ys"
    using inv by (simp add: free_inv_def mem_inv_def as r2(2) r2(1) [THEN fun_cong, of a])
  from free_inv_forward [OF f] obtain zs h3 where h3:
    "h3 = (if a \<noteq> m_next (ram h2 a) \<and> \<not> m_used (ram h2 (m_next (ram h2 a))) \<and> m_next (ram h2 a) \<noteq> MEM_SIZE_ALIGNED
       then mem_combine h2 a (m_next (ram h2 a)) else h2)"
    "free_inv h3 xs a zs" "zs \<noteq> [] \<longrightarrow> m_used (ram h3 (hd zs))"
    "\<forall>x. x \<noteq> a \<longrightarrow> used_blocks (ram h3) (xs @ a # zs) x = used_blocks (ram h2) (xs @ a # ys) x"
    "ram_ptr h3 = ram_ptr h2"
    by blast
  from free_inv_backward [OF h3(2,3)] obtain as' where as':
    "mem_inv (plug_holes h2 a) as'" "used_blocks (ram (plug_holes h2 a)) as' = used_blocks (ram h3) (xs @ a # zs)"
    "ram_ptr (plug_holes h2 a) = ram_ptr h3"
    unfolding plug_holes_def Let_def h3(1) [symmetric] by blast
  have "used_blocks (ram h3) (xs @ a # zs) x = ((used_blocks (ram h) as)(a := None)) x" for x
    using h3(2,4) by (cases "x = a") (auto simp: used_blocks_def free_inv_def r2 as)
  then show ?thesis
    unfolding free using as' h3(5) r2 by (intro exI [of _ as']) (auto simp: fun_eq_iff)
qed

section \<open>Shrinking a block\<close>

text \<open>Both branches of \<open>mem_trim\<close> that change the heap end with a free block \<open>b\<close> behind \<open>a\<close> that reaches
  to \<open>n\<close>; only the header fields below differ from before.\<close>

definition trim_ram :: "(nat \<Rightarrow> mem_blk) \<Rightarrow> nat \<Rightarrow> nat \<Rightarrow> nat \<Rightarrow> nat \<Rightarrow> mem_blk" where
  "trim_ram r a b n =
     (let r1 = r(b := (r b)\<lparr>m_used := False, m_next := n, m_prev := a\<rparr>);
          r2 = r1(a := (r1 a)\<lparr>m_next := b\<rparr>)
      in if n \<noteq> MEM_SIZE_ALIGNED then r2(n := (r2 n)\<lparr>m_prev := b\<rparr>) else r2)"

lemma trim_ram_sel:
  assumes "a < b" "b < n"
  shows "trim_ram r a b n x =
    (if x = a then (r a)\<lparr>m_next := b\<rparr>
     else if x = b then (r b)\<lparr>m_used := False, m_next := n, m_prev := a\<rparr>
     else if x = n \<and> n \<noteq> MEM_SIZE_ALIGNED then (r n)\<lparr>m_prev := b\<rparr> else r x)"
  using assms by (auto simp: trim_ram_def Let_def)

lemma hlist_trim:
  assumes h: "hlist r 0 0 (xs @ a # ys) MEM_SIZE_ALIGNED" and n: "n = m_next (r a)"
    and b: "a + 20 \<le> b" "b + 20 \<le> n"
  shows "hlist (trim_ram r a b n) 0 0 (xs @ a # b # ys) MEM_SIZE_ALIGNED"
proof (rule hlist_split [OF h n b, where u = "m_used (r a)"])
  have lt: "a < b" "b < n"
    using b by auto
  note t = trim_ram_sel [OF lt, of r]
  have d: "a \<notin> set (xs @ ys)" "b \<notin> set xs" "b \<notin> set ys"
    using hlist_mid_bounds(1,2) [OF h] hlist_distinct [OF h] b n by fastforce+
  show "trim_ram r a b n a = (r a)\<lparr>m_next := b, m_used := m_used (r a)\<rparr>"
    "m_next (trim_ram r a b n b) = n" "m_prev (trim_ram r a b n b) = a"
    using lt by (simp_all add: t)
  show "trim_ram r a b n x = r x" if "x \<in> set xs \<union> set ys" "x \<noteq> n" for x
    using that d by (auto simp: t)
  show "trim_ram r a b n n = (r n)\<lparr>m_prev := b\<rparr>" if "ys \<noteq> []"
  proof -
    have "n \<in> set ys"
      using that h n by (cases ys) (auto simp: hlist_mid)
    then have "n \<noteq> MEM_SIZE_ALIGNED"
      using hlist_mid_bounds(2) [OF h, of n] by auto
    then show ?thesis
      using lt by (simp add: t)
  qed
qed

lemma trim_inv:
  assumes inv: "mem_inv h as" and as: "as = xs @ a # zs" and a: "m_used (ram h a)"
    and zs: "zs = ys \<and> n = m_next (ram h a) \<and> (ys \<noteq> [] \<longrightarrow> m_used (ram h (hd ys)))
      \<or> zs = m_next (ram h a) # ys \<and> \<not> m_used (ram h (m_next (ram h a))) \<and> n = m_next (ram h (m_next (ram h a)))"
    and b: "a + 20 \<le> b" "b + 20 \<le> n" "4 dvd b" "b < m_next (ram h a)"
    and l: "l = (if lfree h = m_next (ram h a) \<and> zs \<noteq> ys then b else if zs = ys \<and> b < lfree h then b else lfree h)"
  defines "h' \<equiv> h\<lparr>lfree := l, ram := trim_ram (ram h) a b n\<rparr>"
  shows "mem_inv h' (xs @ a # b # ys)"
    and "used_blocks (ram h') (xs @ a # b # ys) = (used_blocks (ram h) as)(a \<mapsto> b - a - SIZEOF_STRUCT_MEM)"
proof -
  have h: "hlist (ram h) 0 0 (xs @ a # zs) MEM_SIZE_ALIGNED"
    using inv as by (simp add: mem_inv_def)
  have lt: "a < b" "b < n"
    using b by auto
  note t = trim_ram_sel [OF lt, of "ram h"]
  have d: "distinct (xs @ a # zs)"
    by (rule hlist_distinct [OF h])
  have nb: "b \<notin> set xs" "b \<notin> set zs"
    using hlist_mid_bounds(1,2) [OF h] b by fastforce+
  have hl: "hlist (trim_ram (ram h) a b n) 0 0 (xs @ a # b # ys) MEM_SIZE_ALIGNED" and nle: "n \<le> MEM_SIZE_ALIGNED"
  proof -
    from zs consider "zs = ys" "n = m_next (ram h a)"
      | c where "c = m_next (ram h a)" "zs = c # ys" "n = m_next (ram h c)"
      by blast
    then have "hlist (trim_ram (ram h) a b n) 0 0 (xs @ a # b # ys) MEM_SIZE_ALIGNED \<and> n \<le> MEM_SIZE_ALIGNED"
    proof cases
      case 1
      then show ?thesis
        using hlist_trim [of "ram h" xs a ys n b] h b hlist_mid_bounds(3) [OF h] by simp
    next
      case (2 c)
      have h2: "hlist (ram h) 0 0 (xs @ a # c # ys) MEM_SIZE_ALIGNED"
        using h 2 by simp
      note m = merge_props [OF h2]
      have ht: "hlist (trim_ram (merge (ram h) a c) a b n) 0 0 (xs @ a # b # ys) MEM_SIZE_ALIGNED"
        using hlist_trim [OF m(1), of n b] m(4) b 2 by simp
      have nle: "n \<le> MEM_SIZE_ALIGNED"
        using hlist_mid_bounds(3) [of "ram h" 0 0 "xs @ [a]" c ys] h2 2 by simp
      have "trim_ram (ram h) a b n x = trim_ram (merge (ram h) a c) a b n x" if "x \<in> set (xs @ a # b # ys)" for x
      proof -
        have "x \<noteq> MEM_SIZE_ALIGNED"
          using hlist_bounds [OF ht that] by auto
        moreover have "merge (ram h) a c y = (if y = a then (ram h a)\<lparr>m_next := n\<rparr>
            else if y = n then (ram h y)\<lparr>m_prev := a\<rparr> else ram h y)" for y
          using lt unfolding merge_def Let_def 2(3) [symmetric] by auto
        ultimately show ?thesis
          unfolding t trim_ram_sel [OF lt, of "merge (ram h) a c"] using lt by auto
      qed
      then show ?thesis
        using ht nle hlist_cong [of "xs @ a # b # ys" "trim_ram (ram h) a b n" "trim_ram (merge (ram h) a c) a b n"]
        by blast
    qed
    then show "hlist (trim_ram (ram h) a b n) 0 0 (xs @ a # b # ys) MEM_SIZE_ALIGNED" "n \<le> MEM_SIZE_ALIGNED"
      by blast+
  qed
  have sub: "set ys \<subseteq> set zs"
    using zs by auto
  have other: "m_used (trim_ram (ram h) a b n x) = m_used (ram h x) \<and> m_next (trim_ram (ram h) a b n x) = m_next (ram h x)"
    if "x \<in> set (xs @ ys)" for x
    using that d nb sub by (auto simp: t)
  have ub: "m_used (trim_ram (ram h) a b n a)" "\<not> m_used (trim_ram (ram h) a b n b)"
    "m_next (trim_ram (ram h) a b n a) = b" "m_used (trim_ram (ram h) a b n MEM_SIZE_ALIGNED)"
    using a inv lt nle by (auto simp: t mem_inv_def)
  have adj: "no_adj (ram h) xs" "no_adj (ram h) ys" "ys \<noteq> [] \<longrightarrow> m_used (ram h (hd ys))"
    using inv zs by (auto simp: mem_inv_def as successively_append_iff successively_Cons)
  have "no_adj (trim_ram (ram h) a b n) xs = no_adj (ram h) xs" "no_adj (trim_ram (ram h) a b n) ys = no_adj (ram h) ys"
    by (rule no_adj_cong, simp add: other)+
  then have adj': "no_adj (trim_ram (ram h) a b n) (xs @ a # b # ys)"
    using adj ub other [of "hd ys"] by (cases ys) (auto simp: successively_append_iff successively_Cons)
  have low: "m_used (ram h x)" if "x \<in> set as" "x < lfree h" for x
    using inv that by (auto simp: mem_inv_def)
  have lf: "lfree h = MEM_SIZE_ALIGNED \<or> lfree h \<in> set as \<and> \<not> m_used (ram h (lfree h))"
    using inv by (auto simp: mem_inv_def)
  have "(\<forall>x\<in>set (xs @ a # b # ys). x < l \<longrightarrow> m_used (trim_ram (ram h) a b n x))
    \<and> (l = MEM_SIZE_ALIGNED \<or> l \<in> set (xs @ a # b # ys) \<and> \<not> m_used (trim_ram (ram h) a b n l))"
  proof (cases "l = b")
    case True
    have "m_used (trim_ram (ram h) a b n x)" if "x \<in> set (xs @ a # b # ys)" "x < b" for x
    proof -
      have "x < lfree h"
        using True l that(2) b(4) by (auto split: if_splits)
      then show ?thesis
        using that low [of x] ub(1) other [of x] sub by (auto simp: as)
    qed
    with True ub(2) show ?thesis
      by auto
  next
    case False
    then have ll: "l = lfree h" and not_c: "zs \<noteq> ys \<longrightarrow> lfree h \<noteq> m_next (ram h a)" and le: "zs = ys \<longrightarrow> lfree h \<le> b"
      using l by (auto split: if_splits)
    have "lfree h < b"
    proof (cases "zs = ys")
      case True
      then show ?thesis
        using False le ll by auto
    next
      case False
      then have c: "zs = m_next (ram h a) # ys" "\<not> m_used (ram h (m_next (ram h a)))"
        using zs by auto
      then have "lfree h < m_next (ram h a)"
        using low [of "m_next (ram h a)"] not_c False by (fastforce simp: as)
      then have "lfree h \<in> set xs"
        using lf c hlist_mid_bounds(2,3) [OF h] a by (force simp: as)
      then show ?thesis
        using hlist_mid_bounds(1) [OF h, of "lfree h"] lt by auto
    qed
    then have "lfree h \<in> set as" "\<not> m_used (ram h (lfree h))"
      using lf lt nle by auto
    then have "lfree h \<in> set (xs @ ys)"
      using zs not_c a by (auto simp: as)
    then show ?thesis
      using \<open>lfree h < b\<close> low other sub ub(1) \<open>\<not> m_used (ram h (lfree h))\<close> by (auto simp: ll as)
  qed
  then show "mem_inv h' (xs @ a # b # ys)"
    using inv hl ub adj' b sub by (auto simp: mem_inv_def h'_def as)
  have "used_blocks (trim_ram (ram h) a b n) (xs @ a # b # ys) x
      = ((used_blocks (ram h) as)(a \<mapsto> b - a - SIZEOF_STRUCT_MEM)) x" for x
    using zs ub other [of x] nb d by (auto simp: used_blocks_def as)
  then show "used_blocks (ram h') (xs @ a # b # ys) = (used_blocks (ram h) as)(a \<mapsto> b - a - SIZEOF_STRUCT_MEM)"
    by (auto simp: h'_def)
qed

lemma mem_trim_used:
  assumes inv: "mem_inv h as" and a: "a \<in> set as" "m_used (ram h a)"
    and sz: "mem_size_align newsz \<le> m_next (ram h a) - a - SIZEOF_STRUCT_MEM"
  defines "res \<equiv> mem_trim h (ram_ptr h + a + SIZEOF_STRUCT_MEM) newsz"
  shows "snd res = ram_ptr h + a + SIZEOF_STRUCT_MEM \<and> ram_ptr (fst res) = ram_ptr h
    \<and> (\<exists>as' k. mem_inv (fst res) as' \<and> mem_size_align newsz \<le> k
         \<and> used_blocks (ram (fst res)) as' = (used_blocks (ram h) as)(a \<mapsto> k))"
proof -
  obtain xs zs where as: "as = xs @ a # zs"
    using a(1) by (meson split_list)
  have h: "hlist (ram h) 0 0 (xs @ a # zs) MEM_SIZE_ALIGNED"
    using inv by (simp add: mem_inv_def as)
  note bd = hlist_mid_bounds [OF h]
  define new where "new = mem_size_align newsz"
  define b where "b = a + SIZEOF_STRUCT_MEM + new"
  let ?n = "m_next (ram h a)"
  have new: "12 \<le> new" "4 dvd new" "new \<le> ?n - a - 8"
    using mem_size_align_props sz by (simp_all add: new_def)
  have b: "a + 20 \<le> b" "4 dvd b" "b \<le> ?n"
    using new bd(4) inv by (auto simp: b_def mem_inv_def as)
  have same: "used_blocks (ram h) as = (used_blocks (ram h) as)(a \<mapsto> ?n - a - SIZEOF_STRUCT_MEM)"
    using a by (auto simp: used_blocks_def fun_eq_iff)
  have zs: "zs = [] \<and> ?n = MEM_SIZE_ALIGNED \<or> (\<exists>ys. zs = ?n # ys)"
    using h by (cases zs) (auto simp: hlist_mid)
  have unfold_res: "res =
     (if new = ?n - a - SIZEOF_STRUCT_MEM then (h, ram_ptr h + a + SIZEOF_STRUCT_MEM)
      else if \<not> m_used (ram h ?n) then
        (h\<lparr>lfree := (if lfree h = ?n then b else lfree h), ram := trim_ram (ram h) a b (m_next (ram h ?n))\<rparr>,
         ram_ptr h + a + SIZEOF_STRUCT_MEM)
      else if new + SIZEOF_STRUCT_MEM + MIN_SIZE_ALIGNED \<le> ?n - a - SIZEOF_STRUCT_MEM then
        (h\<lparr>lfree := (if b < lfree h then b else lfree h), ram := trim_ram (ram h) a b ?n\<rparr>,
         ram_ptr h + a + SIZEOF_STRUCT_MEM)
      else (h, ram_ptr h + a + SIZEOF_STRUCT_MEM))"
  proof -
    have ptr: "ram_ptr h + a + SIZEOF_STRUCT_MEM - SIZEOF_STRUCT_MEM - ram_ptr h = a"
      by simp
    have guards: "\<not> MEM_SIZE_ALIGNED < new"
      "\<not> (ram_ptr h + a + SIZEOF_STRUCT_MEM < ram_ptr h \<or> ram_ptr h + MEM_SIZE_ALIGNED \<le> ram_ptr h + a + SIZEOF_STRUCT_MEM)"
      "\<not> ?n - a - SIZEOF_STRUCT_MEM < new"
      using new bd(3,4) by auto
    show ?thesis
      unfolding res_def mem_trim_def Let_def new_def [symmetric] ptr if_not_P [OF guards(1)]
        if_not_P [OF guards(2)] if_not_P [OF guards(3)] b_def [symmetric]
      by (auto simp: trim_ram_def upd_blk_def Let_def)
  qed
  consider (eq) "new = ?n - a - 8" | (nfree) "new < ?n - a - 8" "\<not> m_used (ram h ?n)"
    | (cut) "new < ?n - a - 8" "m_used (ram h ?n)" "new + 20 \<le> ?n - a - 8"
    | (small) "new < ?n - a - 8" "m_used (ram h ?n)" "\<not> new + 20 \<le> ?n - a - 8"
    using new(3) by linarith
  then show ?thesis
  proof cases
    case eq
    then have r: "res = (h, ram_ptr h + a + SIZEOF_STRUCT_MEM)"
      unfolding unfold_res by auto
    show ?thesis
      unfolding r fst_conv snd_conv
      using inv same sz by blast
  next
    case nfree
    then obtain ys where ys: "zs = ?n # ys"
      using zs inv by (auto simp: mem_inv_def)
    have "?n + 20 \<le> m_next (ram h ?n)"
      using hlist_bounds [OF h, of ?n] by (simp add: ys)
    then have "b + 20 \<le> m_next (ram h ?n)" "b < ?n"
      using nfree(1) b(1) by (auto simp: b_def)
    note t = trim_inv [OF inv as a(2) _ b(1) this(1) b(2) this(2), of ys "if lfree h = ?n then b else lfree h"]
    have "fst res = h\<lparr>lfree := (if lfree h = ?n then b else lfree h), ram := trim_ram (ram h) a b (m_next (ram h ?n))\<rparr>"
      "snd res = ram_ptr h + a + SIZEOF_STRUCT_MEM"
      using nfree unfolding unfold_res by auto
    then show ?thesis
      using t nfree(2) ys
      by (intro conjI exI [of _ "xs @ a # b # ys"] exI [of _ "b - a - SIZEOF_STRUCT_MEM"]) (auto simp: new_def b_def)
  next
    case cut
    then have bn: "b + 20 \<le> ?n" "b < ?n"
      using bd(4) by (auto simp: b_def)
    note t = trim_inv [OF inv as a(2) _ b(1) bn(1) b(2) bn(2), of zs "if b < lfree h then b else lfree h"]
    have "zs \<noteq> [] \<longrightarrow> m_used (ram h (hd zs))"
      using zs cut(2) by auto
    moreover have "fst res = h\<lparr>lfree := (if b < lfree h then b else lfree h), ram := trim_ram (ram h) a b ?n\<rparr>"
      "snd res = ram_ptr h + a + SIZEOF_STRUCT_MEM"
      using cut unfolding unfold_res by auto
    ultimately show ?thesis
      using t
      by (intro conjI exI [of _ "xs @ a # b # zs"] exI [of _ "b - a - SIZEOF_STRUCT_MEM"]) (auto simp: new_def b_def)
  next
    case small
    then have r: "res = (h, ram_ptr h + a + SIZEOF_STRUCT_MEM)"
      unfolding unfold_res by auto
    show ?thesis
      unfolding r fst_conv snd_conv
      using inv same sz by blast
  qed
qed

section \<open>Properties\<close>

lemma mem_init_inv:
  "0 < ram_heap \<Longrightarrow> mem_inv (mem_init ram_heap r) [0]"
  by (auto simp: mem_inv_def mem_init_def LWIP_MEM_ALIGN_def MEM_ALIGNMENT_def)

definition demo_ram :: "nat \<Rightarrow> mem_blk" where
  "demo_ram a = \<lparr>m_next = 0, m_prev = 0, m_used = False\<rparr>"

lemma mem_init_used: "used_blocks (ram (mem_init ram_heap r)) [0] = Map.empty"
  by (auto simp: used_blocks_def mem_init_def)

text \<open>C7. \<open>mem_malloc\<close> in a heap that satisfies its invariant always ends.  It returns NULL and
  changes nothing exactly when no free block has room for the aligned request; otherwise the
  invariant holds again, the block it returns was not in use, is large enough and 4-byte aligned,
  and every block that was in use is in use as before.\<close>

theorem mem_malloc_correct:
  assumes "mem_inv h as" "0 < size0" "mem_size_align size0 \<le> MEM_SIZE_ALIGNED"
  shows "\<exists>h' p. mem_malloc h size0 = Some (h', p) \<and>
    (p = NULL \<and> h' = h
       \<and> (\<forall>a\<in>set as. m_used (ram h a) \<or> m_next (ram h a) < a + SIZEOF_STRUCT_MEM + mem_size_align size0)
     \<or> (\<exists>a as' k. p = ram_ptr h + a + SIZEOF_STRUCT_MEM \<and> 4 dvd p \<and> mem_inv h' as'
          \<and> used_blocks (ram h) as a = None \<and> mem_size_align size0 \<le> k
          \<and> used_blocks (ram h') as' = (used_blocks (ram h) as)(a \<mapsto> k)))"
proof -
  from assms have "size0 \<noteq> 0"
    by auto
  from mem_malloc_fits [OF assms(1) this assms(3)] obtain h' p where
    run: "mem_malloc h size0 = Some (h', p)" and res: "malloc_result h as (mem_size_align size0) h' p"
    by blast
  have al: "4 dvd ram_ptr h + a + SIZEOF_STRUCT_MEM" if "mem_inv h' as'" "ram_ptr h' = ram_ptr h"
    "used_blocks (ram h') as' a \<noteq> None" for a as'
    using that by (auto simp: mem_inv_def used_blocks_def split: if_splits)
  from res show ?thesis
    unfolding malloc_result_def
  proof (elim disjE exE conjE)
    fix a as' k
    assume "p = ram_ptr h + a + SIZEOF_STRUCT_MEM" "ram_ptr h' = ram_ptr h" "mem_inv h' as'"
      "used_blocks (ram h) as a = None" "mem_size_align size0 \<le> k"
      "used_blocks (ram h') as' = (used_blocks (ram h) as)(a \<mapsto> k)"
    moreover from this have "4 dvd p"
      using al [of as' a] by simp
    ultimately show ?thesis
      using run by blast
  qed (use run in blast)
qed

theorem mem_malloc_correct_witness:
  "\<exists>h' p. mem_malloc (mem_init 1000 demo_ram) 100 = Some (h', p) \<and> (p \<noteq> NULL \<longrightarrow> 4 dvd p)"
proof -
  have "mem_size_align 100 \<le> MEM_SIZE_ALIGNED" "(0 :: u16) < 100"
    by (simp_all add: mem_size_align_def LWIP_MEM_ALIGN_SIZE_def MEM_ALIGNMENT_def)
  from mem_malloc_correct [OF mem_init_inv this(2,1), of 1000 demo_ram] show ?thesis
    by auto
qed

text \<open>\<open>mem_free\<close> of a block in use keeps the invariant, so no two neighbouring free blocks remain,
  and takes exactly that block out of use.\<close>

theorem mem_free_correct:
  assumes "mem_inv h as" "a \<in> set as" "m_used (ram h a)"
  shows "\<exists>as'. mem_inv (mem_free h (ram_ptr h + a + SIZEOF_STRUCT_MEM)) as'
    \<and> used_blocks (ram (mem_free h (ram_ptr h + a + SIZEOF_STRUCT_MEM))) as' = (used_blocks (ram h) as)(a := None)"
  using mem_free_used [OF assms] by blast

text \<open>\<open>mem_trim\<close> of a block in use to a size not above its own returns the same pointer, keeps the
  invariant, leaves the block with at least the aligned new size, and touches no other block in
  use.\<close>

theorem mem_trim_correct:
  assumes "mem_inv h as" "a \<in> set as" "m_used (ram h a)"
    and "mem_size_align newsz \<le> m_next (ram h a) - a - SIZEOF_STRUCT_MEM"
  shows "\<exists>h' as' k. mem_trim h (ram_ptr h + a + SIZEOF_STRUCT_MEM) newsz = (h', ram_ptr h + a + SIZEOF_STRUCT_MEM)
    \<and> mem_inv h' as' \<and> mem_size_align newsz \<le> k \<and> used_blocks (ram h') as' = (used_blocks (ram h) as)(a \<mapsto> k)"
  using mem_trim_used [OF assms] by (metis prod.collapse)

text \<open>
  A heap with one block of 100 bytes in use at its start, for the witnesses.
\<close>

definition demo_heap :: mem_heap where
  "demo_heap = \<lparr>ram_ptr = 1000,
     ram = (\<lambda>a. if a = 0 then \<lparr>m_next = 108, m_prev = 0, m_used = True\<rparr>
       else if a = 108 then \<lparr>m_next = 48000, m_prev = 0, m_used = False\<rparr>
       else \<lparr>m_next = 48000, m_prev = 48000, m_used = True\<rparr>),
     lfree = 108\<rparr>"

lemma demo_heap_inv: "mem_inv demo_heap [0, 108]"
  by (auto simp: mem_inv_def demo_heap_def)

theorem mem_free_correct_witness:
  "\<exists>as'. mem_inv (mem_free demo_heap 1008) as'
    \<and> used_blocks (ram (mem_free demo_heap 1008)) as' = (used_blocks (ram demo_heap) [0, 108])(0 := None)"
  using mem_free_correct [OF demo_heap_inv, of 0] by (simp add: demo_heap_def)

theorem mem_trim_correct_witness:
  "\<exists>h' as'. mem_trim demo_heap 1008 20 = (h', 1008) \<and> mem_inv h' as'"
proof -
  have "mem_size_align 20 \<le> m_next (ram demo_heap 0) - 0 - SIZEOF_STRUCT_MEM"
    by (simp add: mem_size_align_def LWIP_MEM_ALIGN_SIZE_def MEM_ALIGNMENT_def demo_heap_def)
  moreover have "ram_ptr demo_heap + 0 + SIZEOF_STRUCT_MEM = 1008" "m_used (ram demo_heap 0)"
    by (simp_all add: demo_heap_def)
  ultimately show ?thesis
    using mem_trim_correct [OF demo_heap_inv, of 0 20] by fastforce
qed

text \<open>The heap over time: any sequence of the operations, each applied to a block in use.\<close>

inductive heap_reachable :: "mem_heap \<Rightarrow> bool" where
  init: "0 < ram_heap \<Longrightarrow> heap_reachable (mem_init ram_heap r)"
| malloc: "heap_reachable h \<Longrightarrow> mem_malloc h n = Some (h', p) \<Longrightarrow> heap_reachable h'"
| free: "heap_reachable h \<Longrightarrow> mem_inv h as \<Longrightarrow> a \<in> set as \<Longrightarrow> m_used (ram h a)
    \<Longrightarrow> heap_reachable (mem_free h (ram_ptr h + a + SIZEOF_STRUCT_MEM))"
| trim: "heap_reachable h \<Longrightarrow> mem_inv h as \<Longrightarrow> a \<in> set as \<Longrightarrow> m_used (ram h a)
    \<Longrightarrow> mem_size_align n \<le> m_next (ram h a) - a - SIZEOF_STRUCT_MEM
    \<Longrightarrow> mem_trim h (ram_ptr h + a + SIZEOF_STRUCT_MEM) n = (h', p) \<Longrightarrow> heap_reachable h'"

lemma mem_malloc_keeps_inv:
  assumes "mem_inv h as" "mem_malloc h n = Some (h', p)"
  shows "\<exists>as'. mem_inv h' as'"
proof (cases "n = 0 \<or> mem_size_align n > MEM_SIZE_ALIGNED")
  case True
  then show ?thesis
    using assms by (auto simp: mem_malloc_def Let_def split: if_splits)
next
  case False
  then show ?thesis
    using mem_malloc_fits [OF assms(1), of n] assms by (auto simp: malloc_result_def)
qed

text \<open>C11. Every reachable heap satisfies the invariant: a doubly linked list of blocks that covers the
  whole area, without two free neighbours, and \<open>lfree\<close> at the lowest free block; hence
  \<open>mem_malloc\<close> never runs forever in it.\<close>

theorem heap_reachable_inv:
  assumes "heap_reachable h"
  shows "(\<exists>as. mem_inv h as) \<and> (\<exists>h' p. mem_malloc h n = Some (h', p))"
proof -
  have inv: "\<exists>as. mem_inv h as"
    using assms
  proof (induction rule: heap_reachable.induct)
    case (init ram_heap r)
    then show ?case
      using mem_init_inv by blast
  next
    case (malloc h n h' p)
    then show ?case
      using mem_malloc_keeps_inv by blast
  next
    case (free h as a)
    then show ?case
      using mem_free_used by blast
  next
    case (trim h as a n h' p)
    then show ?case
      using mem_trim_used [OF trim.hyps(2-5)] by auto
  qed
  moreover have "\<exists>h' p. mem_malloc h n = Some (h', p)"
  proof (cases "n = 0 \<or> mem_size_align n > MEM_SIZE_ALIGNED")
    case True
    then show ?thesis
      by (auto simp: mem_malloc_def Let_def)
  next
    case False
    then show ?thesis
      using inv mem_malloc_fits [of h _ n] by (meson not_le)
  qed
  ultimately show ?thesis
    by blast
qed

theorem heap_reachable_inv_witness:
  "(\<exists>as. mem_inv (mem_init 1000 demo_ram) as) \<and> (\<exists>h' p. mem_malloc (mem_init 1000 demo_ram) 8 = Some (h', p))"
  using heap_reachable_inv [OF heap_reachable.init, of 1000 demo_ram 8] by simp

text \<open>The aligned size is kept in 16 bits: a request for 65533 bytes wraps to zero, is raised to the
  minimum of 12, and \<open>mem_malloc\<close> returns a block of 12 bytes for it.\<close>

theorem mem_malloc_size_wraps:
  "\<exists>h' as'. mem_malloc (mem_init 1000 r) 65533 = Some (h', 1008) \<and> mem_inv h' as'
     \<and> used_blocks (ram h') as' = [0 \<mapsto> 12]"
proof -
  have sz: "mem_size_align 65533 = 12"
    by (simp add: mem_size_align_def LWIP_MEM_ALIGN_SIZE_def MEM_ALIGNMENT_def)
  have scan: "mem_scan (ram (mem_init 1000 r)) 12 0 = Some (Some 0)"
    by (subst mem_scan.simps) (simp add: mem_init_def)
  define h1 where "h1 = mem_take (mem_init 1000 r) 0 12"
  have r1: "ram h1 = (ram (mem_init 1000 r))(20 := (r 20)\<lparr>m_used := False, m_next := 48000, m_prev := 0\<rparr>,
      0 := \<lparr>m_next = 20, m_prev = 0, m_used = True\<rparr>)" "lfree h1 = 0" "ram_ptr h1 = 1000"
    by (simp_all add: h1_def mem_take_def Let_def mem_init_def LWIP_MEM_ALIGN_def MEM_ALIGNMENT_def)
  have lf: "mem_next_free (ram h1) 0 = Some 20"
    by (subst mem_next_free.simps, simp add: r1, subst mem_next_free.simps) (simp add: r1)
  have "mem_malloc (mem_init 1000 r) 65533 = Some (h1\<lparr>lfree := 20\<rparr>, 1008)"
  proof -
    have "lfree (mem_init 1000 r) = 0" "ram_ptr (mem_init 1000 r) = 1000"
      by (simp_all add: mem_init_def LWIP_MEM_ALIGN_def MEM_ALIGNMENT_def)
    then show ?thesis
      using scan lf by (simp add: mem_malloc_def sz Let_def r1(2) flip: h1_def)
  qed
  moreover have "mem_inv (h1\<lparr>lfree := 20\<rparr>) [0, 20]"
    by (auto simp: mem_inv_def r1 mem_init_def)
  moreover have "used_blocks (ram (h1\<lparr>lfree := 20\<rparr>)) [0, 20] = [0 \<mapsto> 12]"
    by (auto simp: used_blocks_def r1 fun_eq_iff)
  ultimately show ?thesis
    by blast
qed

end
