(* ===== verification/Pbuf_Alloc.thy ===== *)
theory Pbuf_Alloc
  imports Pbuf_Data Mem_Heap
begin

text \<open>
  Allocation of pbufs against the contract of the allocator.  The locale \<open>pbuf_allocator\<close> states
  what \<^verbatim>\<open>pbuf.c\<close> relies on of \<^verbatim>\<open>mem_malloc\<close>, \<^verbatim>\<open>mem_free\<close>, \<^verbatim>\<open>memp_malloc\<close> and \<^verbatim>\<open>memp_free\<close>: a heap
  invariant, the map of live blocks with their sizes, and how each operation changes it.  The
  lemmas on \<^verbatim>\<open>pbuf_alloc\<close> are proved once in the locale; it is interpreted on the heap of
  \<^verbatim>\<open>core/mem.c\<close>, with \<^verbatim>\<open>memp_malloc\<close> in terms of \<^verbatim>\<open>mem_malloc\<close> as \<^verbatim>\<open>MEMP_MEM_MALLOC\<close> has it.
\<close>

definition memp_sizes :: "memp_t \<Rightarrow> nat" where
  "memp_sizes t = (case t of
     MEMP_PBUF \<Rightarrow> LWIP_MEM_ALIGN_SIZE SIZEOF_STRUCT_PBUF
   | MEMP_PBUF_POOL \<Rightarrow> LWIP_MEM_ALIGN_SIZE (LWIP_MEM_ALIGN_SIZE SIZEOF_STRUCT_PBUF + LWIP_MEM_ALIGN_SIZE PBUF_POOL_BUFSIZE))"

lemma pool_consts [simp]:
  "PBUF_POOL_BUFSIZE_ALIGNED = 1516" "memp_sizes MEMP_PBUF = 16" "memp_sizes MEMP_PBUF_POOL = 1532"
  by (simp_all add: memp_sizes_def PBUF_POOL_BUFSIZE_ALIGNED_def PBUF_POOL_BUFSIZE_def TCP_MSS_def
      PBUF_LINK_HLEN_def ETH_PAD_SIZE_def LWIP_MEM_ALIGN_SIZE_def MEM_ALIGNMENT_def)

lemma unat_of_int_u16: "0 \<le> i \<Longrightarrow> i < 65536 \<Longrightarrow> unat (of_int i :: u16) = nat i"
  by (simp add: unat_eq_nat_uint uint_word_of_int_eq take_bit_eq_mod)

lemma layer_consts:
  "PBUF_TRANSPORT_HLEN = 20" "PBUF_IP_HLEN = 20" "PBUF_LINK_HLEN = 16" "SIZEOF_STRUCT_PBUF = 16"
  by (simp_all add: PBUF_TRANSPORT_HLEN_def PBUF_IP_HLEN_def PBUF_LINK_HLEN_def ETH_PAD_SIZE_def
      SIZEOF_STRUCT_PBUF_def LWIP_MEM_ALIGN_SIZE_def MEM_ALIGNMENT_def)

lemma layer_offset_bounds: "4 dvd unat (layer_offset layer)" "unat (layer_offset layer) \<le> 56"
  by (cases layer; simp add: layer_offset_def layer_consts)+

lemma aligned_sizes: "4 dvd n \<Longrightarrow> LWIP_MEM_ALIGN_SIZE n = n" "4 dvd n \<Longrightarrow> LWIP_MEM_ALIGN n = n"
  by (auto simp: LWIP_MEM_ALIGN_SIZE_def LWIP_MEM_ALIGN_def MEM_ALIGNMENT_def)

lemma aligned_size_ge: "n \<le> LWIP_MEM_ALIGN_SIZE n" "LWIP_MEM_ALIGN_SIZE n \<le> n + 3" "4 dvd LWIP_MEM_ALIGN_SIZE n"
  by (auto simp: LWIP_MEM_ALIGN_SIZE_def MEM_ALIGNMENT_def)

text \<open>
  What \<^verbatim>\<open>pbuf_alloc\<close> promises.  \<open>allocated\<close>: a well-formed chain \<open>as\<close> of exactly \<open>len\<close> bytes, every pbuf
  with reference count one and its payload inside a new block, nothing else changed.  \<open>refused\<close>:
  every block taken on the way was given back and no object in a live block was touched.
\<close>

definition allocated ::
  "('h \<Rightarrow> bool) \<Rightarrow> ('h \<Rightarrow> addr \<rightharpoonup> nat) \<Rightarrow> 'h pstate \<Rightarrow> u16 \<Rightarrow> 'h pstate \<Rightarrow> addr \<Rightarrow> addr list \<Rightarrow> bool" where
  "allocated ok blk s len s' p as \<longleftrightarrow> ok (heap s') \<and> p \<noteq> NULL \<and> pchain (pbufs s') p as
     \<and> tot_ok (pbufs s') as \<and> lens (pbufs s') as = unat len \<and> dmem s' = dmem s
     \<and> (\<forall>a\<in>set as. blk (heap s) a = None \<and> pb_ref (pb_at (pbufs s') a) = 1 \<and> pb_flags (pb_at (pbufs s') a) = 0
          \<and> (\<exists>k. blk (heap s') a = Some k \<and> a + 16 \<le> pb_payload (pb_at (pbufs s') a)
              \<and> pb_payload (pb_at (pbufs s') a) + unat (pb_len (pb_at (pbufs s') a)) \<le> a + k))
     \<and> (\<forall>a. a \<notin> set as \<longrightarrow> blk (heap s') a = blk (heap s) a \<and> pbufs s' a = pbufs s a)"

definition refused :: "('h \<Rightarrow> bool) \<Rightarrow> ('h \<Rightarrow> addr \<rightharpoonup> nat) \<Rightarrow> 'h pstate \<Rightarrow> 'h pstate \<Rightarrow> bool" where
  "refused ok blk s s' \<longleftrightarrow> ok (heap s') \<and> dmem s' = dmem s \<and> blk (heap s') = blk (heap s)
     \<and> (\<forall>a. blk (heap s) a \<noteq> None \<longrightarrow> pbufs s' a = pbufs s a)"

lemma pb_next_only:
  assumes "pb1\<lparr>pb_next := n\<rparr> = pb2\<lparr>pb_next := n\<rparr>"
  shows "pb_len pb1 = pb_len pb2" "pb_tot_len pb1 = pb_tot_len pb2" "pb_flags pb1 = pb_flags (pb2 :: pbuf)"
  using arg_cong [OF assms, of pb_len] arg_cong [OF assms, of pb_tot_len] arg_cong [OF assms, of pb_flags]
  by simp_all

locale pbuf_allocator =
  fixes A :: "'h alloc"
    and heap_inv :: "'h \<Rightarrow> bool"
    and blocks :: "'h \<Rightarrow> addr \<rightharpoonup> nat"
    and limit :: nat
  assumes malloc_law: "heap_inv h \<Longrightarrow> 0 < n \<Longrightarrow> n \<le> limit \<Longrightarrow> al_malloc A h n = (h', p) \<Longrightarrow>
      heap_inv h' \<and> (p = NULL \<and> blocks h' = blocks h
        \<or> p \<noteq> NULL \<and> 4 dvd p \<and> blocks h p = None \<and> (\<exists>k\<ge>n. blocks h' = (blocks h)(p \<mapsto> k)))"
    and memp_malloc_law: "heap_inv h \<Longrightarrow> al_memp_malloc A h t = (h', p) \<Longrightarrow>
      heap_inv h' \<and> (p = NULL \<and> blocks h' = blocks h
        \<or> p \<noteq> NULL \<and> 4 dvd p \<and> blocks h p = None \<and> (\<exists>k\<ge>memp_sizes t. blocks h' = (blocks h)(p \<mapsto> k)))"
    and free_law: "heap_inv h \<Longrightarrow> blocks h p \<noteq> None \<Longrightarrow>
      heap_inv (al_free A h p) \<and> blocks (al_free A h p) = (blocks h)(p := None)"
    and memp_free_law: "heap_inv h \<Longrightarrow> blocks h p \<noteq> None \<Longrightarrow>
      heap_inv (al_memp_free A h t p) \<and> blocks (al_memp_free A h t p) = (blocks h)(p := None)"
    and separate_law: "heap_inv h \<Longrightarrow> blocks h p = Some k \<Longrightarrow> blocks h q = Some l \<Longrightarrow> p \<noteq> q \<Longrightarrow>
      p + k \<le> q \<or> q + l \<le> p"
begin

lemma release_law:
  assumes "heap_inv h" "blocks h p \<noteq> None" "pb_flags pb AND PBUF_FLAG_IS_CUSTOM = 0"
  shows "heap_inv (pbuf_release A h p pb) \<and> blocks (pbuf_release A h p pb) = (blocks h)(p := None)"
  using assms free_law memp_free_law by (simp add: pbuf_release_def)

lemma release_all:
  assumes "heap_inv h" "distinct as" "set as \<subseteq> dom (blocks h)"
    and "\<And>a. a \<in> set as \<Longrightarrow> pb_flags (f a) AND PBUF_FLAG_IS_CUSTOM = 0"
  shows "heap_inv (foldl (\<lambda>h a. pbuf_release A h a (f a)) h as)
    \<and> blocks (foldl (\<lambda>h a. pbuf_release A h a (f a)) h as) = blocks h |` (- set as)"
  using assms
proof (induction as arbitrary: h)
  case (Cons a as)
  have r: "heap_inv (pbuf_release A h a (f a))" "blocks (pbuf_release A h a (f a)) = (blocks h)(a := None)"
    using Cons.prems release_law [of h a "f a"] by auto
  have d: "distinct as" and sub: "set as \<subseteq> dom (blocks (pbuf_release A h a (f a)))"
    using Cons.prems r(2) by auto
  have eq: "((blocks h)(a := None)) |` (- set as) = blocks h |` (- set (a # as))"
    by (auto simp: restrict_map_def fun_eq_iff)
  show ?case
    using Cons.IH [OF r(1) d sub] Cons.prems(4) unfolding foldl_Cons r(2) eq by simp
qed (simp add: restrict_map_def)

text \<open>Where the payload of a pool pbuf lies in its block.\<close>

definition pool_pbuf :: "addr \<Rightarrow> pbuf \<Rightarrow> bool" where
  "pool_pbuf a pb \<longleftrightarrow> pb_type pb = PBUF_POOL \<and> pb_ref pb = 1
     \<and> a + 16 \<le> pb_payload pb \<and> pb_payload pb + unat (pb_len pb) \<le> a + memp_sizes MEMP_PBUF_POOL"

text \<open>The state between two iterations of the loop: a chain \<open>as\<close> from \<open>p\<close> of pool pbufs, each in a
  block of its own.\<close>

definition building :: "'h pstate \<Rightarrow> addr \<Rightarrow> addr list \<Rightarrow> bool" where
  "building s p as \<longleftrightarrow> heap_inv (heap s) \<and> pchain (pbufs s) p as \<and> as \<noteq> []
     \<and> (\<forall>a\<in>set as. pool_pbuf a (pb_at (pbufs s) a) \<and> 4 dvd a
          \<and> (\<exists>k\<ge>memp_sizes MEMP_PBUF_POOL. blocks (heap s) a = Some k))"

lemma building_step:
  assumes b: "building s p as" and m: "al_memp_malloc A (heap s) MEMP_PBUF_POOL = (h, q)" "q \<noteq> NULL"
    and qb: "pool_pbuf q qb" "pb_next qb = NULL" and rb: "pbufs s (last as) = Some rb"
  shows "building (set_pbuf (last as) (rb\<lparr>pb_next := q\<rparr>) (set_pbuf q qb (s\<lparr>heap := h\<rparr>))) p (as @ [q])"
    and "q \<notin> set as" "blocks (heap s) q = None" "\<exists>k. blocks h = (blocks (heap s))(q \<mapsto> k)"
proof -
  have laws: "heap_inv h" "4 dvd q" "blocks (heap s) q = None"
    "\<exists>k\<ge>memp_sizes MEMP_PBUF_POOL. blocks h = (blocks (heap s))(q \<mapsto> k)"
    using memp_malloc_law [of "heap s" MEMP_PBUF_POOL h q] m b by (auto simp: building_def)
  then obtain k where k: "memp_sizes MEMP_PBUF_POOL \<le> k" "blocks h = (blocks (heap s))(q \<mapsto> k)"
    by blast
  show q: "q \<notin> set as" "blocks (heap s) q = None" "\<exists>k. blocks h = (blocks (heap s))(q \<mapsto> k)"
    using b laws(3) k by (auto simp: building_def)
  let ?st = "(pbufs s)(q \<mapsto> qb, last as \<mapsto> rb\<lparr>pb_next := q\<rparr>)"
  have ne: "as \<noteq> []" and ch: "pchain (pbufs s) p as"
    using b by (auto simp: building_def)
  have live: "\<exists>pb. pbufs s a = Some pb" if "a \<in> set as" for a
    using pchain_live [OF ch that] by auto
  have nl: "q \<noteq> last as"
    using q(1) ne by auto
  have "pchain ?st p (as @ [q])"
  proof (rule pchain_append [OF ch ne])
    show "pchain ?st q [q]"
      using m(2) qb(2) nl by simp
    show "map_option pb_next (?st a) = Some (if a = last as then q else pb_next (pb_at (pbufs s) a))" if "a \<in> set as" for a
      using live [OF that] that q(1) rb by auto
  qed
  moreover have "pool_pbuf a (pb_at ?st a) \<and> 4 dvd a \<and> (\<exists>k\<ge>memp_sizes MEMP_PBUF_POOL. blocks h a = Some k)"
    if "a \<in> set (as @ [q])" for a
    using that b qb(1) q(1) nl rb k laws(2) by (auto simp: building_def pool_pbuf_def)
  ultimately show "building (set_pbuf (last as) (rb\<lparr>pb_next := q\<rparr>) (set_pbuf q qb (s\<lparr>heap := h\<rparr>))) p (as @ [q])"
    using laws(1) unfolding building_def set_pbuf_sel by simp
qed

lemma building_fail:
  assumes b: "building s p as" and m: "al_memp_malloc A (heap s) MEMP_PBUF_POOL = (h, NULL)"
    and fl: "\<And>a. a \<in> set as \<Longrightarrow> pb_flags (pb_at (pbufs s) a) AND PBUF_FLAG_IS_CUSTOM = 0"
  shows "\<exists>s' n. pbuf_free A (s\<lparr>heap := h\<rparr>) p = Some (s', n) \<and> heap_inv (heap s')
    \<and> blocks (heap s') = blocks (heap s) |` (- set as) \<and> pbufs s' = pbufs s |` (- set as) \<and> dmem s' = dmem s"
proof -
  have laws: "heap_inv h" "blocks h = blocks (heap s)"
    using memp_malloc_law [of "heap s" MEMP_PBUF_POOL h NULL] m b by (auto simp: building_def)
  have ch: "pchain (pbufs s) p as" and ref: "\<And>a. a \<in> set as \<Longrightarrow> pb_ref (pb_at (pbufs s) a) = 1"
    and dom: "set as \<subseteq> dom (blocks h)"
    using b laws(2) by (auto simp: building_def pool_pbuf_def)
  have ch': "pchain (pbufs (s\<lparr>heap := h\<rparr>)) p as"
    using ch by simp
  have fp: "freed_prefix (pbufs (s\<lparr>heap := h\<rparr>)) as = as"
    using ref by (intro freed_prefix_all) simp
  from pbuf_free_chain [OF ch', of A] obtain s' where s':
    "pbuf_free A (s\<lparr>heap := h\<rparr>) p = Some (s', of_nat (length as))" "free_result A (s\<lparr>heap := h\<rparr>) as s'"
    unfolding fp by blast
  have "heap s' = foldl (\<lambda>h a. pbuf_release A h a (pb_at (pbufs s) a)) h as" "dmem s' = dmem s"
    and st: "pbufs s' a = (if a \<in> set as then None else pbufs s a)" for a
    using s'(2) fp by (auto simp: free_result_def Let_def)
  then show ?thesis
    using s'(1) release_all [OF laws(1) pchain_distinct [OF ch] dom, of "\<lambda>a. pb_at (pbufs s) a"] fl laws(2)
    by (auto simp: restrict_map_def fun_eq_iff st)
qed

text \<open>What the loop leaves: either the chain grew by \<open>bs\<close>, or everything it had built is gone.\<close>

definition tail_ok :: "'h pstate \<Rightarrow> addr \<Rightarrow> addr list \<Rightarrow> nat \<Rightarrow> 'h pstate \<Rightarrow> addr list \<Rightarrow> bool" where
  "tail_ok s p as n s' bs \<longleftrightarrow> building s' p (as @ bs) \<and> tot_ok (pbufs s') bs \<and> lens (pbufs s') bs = n
     \<and> dmem s' = dmem s
     \<and> (\<forall>a. a \<notin> set bs \<longrightarrow> blocks (heap s') a = blocks (heap s) a \<and>
          map_option (pb_next_update (\<lambda>_. 0)) (pbufs s' a) = map_option (pb_next_update (\<lambda>_. 0)) (pbufs s a))
     \<and> (\<forall>a. a \<notin> set (as @ bs) \<longrightarrow> pbufs s' a = pbufs s a)
     \<and> (\<forall>a\<in>set bs. pb_flags (pb_at (pbufs s') a) = 0)
     \<and> (\<forall>a\<in>set bs. blocks (heap s) a = None)"

definition tail_failed :: "'h pstate \<Rightarrow> addr list \<Rightarrow> 'h pstate \<Rightarrow> addr list \<Rightarrow> bool" where
  "tail_failed s as s' bs \<longleftrightarrow> heap_inv (heap s') \<and> dmem s' = dmem s
     \<and> blocks (heap s') = blocks (heap s) |` (- set as)
     \<and> (\<forall>a\<in>set bs. blocks (heap s) a = None)
     \<and> (\<forall>a. a \<in> set (as @ bs) \<longrightarrow> pbufs s' a = None)
     \<and> (\<forall>a. a \<notin> set (as @ bs) \<longrightarrow> pbufs s' a = pbufs s a)"

lemma tail_ok_cons:
  assumes t: "tail_ok s2 p (as @ [q]) n s' bs"
    and s2: "pbufs s2 = (pbufs s)(q \<mapsto> qb, last as \<mapsto> rb\<lparr>pb_next := q\<rparr>)" "heap s2 = h" "dmem s2 = dmem s"
    and "pbufs s (last as) = Some rb" "last as \<in> set as" "q \<notin> set as" "blocks (heap s) q = None"
    and "\<exists>k. blocks h = (blocks (heap s))(q \<mapsto> k)"
    and tot: "unat (pb_tot_len qb) = unat (pb_len qb) + n" and fl: "pb_flags qb = 0"
  shows "tail_ok s p as (unat (pb_len qb) + n) s' (q # bs)"
proof -
  have b: "building s' p (as @ q # bs)"
    using t by (simp add: tail_ok_def)
  then have d: "q \<notin> set bs" "q \<noteq> last as"
    using pchain_distinct [of "pbufs s'" p "as @ q # bs"] assms(6,7) by (auto simp: building_def)
  have fr: "map_option (pb_next_update (\<lambda>_. 0)) (pbufs s' a) = map_option (pb_next_update (\<lambda>_. 0)) (pbufs s2 a)"
      "blocks (heap s') a = blocks h a" if "a \<notin> set bs" for a
    using t that s2 by (auto simp: tail_ok_def)
  obtain qb' where qb': "pbufs s' q = Some qb'" "qb'\<lparr>pb_next := 0\<rparr> = qb\<lparr>pb_next := 0\<rparr>"
    using fr(1) [OF d(1)] d(2) s2(1) by (cases "pbufs s' q") auto
  note eq = pb_next_only [OF qb'(2)]
  have flb: "pb_flags (pb_at (pbufs s') a) = 0" if "a \<in> set (q # bs)" for a
    using t that qb'(1) eq(3) fl by (auto simp: tail_ok_def)
  from eq have "tot_ok (pbufs s') (q # bs) \<and> lens (pbufs s') (q # bs) = unat (pb_len qb) + n"
    using t tot qb'(1) by (simp add: tail_ok_def)
  moreover have "blocks (heap s') a = blocks (heap s) a \<and>
      map_option (pb_next_update (\<lambda>_. 0)) (pbufs s' a) = map_option (pb_next_update (\<lambda>_. 0)) (pbufs s a)"
    if "a \<notin> set (q # bs)" for a
    using that fr [of a] assms(5,9) s2(1) by auto
  moreover have "blocks (heap s) a = None" if "a \<in> set (q # bs)" for a
    using that t assms(8,9) s2(2) by (auto simp: tail_ok_def split: if_splits)
  moreover have "pbufs s' a = pbufs s a" if "a \<notin> set (as @ q # bs)" for a
    using that t assms(6) s2(1) by (auto simp: tail_ok_def)
  ultimately show ?thesis
    using b t s2(3) flb by (simp add: tail_ok_def)
qed

lemma tail_failed_cons:
  assumes "tail_failed s2 (as @ [q]) s' bs"
    and s2: "pbufs s2 = (pbufs s)(q \<mapsto> qb, last as \<mapsto> rb\<lparr>pb_next := q\<rparr>)" "heap s2 = h" "dmem s2 = dmem s"
    and "pbufs s (last as) = Some rb" "last as \<in> set as" "q \<notin> set as" "blocks (heap s) q = None"
    and "\<exists>k. blocks h = (blocks (heap s))(q \<mapsto> k)"
  shows "tail_failed s as s' (q # bs)"
  using assms by (auto simp: tail_failed_def restrict_map_def fun_eq_iff split: if_splits)

lemma tail_loop:
  assumes "building s p as" "0 \<le> rem" "rem < 65536"
    and "\<And>a. a \<in> set as \<Longrightarrow> pb_flags (pb_at (pbufs s) a) AND PBUF_FLAG_IS_CUSTOM = 0"
  shows "\<exists>s' bs. pbuf_alloc_tail A s p (last as) rem = Some (s', p) \<and> tail_ok s p as (nat rem) s' bs
    \<or> pbuf_alloc_tail A s p (last as) rem = Some (s', NULL) \<and> tail_failed s as s' bs"
  using assms
proof (induction "nat rem" arbitrary: s as rem rule: less_induct)
  case less
  show ?case
  proof (cases "rem > 0")
    case False
    then have "tail_ok s p as (nat rem) s []" "pbuf_alloc_tail A s p (last as) rem = Some (s, p)"
      using less.prems by (simp_all add: tail_ok_def pbuf_alloc_tail.simps)
    then show ?thesis
      by blast
  next
    case pos: True
    obtain h q where m: "al_memp_malloc A (heap s) MEMP_PBUF_POOL = (h, q)"
      by (cases "al_memp_malloc A (heap s) MEMP_PBUF_POOL")
    show ?thesis
    proof (cases "q = NULL")
      case True
      from building_fail [OF less.prems(1) _ less.prems(4)] m True obtain s' n where
        "pbuf_free A (s\<lparr>heap := h\<rparr>) p = Some (s', n)" "heap_inv (heap s')"
        "blocks (heap s') = blocks (heap s) |` (- set as)" "pbufs s' = pbufs s |` (- set as)" "dmem s' = dmem s"
        by blast
      then have "pbuf_alloc_tail A s p (last as) rem = Some (s', NULL)" "tail_failed s as s' []"
        using pos m True by (subst pbuf_alloc_tail.simps, simp, simp add: tail_failed_def restrict_map_def)
      then show ?thesis
        by blast
    next
      case False
      define qlen :: u16 where "qlen = min (of_int rem) (of_nat PBUF_POOL_BUFSIZE_ALIGNED)"
      define qb where "qb = \<lparr>pb_next = NULL, pb_payload = q + SIZEOF_STRUCT_PBUF, pb_tot_len = of_int rem,
        pb_len = qlen, pb_type = PBUF_POOL, pb_flags = 0, pb_ref = 1\<rparr>"
      have rem16: "unat (of_int rem :: u16) = nat rem"
        using pos less.prems by (simp add: unat_of_int_u16)
      have qlen: "unat qlen = min (nat rem) 1516"
        using rem16 unfolding qlen_def by (simp add: min_def word_le_nat_alt)
      obtain rb where rb: "pbufs s (last as) = Some rb"
        using less.prems(1) pchain_live [of "pbufs s" p as "last as"] by (auto simp: building_def)
      have pq: "pool_pbuf q qb" "pb_next qb = NULL"
        using qlen by (simp_all add: pool_pbuf_def qb_def)
      define s2 where "s2 = set_pbuf (last as) (rb\<lparr>pb_next := q\<rparr>) (set_pbuf q qb (s\<lparr>heap := h\<rparr>))"
      note step = building_step [OF less.prems(1) m False pq rb, folded s2_def]
      define rem' where "rem' = rem - uint qlen"
      have rem': "0 \<le> rem'" "nat rem = unat qlen + nat rem'" "nat rem' < nat rem" "rem' < 65536"
        using pos qlen less.prems unfolding rem'_def by (auto simp: uint_nat)
      have run: "pbuf_alloc_tail A s p (last as) rem = pbuf_alloc_tail A s2 p (last (as @ [q])) rem'"
        using pos m False rb
        by (subst pbuf_alloc_tail.simps) (simp add: Let_def s2_def rem'_def qb_def qlen_def)
      have la: "last as \<in> set as"
        using less.prems(1) by (simp add: building_def)
      have fl: "pb_flags (pb_at (pbufs s2) a) AND PBUF_FLAG_IS_CUSTOM = 0" if "a \<in> set (as @ [q])" for a
        using that la step(2) rb less.prems(4) [of "last as"] less.prems(4) [of a]
        by (auto simp: s2_def qb_def split: if_splits)
      from less.hyps [OF rem'(3) step(1) rem'(1,4) fl] run obtain s' bs where
        r: "pbuf_alloc_tail A s p (last as) rem = Some (s', p) \<and> tail_ok s2 p (as @ [q]) (nat rem') s' bs
          \<or> pbuf_alloc_tail A s p (last as) rem = Some (s', NULL) \<and> tail_failed s2 (as @ [q]) s' bs"
        by auto
      have s2: "pbufs s2 = (pbufs s)(q \<mapsto> qb, last as \<mapsto> rb\<lparr>pb_next := q\<rparr>)" "heap s2 = h" "dmem s2 = dmem s"
        by (simp_all add: s2_def)
      have ok: "tail_ok s p as (nat rem) s' (q # bs)" if "tail_ok s2 p (as @ [q]) (nat rem') s' bs"
        using tail_ok_cons [OF that s2 rb la step(2-4)] rem'(2) rem16 by (simp add: qb_def)
      have failed: "tail_failed s as s' (q # bs)" if "tail_failed s2 (as @ [q]) s' bs"
        using tail_failed_cons [OF that s2 rb la step(2-4)] .
      show ?thesis
        using r ok failed by blast
    qed
  qed
qed

lemma pool_finish:
  assumes t: "tail_ok s1 p [p] n s2 bs" and s1: "s1 = set_pbuf p pb (s\<lparr>heap := h\<rparr>)"
    and h: "blocks (heap s) p = None" "blocks h = (blocks (heap s))(p \<mapsto> k)"
    and pb: "pb_tot_len pb = len" "unat len = unat (pb_len pb) + n"
  shows "\<exists>pb2. pbufs s2 p = Some pb2 \<and> allocated heap_inv blocks s len (set_pbuf p (pb2\<lparr>pb_ref := 1, pb_flags := 0\<rparr>) s2) p (p # bs)"
proof -
  have b: "building s2 p (p # bs)" and bs: "tot_ok (pbufs s2) bs" "lens (pbufs s2) bs = n"
    using t by (auto simp: tail_ok_def)
  then have d: "p \<notin> set bs" and ch: "pchain (pbufs s2) p (p # bs)"
    using pchain_distinct [of "pbufs s2" p "p # bs"] by (auto simp: building_def)
  then obtain pb2 where pb2: "pbufs s2 p = Some pb2" "p \<noteq> NULL"
    by (auto split: option.splits)
  have same: "pb2\<lparr>pb_next := 0\<rparr> = pb\<lparr>pb_next := 0\<rparr>"
    using t d pb2 unfolding tail_ok_def by (metis (no_types, lifting) fun_upd_same option.inject option.simps(9) pstate.select_convs(2) s1 set_pbuf_sel(1))
  note eq = pb_next_only [OF same]
  define s3 where "s3 = set_pbuf p (pb2\<lparr>pb_ref := 1, pb_flags := 0\<rparr>) s2"
  have st: "pbufs s3 = (pbufs s2)(p \<mapsto> pb2\<lparr>pb_ref := 1, pb_flags := 0\<rparr>)" "heap s3 = heap s2" "dmem s3 = dmem s2"
    by (simp_all add: s3_def)
  have "pchain (pbufs s3) p (p # bs)" "tot_ok (pbufs s3) (p # bs)" "lens (pbufs s3) (p # bs) = unat len"
    using ch d pb2 st bs eq pb by auto
  moreover have "pb_flags (pb_at (pbufs s3) a) = 0" if "a \<in> set (p # bs)" for a
    using t that st by (auto simp: tail_ok_def)
  moreover have "pb_ref (pb_at (pbufs s3) a) = 1 \<and> (\<exists>k. blocks (heap s3) a = Some k \<and> a + 16 \<le> pb_payload (pb_at (pbufs s3) a)
      \<and> pb_payload (pb_at (pbufs s3) a) + unat (pb_len (pb_at (pbufs s3) a)) \<le> a + k)" if "a \<in> set (p # bs)" for a
    using b that pb2 st unfolding building_def pool_pbuf_def by (auto intro: order_trans)
  moreover have "blocks (heap s) a = None" if "a \<in> set (p # bs)" for a
    using t that h by (auto simp: tail_ok_def s1 split: if_splits)
  moreover have "blocks (heap s3) a = blocks (heap s) a \<and> pbufs s3 a = pbufs s a" if "a \<notin> set (p # bs)" for a
    using t that h st by (auto simp: tail_ok_def s1)
  moreover have "dmem s3 = dmem s" "heap_inv (heap s3)"
    using t b st by (auto simp: tail_ok_def building_def s1)
  ultimately have "allocated heap_inv blocks s len s3 p (p # bs)"
    unfolding allocated_def using pb2(2) by (intro conjI ballI allI impI) (simp_all only: simp_thms)
  with pb2 show ?thesis
    unfolding s3_def by blast
qed

lemma pbuf_alloc_pool:
  assumes inv: "heap_inv (heap s)"
    and fl: "\<And>h p. pb_flags (al_fresh A h p) AND PBUF_FLAG_IS_CUSTOM = 0"
  shows "\<exists>s' p. pbuf_alloc A s layer len PBUF_POOL = Some (s', p)
    \<and> ((\<exists>as. allocated heap_inv blocks s len s' p as) \<or> p = NULL \<and> refused heap_inv blocks s s')"
proof -
  obtain h p where m: "al_memp_malloc A (heap s) MEMP_PBUF_POOL = (h, p)"
    by (cases "al_memp_malloc A (heap s) MEMP_PBUF_POOL")
  note law = memp_malloc_law [OF inv m]
  show ?thesis
  proof (cases "p = NULL")
    case True
    then have "refused heap_inv blocks s (s\<lparr>heap := h\<rparr>)"
      using law by (auto simp: refused_def)
    then show ?thesis
      using m True by (auto simp: pbuf_alloc_def Let_def)
  next
    case False
    then obtain k where k: "heap_inv h" "4 dvd p" "blocks (heap s) p = None" "1532 \<le> k" "blocks h = (blocks (heap s))(p \<mapsto> k)"
      using law by auto
    define offset where "offset = unat (layer_offset layer)"
    note off = layer_offset_bounds [of layer, folded offset_def]
    define plen :: u16 where "plen = min len (of_nat (PBUF_POOL_BUFSIZE_ALIGNED - LWIP_MEM_ALIGN_SIZE offset))"
    have plen: "unat plen = min (unat len) (1516 - offset)"
    proof -
      have "unat (of_nat (PBUF_POOL_BUFSIZE_ALIGNED - LWIP_MEM_ALIGN_SIZE offset) :: u16) = 1516 - offset"
        unfolding unat_of_nat by (simp add: aligned_sizes off(1))
      then show ?thesis
        by (simp add: plen_def min_def word_le_nat_alt)
    qed
    define pb where "pb = (al_fresh A h p)\<lparr>pb_type := PBUF_POOL, pb_next := NULL,
      pb_payload := LWIP_MEM_ALIGN (p + (SIZEOF_STRUCT_PBUF + offset)), pb_tot_len := len, pb_len := plen, pb_ref := 1\<rparr>"
    define s1 where "s1 = set_pbuf p pb (s\<lparr>heap := h\<rparr>)"
    have pay: "pb_payload pb = p + 16 + offset"
      using k(2) off by (simp add: pb_def aligned_sizes layer_consts)
    have b: "building s1 p [p]"
      using k False pay plen off unfolding building_def s1_def
      by (auto simp: pool_pbuf_def pb_def)
    define rem where "rem = uint len - uint plen"
    have rem: "0 \<le> rem" "rem < 65536" "unat len = unat plen + nat rem"
      using plen unat_u16_lt [of len] unfolding rem_def uint_nat by linarith+
    have fl1: "pb_flags (pb_at (pbufs s1) a) AND PBUF_FLAG_IS_CUSTOM = 0" if "a \<in> set [p]" for a
      using that fl by (simp add: s1_def pb_def)
    define fin where "fin = (\<lambda>(s :: 'h pstate, p). if p = NULL then Some (s, NULL) else do {
             pb \<leftarrow> pbufs s p;
             Some (set_pbuf p (pb\<lparr>pb_ref := 1, pb_flags := 0\<rparr>) s, p) })"
    have run: "pbuf_alloc A s layer len PBUF_POOL = do { sp \<leftarrow> pbuf_alloc_tail A s1 p p rem; fin sp }"
      using m False by (simp add: pbuf_alloc_def Let_def s1_def pb_def plen_def rem_def offset_def fin_def)
    from tail_loop [OF b rem(1,2) fl1] obtain s2 bs where
      "pbuf_alloc_tail A s1 p p rem = Some (s2, p) \<and> tail_ok s1 p [p] (nat rem) s2 bs
       \<or> pbuf_alloc_tail A s1 p p rem = Some (s2, NULL) \<and> tail_failed s1 [p] s2 bs"
      by auto
    then show ?thesis
    proof
      assume t: "pbuf_alloc_tail A s1 p p rem = Some (s2, p) \<and> tail_ok s1 p [p] (nat rem) s2 bs"
      have "pb_tot_len pb = len" "unat len = unat (pb_len pb) + nat rem"
        using rem by (simp_all add: pb_def)
      from pool_finish [OF conjunct2 [OF t] s1_def k(3,5) this] obtain s' where
        "fin (s2, p) = Some (s', p)" "allocated heap_inv blocks s len s' p (p # bs)"
        using False by (auto simp: fin_def)
      then show ?thesis
        using run t by auto
    next
      assume t: "pbuf_alloc_tail A s1 p p rem = Some (s2, NULL) \<and> tail_failed s1 [p] s2 bs"
      then have tf: "heap_inv (heap s2)" "dmem s2 = dmem s" "blocks (heap s2) = blocks h |` (- {p})"
        "\<And>a. a \<in> set bs \<Longrightarrow> blocks h a = None" "\<And>a. a \<notin> set (p # bs) \<Longrightarrow> pbufs s2 a = pbufs s a"
        by (simp_all add: tail_failed_def s1_def)
      have "blocks (heap s2) = blocks (heap s)"
        using k(3) unfolding tf(3) k(5) by (auto simp: restrict_map_def fun_eq_iff)
      moreover have "pbufs s2 a = pbufs s a" if "blocks (heap s) a \<noteq> None" for a
      proof -
        have "a \<noteq> p"
          using that k(3) by blast
        moreover from this have "a \<notin> set bs"
          using tf(4) [of a] that by (auto simp: k(5))
        ultimately show ?thesis
          by (intro tf(5)) simp
      qed
      ultimately have "refused heap_inv blocks s s2"
        using tf(1,2) by (simp add: refused_def)
      then show ?thesis
        using run t by (simp add: fin_def)
    qed
  qed
qed

text \<open>Freeing a chain that was just allocated gives every block back.\<close>

lemma free_allocated:
  assumes "allocated heap_inv blocks s len s' p as"
  shows "\<exists>s''. pbuf_free A s' p = Some (s'', of_nat (length as)) \<and> heap_inv (heap s'')
    \<and> blocks (heap s'') = blocks (heap s) \<and> (\<forall>a. a \<notin> set as \<longrightarrow> pbufs s'' a = pbufs s a)
    \<and> (\<forall>a\<in>set as. pbufs s'' a = None) \<and> dmem s'' = dmem s"
proof -
  have ch: "pchain (pbufs s') p as" and inv: "heap_inv (heap s')" and dm: "dmem s' = dmem s"
    and rf: "\<And>a. a \<in> set as \<Longrightarrow> pb_ref (pb_at (pbufs s') a) = 1"
    and fl: "\<And>a. a \<in> set as \<Longrightarrow> pb_flags (pb_at (pbufs s') a) AND PBUF_FLAG_IS_CUSTOM = 0"
    and new: "\<And>a. a \<in> set as \<Longrightarrow> blocks (heap s) a = None"
    and dom: "set as \<subseteq> dom (blocks (heap s'))"
    and fr: "\<And>a. a \<notin> set as \<Longrightarrow> blocks (heap s') a = blocks (heap s) a \<and> pbufs s' a = pbufs s a"
    using assms by (auto simp: allocated_def)
  have fp: "freed_prefix (pbufs s') as = as"
    using rf by (intro freed_prefix_all) simp
  from pbuf_free_chain [OF ch, of A] obtain s'' where s'':
    "pbuf_free A s' p = Some (s'', of_nat (length as))" "free_result A s' as s''"
    unfolding fp by blast
  have h: "heap s'' = foldl (\<lambda>h a. pbuf_release A h a (pb_at (pbufs s') a)) (heap s') as" "dmem s'' = dmem s'"
    and st: "pbufs s'' a = (if a \<in> set as then None else pbufs s' a)" for a
    using s''(2) fp by (auto simp: free_result_def Let_def)
  note rel = release_all [OF inv pchain_distinct [OF ch] dom, of "\<lambda>a. pb_at (pbufs s') a", OF fl, folded h(1)]
  have "blocks (heap s'') = blocks (heap s)"
    using conjunct2 [OF rel] new fr by (auto simp: restrict_map_def fun_eq_iff)
  then show ?thesis
    using s''(1) rel h(2) dm st fr by auto
qed

lemma pbuf_alloc_ram:
  assumes inv: "heap_inv (heap s)" and lim: "unat len + 75 \<le> limit"
  shows "\<exists>s' p. pbuf_alloc A s layer len PBUF_RAM = Some (s', p)
    \<and> (allocated heap_inv blocks s len s' p [p] \<or> p = NULL \<and> refused heap_inv blocks s s')"
proof -
  define offset where "offset = unat (layer_offset layer)"
  note off = layer_offset_bounds [of layer, folded offset_def]
  define n where "n = LWIP_MEM_ALIGN_SIZE (SIZEOF_STRUCT_PBUF + offset) + LWIP_MEM_ALIGN_SIZE (unat len)"
  have sz: "LWIP_MEM_ALIGN_SIZE (SIZEOF_STRUCT_PBUF + offset) = 16 + offset"
    using off by (simp add: aligned_sizes layer_consts)
  then have n: "0 < n" "n \<le> limit" "16 + offset + unat len \<le> n"
    using off lim aligned_size_ge [of "unat len"] unfolding n_def sz by auto
  obtain h p where m: "al_malloc A (heap s) n = (h, p)"
    by (cases "al_malloc A (heap s) n")
  note law = malloc_law [OF inv n(1,2) m]
  show ?thesis
  proof (cases "p = NULL")
    case True
    then have "refused heap_inv blocks s (s\<lparr>heap := h\<rparr>)"
      using law by (auto simp: refused_def)
    then show ?thesis
      using m True by (auto simp: pbuf_alloc_def Let_def n_def offset_def)
  next
    case False
    then obtain k where k: "heap_inv h" "4 dvd p" "blocks (heap s) p = None" "n \<le> k" "blocks h = (blocks (heap s))(p \<mapsto> k)"
      using law by auto
    define pb where "pb = (al_fresh A h p)\<lparr>pb_payload := LWIP_MEM_ALIGN (p + SIZEOF_STRUCT_PBUF + offset),
      pb_len := len, pb_tot_len := len, pb_next := NULL, pb_type := PBUF_RAM, pb_ref := 1, pb_flags := 0\<rparr>"
    have pb: "pb_payload pb = p + 16 + offset" "pb_len pb = len" "pb_tot_len pb = len" "pb_next pb = NULL" "pb_ref pb = 1" "pb_flags pb = 0"
      using k(2) off by (simp_all add: pb_def aligned_sizes layer_consts)
    have "pbuf_alloc A s layer len PBUF_RAM = Some (set_pbuf p pb (s\<lparr>heap := h\<rparr>), p)"
      using m False by (simp add: pbuf_alloc_def Let_def n_def offset_def pb_def set_pbuf_def)
    moreover have "allocated heap_inv blocks s len (set_pbuf p pb (s\<lparr>heap := h\<rparr>)) p [p]"
      using k False pb n(3) by (auto simp: allocated_def)
    ultimately show ?thesis
      by blast
  qed
qed

end

section \<open>The heap of mem.c as the allocator\<close>

definition heap_alloc :: "(mem_heap \<Rightarrow> addr \<Rightarrow> mem_heap) \<Rightarrow> (mem_heap \<Rightarrow> addr \<Rightarrow> pbuf) \<Rightarrow> mem_heap alloc" where
  "heap_alloc custom fresh =
     \<lparr>al_malloc = (\<lambda>h n. case mem_malloc h (of_nat n) of Some r \<Rightarrow> r | None \<Rightarrow> (h, NULL)),
      al_free = mem_free,
      al_trim = (\<lambda>h p n. mem_trim h p (of_nat n)),
      al_memp_malloc = (\<lambda>h t. case mem_malloc h (of_nat (memp_sizes t)) of Some r \<Rightarrow> r | None \<Rightarrow> (h, NULL)),
      al_memp_free = (\<lambda>h t p. mem_free h p),
      al_custom_free = custom,
      al_fresh = fresh\<rparr>"

text \<open>The live blocks of a heap by the pointer \<^verbatim>\<open>mem_malloc\<close> returned for them.\<close>

definition heap_ok :: "mem_heap \<Rightarrow> bool" where
  "heap_ok h \<longleftrightarrow> (\<exists>as. mem_inv h as)"

definition heap_blocks :: "mem_heap \<Rightarrow> addr \<rightharpoonup> nat" where
  "heap_blocks h p = (if ram_ptr h + SIZEOF_STRUCT_MEM \<le> p
     then used_blocks (ram h) (THE as. hlist (ram h) 0 0 as MEM_SIZE_ALIGNED) (p - ram_ptr h - SIZEOF_STRUCT_MEM)
     else None)"

lemma hlist_unique: "hlist r p off as e \<Longrightarrow> hlist r p off bs e \<Longrightarrow> as = bs"
proof (induction as arbitrary: p off bs)
  case Nil
  then show ?case
    by (cases bs) (auto dest: hlist_le)
next
  case (Cons a as)
  then show ?case
    by (cases bs) (auto dest: hlist_le)
qed

lemma heap_blocks_eq:
  assumes "mem_inv h as"
  shows "heap_blocks h p = (if ram_ptr h + 8 \<le> p then used_blocks (ram h) as (p - ram_ptr h - 8) else None)"
proof -
  have "(THE as. hlist (ram h) 0 0 as MEM_SIZE_ALIGNED) = as"
    using assms hlist_unique by (intro the_equality) (auto simp: mem_inv_def)
  then show ?thesis
    by (simp add: heap_blocks_def)
qed

lemma heap_blocks_upd:
  assumes "mem_inv h as" "mem_inv h' as'" "ram_ptr h' = ram_ptr h"
    and "used_blocks (ram h') as' = (used_blocks (ram h) as)(a := v)"
  shows "heap_blocks h' = (heap_blocks h)(ram_ptr h + a + 8 := v)"
  using assms(3,4) by (auto simp: fun_eq_iff heap_blocks_eq [OF assms(1)] heap_blocks_eq [OF assms(2)])

lemma heap_blocks_live:
  assumes "mem_inv h as" "heap_blocks h p = Some k"
  obtains a where "p = ram_ptr h + a + 8" "a \<in> set as" "m_used (ram h a)" "a + 8 + k = m_next (ram h a)"
proof -
  have p: "ram_ptr h + 8 \<le> p" "used_blocks (ram h) as (p - ram_ptr h - 8) = Some k"
    using assms(2) by (auto simp: heap_blocks_eq [OF assms(1)] split: if_splits)
  then have u: "p - ram_ptr h - 8 \<in> set as" "m_used (ram h (p - ram_ptr h - 8))"
    and k: "k = m_next (ram h (p - ram_ptr h - 8)) - (p - ram_ptr h - 8) - 8"
    by (auto simp: used_blocks_def split: if_splits)
  have "p - ram_ptr h - 8 + 20 \<le> m_next (ram h (p - ram_ptr h - 8))"
    using assms(1) hlist_bounds [OF _ u(1)] by (auto simp: mem_inv_def)
  with p(1) u k show ?thesis
    by (intro that [of "p - ram_ptr h - 8"]) auto
qed

lemma heap_malloc_law:
  assumes "heap_ok h" "0 < n" "n \<le> 48000"
    and run: "(case mem_malloc h (of_nat n) of Some r \<Rightarrow> r | None \<Rightarrow> (h, NULL)) = (h', p)"
  shows "heap_ok h' \<and> (p = NULL \<and> heap_blocks h' = heap_blocks h
    \<or> p \<noteq> NULL \<and> 4 dvd p \<and> heap_blocks h p = None \<and> (\<exists>k\<ge>n. heap_blocks h' = (heap_blocks h)(p \<mapsto> k)))"
proof -
  obtain as where inv: "mem_inv h as"
    using assms(1) by (auto simp: heap_ok_def)
  have n16: "unat (of_nat n :: u16) = n"
    using assms(3) by (simp add: unat_of_nat)
  then have nz: "(of_nat n :: u16) \<noteq> 0"
    using assms(2) by (metis less_numeral_extra(3) unat_0)
  have "LWIP_MEM_ALIGN_SIZE n \<le> 48000"
    using assms(3) by (auto simp: LWIP_MEM_ALIGN_SIZE_def MEM_ALIGNMENT_def)
  then have sz: "mem_size_align (of_nat n) \<le> MEM_SIZE_ALIGNED" "n \<le> mem_size_align (of_nat n)"
    using aligned_size_ge(1) [of n] by (auto simp: mem_size_align_def Let_def n16 unat_of_nat)
  from mem_malloc_fits [OF inv nz sz(1)] run
  have "malloc_result h as (mem_size_align (of_nat n)) h' p"
    by auto
  then show ?thesis
    unfolding malloc_result_def
  proof (elim disjE exE conjE)
    assume "p = NULL" "h' = h"
    then show ?thesis
      using assms(1) by simp
  next
    fix a as' k
    assume r: "p = ram_ptr h + a + SIZEOF_STRUCT_MEM" "ram_ptr h' = ram_ptr h" "mem_inv h' as'"
      "used_blocks (ram h) as a = None" "mem_size_align (of_nat n) \<le> k"
      "used_blocks (ram h') as' = (used_blocks (ram h) as)(a \<mapsto> k)"
    have "4 dvd a" "4 dvd ram_ptr h"
      using inv r(3) fun_cong [OF r(6), of a] by (auto simp: mem_inv_def used_blocks_def split: if_splits)
    then have "4 dvd p"
      by (simp add: r(1))
    moreover have "heap_blocks h' = (heap_blocks h)(p \<mapsto> k)"
      using heap_blocks_upd [OF inv r(3,2,6)] r(1) by simp
    moreover have "heap_blocks h p = None"
      using r(1,4) by (simp add: heap_blocks_eq [OF inv])
    moreover have "n \<le> k"
      using r(5) sz(2) by linarith
    ultimately show ?thesis
      using r(1,3) unfolding heap_ok_def by auto
  qed
qed

lemma heap_free_law:
  assumes "heap_ok h" "heap_blocks h p \<noteq> None"
  shows "heap_ok (mem_free h p) \<and> heap_blocks (mem_free h p) = (heap_blocks h)(p := None)"
proof -
  obtain as where inv: "mem_inv h as"
    using assms(1) by (auto simp: heap_ok_def)
  obtain k where "heap_blocks h p = Some k"
    using assms(2) by blast
  from heap_blocks_live [OF inv this] obtain a where
    a: "p = ram_ptr h + a + 8" "a \<in> set as" "m_used (ram h a)"
    by blast
  from mem_free_used [OF inv a(2,3)] a(1) obtain as' where
    "mem_inv (mem_free h p) as'" "used_blocks (ram (mem_free h p)) as' = (used_blocks (ram h) as)(a := None)"
    "ram_ptr (mem_free h p) = ram_ptr h"
    by auto
  then show ?thesis
    using heap_blocks_upd [OF inv, of "mem_free h p" as' a None] a(1) by (auto simp: heap_ok_def)
qed

lemma heap_separate_law:
  assumes "heap_ok h" "heap_blocks h p = Some k" "heap_blocks h q = Some l" "p \<noteq> q"
  shows "p + k \<le> q \<or> q + l \<le> p"
proof -
  obtain as where inv: "mem_inv h as"
    using assms(1) by (auto simp: heap_ok_def)
  then have h: "hlist (ram h) 0 0 as MEM_SIZE_ALIGNED"
    by (simp add: mem_inv_def)
  from heap_blocks_live [OF inv assms(2)] obtain a where a: "p = ram_ptr h + a + 8" "a \<in> set as" "a + 8 + k = m_next (ram h a)"
    by blast
  from heap_blocks_live [OF inv assms(3)] obtain b where b: "q = ram_ptr h + b + 8" "b \<in> set as" "b + 8 + l = m_next (ram h b)"
    by blast
  have ab: "m_next (ram h a) \<le> b \<or> m_next (ram h b) \<le> a"
  proof -
    obtain xs ys where as: "as = xs @ a # ys"
      using a(2) by (meson split_list)
    with b(2) a(1) b(1) assms(4) have "b \<in> set xs \<or> b \<in> set ys"
      by auto
    then show ?thesis
    proof
      assume "b \<in> set ys"
      then show ?thesis
        using hlist_mid_bounds(2) [OF h [unfolded as]] by auto
    next
      assume "b \<in> set xs"
      moreover have "hlist (ram h) 0 0 xs a"
        using h as by (simp add: hlist_mid)
      ultimately show ?thesis
        using hlist_bounds by blast
    qed
  qed
  then show ?thesis
    using a b by auto
qed

interpretation mem_pb: pbuf_allocator "heap_alloc custom fresh" heap_ok heap_blocks 48000
  for custom fresh
proof unfold_locales
  show "heap_ok h' \<and> (p = NULL \<and> heap_blocks h' = heap_blocks h
      \<or> p \<noteq> NULL \<and> 4 dvd p \<and> heap_blocks h p = None \<and> (\<exists>k\<ge>n. heap_blocks h' = (heap_blocks h)(p \<mapsto> k)))"
    if "heap_ok h" "0 < n" "n \<le> 48000" "al_malloc (heap_alloc custom fresh) h n = (h', p)" for h n h' p
    using heap_malloc_law [OF that(1-3)] that(4) by (simp add: heap_alloc_def)
  show "heap_ok h' \<and> (p = NULL \<and> heap_blocks h' = heap_blocks h
      \<or> p \<noteq> NULL \<and> 4 dvd p \<and> heap_blocks h p = None \<and> (\<exists>k\<ge>memp_sizes t. heap_blocks h' = (heap_blocks h)(p \<mapsto> k)))"
    if "heap_ok h" "al_memp_malloc (heap_alloc custom fresh) h t = (h', p)" for h t h' p
    using heap_malloc_law [OF that(1), of "memp_sizes t"] that(2) by (cases t) (simp_all add: heap_alloc_def)
qed (use heap_free_law heap_separate_law in \<open>auto simp: heap_alloc_def\<close>)

section \<open>Properties\<close>

definition fresh_state :: "mem_heap pstate" where
  "fresh_state = \<lparr>heap = mem_init 1000 demo_ram, pbufs = Map.empty, dmem = (\<lambda>_. 0)\<rparr>"

definition fresh_pb :: pbuf where
  "fresh_pb = \<lparr>pb_next = 0, pb_payload = 0, pb_tot_len = 0, pb_len = 0, pb_type = PBUF_RAM, pb_flags = 1, pb_ref = 0\<rparr>"

lemma fresh_state_ok: "heap_ok (heap fresh_state)"
  using mem_init_inv [of 1000 demo_ram] by (auto simp: fresh_state_def heap_ok_def)



text \<open>\<open>pbuf_alloc\<close> of a \<open>PBUF_RAM\<close> buffer that leaves room for the headers of its layer within the
  heap size: either one pbuf with its whole payload inside one new heap block, as large as asked
  for, or NULL with the heap as before.\<close>

theorem pbuf_alloc_ram_correct:
  assumes "heap_ok (heap s)" "unat len + 75 \<le> MEM_SIZE_ALIGNED"
  shows "\<exists>s' p. pbuf_alloc (heap_alloc custom fresh) s layer len PBUF_RAM = Some (s', p)
    \<and> (allocated heap_ok heap_blocks s len s' p [p] \<or> p = NULL \<and> refused heap_ok heap_blocks s s')"
  using assms by (intro mem_pb.pbuf_alloc_ram) simp_all

theorem pbuf_alloc_ram_correct_witness:
  "\<exists>s' p. pbuf_alloc (heap_alloc (\<lambda>h _. h) (\<lambda>_ _. fresh_pb)) fresh_state PBUF_RAW 1500 PBUF_RAM = Some (s', p)
    \<and> (allocated heap_ok heap_blocks fresh_state 1500 s' p [p] \<or> p = NULL \<and> refused heap_ok heap_blocks fresh_state s')"
  using pbuf_alloc_ram_correct [OF fresh_state_ok, of 1500 "\<lambda>h _. h" "\<lambda>_ _. fresh_pb" PBUF_RAW] by simp

text \<open>
  An allocator with one pool element left, in memory whose old contents have bit 1 set where
  \<^verbatim>\<open>flags\<close> is; its heap logs the calls of \<^verbatim>\<open>custom_free_function\<close>.
\<close>

definition stale_alloc :: "(nat \<times> addr list) alloc" where
  "stale_alloc =
     \<lparr>al_malloc = (\<lambda>h n. (h, NULL)), al_free = (\<lambda>h p. h), al_trim = (\<lambda>h p n. (h, p)),
      al_memp_malloc = (\<lambda>(n, l) t. if n > 0 then ((n - 1, l), 100) else ((n, l), NULL)),
      al_memp_free = (\<lambda>(n, l) t p. (n + 1, l)),
      al_custom_free = (\<lambda>(n, l) p. (n, p # l)),
      al_fresh = (\<lambda>_ _. fresh_pb\<lparr>pb_flags := 2\<rparr>)\<rparr>"

text \<open>When a second pool pbuf cannot be allocated, \<open>pbuf_alloc\<close> frees the first one before it has set
  its \<^verbatim>\<open>flags\<close>: the old contents of the memory decide, here so that the pbuf is not given back to
  its pool and a \<^verbatim>\<open>custom_free_function\<close> that was never set is called on it.\<close>

theorem pbuf_alloc_reads_fresh_flags:
  "map_option (\<lambda>(s, p). (heap s, p))
     (pbuf_alloc stale_alloc \<lparr>heap = (1, []), pbufs = Map.empty, dmem = (\<lambda>_. 0)\<rparr> PBUF_RAW 2000 PBUF_POOL)
   = Some ((0, [100]), NULL)"
proof -
  let ?pb = "\<lparr>pb_next = 0, pb_payload = 116, pb_tot_len = 2000, pb_len = 1516, pb_type = PBUF_POOL, pb_flags = 2, pb_ref = 1\<rparr>"
  let ?s = "\<lparr>heap = (0, []), pbufs = [100 \<mapsto> ?pb], dmem = (\<lambda>_. 0)\<rparr> :: (nat \<times> addr list) pstate"
  have "pbuf_free stale_alloc ?s 100 = Some (?s\<lparr>heap := (0, [100]), pbufs := Map.empty\<rparr>, 1)"
    unfolding pbuf_free_def
    by (subst pbuf_free_loop.simps, simp, subst pbuf_free_loop.simps)
      (simp add: set_pbuf_def pbuf_dealloc_def pbuf_release_def PBUF_FLAG_IS_CUSTOM_def stale_alloc_def)
  then have "pbuf_alloc_tail stale_alloc ?s 100 100 484 = Some (?s\<lparr>heap := (0, [100]), pbufs := Map.empty\<rparr>, NULL)"
    by (subst pbuf_alloc_tail.simps) (simp add: stale_alloc_def)
  then show ?thesis
    by (simp add: pbuf_alloc_def layer_offset_def stale_alloc_def fresh_pb_def set_pbuf_def aligned_sizes
        layer_consts min_def word_le_nat_alt)
qed

end
