(* ===== verification/Header_Fields.thy ===== *)
theory Header_Fields
  imports Lwip_Prelude
begin

text \<open>
  Fields of packet headers in memory.  A header is a packed struct: its fields are bytes at fixed
  offsets from the payload pointer, 16- and 32-bit fields in the byte order of the little-endian
  target.  The lemmas read back what was written to a field or to the fields beside it.
\<close>

unbundle bit_operations_syntax

definition le_bytes16 :: "u16 \<Rightarrow> u8 list" where
  "le_bytes16 w = [ucast w, ucast (drop_bit 8 w)]"

definition load16 :: "bytes \<Rightarrow> addr \<Rightarrow> u16" where
  "load16 m a = ucast (m a) OR push_bit 8 (ucast (m (a + 1)))"

definition load32 :: "bytes \<Rightarrow> addr \<Rightarrow> u32" where
  "load32 m a = of_le_bytes32 (m a) (m (a + 1)) (m (a + 2)) (m (a + 3))"

lemma length_le_bytes [simp]: "length (le_bytes32 w) = 4" "length (le_bytes16 v) = 2"
  by (simp_all add: le_bytes32_def le_bytes16_def)

lemma mem_read_same: "length xs = n \<Longrightarrow> mem_read (mem_write m a xs) a n = xs"
  by auto

lemma mem_write_other: "b < a \<or> a + length xs \<le> b \<Longrightarrow> mem_write m a xs b = m b"
  by (auto simp: mem_write_apply)

lemma mem_write_cover:
  "length xs = length ys \<Longrightarrow> mem_write (mem_write m a xs) a ys = mem_write m a ys"
  by (auto simp: fun_eq_iff mem_write_apply)

lemma load32_read: "mem_read m a 4 = le_bytes32 w \<Longrightarrow> load32 m a = w"
proof -
  assume r: "mem_read m a 4 = le_bytes32 w"
  have "m (a + 0) = le_bytes32 w ! 0" "m (a + 1) = le_bytes32 w ! 1" "m (a + 2) = le_bytes32 w ! 2" "m (a + 3) = le_bytes32 w ! 3"
    unfolding r [symmetric] by (simp_all only: nth_mem_read)
  then show ?thesis
    by (simp add: load32_def le_bytes32_def)
qed

lemma load16_read: "mem_read m a 2 = le_bytes16 w \<Longrightarrow> load16 m a = w"
proof -
  assume r: "mem_read m a 2 = le_bytes16 w"
  have "m (a + 0) = le_bytes16 w ! 0" "m (a + 1) = le_bytes16 w ! 1"
    unfolding r [symmetric] by (simp_all only: nth_mem_read)
  then have "load16 m a = ucast (ucast w :: u8) OR push_bit 8 (ucast (ucast (drop_bit 8 w) :: u8))"
    by (simp add: load16_def le_bytes16_def)
  also have "\<dots> = w"
    by (rule bit_word_eqI) (auto simp: bit_simps)
  finally show ?thesis .
qed

end
