(* ===== verification/Etharp.thy ===== *)
theory Etharp
  imports Ip_Addr Pbuf_Alloc Header_Fields
begin

text \<open>
  Address resolution and Ethernet input: \<^verbatim>\<open>netif/etharp.c\<close>, with the options of this port (one queued
  packet per entry, no static entries, no VLAN, no SNMP).  The ARP table is the list
  \<open>arp_table\<close>; queued and received packets are pbufs of the packet buffer model, so that freeing,
  copying and sending them is the code of \<^verbatim>\<open>pbuf.c\<close>.  Headers are bytes in memory at the offsets
  of the packed structs.  The driver function \<^verbatim>\<open>netif->linkoutput\<close> and \<^verbatim>\<open>ip_input\<close> are the fields of
  \<open>arp_env\<close>; \<open>None\<close> stands for a driver that never returns.
\<close>

section \<open>Data\<close>

type_synonym eth_addr = "u8 list"

definition ethbroadcast :: eth_addr where "ethbroadcast = [0xff, 0xff, 0xff, 0xff, 0xff, 0xff]"
definition ethzero :: eth_addr where "ethzero = [0, 0, 0, 0, 0, 0]"

definition ARP_TABLE_SIZE :: nat where "ARP_TABLE_SIZE = 10"
definition ARP_MAXAGE :: u8 where "ARP_MAXAGE = 240"
definition ARP_MAXPENDING :: u8 where "ARP_MAXPENDING = 2"
definition HWTYPE_ETHERNET :: u16 where "HWTYPE_ETHERNET = 1"
definition ETHARP_HWADDR_LEN :: u8 where "ETHARP_HWADDR_LEN = 6"
definition SIZEOF_ETH_HDR :: nat where "SIZEOF_ETH_HDR = 14 + ETH_PAD_SIZE"
definition SIZEOF_ETHARP_HDR :: nat where "SIZEOF_ETHARP_HDR = 28"
definition SIZEOF_ETHARP_PACKET :: nat where "SIZEOF_ETHARP_PACKET = SIZEOF_ETH_HDR + SIZEOF_ETHARP_HDR"
definition ETHTYPE_ARP :: u16 where "ETHTYPE_ARP = 0x0806"
definition ETHTYPE_IP :: u16 where "ETHTYPE_IP = 0x0800"
definition ARP_REQUEST :: u16 where "ARP_REQUEST = 1"
definition ARP_REPLY :: u16 where "ARP_REPLY = 2"
definition ETHARP_FLAG_TRY_HARD :: u8 where "ETHARP_FLAG_TRY_HARD = 1"
definition ETHARP_FLAG_FIND_ONLY :: u8 where "ETHARP_FLAG_FIND_ONLY = 2"
definition NETIF_FLAG_ETHARP :: u8 where "NETIF_FLAG_ETHARP = 0x20"

datatype etharp_state = ETHARP_STATE_EMPTY | ETHARP_STATE_PENDING | ETHARP_STATE_STABLE

record etharp_entry =
  e_q :: addr
  e_ipaddr :: ip_addr
  e_ethaddr :: eth_addr
  e_state :: etharp_state
  e_ctime :: u8

record 'h arp =
  arp_table :: "etharp_entry list"
  etharp_cached_entry :: nat
  arp_ps :: "'h pstate"

record 'h arp_env =
  ae_alloc :: "'h alloc"
  ae_linkoutput :: "netif \<Rightarrow> addr \<Rightarrow> 'h pstate \<Rightarrow> ('h pstate \<times> err_t) option"
  ae_ip_input :: "addr \<Rightarrow> netif \<Rightarrow> 'h arp \<Rightarrow> 'h arp option"

definition upd_entry :: "nat \<Rightarrow> (etharp_entry \<Rightarrow> etharp_entry) \<Rightarrow> 'h arp \<Rightarrow> 'h arp" where
  "upd_entry i f st = st\<lparr>arp_table := (arp_table st)[i := f (arp_table st ! i)]\<rparr>"

text \<open>Offsets in \<^verbatim>\<open>struct eth_hdr\<close>, after its two bytes of padding, and in \<^verbatim>\<open>struct etharp_hdr\<close>.\<close>

definition eth_dest :: nat where "eth_dest = ETH_PAD_SIZE"
definition eth_src :: nat where "eth_src = ETH_PAD_SIZE + 6"
definition eth_type :: nat where "eth_type = ETH_PAD_SIZE + 12"
definition arp_hwtype :: nat where "arp_hwtype = SIZEOF_ETH_HDR"
definition arp_proto :: nat where "arp_proto = SIZEOF_ETH_HDR + 2"
definition arp_hwlen :: nat where "arp_hwlen = SIZEOF_ETH_HDR + 4"
definition arp_protolen :: nat where "arp_protolen = SIZEOF_ETH_HDR + 5"
definition arp_opcode :: nat where "arp_opcode = SIZEOF_ETH_HDR + 6"
definition arp_shwaddr :: nat where "arp_shwaddr = SIZEOF_ETH_HDR + 8"
definition arp_sipaddr :: nat where "arp_sipaddr = SIZEOF_ETH_HDR + 14"
definition arp_dhwaddr :: nat where "arp_dhwaddr = SIZEOF_ETH_HDR + 18"
definition arp_dipaddr :: nat where "arp_dipaddr = SIZEOF_ETH_HDR + 24"

section \<open>The table\<close>

definition free_entry :: "'h alloc \<Rightarrow> nat \<Rightarrow> 'h arp \<Rightarrow> 'h arp option" where
  "free_entry A i st =
     do {
       st \<leftarrow> (if e_q (arp_table st ! i) \<noteq> NULL then
                do {
                  (ps, _) \<leftarrow> pbuf_free A (arp_ps st) (e_q (arp_table st ! i));
                  Some (upd_entry i (\<lambda>e. e\<lparr>e_q := NULL\<rparr>) (st\<lparr>arp_ps := ps\<rparr>))
                }
              else Some st);
       Some (upd_entry i (\<lambda>e. e\<lparr>e_state := ETHARP_STATE_EMPTY\<rparr>) st)
     }"

definition etharp_tmr_entry :: "'h alloc \<Rightarrow> nat \<Rightarrow> 'h arp \<Rightarrow> 'h arp option" where
  "etharp_tmr_entry A i st =
     (if e_state (arp_table st ! i) \<noteq> ETHARP_STATE_EMPTY then
        let st = upd_entry i (\<lambda>e. e\<lparr>e_ctime := e_ctime e + 1\<rparr>) st;
            e = arp_table st ! i
        in if e_ctime e \<ge> ARP_MAXAGE \<or> e_state e = ETHARP_STATE_PENDING \<and> e_ctime e \<ge> ARP_MAXPENDING
           then free_entry A i st
           else Some st
      else Some st)"

fun etharp_tmr_loop :: "'h alloc \<Rightarrow> nat list \<Rightarrow> 'h arp \<Rightarrow> 'h arp option" where
  "etharp_tmr_loop A [] st = Some st"
| "etharp_tmr_loop A (i # is) st = do { st \<leftarrow> etharp_tmr_entry A i st; etharp_tmr_loop A is st }"

definition etharp_tmr :: "'h alloc \<Rightarrow> 'h arp \<Rightarrow> 'h arp option" where
  "etharp_tmr A st = etharp_tmr_loop A [0..<ARP_TABLE_SIZE] st"

text \<open>
  The candidates \<^verbatim>\<open>find_entry\<close> remembers while it searches; \<open>ARP_TABLE_SIZE\<close> stands for none.
\<close>

record arp_cand =
  c_empty :: nat
  c_old_pending :: nat
  c_old_stable :: nat
  c_old_queue :: nat
  c_age_pending :: u8
  c_age_stable :: u8
  c_age_queue :: u8

definition no_cand :: arp_cand where
  "no_cand = \<lparr>c_empty = ARP_TABLE_SIZE, c_old_pending = ARP_TABLE_SIZE, c_old_stable = ARP_TABLE_SIZE,
     c_old_queue = ARP_TABLE_SIZE, c_age_pending = 0, c_age_stable = 0, c_age_queue = 0\<rparr>"

definition note_cand :: "etharp_entry \<Rightarrow> nat \<Rightarrow> arp_cand \<Rightarrow> arp_cand" where
  "note_cand e i c =
     (if e_state e = ETHARP_STATE_PENDING then
        if e_q e \<noteq> NULL then
          if e_ctime e \<ge> c_age_queue c then c\<lparr>c_old_queue := i, c_age_queue := e_ctime e\<rparr> else c
        else if e_ctime e \<ge> c_age_pending c then c\<lparr>c_old_pending := i, c_age_pending := e_ctime e\<rparr> else c
      else if e_state e = ETHARP_STATE_STABLE then
        if e_ctime e \<ge> c_age_stable c then c\<lparr>c_old_stable := i, c_age_stable := e_ctime e\<rparr> else c
      else c)"

fun find_scan :: "ip_addr option \<Rightarrow> etharp_entry list \<Rightarrow> nat \<Rightarrow> arp_cand \<Rightarrow> nat + arp_cand" where
  "find_scan ipaddr [] i c = Inr c"
| "find_scan ipaddr (e # es) i c =
     (if c_empty c = ARP_TABLE_SIZE \<and> e_state e = ETHARP_STATE_EMPTY
      then find_scan ipaddr es (i + 1) (c\<lparr>c_empty := i\<rparr>)
      else if e_state e \<noteq> ETHARP_STATE_EMPTY then
        if ipaddr = Some (e_ipaddr e) then Inl i
        else find_scan ipaddr es (i + 1) (note_cand e i c)
      else find_scan ipaddr es (i + 1) c)"

definition choose_entry :: "arp_cand \<Rightarrow> nat option" where
  "choose_entry c =
     (if c_old_stable c < ARP_TABLE_SIZE then Some (c_old_stable c)
      else if c_old_pending c < ARP_TABLE_SIZE then Some (c_old_pending c)
      else if c_old_queue c < ARP_TABLE_SIZE then Some (c_old_queue c)
      else None)"

text \<open>The result is the index, or the error that the C function returns as a negative number.\<close>

definition find_entry :: "'h alloc \<Rightarrow> ip_addr option \<Rightarrow> u8 \<Rightarrow> 'h arp \<Rightarrow> ('h arp \<times> (err_t + nat)) option" where
  "find_entry A ipaddr flags st =
     (let create = (\<lambda>i st. (upd_entry i (\<lambda>e. (case ipaddr of None \<Rightarrow> e | Some ip \<Rightarrow> e\<lparr>e_ipaddr := ip\<rparr>)\<lparr>e_ctime := 0\<rparr>) st,
                       Inr i))
      in case find_scan ipaddr (arp_table st) 0 no_cand of
           Inl i \<Rightarrow> Some (st, Inr i)
         | Inr c \<Rightarrow>
             if flags AND ETHARP_FLAG_FIND_ONLY \<noteq> 0
                \<or> c_empty c = ARP_TABLE_SIZE \<and> flags AND ETHARP_FLAG_TRY_HARD = 0
             then Some (st, Inl ERR_MEM)
             else if c_empty c < ARP_TABLE_SIZE then Some (create (c_empty c) st)
             else (case choose_entry c of
                     None \<Rightarrow> Some (st, Inl ERR_MEM)
                   | Some i \<Rightarrow> do { st \<leftarrow> free_entry A i st; Some (create i st) }))"

section \<open>Sending and updating\<close>

definition etharp_send_ip ::
  "'h arp_env \<Rightarrow> netif \<Rightarrow> addr \<Rightarrow> eth_addr \<Rightarrow> eth_addr \<Rightarrow> 'h arp \<Rightarrow> ('h arp \<times> err_t) option" where
  "etharp_send_ip E netif p src dst st =
     do {
       pb \<leftarrow> pbufs (arp_ps st) p;
       let ethhdr = pb_payload pb;
       let m = mem_write (dmem (arp_ps st)) (ethhdr + eth_dest) dst;
       let m = mem_write m (ethhdr + eth_src) src;
       let m = mem_write m (ethhdr + eth_type) (le_bytes16 (lwip_htons ETHTYPE_IP));
       (ps, err) \<leftarrow> ae_linkoutput E netif p ((arp_ps st)\<lparr>dmem := m\<rparr>);
       Some (st\<lparr>arp_ps := ps\<rparr>, err)
     }"

definition update_arp_entry ::
  "'h arp_env \<Rightarrow> netif \<Rightarrow> ip_addr \<Rightarrow> eth_addr \<Rightarrow> u8 \<Rightarrow> 'h arp \<Rightarrow> ('h arp \<times> err_t) option" where
  "update_arp_entry E netif ipaddr ethaddr flags st =
     (if ipaddr = IPADDR_ANY \<or> ip4_addr_isbroadcast ipaddr netif \<or> ip_addr_ismulticast ipaddr
      then Some (st, ERR_ARG)
      else do {
        (st, r) \<leftarrow> find_entry (ae_alloc E) (Some ipaddr) flags st;
        case r of
          Inl err \<Rightarrow> Some (st, err)
        | Inr i \<Rightarrow> do {
            let st = upd_entry i (\<lambda>e. e\<lparr>e_state := ETHARP_STATE_STABLE, e_ethaddr := ethaddr, e_ctime := 0\<rparr>) st;
            if e_q (arp_table st ! i) \<noteq> NULL then do {
              let p = e_q (arp_table st ! i);
              let st = upd_entry i (\<lambda>e. e\<lparr>e_q := NULL\<rparr>) st;
              (st, _) \<leftarrow> etharp_send_ip E netif p (netif_hwaddr netif) ethaddr st;
              (ps, _) \<leftarrow> pbuf_free (ae_alloc E) (arp_ps st) p;
              Some (st\<lparr>arp_ps := ps\<rparr>, ERR_OK)
            } else Some (st, ERR_OK)
          }
      })"

definition etharp_find_addr :: "'h alloc \<Rightarrow> ip_addr \<Rightarrow> 'h arp \<Rightarrow> ('h arp \<times> (nat \<times> eth_addr \<times> ip_addr) option) option" where
  "etharp_find_addr A ipaddr st =
     do {
       (st, r) \<leftarrow> find_entry A (Some ipaddr) ETHARP_FLAG_FIND_ONLY st;
       Some (st, case r of
                   Inl _ \<Rightarrow> None
                 | Inr i \<Rightarrow> if e_state (arp_table st ! i) = ETHARP_STATE_STABLE
                           then Some (i, e_ethaddr (arp_table st ! i), e_ipaddr (arp_table st ! i)) else None)
     }"

section \<open>ARP packets\<close>

text \<open>The packet that \<^verbatim>\<open>etharp_raw\<close> writes at \<open>hdr\<close>, field by field in the order of the code.\<close>

definition arp_raw_bytes ::
  "eth_addr \<Rightarrow> eth_addr \<Rightarrow> eth_addr \<Rightarrow> ip_addr \<Rightarrow> eth_addr \<Rightarrow> ip_addr \<Rightarrow> u16 \<Rightarrow> addr \<Rightarrow> bytes \<Rightarrow> bytes" where
  "arp_raw_bytes ethsrc_addr ethdst_addr hwsrc_addr ipsrc_addr hwdst_addr ipdst_addr opcode hdr m =
     (let m = mem_write m (hdr + arp_opcode) (le_bytes16 (lwip_htons opcode));
          m = mem_write m (hdr + arp_shwaddr) hwsrc_addr;
          m = mem_write m (hdr + arp_dhwaddr) hwdst_addr;
          m = mem_write m (hdr + eth_dest) ethdst_addr;
          m = mem_write m (hdr + eth_src) ethsrc_addr;
          m = mem_write m (hdr + arp_sipaddr) (le_bytes32 ipsrc_addr);
          m = mem_write m (hdr + arp_dipaddr) (le_bytes32 ipdst_addr);
          m = mem_write m (hdr + arp_hwtype) (le_bytes16 (lwip_htons HWTYPE_ETHERNET));
          m = mem_write m (hdr + arp_proto) (le_bytes16 (lwip_htons ETHTYPE_IP));
          m = mem_write m (hdr + arp_hwlen) [ETHARP_HWADDR_LEN];
          m = mem_write m (hdr + arp_protolen) [4]
      in mem_write m (hdr + eth_type) (le_bytes16 (lwip_htons ETHTYPE_ARP)))"

definition etharp_raw ::
  "'h arp_env \<Rightarrow> netif \<Rightarrow> eth_addr \<Rightarrow> eth_addr \<Rightarrow> eth_addr \<Rightarrow> ip_addr \<Rightarrow> eth_addr \<Rightarrow> ip_addr \<Rightarrow> u16
    \<Rightarrow> 'h arp \<Rightarrow> ('h arp \<times> err_t) option" where
  "etharp_raw E netif ethsrc_addr ethdst_addr hwsrc_addr ipsrc_addr hwdst_addr ipdst_addr opcode st =
     do {
       (ps, p) \<leftarrow> pbuf_alloc (ae_alloc E) (arp_ps st) PBUF_RAW (of_nat SIZEOF_ETHARP_PACKET) PBUF_RAM;
       if p = NULL then Some (st\<lparr>arp_ps := ps\<rparr>, ERR_MEM)
       else do {
         pb \<leftarrow> pbufs ps p;
         let m = arp_raw_bytes ethsrc_addr ethdst_addr hwsrc_addr ipsrc_addr hwdst_addr ipdst_addr opcode
                   (pb_payload pb) (dmem ps);
         (ps, result) \<leftarrow> ae_linkoutput E netif p (ps\<lparr>dmem := m\<rparr>);
         (ps, _) \<leftarrow> pbuf_free (ae_alloc E) ps p;
         Some (st\<lparr>arp_ps := ps\<rparr>, result)
       }
     }"

definition etharp_request :: "'h arp_env \<Rightarrow> netif \<Rightarrow> ip_addr \<Rightarrow> 'h arp \<Rightarrow> ('h arp \<times> err_t) option" where
  "etharp_request E netif ipaddr st =
     etharp_raw E netif (netif_hwaddr netif) ethbroadcast (netif_hwaddr netif) (netif_ip_addr netif) ethzero
       ipaddr ARP_REQUEST st"

text \<open>The reply to a request for our address, written into the packet that carried it.\<close>

definition arp_reply_bytes :: "netif \<Rightarrow> eth_addr \<Rightarrow> addr \<Rightarrow> bytes \<Rightarrow> bytes" where
  "arp_reply_bytes netif ethaddr hdr m =
     (let m = mem_write m (hdr + arp_opcode) (le_bytes16 (lwip_htons ARP_REPLY));
          m = mem_write m (hdr + arp_dipaddr) (mem_read m (hdr + arp_sipaddr) 4);
          m = mem_write m (hdr + arp_sipaddr) (le_bytes32 (netif_ip_addr netif));
          m = mem_write m (hdr + arp_dhwaddr) (mem_read m (hdr + arp_shwaddr) 6);
          m = mem_write m (hdr + eth_dest) (mem_read m (hdr + arp_shwaddr) 6);
          m = mem_write m (hdr + arp_shwaddr) ethaddr
      in mem_write m (hdr + eth_src) ethaddr)"

definition arp_header_ok :: "bytes \<Rightarrow> addr \<Rightarrow> bool" where
  "arp_header_ok m hdr \<longleftrightarrow>
     load16 m (hdr + arp_hwtype) = lwip_htons HWTYPE_ETHERNET \<and> m (hdr + arp_hwlen) = ETHARP_HWADDR_LEN
     \<and> m (hdr + arp_protolen) = 4 \<and> load16 m (hdr + arp_proto) = lwip_htons ETHTYPE_IP"

definition etharp_arp_input :: "'h arp_env \<Rightarrow> netif \<Rightarrow> eth_addr \<Rightarrow> addr \<Rightarrow> 'h arp \<Rightarrow> 'h arp option" where
  "etharp_arp_input E netif ethaddr p st =
     do {
       pb \<leftarrow> pbufs (arp_ps st) p;
       let free = (\<lambda>st. do { (ps, _) \<leftarrow> pbuf_free (ae_alloc E) (arp_ps st) p; Some (st\<lparr>arp_ps := ps\<rparr>) });
       let hdr = pb_payload pb;
       let m = dmem (arp_ps st);
       if unat (pb_len pb) < SIZEOF_ETHARP_PACKET then free st
       else if \<not> arp_header_ok m hdr then free st
       else do {
         let sipaddr = load32 m (hdr + arp_sipaddr);
         let dipaddr = load32 m (hdr + arp_dipaddr);
         let for_us = (netif_ip_addr netif \<noteq> IPADDR_ANY \<and> dipaddr = netif_ip_addr netif);
         (st, _) \<leftarrow> update_arp_entry E netif sipaddr (mem_read m (hdr + arp_shwaddr) 6)
                     (if for_us then ETHARP_FLAG_TRY_HARD else ETHARP_FLAG_FIND_ONLY) st;
         let m = dmem (arp_ps st);
         if load16 m (hdr + arp_opcode) = lwip_htons ARP_REQUEST \<and> for_us
         then do {
           (ps, _) \<leftarrow> ae_linkoutput E netif p ((arp_ps st)\<lparr>dmem := arp_reply_bytes netif ethaddr hdr m\<rparr>);
           free (st\<lparr>arp_ps := ps\<rparr>)
         }
         else free st
       }
     }"

section \<open>Output\<close>

text \<open>The loop that looks for a pbuf that is not \<open>PBUF_ROM\<close>.\<close>

partial_function (option) query_scan :: "store \<Rightarrow> addr \<Rightarrow> addr option" where
  "query_scan s p =
     (if p \<noteq> NULL then do { pb \<leftarrow> s p; if pb_type pb \<noteq> PBUF_ROM then Some p else query_scan s (pb_next pb) }
      else Some NULL)"

definition query_take :: "'h alloc \<Rightarrow> addr \<Rightarrow> 'h pstate \<Rightarrow> ('h pstate \<times> addr) option" where
  "query_take A q s =
     do {
       p \<leftarrow> query_scan (pbufs s) q;
       if p \<noteq> NULL then do {
         pb \<leftarrow> pbufs s p;
         (s, p) \<leftarrow> pbuf_alloc A s PBUF_RAW (pb_tot_len pb) PBUF_RAM;
         if p \<noteq> NULL then do {
           (s, err) \<leftarrow> pbuf_copy s p q;
           if err \<noteq> ERR_OK then do { (s, _) \<leftarrow> pbuf_free A s p; Some (s, NULL) } else Some (s, p)
         } else Some (s, p)
       } else do { s \<leftarrow> pbuf_ref s q; Some (s, q) }
     }"

definition etharp_query :: "'h arp_env \<Rightarrow> netif \<Rightarrow> ip_addr \<Rightarrow> addr \<Rightarrow> 'h arp \<Rightarrow> ('h arp \<times> err_t) option" where
  "etharp_query E netif ipaddr q st =
     (if ip4_addr_isbroadcast ipaddr netif \<or> ip_addr_ismulticast ipaddr \<or> ipaddr = IPADDR_ANY
      then Some (st, ERR_ARG)
      else do {
        (st, r) \<leftarrow> find_entry (ae_alloc E) (Some ipaddr) ETHARP_FLAG_TRY_HARD st;
        case r of
          Inl err \<Rightarrow> Some (st, err)
        | Inr i \<Rightarrow> do {
            let st = (if e_state (arp_table st ! i) = ETHARP_STATE_EMPTY
                      then upd_entry i (\<lambda>e. e\<lparr>e_state := ETHARP_STATE_PENDING\<rparr>) st else st);
            (st, result) \<leftarrow> (if e_state (arp_table st ! i) = ETHARP_STATE_PENDING \<or> q = NULL
                             then etharp_request E netif ipaddr st else Some (st, ERR_MEM));
            if q = NULL then Some (st, result)
            else if e_state (arp_table st ! i) = ETHARP_STATE_STABLE then
              etharp_send_ip E netif q (netif_hwaddr netif) (e_ethaddr (arp_table st ! i))
                (st\<lparr>etharp_cached_entry := i\<rparr>)
            else if e_state (arp_table st ! i) = ETHARP_STATE_PENDING then do {
              (ps, p) \<leftarrow> query_take (ae_alloc E) q (arp_ps st);
              let st = st\<lparr>arp_ps := ps\<rparr>;
              if p \<noteq> NULL then do {
                st \<leftarrow> (if e_q (arp_table st ! i) \<noteq> NULL then
                         do { (ps, _) \<leftarrow> pbuf_free (ae_alloc E) (arp_ps st) (e_q (arp_table st ! i));
                              Some (st\<lparr>arp_ps := ps\<rparr>) }
                       else Some st);
                Some (upd_entry i (\<lambda>e. e\<lparr>e_q := p\<rparr>) st, ERR_OK)
              } else Some (st, ERR_MEM)
            } else Some (st, result)
          }
      })"

definition eth_multicast :: "ip_addr \<Rightarrow> eth_addr" where
  "eth_multicast ipaddr =
     (let b = le_bytes32 ipaddr in [0x01, 0x00, 0x5e, b ! 1 AND 0x7f, b ! 2, b ! 3])"

definition etharp_output :: "'h arp_env \<Rightarrow> netif \<Rightarrow> addr \<Rightarrow> ip_addr \<Rightarrow> 'h arp \<Rightarrow> ('h arp \<times> err_t) option" where
  "etharp_output E netif q ipaddr st =
     do {
       (ps, fail) \<leftarrow> pbuf_header (arp_ps st) q (of_nat SIZEOF_ETH_HDR);
       let st = st\<lparr>arp_ps := ps\<rparr>;
       if fail \<noteq> 0 then Some (st, ERR_BUF)
       else if ip4_addr_isbroadcast ipaddr netif then
         etharp_send_ip E netif q (netif_hwaddr netif) ethbroadcast st
       else if ip_addr_ismulticast ipaddr then
         etharp_send_ip E netif q (netif_hwaddr netif) (eth_multicast ipaddr) st
       else do {
         let outside = (\<not> ip_addr_netcmp ipaddr (netif_ip_addr netif) (netif_netmask netif)
                        \<and> \<not> ip_addr_islinklocal ipaddr);
         if outside \<and> netif_gw netif = IPADDR_ANY then Some (st, ERR_RTE)
         else do {
           let ipaddr = (if outside then netif_gw netif else ipaddr);
           let e = arp_table st ! etharp_cached_entry st;
           if e_state e = ETHARP_STATE_STABLE \<and> ipaddr = e_ipaddr e
           then etharp_send_ip E netif q (netif_hwaddr netif) (e_ethaddr e) st
           else etharp_query E netif ipaddr q st
         }
       }
     }"

section \<open>Input\<close>

definition ethernet_input :: "'h arp_env \<Rightarrow> addr \<Rightarrow> netif \<Rightarrow> 'h arp \<Rightarrow> ('h arp \<times> err_t) option" where
  "ethernet_input E p netif st =
     do {
       pb \<leftarrow> pbufs (arp_ps st) p;
       let free_and_return =
         (\<lambda>st. do { (ps, _) \<leftarrow> pbuf_free (ae_alloc E) (arp_ps st) p; Some (st\<lparr>arp_ps := ps\<rparr>, ERR_OK) });
       if unat (pb_len pb) \<le> SIZEOF_ETH_HDR then free_and_return st
       else do {
         let type = load16 (dmem (arp_ps st)) (pb_payload pb + eth_type);
         if type = lwip_htons ETHTYPE_IP then
           if netif_flags netif AND NETIF_FLAG_ETHARP = 0 then free_and_return st
           else do {
             (ps, fail) \<leftarrow> pbuf_header (arp_ps st) p (- of_nat SIZEOF_ETH_HDR);
             if fail \<noteq> 0 then free_and_return (st\<lparr>arp_ps := ps\<rparr>)
             else do { st \<leftarrow> ae_ip_input E p netif (st\<lparr>arp_ps := ps\<rparr>); Some (st, ERR_OK) }
           }
         else if type = lwip_htons ETHTYPE_ARP then
           if netif_flags netif AND NETIF_FLAG_ETHARP = 0 then free_and_return st
           else do { st \<leftarrow> etharp_arp_input E netif (netif_hwaddr netif) p st; Some (st, ERR_OK) }
         else free_and_return st
       }
     }"

declare query_scan.simps [code]

end
