(* ===== verification/Etharp_Table.thy ===== *)
theory Etharp_Table
  imports Etharp
begin

text \<open>
  The ARP table: its invariant and the lemmas that every operation keeps it, ageing as a pure
  function on entries, what \<^verbatim>\<open>find_entry\<close> finds, creates and recycles, and the table as a map from
  IP addresses to Ethernet addresses.
\<close>

section \<open>The invariant\<close>

abbreviation live :: "etharp_entry \<Rightarrow> bool" where
  "live e \<equiv> e_state e \<noteq> ETHARP_STATE_EMPTY"

text \<open>
  Packets wait on pending entries only, no two live entries have the same address, and no entry
  is older than the timer allows.
\<close>

definition entry_ok :: "etharp_entry \<Rightarrow> bool" where
  "entry_ok e \<longleftrightarrow> (e_q e \<noteq> NULL \<longrightarrow> e_state e = ETHARP_STATE_PENDING)
     \<and> (e_state e = ETHARP_STATE_PENDING \<longrightarrow> e_ctime e < ARP_MAXPENDING)
     \<and> (e_state e = ETHARP_STATE_STABLE \<longrightarrow> e_ctime e < ARP_MAXAGE)"

definition ips_distinct :: "etharp_entry list \<Rightarrow> bool" where
  "ips_distinct T \<longleftrightarrow> (\<forall>i<length T. \<forall>j<length T. i \<noteq> j \<longrightarrow> live (T ! i) \<longrightarrow> live (T ! j) \<longrightarrow> e_ipaddr (T ! i) \<noteq> e_ipaddr (T ! j))"

definition table_ok :: "etharp_entry list \<Rightarrow> bool" where
  "table_ok T \<longleftrightarrow> length T = ARP_TABLE_SIZE \<and> (\<forall>e\<in>set T. entry_ok e) \<and> ips_distinct T"

text \<open>The queued packets are chains of live pbufs, and no two entries share a pbuf.\<close>

definition queues :: "store \<Rightarrow> etharp_entry list \<Rightarrow> (nat \<Rightarrow> addr list) \<Rightarrow> bool" where
  "queues s T Q \<longleftrightarrow> (\<forall>i<length T. pchain s (e_q (T ! i)) (Q i))
     \<and> (\<forall>i<length T. \<forall>j<length T. i \<noteq> j \<longrightarrow> set (Q i) \<inter> set (Q j) = {})"

definition arp_inv :: "'h arp \<Rightarrow> bool" where
  "arp_inv st \<longleftrightarrow> table_ok (arp_table st) \<and> (\<exists>Q. queues (pbufs (arp_ps st)) (arp_table st) Q)
     \<and> etharp_cached_entry st < ARP_TABLE_SIZE"

lemma upd_entry_sel [simp]:
  "arp_table (upd_entry i f st) = (arp_table st)[i := f (arp_table st ! i)]"
  "etharp_cached_entry (upd_entry i f st) = etharp_cached_entry st" "arp_ps (upd_entry i f st) = arp_ps st"
  by (simp_all add: upd_entry_def)

lemma pbuf_free_keeps:
  assumes "pchain (pbufs s) p as"
  obtains s' n where "pbuf_free A s p = Some (s', n)" "\<And>a. a \<notin> set as \<Longrightarrow> pbufs s' a = pbufs s a" "dmem s' = dmem s"
proof -
  from pbuf_free_chain [OF assms, of A] obtain s' where
    s': "pbuf_free A s p = Some (s', of_nat (length (freed_prefix (pbufs s) as)))" "free_result A s as s'"
    by blast
  let ?f = "freed_prefix (pbufs s) as"
  have "pbufs s' a = pbufs s a" if "a \<notin> set as" for a
  proof -
    have "a \<notin> set ?f" "\<not> (length ?f < length as \<and> a = as ! length ?f)"
      using that freed_prefix_subset [of "pbufs s" as] by auto
    then show ?thesis
      using s'(2) unfolding free_result_def Let_def by presburger
  qed
  then show ?thesis
    using s' that by (auto simp: free_result_def Let_def)
qed

lemma queues_cong:
  assumes "queues s T Q" "length T' = length T"
    and "\<And>i a. i < length T \<Longrightarrow> e_q (T' ! i) \<noteq> NULL \<Longrightarrow> e_q (T' ! i) = e_q (T ! i) \<and> (a \<in> set (Q i) \<longrightarrow> s' a = s a)"
  shows "queues s' T' (\<lambda>i. if e_q (T' ! i) = NULL then [] else Q i)"
  unfolding queues_def
proof (intro conjI allI impI)
  fix i
  assume "i < length T'"
  then show "pchain s' (e_q (T' ! i)) (if e_q (T' ! i) = NULL then [] else Q i)"
    using assms by (auto simp: queues_def pchain_cong [of "Q i" s' s])
qed (use assms(1,2) in \<open>auto simp: queues_def\<close>)

definition emptied :: "etharp_entry \<Rightarrow> etharp_entry" where
  "emptied e = e\<lparr>e_q := NULL, e_state := ETHARP_STATE_EMPTY\<rparr>"

lemma free_entry_ok:
  assumes q: "queues (pbufs (arp_ps st)) (arp_table st) Q" and i: "i < length (arp_table st)"
  obtains st' where "free_entry A i st = Some st'"
    "arp_table st' = (arp_table st)[i := emptied (arp_table st ! i)]" "etharp_cached_entry st' = etharp_cached_entry st"
    "queues (pbufs (arp_ps st')) (arp_table st') (Q(i := []))" "dmem (arp_ps st') = dmem (arp_ps st)"
    "\<And>a. a \<notin> set (Q i) \<Longrightarrow> pbufs (arp_ps st') a = pbufs (arp_ps st) a"
proof (cases "e_q (arp_table st ! i) = NULL")
  case True
  define st' where "st' = upd_entry i (\<lambda>e. e\<lparr>e_state := ETHARP_STATE_EMPTY\<rparr>) st"
  have "emptied (arp_table st ! i) = (arp_table st ! i)\<lparr>e_state := ETHARP_STATE_EMPTY\<rparr>"
    using True by (simp add: emptied_def)
  moreover have "Q i = []"
    using q i True by (metis pchain_NULL queues_def)
  then have "queues (pbufs (arp_ps st)) ((arp_table st)[i := emptied (arp_table st ! i)]) (Q(i := []))"
    using q True i unfolding queues_def by (auto simp: nth_list_update emptied_def)
  ultimately show ?thesis
    using True by (intro that [of st']) (simp_all add: free_entry_def st'_def)
next
  case False
  have ch: "pchain (pbufs (arp_ps st)) (e_q (arp_table st ! i)) (Q i)"
    using q i by (simp add: queues_def)
  obtain s' n where s': "pbuf_free A (arp_ps st) (e_q (arp_table st ! i)) = Some (s', n)"
    "\<And>a. a \<notin> set (Q i) \<Longrightarrow> pbufs s' a = pbufs (arp_ps st) a" "dmem s' = dmem (arp_ps st)"
    using pbuf_free_keeps [OF ch] by blast
  define st' where "st' = upd_entry i (\<lambda>e. e\<lparr>e_state := ETHARP_STATE_EMPTY\<rparr>)
    (upd_entry i (\<lambda>e. e\<lparr>e_q := NULL\<rparr>) (st\<lparr>arp_ps := s'\<rparr>))"
  have t: "arp_table st' = (arp_table st)[i := emptied (arp_table st ! i)]"
    using i by (simp add: st'_def emptied_def)
  have "pchain (pbufs s') (e_q (arp_table st ! j)) (Q j)" if "j < length (arp_table st)" "j \<noteq> i" for j
  proof -
    have "set (Q j) \<inter> set (Q i) = {}"
      using q i that by (simp add: queues_def)
    then have "pchain (pbufs s') (e_q (arp_table st ! j)) (Q j) = pchain (pbufs (arp_ps st)) (e_q (arp_table st ! j)) (Q j)"
      using s'(2) by (intro pchain_cong arg_cong [of _ _ "map_option pb_next"]) auto
    then show ?thesis
      using q that by (simp add: queues_def)
  qed
  then have "queues (pbufs s') (arp_table st') (Q(i := []))"
    using q i unfolding queues_def t by (auto simp: nth_list_update emptied_def)
  then show ?thesis
    using s' t False by (intro that [of st']) (simp_all add: free_entry_def st'_def)
qed

section \<open>Ageing\<close>

definition tick :: "etharp_entry \<Rightarrow> etharp_entry" where
  "tick e = (if live e then
      let e = e\<lparr>e_ctime := e_ctime e + 1\<rparr>
      in if e_ctime e \<ge> ARP_MAXAGE \<or> e_state e = ETHARP_STATE_PENDING \<and> e_ctime e \<ge> ARP_MAXPENDING
         then emptied e else e
    else e)"

lemma etharp_tmr_entry_ok:
  assumes q: "queues (pbufs (arp_ps st)) (arp_table st) Q" and i: "i < length (arp_table st)"
  shows "\<exists>st' Q'. etharp_tmr_entry A i st = Some st' \<and> arp_table st' = (arp_table st)[i := tick (arp_table st ! i)]
    \<and> etharp_cached_entry st' = etharp_cached_entry st \<and> queues (pbufs (arp_ps st')) (arp_table st') Q'"
proof -
  define st1 where "st1 = upd_entry i (\<lambda>e. e\<lparr>e_ctime := e_ctime e + 1\<rparr>) st"
  have q1: "queues (pbufs (arp_ps st1)) (arp_table st1) Q" and i1: "i < length (arp_table st1)"
    using q i by (auto simp: st1_def queues_def nth_list_update)
  obtain st2 where st2: "free_entry A i st1 = Some st2"
    "arp_table st2 = (arp_table st1)[i := emptied (arp_table st1 ! i)]" "etharp_cached_entry st2 = etharp_cached_entry st1"
    "queues (pbufs (arp_ps st2)) (arp_table st2) (Q(i := []))"
    using free_entry_ok [OF q1 i1] by blast
  show ?thesis
  proof (cases "live (arp_table st ! i)")
    case False
    then show ?thesis
      using q by (auto simp: etharp_tmr_entry_def tick_def)
  next
    case True
    have e: "etharp_tmr_entry A i st =
      (if e_ctime (arp_table st1 ! i) \<ge> ARP_MAXAGE
          \<or> e_state (arp_table st1 ! i) = ETHARP_STATE_PENDING \<and> e_ctime (arp_table st1 ! i) \<ge> ARP_MAXPENDING
       then Some st2 else Some st1)"
      using True st2(1) by (simp add: etharp_tmr_entry_def st1_def [symmetric] Let_def)
    show ?thesis
      using e st2 q1 True i by (auto simp: tick_def Let_def st1_def)
  qed
qed

lemma etharp_tmr_loop_ok:
  assumes "queues (pbufs (arp_ps st)) (arp_table st) Q" "n \<le> length (arp_table st)"
  shows "\<exists>st' Q'. etharp_tmr_loop A [length (arp_table st) - n..<length (arp_table st)] st = Some st'
    \<and> arp_table st' = take (length (arp_table st) - n) (arp_table st) @ map tick (drop (length (arp_table st) - n) (arp_table st))
    \<and> etharp_cached_entry st' = etharp_cached_entry st \<and> queues (pbufs (arp_ps st')) (arp_table st') Q'"
  using assms
proof (induction n arbitrary: st Q)
  case (Suc n)
  let ?l = "length (arp_table st)"
  define i where "i = ?l - Suc n"
  have i: "i < ?l" "?l - n = Suc i"
    using Suc.prems(2) by (auto simp: i_def)
  obtain st1 Q1 where st1: "etharp_tmr_entry A i st = Some st1" "arp_table st1 = (arp_table st)[i := tick (arp_table st ! i)]"
    "etharp_cached_entry st1 = etharp_cached_entry st" "queues (pbufs (arp_ps st1)) (arp_table st1) Q1"
    using etharp_tmr_entry_ok [OF Suc.prems(1) i(1)] by blast
  have l1: "length (arp_table st1) = ?l"
    by (simp add: st1(2))
  obtain st2 Q2 where st2: "etharp_tmr_loop A [Suc i..<?l] st1 = Some st2"
    "arp_table st2 = take (Suc i) (arp_table st1) @ map tick (drop (Suc i) (arp_table st1))"
    "etharp_cached_entry st2 = etharp_cached_entry st1" "queues (pbufs (arp_ps st2)) (arp_table st2) Q2"
    using Suc.IH [OF st1(4)] Suc.prems(2) by (auto simp: l1 i(2))
  have "[i..<?l] = i # [Suc i..<?l]"
    using i(1) by (rule upt_conv_Cons)
  moreover have "take (Suc i) (arp_table st1) @ map tick (drop (Suc i) (arp_table st1))
      = take i (arp_table st) @ map tick (drop i (arp_table st))"
    using i(1) by (simp add: st1(2) take_Suc_conv_app_nth flip: Cons_nth_drop_Suc)
  ultimately show ?case
    using st1 st2 by (auto simp: i_def [symmetric])
qed auto

lemma etharp_tmr_ok:
  assumes "queues (pbufs (arp_ps st)) (arp_table st) Q" "length (arp_table st) = ARP_TABLE_SIZE"
  shows "\<exists>st' Q'. etharp_tmr A st = Some st' \<and> arp_table st' = map tick (arp_table st)
    \<and> etharp_cached_entry st' = etharp_cached_entry st \<and> queues (pbufs (arp_ps st')) (arp_table st') Q'"
  using etharp_tmr_loop_ok [OF assms(1) order_refl, of A] assms(2) by (simp add: etharp_tmr_def)

section \<open>Searching\<close>

text \<open>The oldest of the first \<open>n\<close> entries of a class \<open>P\<close>; \<open>ARP_TABLE_SIZE\<close> when there is none.\<close>

definition oldest :: "(etharp_entry \<Rightarrow> bool) \<Rightarrow> etharp_entry list \<Rightarrow> nat \<Rightarrow> nat \<Rightarrow> u8 \<Rightarrow> bool" where
  "oldest P T n k age \<longleftrightarrow>
     (k = ARP_TABLE_SIZE \<and> age = 0 \<and> (\<forall>j<n. \<not> P (T ! j))
      \<or> k < n \<and> P (T ! k) \<and> age = e_ctime (T ! k) \<and> (\<forall>j<n. P (T ! j) \<longrightarrow> e_ctime (T ! j) \<le> age))"

abbreviation is_stable :: "etharp_entry \<Rightarrow> bool" where
  "is_stable e \<equiv> e_state e = ETHARP_STATE_STABLE"

abbreviation idle_pending :: "etharp_entry \<Rightarrow> bool" where
  "idle_pending e \<equiv> e_state e = ETHARP_STATE_PENDING \<and> e_q e = NULL"

abbreviation busy_pending :: "etharp_entry \<Rightarrow> bool" where
  "busy_pending e \<equiv> e_state e = ETHARP_STATE_PENDING \<and> e_q e \<noteq> NULL"

definition cand_ok :: "etharp_entry list \<Rightarrow> nat \<Rightarrow> arp_cand \<Rightarrow> bool" where
  "cand_ok T n c \<longleftrightarrow>
     (if c_empty c = ARP_TABLE_SIZE then \<forall>j<n. live (T ! j) else c_empty c < n \<and> \<not> live (T ! c_empty c))
     \<and> oldest is_stable T n (c_old_stable c) (c_age_stable c)
     \<and> oldest idle_pending T n (c_old_pending c) (c_age_pending c)
     \<and> oldest busy_pending T n (c_old_queue c) (c_age_queue c)"

lemma oldest_skip: "oldest P T n k age \<Longrightarrow> \<not> P (T ! n) \<Longrightarrow> oldest P T (Suc n) k age"
  by (auto simp: oldest_def less_Suc_eq)

lemma oldest_take:
  assumes "oldest P T n k age" "P (T ! n)"
  shows "oldest P T (Suc n) (if age \<le> e_ctime (T ! n) then n else k) (if age \<le> e_ctime (T ! n) then e_ctime (T ! n) else age)"
  using assms unfolding oldest_def by (auto simp: less_Suc_eq intro: order_trans)

lemma cand_ok_note:
  assumes "cand_ok T n c" "live (T ! n)"
  shows "cand_ok T (Suc n) (note_cand (T ! n) n c)"
proof (cases "e_state (T ! n)")
  case ETHARP_STATE_STABLE
  then show ?thesis
    using assms oldest_take [of is_stable T n "c_old_stable c" "c_age_stable c"]
    by (auto simp: cand_ok_def note_cand_def less_Suc_eq split: if_splits intro: oldest_skip)
next
  case ETHARP_STATE_PENDING
  then show ?thesis
    using assms oldest_take [of idle_pending T n "c_old_pending c" "c_age_pending c"]
      oldest_take [of busy_pending T n "c_old_queue c" "c_age_queue c"]
    by (auto simp: cand_ok_def note_cand_def less_Suc_eq split: if_splits intro: oldest_skip)
qed (use assms in auto)

lemma cand_ok_empty:
  assumes "cand_ok T n c" "\<not> live (T ! n)" "n < ARP_TABLE_SIZE"
  shows "cand_ok T (Suc n) (if c_empty c = ARP_TABLE_SIZE then c\<lparr>c_empty := n\<rparr> else c)"
  using assms by (auto simp: cand_ok_def less_Suc_eq intro: oldest_skip)

text \<open>The search either finds the entry or collects the candidates of the whole table.\<close>

lemma find_scan_spec:
  assumes "length T = ARP_TABLE_SIZE" "n \<le> length T" "cand_ok T n c"
    and "\<forall>j<n. live (T ! j) \<longrightarrow> ip \<noteq> Some (e_ipaddr (T ! j))"
  shows "case find_scan ip (drop n T) n c of
      Inl i \<Rightarrow> i < length T \<and> live (T ! i) \<and> ip = Some (e_ipaddr (T ! i))
    | Inr c' \<Rightarrow> cand_ok T (length T) c' \<and> (\<forall>j<length T. live (T ! j) \<longrightarrow> ip \<noteq> Some (e_ipaddr (T ! j)))"
  using assms
proof (induction "length T - n" arbitrary: n c)
  case (Suc k)
  then have n: "n < length T" and dr: "drop n T = T ! n # drop (Suc n) T"
    by (auto simp: Cons_nth_drop_Suc)
  have k: "k = length T - Suc n" "Suc n \<le> length T"
    using Suc.hyps n by auto
  note IH = Suc.hyps(1) [OF k(1) assms(1) k(2)]
  show ?case
  proof (cases "live (T ! n)")
    case True
    show ?thesis
    proof (cases "ip = Some (e_ipaddr (T ! n))")
      case False
      then show ?thesis
        using IH [OF cand_ok_note [OF Suc.prems(3) True]] Suc.prems(4) True by (simp add: dr less_Suc_eq)
    qed (use True n in \<open>simp add: dr\<close>)
  next
    case False
    then show ?thesis
      using IH [OF cand_ok_empty [OF Suc.prems(3) False]] Suc.prems(4) n assms(1)
      by (simp add: dr less_Suc_eq split: if_splits)
  qed
qed auto

lemma find_scan_table:
  assumes "length T = ARP_TABLE_SIZE"
  shows "case find_scan ip T 0 no_cand of
      Inl i \<Rightarrow> i < length T \<and> live (T ! i) \<and> ip = Some (e_ipaddr (T ! i))
    | Inr c \<Rightarrow> cand_ok T (length T) c \<and> (\<forall>j<length T. live (T ! j) \<longrightarrow> ip \<noteq> Some (e_ipaddr (T ! j)))"
proof -
  have "cand_ok T 0 no_cand"
    by (simp add: cand_ok_def no_cand_def oldest_def)
  with find_scan_spec [OF assms, of 0 no_cand ip] show ?thesis
    by simp
qed

text \<open>
  What \<^verbatim>\<open>find_entry\<close> may recycle: an entry is \<open>recyclable\<close> when no entry is empty and it is the
  oldest of the first non-empty class in the order stable, pending without packet, pending.
\<close>

definition recyclable :: "etharp_entry list \<Rightarrow> nat \<Rightarrow> bool" where
  "recyclable T i \<longleftrightarrow> i < length T \<and> (\<forall>e\<in>set T. live e) \<and>
     (let cls = (if \<exists>e\<in>set T. is_stable e then is_stable
                 else if \<exists>e\<in>set T. idle_pending e then idle_pending else busy_pending)
      in cls (T ! i) \<and> (\<forall>e\<in>set T. cls e \<longrightarrow> e_ctime e \<le> e_ctime (T ! i)))"

lemma in_set_nthE: "x \<in> set xs \<Longrightarrow> (\<And>i. i < length xs \<Longrightarrow> x = xs ! i \<Longrightarrow> thesis) \<Longrightarrow> thesis"
  by (auto simp: in_set_conv_nth)

lemma oldest_all:
  assumes "oldest P T (length T) k age" "length T = ARP_TABLE_SIZE"
  shows "k < ARP_TABLE_SIZE \<longleftrightarrow> (\<exists>e\<in>set T. P e)"
    and "k < ARP_TABLE_SIZE \<Longrightarrow> P (T ! k) \<and> (\<forall>e\<in>set T. P e \<longrightarrow> e_ctime e \<le> e_ctime (T ! k))"
  using assms by (auto simp: oldest_def all_set_conv_all_nth intro: nth_mem dest: bspec [OF _ nth_mem] elim!: in_set_nthE)

lemma choose_entry_recyclable:
  assumes "cand_ok T (length T) c" "length T = ARP_TABLE_SIZE" "c_empty c = ARP_TABLE_SIZE"
  shows "\<exists>i. choose_entry c = Some i \<and> recyclable T i"
proof -
  have lv: "\<forall>e\<in>set T. live e"
    using assms by (auto simp: cand_ok_def in_set_conv_nth)
  note st = oldest_all [of is_stable T "c_old_stable c" "c_age_stable c"]
  note ip = oldest_all [of idle_pending T "c_old_pending c" "c_age_pending c"]
  note bp = oldest_all [of busy_pending T "c_old_queue c" "c_age_queue c"]
  have o: "oldest is_stable T (length T) (c_old_stable c) (c_age_stable c)"
    "oldest idle_pending T (length T) (c_old_pending c) (c_age_pending c)"
    "oldest busy_pending T (length T) (c_old_queue c) (c_age_queue c)"
    using assms(1) by (auto simp: cand_ok_def)
  have "T ! 0 \<in> set T"
    using assms(2) by (simp add: ARP_TABLE_SIZE_def)
  then have "(\<exists>e\<in>set T. is_stable e) \<or> (\<exists>e\<in>set T. idle_pending e) \<or> (\<exists>e\<in>set T. busy_pending e)"
    using lv by (metis etharp_state.exhaust)
  then consider (s) "\<exists>e\<in>set T. is_stable e" | (i) "\<not> (\<exists>e\<in>set T. is_stable e)" "\<exists>e\<in>set T. idle_pending e"
    | (b) "\<not> (\<exists>e\<in>set T. is_stable e)" "\<not> (\<exists>e\<in>set T. idle_pending e)" "\<exists>e\<in>set T. busy_pending e"
    by blast
  then show ?thesis
  proof cases
    case s
    then show ?thesis
      using st [OF o(1) assms(2)] lv assms(2) by (simp add: choose_entry_def recyclable_def Let_def)
  next
    case i
    then show ?thesis
      using st(1) [OF o(1) assms(2)] ip [OF o(2) assms(2)] lv assms(2)
      by (simp add: choose_entry_def recyclable_def Let_def)
  next
    case b
    then have "\<not> c_old_stable c < ARP_TABLE_SIZE" "\<not> c_old_pending c < ARP_TABLE_SIZE" "c_old_queue c < ARP_TABLE_SIZE"
      using st(1) [OF o(1) assms(2)] ip(1) [OF o(2) assms(2)] bp(1) [OF o(3) assms(2)] by blast+
    moreover have "recyclable T (c_old_queue c)"
      unfolding recyclable_def Let_def if_not_P [OF b(1)] if_not_P [OF b(2)]
      using bp(2) [OF o(3) assms(2)] calculation lv assms(2) by simp
    ultimately show ?thesis
      by (simp add: choose_entry_def)
  qed
qed

definition fresh_entry :: "ip_addr \<Rightarrow> etharp_entry \<Rightarrow> etharp_entry" where
  "fresh_entry ip e = (emptied e)\<lparr>e_ipaddr := ip, e_ctime := 0\<rparr>"

lemma fresh_entry_sel [simp]:
  "e_q (fresh_entry ip e) = NULL" "e_ipaddr (fresh_entry ip e) = ip" "e_ctime (fresh_entry ip e) = 0"
  "e_state (fresh_entry ip e) = ETHARP_STATE_EMPTY"
  by (simp_all add: fresh_entry_def emptied_def)

definition has_ip :: "etharp_entry list \<Rightarrow> ip_addr \<Rightarrow> bool" where
  "has_ip T ip \<longleftrightarrow> (\<exists>e\<in>set T. live e \<and> e_ipaddr e = ip)"

lemma find_entry_cases:
  assumes T: "table_ok (arp_table st)" and q: "queues (pbufs (arp_ps st)) (arp_table st) Q"
  obtains (found) i where "find_entry A (Some ip) flags st = Some (st, Inr i)" "i < length (arp_table st)"
      "live (arp_table st ! i)" "e_ipaddr (arp_table st ! i) = ip" "has_ip (arp_table st) ip"
  | (refused) "find_entry A (Some ip) flags st = Some (st, Inl ERR_MEM)" "\<not> has_ip (arp_table st) ip"
      "flags AND ETHARP_FLAG_FIND_ONLY \<noteq> 0 \<or> flags AND ETHARP_FLAG_TRY_HARD = 0"
  | (created) i st' where "find_entry A (Some ip) flags st = Some (st', Inr i)" "\<not> has_ip (arp_table st) ip"
      "flags AND ETHARP_FLAG_FIND_ONLY = 0"
      "i < length (arp_table st)" "\<not> live (arp_table st ! i) \<or> recyclable (arp_table st) i"
      "arp_table st' = (arp_table st)[i := fresh_entry ip (arp_table st ! i)]"
      "etharp_cached_entry st' = etharp_cached_entry st"
      "queues (pbufs (arp_ps st')) (arp_table st') (Q(i := []))" "dmem (arp_ps st') = dmem (arp_ps st)"
      "\<And>a. a \<notin> set (Q i) \<Longrightarrow> pbufs (arp_ps st') a = pbufs (arp_ps st) a"
proof -
  let ?T = "arp_table st"
  have len: "length ?T = ARP_TABLE_SIZE"
    using T by (simp add: table_ok_def)
  define up where "up = (\<lambda>e :: etharp_entry. (e\<lparr>e_ipaddr := ip\<rparr>)\<lparr>e_ctime := 0 :: u8\<rparr>)"
  show thesis
  proof (cases "find_scan (Some ip) ?T 0 no_cand")
    case (Inl i)
    then have i: "i < length ?T" "live (?T ! i)" "e_ipaddr (?T ! i) = ip"
      using find_scan_table [OF len, of "Some ip"] by auto
    show thesis
    proof (rule found)
      show "find_entry A (Some ip) flags st = Some (st, Inr i)"
        using Inl by (simp add: find_entry_def)
      show "has_ip ?T ip"
        using i by (auto simp: has_ip_def)
    qed (use i in auto)
  next
    case (Inr c)
    then have c: "cand_ok ?T (length ?T) c" and no: "\<not> has_ip ?T ip"
      using find_scan_table [OF len, of "Some ip"] by (auto simp: has_ip_def in_set_conv_nth)
    show thesis
    proof (cases "flags AND ETHARP_FLAG_FIND_ONLY \<noteq> 0 \<or> c_empty c = ARP_TABLE_SIZE \<and> flags AND ETHARP_FLAG_TRY_HARD = 0")
      case True
      then show thesis
        using Inr no by (intro refused) (auto simp: find_entry_def)
    next
      case mk: False
      show thesis
      proof (cases "c_empty c = ARP_TABLE_SIZE")
        case False
        define i where "i = c_empty c"
        have i: "i < length ?T" "\<not> live (?T ! i)"
          using c False by (auto simp: cand_ok_def i_def)
        then have qi: "e_q (?T ! i) = NULL"
          using T nth_mem [OF i(1)] by (auto simp: table_ok_def entry_ok_def)
        then have Qi: "Q i = []"
          using q i(1) by (metis pchain_NULL queues_def)
        have e: "up (?T ! i) = fresh_entry ip (?T ! i)"
          using i(2) qi by (simp add: up_def fresh_entry_def emptied_def)
        have f: "find_entry A (Some ip) flags st = Some (upd_entry i up st, Inr i)"
          using Inr mk i(1) len False by (simp add: find_entry_def Let_def i_def up_def)
        have qq: "queues (pbufs (arp_ps st)) (?T[i := fresh_entry ip (?T ! i)]) (Q(i := []))"
          using q i qi Qi by (auto simp: queues_def nth_list_update)
        show thesis
          using f e qq no i mk by (intro created [of "upd_entry i up st" i]) auto
      next
        case True
        from choose_entry_recyclable [OF c len True] obtain i where i: "choose_entry c = Some i" "recyclable ?T i"
          by blast
        then have il: "i < length ?T"
          by (simp add: recyclable_def)
        obtain st' where st': "free_entry A i st = Some st'"
          "arp_table st' = ?T[i := emptied (?T ! i)]" "etharp_cached_entry st' = etharp_cached_entry st"
          "queues (pbufs (arp_ps st')) (arp_table st') (Q(i := []))" "dmem (arp_ps st') = dmem (arp_ps st)"
          "\<And>a. a \<notin> set (Q i) \<Longrightarrow> pbufs (arp_ps st') a = pbufs (arp_ps st) a"
          using free_entry_ok [OF q il] by blast
        have f: "find_entry A (Some ip) flags st = Some (upd_entry i up st', Inr i)"
          using Inr mk i(1) st'(1) True by (simp add: find_entry_def Let_def up_def)
        have t: "arp_table (upd_entry i up st') = ?T[i := fresh_entry ip (?T ! i)]"
          using il st'(2) by (simp add: up_def fresh_entry_def)
        have qq: "queues (pbufs (arp_ps st')) (arp_table (upd_entry i up st')) (Q(i := []))"
          using st'(4) il unfolding t st'(2) by (auto simp: queues_def nth_list_update emptied_def)
        show thesis
          using f t qq no i mk st' il by (intro created [of "upd_entry i up st'" i]) auto
      qed
    qed
  qed
qed

section \<open>The table as a map\<close>

definition arp_map :: "etharp_entry list \<Rightarrow> ip_addr \<rightharpoonup> eth_addr" where
  "arp_map T ip = map_option e_ethaddr (find (\<lambda>e. is_stable e \<and> e_ipaddr e = ip) T)"

definition stable_entry :: "ip_addr \<Rightarrow> eth_addr \<Rightarrow> etharp_entry" where
  "stable_entry ip mac = \<lparr>e_q = NULL, e_ipaddr = ip, e_ethaddr = mac, e_state = ETHARP_STATE_STABLE, e_ctime = 0\<rparr>"

lemma arp_map_Some:
  assumes "ips_distinct T"
  shows "arp_map T ip = Some mac \<longleftrightarrow> (\<exists>i<length T. is_stable (T ! i) \<and> e_ipaddr (T ! i) = ip \<and> e_ethaddr (T ! i) = mac)"
proof
  assume "arp_map T ip = Some mac"
  then show "\<exists>i<length T. is_stable (T ! i) \<and> e_ipaddr (T ! i) = ip \<and> e_ethaddr (T ! i) = mac"
    by (auto simp: arp_map_def find_Some_iff)
next
  assume "\<exists>i<length T. is_stable (T ! i) \<and> e_ipaddr (T ! i) = ip \<and> e_ethaddr (T ! i) = mac"
  then obtain i where i: "i < length T" "is_stable (T ! i)" "e_ipaddr (T ! i) = ip" "e_ethaddr (T ! i) = mac"
    by blast
  have "find (\<lambda>e. is_stable e \<and> e_ipaddr e = ip) T = Some (T ! i)"
    unfolding find_Some_iff
  proof (intro exI [of _ i] conjI allI impI)
    show "\<not> (is_stable (T ! j) \<and> e_ipaddr (T ! j) = ip)" if "j < i" for j
    proof
      assume "is_stable (T ! j) \<and> e_ipaddr (T ! j) = ip"
      moreover have "e_ipaddr (T ! j) \<noteq> e_ipaddr (T ! i)" if "is_stable (T ! j)"
        using assms i that \<open>j < i\<close> by (auto simp: ips_distinct_def)
      ultimately show False
        using i(3) by simp
    qed
  qed (use i in auto)
  then show "arp_map T ip = Some mac"
    using i(4) by (simp add: arp_map_def)
qed

lemma arp_map_update:
  assumes T: "ips_distinct T" "ips_distinct (T[i := stable_entry ip mac])" and i: "i < length T"
  shows "arp_map (T[i := stable_entry ip mac])
    = (if live (T ! i) then (arp_map T)(e_ipaddr (T ! i) := None) else arp_map T)(ip \<mapsto> mac)"
proof
  fix x
  have *: "arp_map (T[i := stable_entry ip mac]) x = Some m \<longleftrightarrow>
    ((if live (T ! i) then (arp_map T)(e_ipaddr (T ! i) := None) else arp_map T)(ip \<mapsto> mac)) x = Some m" for m
  proof (cases "x = ip")
    case True
    have "i < length (T[i := stable_entry ip mac])" "is_stable (T[i := stable_entry ip mac] ! i)"
      "e_ipaddr (T[i := stable_entry ip mac] ! i) = ip" "e_ethaddr (T[i := stable_entry ip mac] ! i) = mac"
      using i by (simp_all add: stable_entry_def)
    then have "arp_map (T[i := stable_entry ip mac]) ip = Some mac"
      unfolding arp_map_Some [OF T(2)] by blast
    then show ?thesis
      using True by simp
  next
    case False
    have "arp_map (T[i := stable_entry ip mac]) x = Some m \<longleftrightarrow>
        (\<exists>j<length T. j \<noteq> i \<and> is_stable (T ! j) \<and> e_ipaddr (T ! j) = x \<and> e_ethaddr (T ! j) = m)"
    proof -
      have "(is_stable (T[i := stable_entry ip mac] ! j) \<and> e_ipaddr (T[i := stable_entry ip mac] ! j) = x
          \<and> e_ethaddr (T[i := stable_entry ip mac] ! j) = m)
        \<longleftrightarrow> j \<noteq> i \<and> is_stable (T ! j) \<and> e_ipaddr (T ! j) = x \<and> e_ethaddr (T ! j) = m" if "j < length T" for j
        using that False by (cases "j = i") (simp_all add: stable_entry_def)
      then show ?thesis
        unfolding arp_map_Some [OF T(2)] by auto
    qed
    also have "\<dots> \<longleftrightarrow> arp_map T x = Some m \<and> \<not> (live (T ! i) \<and> x = e_ipaddr (T ! i))"
      unfolding arp_map_Some [OF T(1)] using T(1) i by (auto simp: ips_distinct_def)
    also have "\<dots> \<longleftrightarrow> ((if live (T ! i) then (arp_map T)(e_ipaddr (T ! i) := None) else arp_map T)(ip \<mapsto> mac)) x = Some m"
      using False by auto
    finally show ?thesis .
  qed
  show "arp_map (T[i := stable_entry ip mac]) x
    = ((if live (T ! i) then (arp_map T)(e_ipaddr (T ! i) := None) else arp_map T)(ip \<mapsto> mac)) x"
    by (rule option.expand) (use * in \<open>metis option.collapse option.distinct(1)\<close>, metis * option.collapse option.inject)
qed

lemma table_ok_upd:
  assumes "table_ok T" "entry_ok e" "i < length T"
    and "live e \<Longrightarrow> (\<And>j. j < length T \<Longrightarrow> j \<noteq> i \<Longrightarrow> live (T ! j) \<Longrightarrow> e_ipaddr (T ! j) \<noteq> e_ipaddr e)"
  shows "table_ok (T[i := e])"
proof -
  have "e_ipaddr (T[i := e] ! j) \<noteq> e_ipaddr (T[i := e] ! k)"
    if "j < length T" "k < length T" "j \<noteq> k" "live (T[i := e] ! j)" "live (T[i := e] ! k)" for j k
    using that assms(1,3) assms(4) [of j] assms(4) [of k]
    by (cases "j = i"; cases "k = i") (auto simp: table_ok_def ips_distinct_def)
  then show ?thesis
    using assms(1,2) by (auto simp: table_ok_def ips_distinct_def dest: set_update_subset_insert [THEN subsetD])
qed

lemma entry_ok_stable [simp]: "entry_ok (stable_entry ip mac)"
  by (simp add: entry_ok_def stable_entry_def ARP_MAXAGE_def)

lemma entry_ok_fresh [simp]: "entry_ok (fresh_entry ip e)"
  by (simp add: entry_ok_def)

lemma table_ok_stable:
  assumes "table_ok T" "i < length T" "live (T ! i) \<and> e_ipaddr (T ! i) = ip \<or> \<not> has_ip T ip"
  shows "table_ok (T[i := stable_entry ip mac])"
proof (rule table_ok_upd)
  show "e_ipaddr (T ! j) \<noteq> e_ipaddr (stable_entry ip mac)" if "j < length T" "j \<noteq> i" "live (T ! j)" for j
    using assms that by (auto simp: stable_entry_def table_ok_def ips_distinct_def has_ip_def)
qed (use assms in auto)

lemma tick_ok: "entry_ok e \<Longrightarrow> entry_ok (tick e)"
  by (auto simp: tick_def entry_ok_def emptied_def Let_def not_le)

lemma tick_sel: "e_ipaddr (tick e) = e_ipaddr e" "live (tick e) \<Longrightarrow> live e" "e_ethaddr (tick e) = e_ethaddr e"
  by (auto simp: tick_def emptied_def Let_def split: if_splits)

lemma table_ok_tick: "table_ok T \<Longrightarrow> table_ok (map tick T)"
  by (auto simp: table_ok_def tick_ok ips_distinct_def tick_sel dest!: tick_sel(2))

lemma etharp_tmr_inv:
  assumes "arp_inv st"
  shows "\<exists>st'. etharp_tmr A st = Some st' \<and> arp_table st' = map tick (arp_table st) \<and> arp_inv st'"
proof -
  obtain Q where "queues (pbufs (arp_ps st)) (arp_table st) Q" "length (arp_table st) = ARP_TABLE_SIZE"
    using assms by (auto simp: arp_inv_def table_ok_def)
  from etharp_tmr_ok [OF this, of A] show ?thesis
    using assms table_ok_tick by (fastforce simp: arp_inv_def)
qed

section \<open>Updating\<close>

lemma settled_entry:
  "e_ipaddr e = ip \<Longrightarrow> e_q e = NULL \<Longrightarrow> e\<lparr>e_state := ETHARP_STATE_STABLE, e_ethaddr := mac, e_ctime := 0\<rparr> = stable_entry ip mac"
  "e_ipaddr e = ip \<Longrightarrow> e\<lparr>e_state := ETHARP_STATE_STABLE, e_ethaddr := mac, e_ctime := 0, e_q := NULL\<rparr> = stable_entry ip mac"
  by (cases e; simp add: stable_entry_def)+

text \<open>
  The ARP packet at \<open>p\<close> is accepted or dropped, and freed in either case; an accepted one updates
  the table with its sender.
\<close>

definition arp_accepted :: "'h arp \<Rightarrow> pbuf \<Rightarrow> bool" where
  "arp_accepted st pb \<longleftrightarrow> SIZEOF_ETHARP_PACKET \<le> unat (pb_len pb) \<and> arp_header_ok (dmem (arp_ps st)) (pb_payload pb)"

definition arp_for_us :: "netif \<Rightarrow> 'h arp \<Rightarrow> pbuf \<Rightarrow> bool" where
  "arp_for_us netif st pb \<longleftrightarrow> netif_ip_addr netif \<noteq> IPADDR_ANY
     \<and> load32 (dmem (arp_ps st)) (pb_payload pb + arp_dipaddr) = netif_ip_addr netif"

definition arp_learn :: "'h arp_env \<Rightarrow> netif \<Rightarrow> 'h arp \<Rightarrow> pbuf \<Rightarrow> ('h arp \<times> err_t) option" where
  "arp_learn E netif st pb =
     update_arp_entry E netif (load32 (dmem (arp_ps st)) (pb_payload pb + arp_sipaddr))
       (mem_read (dmem (arp_ps st)) (pb_payload pb + arp_shwaddr) 6)
       (if arp_for_us netif st pb then ETHARP_FLAG_TRY_HARD else ETHARP_FLAG_FIND_ONLY) st"

text \<open>
  What the ARP code relies on of a driver: sending a chain of live pbufs returns and does not change
  them.
\<close>

locale link_driver =
  fixes E :: "'h arp_env"
  assumes linkoutput_law: "pchain (pbufs s) p as \<Longrightarrow> p \<noteq> NULL \<Longrightarrow>
    \<exists>s' err. ae_linkoutput E netif p s = Some (s', err) \<and> pbufs s' = pbufs s"
begin

lemma send_ip_ok:
  assumes ch: "pchain (pbufs (arp_ps st)) p as" "p \<noteq> NULL"
  obtains st' err where "etharp_send_ip E netif p src dst st = Some (st', err)" "arp_table st' = arp_table st"
    "etharp_cached_entry st' = etharp_cached_entry st" "pbufs (arp_ps st') = pbufs (arp_ps st)"
proof -
  obtain pb where pb: "pbufs (arp_ps st) p = Some pb"
    using pchain_nonNULL [OF ch] by blast
  define s1 where "s1 = (arp_ps st)\<lparr>dmem := mem_write (mem_write (mem_write (dmem (arp_ps st)) (pb_payload pb + eth_dest) dst)
    (pb_payload pb + eth_src) src) (pb_payload pb + eth_type) (le_bytes16 (lwip_htons ETHTYPE_IP))\<rparr>"
  have "pchain (pbufs s1) p as"
    using ch(1) by (simp add: s1_def)
  from linkoutput_law [OF this ch(2)] obtain s2 err where s2: "ae_linkoutput E netif p s1 = Some (s2, err)" "pbufs s2 = pbufs s1"
    by blast
  have "etharp_send_ip E netif p src dst st = Some (st\<lparr>arp_ps := s2\<rparr>, err)"
    using pb s2(1) by (simp add: etharp_send_ip_def s1_def)
  moreover have "pbufs s2 = pbufs (arp_ps st)"
    using s2(2) by (simp add: s1_def)
  ultimately show ?thesis
    by (intro that [of "st\<lparr>arp_ps := s2\<rparr>" err]) auto
qed

text \<open>Entry \<open>i\<close> becomes stable; a packet that waited on it is sent and freed.\<close>

lemma update_settle:
  assumes T: "table_ok (arp_table st)" and q: "queues (pbufs (arp_ps st)) (arp_table st) Q"
    and i: "i < length (arp_table st)" "e_ipaddr (arp_table st ! i) = ip"
    and f: "find_entry (ae_alloc E) (Some ip) flags st0 = Some (st, Inr i)"
    and uni: "ip \<noteq> IPADDR_ANY" "\<not> ip4_addr_isbroadcast ip netif" "\<not> ip_addr_ismulticast ip"
  shows "\<exists>st'. update_arp_entry E netif ip mac flags st0 = Some (st', ERR_OK)
    \<and> arp_table st' = (arp_table st)[i := stable_entry ip mac]
    \<and> etharp_cached_entry st' = etharp_cached_entry st \<and> queues (pbufs (arp_ps st')) (arp_table st') (Q(i := []))
    \<and> (\<forall>a. a \<notin> set (Q i) \<longrightarrow> pbufs (arp_ps st') a = pbufs (arp_ps st) a)"
proof (cases "e_q (arp_table st ! i) = NULL")
  case True
  define st1 where "st1 = upd_entry i (\<lambda>e. e\<lparr>e_state := ETHARP_STATE_STABLE, e_ethaddr := mac, e_ctime := 0\<rparr>) st"
  have t: "arp_table st1 = (arp_table st)[i := stable_entry ip mac]"
    using settled_entry(1) [OF i(2) True] by (simp add: st1_def)
  have "update_arp_entry E netif ip mac flags st0 = Some (st1, ERR_OK)"
    using f uni True i(1) by (simp add: update_arp_entry_def st1_def)
  moreover have "queues (pbufs (arp_ps st1)) (arp_table st1) (Q(i := []))"
    using q i True unfolding t by (auto simp: queues_def nth_list_update stable_entry_def st1_def)
  moreover have "etharp_cached_entry st1 = etharp_cached_entry st" "pbufs (arp_ps st1) = pbufs (arp_ps st)"
    by (simp_all add: st1_def)
  ultimately show ?thesis
    using t by auto
next
  case False
  define p where "p = e_q (arp_table st ! i)"
  define st1 where "st1 = upd_entry i (\<lambda>e. e\<lparr>e_state := ETHARP_STATE_STABLE, e_ethaddr := mac, e_ctime := 0\<rparr>) st"
  define st2 where "st2 = upd_entry i (\<lambda>e. e\<lparr>e_q := NULL\<rparr>) st1"
  have t: "arp_table st2 = (arp_table st)[i := stable_entry ip mac]" "e_q (arp_table st1 ! i) = p"
    using i(1) settled_entry(2) [OF i(2), of mac] by (simp_all add: st1_def st2_def p_def)
  have ch: "pchain (pbufs (arp_ps st)) p (Q i)" "p \<noteq> NULL"
    using q i(1) False by (simp_all add: queues_def p_def)
  then have "pchain (pbufs (arp_ps st2)) p (Q i)"
    by (simp add: st1_def st2_def)
  then obtain st3 err where st3: "etharp_send_ip E netif p (netif_hwaddr netif) mac st2 = Some (st3, err)"
    "arp_table st3 = arp_table st2" "etharp_cached_entry st3 = etharp_cached_entry st2" "pbufs (arp_ps st3) = pbufs (arp_ps st2)"
    using send_ip_ok [OF _ ch(2)] by blast
  have s2: "pbufs (arp_ps st2) = pbufs (arp_ps st)" "etharp_cached_entry st2 = etharp_cached_entry st"
    by (simp_all add: st1_def st2_def)
  have "pchain (pbufs (arp_ps st3)) p (Q i)"
    using ch(1) by (simp add: st3(4) s2)
  then obtain s4 n where s4: "pbuf_free (ae_alloc E) (arp_ps st3) p = Some (s4, n)"
    "\<And>a. a \<notin> set (Q i) \<Longrightarrow> pbufs s4 a = pbufs (arp_ps st3) a"
    using pbuf_free_keeps by blast
  have "update_arp_entry E netif ip mac flags st0 = Some (st3\<lparr>arp_ps := s4\<rparr>, ERR_OK)"
    using f uni False i(1) st3(1) s4(1) by (simp add: update_arp_entry_def st1_def st2_def p_def)
  moreover have "queues (pbufs s4) ((arp_table st)[i := stable_entry ip mac]) (Q(i := []))"
    unfolding queues_def
  proof (intro conjI allI impI)
    fix j
    assume j: "j < length ((arp_table st)[i := stable_entry ip mac])"
    show "pchain (pbufs s4) (e_q ((arp_table st)[i := stable_entry ip mac] ! j)) ((Q(i := [])) j)"
    proof (cases "j = i")
      case False
      then have "set (Q j) \<inter> set (Q i) = {}"
        using q i(1) j by (simp add: queues_def)
      then have "pchain (pbufs s4) (e_q (arp_table st ! j)) (Q j) = pchain (pbufs (arp_ps st)) (e_q (arp_table st ! j)) (Q j)"
        using s4(2) st3(4) s2(1) by (intro pchain_cong arg_cong [of _ _ "map_option pb_next"]) auto
      then show ?thesis
        using q j False by (simp add: queues_def)
    qed (use i in \<open>simp add: stable_entry_def\<close>)
  qed (use q in \<open>auto simp: queues_def\<close>)
  moreover have "pbufs s4 a = pbufs (arp_ps st) a" if "a \<notin> set (Q i)" for a
    using s4(2) [OF that] st3(4) s2(1) by simp
  ultimately show ?thesis
    using t(1) st3 s2 by auto
qed

lemma update_arp_entry_cases:
  assumes T: "table_ok (arp_table st)" and q: "queues (pbufs (arp_ps st)) (arp_table st) Q"
    and uni: "ip \<noteq> IPADDR_ANY" "\<not> ip4_addr_isbroadcast ip netif" "\<not> ip_addr_ismulticast ip"
  obtains (refused) "update_arp_entry E netif ip mac flags st = Some (st, ERR_MEM)" "\<not> has_ip (arp_table st) ip"
      "flags AND ETHARP_FLAG_FIND_ONLY \<noteq> 0 \<or> flags AND ETHARP_FLAG_TRY_HARD = 0"
  | (stored) st' i where "update_arp_entry E netif ip mac flags st = Some (st', ERR_OK)" "i < length (arp_table st)"
      "arp_table st' = (arp_table st)[i := stable_entry ip mac]" "table_ok (arp_table st')"
      "etharp_cached_entry st' = etharp_cached_entry st" "queues (pbufs (arp_ps st')) (arp_table st') (Q(i := []))"
      "\<And>a. a \<notin> set (Q i) \<Longrightarrow> pbufs (arp_ps st') a = pbufs (arp_ps st) a"
      "live (arp_table st ! i) \<and> e_ipaddr (arp_table st ! i) = ip
        \<or> \<not> has_ip (arp_table st) ip \<and> flags AND ETHARP_FLAG_FIND_ONLY = 0
          \<and> (\<not> live (arp_table st ! i) \<or> recyclable (arp_table st) i)"
proof (cases rule: find_entry_cases [OF T q, where A = "ae_alloc E" and ip = ip and flags = flags,
      case_names found none created])
  case none
  then show thesis
    using uni by (intro refused) (simp_all add: update_arp_entry_def)
next
  case (found i)
  from update_settle [OF T q found(2,4,1) uni, of mac] table_ok_stable [OF T found(2), of ip mac] found
  show thesis
    by (metis stored)
next
  case (created i st1)
  have T1: "table_ok (arp_table st1)"
    unfolding created(6) by (rule table_ok_upd) (use T created(4) in auto)
  have i1: "i < length (arp_table st1)" "e_ipaddr (arp_table st1 ! i) = ip"
    using created(4) by (simp_all add: created(6))
  from update_settle [OF T1 created(8) i1 created(1) uni, of mac] obtain st' where st':
    "update_arp_entry E netif ip mac flags st = Some (st', ERR_OK)" "arp_table st' = (arp_table st1)[i := stable_entry ip mac]"
    "etharp_cached_entry st' = etharp_cached_entry st1" "queues (pbufs (arp_ps st')) (arp_table st') (Q(i := []))"
    "\<And>a. pbufs (arp_ps st') a = pbufs (arp_ps st1) a"
    by auto
  have t: "arp_table st' = (arp_table st)[i := stable_entry ip mac]"
    by (simp add: st'(2) created(6))
  then have "table_ok (arp_table st')"
    using table_ok_stable [OF T created(4)] created(2) by simp
  with st' created t show thesis
    by (intro stored [of st' i]) auto
qed

lemma update_non_unicast:
  "ip = IPADDR_ANY \<or> ip4_addr_isbroadcast ip netif \<or> ip_addr_ismulticast ip
   \<Longrightarrow> update_arp_entry E netif ip mac flags st = Some (st, ERR_ARG)"
  by (simp add: update_arp_entry_def)

text \<open>In all cases the invariant is kept and packets that do not wait on the table are not touched.\<close>

lemma update_arp_entry_inv:
  assumes "arp_inv st" "queues (pbufs (arp_ps st)) (arp_table st) Q"
  obtains st' err Q' where "update_arp_entry E netif ip mac flags st = Some (st', err)" "arp_inv st'"
    "queues (pbufs (arp_ps st')) (arp_table st') Q'" "\<And>i. set (Q' i) \<subseteq> set (Q i)"
    "\<And>a. (\<And>i. i < length (arp_table st) \<Longrightarrow> a \<notin> set (Q i)) \<Longrightarrow> pbufs (arp_ps st') a = pbufs (arp_ps st) a"
proof (cases "ip = IPADDR_ANY \<or> ip4_addr_isbroadcast ip netif \<or> ip_addr_ismulticast ip")
  case True
  then show thesis
    using assms by (intro that [OF update_non_unicast [OF True], of Q]) auto
next
  case False
  then have uni: "ip \<noteq> IPADDR_ANY" "\<not> ip4_addr_isbroadcast ip netif" "\<not> ip_addr_ismulticast ip"
    by auto
  have T: "table_ok (arp_table st)" and c: "etharp_cached_entry st < ARP_TABLE_SIZE"
    using assms(1) by (auto simp: arp_inv_def)
  show thesis
  proof (cases rule: update_arp_entry_cases [OF T assms(2) uni, where mac = mac and flags = flags, case_names refused stored])
    case refused
    then show thesis
      using assms by (intro that [of st ERR_MEM Q]) auto
  next
    case (stored st' i)
    then show thesis
      using c by (intro that [of st' ERR_OK "Q(i := [])"]) (auto simp: arp_inv_def)
  qed
qed

text \<open>Freeing a packet that does not wait on the table.\<close>

lemma free_packet:
  assumes "arp_inv st" "queues (pbufs (arp_ps st)) (arp_table st) Q" "pchain (pbufs (arp_ps st)) p as"
    and "\<And>i. i < length (arp_table st) \<Longrightarrow> set (Q i) \<inter> set as = {}"
  obtains s' n where "pbuf_free (ae_alloc E) (arp_ps st) p = Some (s', n)" "arp_inv (st\<lparr>arp_ps := s'\<rparr>)"
proof -
  obtain s' n where s': "pbuf_free (ae_alloc E) (arp_ps st) p = Some (s', n)"
    "\<And>a. a \<notin> set as \<Longrightarrow> pbufs s' a = pbufs (arp_ps st) a"
    using pbuf_free_keeps [OF assms(3)] by blast
  have "pchain (pbufs s') (e_q (arp_table st ! i)) (Q i)" if "i < length (arp_table st)" for i
  proof -
    have "pchain (pbufs s') (e_q (arp_table st ! i)) (Q i) = pchain (pbufs (arp_ps st)) (e_q (arp_table st ! i)) (Q i)"
      using s'(2) assms(4) [OF that] by (intro pchain_cong arg_cong [of _ _ "map_option pb_next"]) auto
    then show ?thesis
      using assms(2) that by (simp add: queues_def)
  qed
  then have "queues (pbufs s') (arp_table st) Q"
    using assms(2) by (auto simp: queues_def)
  then show thesis
    using s'(1) assms(1) by (intro that) (auto simp: arp_inv_def)
qed

lemma arp_input_ok:
  assumes inv: "arp_inv st" and q: "queues (pbufs (arp_ps st)) (arp_table st) Q"
    and ch: "pchain (pbufs (arp_ps st)) p as" "p \<noteq> NULL" and pb: "pbufs (arp_ps st) p = Some pb"
    and apart: "\<And>i. i < length (arp_table st) \<Longrightarrow> set (Q i) \<inter> set as = {}"
  shows "\<exists>st'. etharp_arp_input E netif ethaddr p st = Some st' \<and> arp_inv st'
    \<and> (if arp_accepted st pb then \<exists>st1 err. arp_learn E netif st pb = Some (st1, err) \<and> arp_table st' = arp_table st1
       else arp_table st' = arp_table st)"
proof (cases "arp_accepted st pb")
  case False
  obtain s' n where "pbuf_free (ae_alloc E) (arp_ps st) p = Some (s', n)" "arp_inv (st\<lparr>arp_ps := s'\<rparr>)"
    using free_packet [OF inv q ch(1) apart] by blast
  moreover have "\<not> (SIZEOF_ETHARP_PACKET \<le> unat (pb_len pb) \<and> arp_header_ok (dmem (arp_ps st)) (pb_payload pb))"
    using False by (simp add: arp_accepted_def)
  ultimately show ?thesis
    using False pb by (auto simp: etharp_arp_input_def Let_def not_le)
next
  case True
  define hdr where "hdr = pb_payload pb"
  obtain st1 err Q1 where st1: "arp_learn E netif st pb = Some (st1, err)" "arp_inv st1"
    "queues (pbufs (arp_ps st1)) (arp_table st1) Q1" "\<And>i. set (Q1 i) \<subseteq> set (Q i)"
    "\<And>a. (\<And>i. i < length (arp_table st) \<Longrightarrow> a \<notin> set (Q i)) \<Longrightarrow> pbufs (arp_ps st1) a = pbufs (arp_ps st) a"
    unfolding arp_learn_def using update_arp_entry_inv [OF inv q] by blast
  have len: "length (arp_table st1) = length (arp_table st)"
    using inv st1(2) by (simp add: arp_inv_def table_ok_def)
  have ap1: "set (Q1 i) \<inter> set as = {}" if "i < length (arp_table st1)" for i
    using apart [of i] that st1(4) [of i] len by auto
  have "pchain (pbufs (arp_ps st1)) p as = pchain (pbufs (arp_ps st)) p as"
    using st1(5) apart by (intro pchain_cong arg_cong [of _ _ "map_option pb_next"]) blast
  then have ch1: "pchain (pbufs (arp_ps st1)) p as"
    using ch(1) by simp
  let ?m = "dmem (arp_ps st1)"
  define s1 where "s1 = (arp_ps st1)\<lparr>dmem := arp_reply_bytes netif ethaddr hdr ?m\<rparr>"
  have "pchain (pbufs s1) p as"
    using ch1 by (simp add: s1_def)
  from linkoutput_law [OF this ch(2), of netif] obtain s2 e2 where s2: "ae_linkoutput E netif p s1 = Some (s2, e2)" "pbufs s2 = pbufs (arp_ps st1)"
    by (auto simp: s1_def)
  define ps where "ps = (if load16 ?m (hdr + arp_opcode) = lwip_htons ARP_REQUEST \<and> arp_for_us netif st pb then s2 else arp_ps st1)"
  have ps: "pbufs ps = pbufs (arp_ps st1)"
    by (simp add: ps_def s2(2))
  have "arp_inv (st1\<lparr>arp_ps := ps\<rparr>)" "queues (pbufs (arp_ps (st1\<lparr>arp_ps := ps\<rparr>))) (arp_table (st1\<lparr>arp_ps := ps\<rparr>)) Q1"
    "pchain (pbufs (arp_ps (st1\<lparr>arp_ps := ps\<rparr>))) p as"
    using st1(2,3) ch1 ps by (auto simp: arp_inv_def)
  from free_packet [OF this] ap1 obtain s' n where s':
    "pbuf_free (ae_alloc E) ps p = Some (s', n)" "arp_inv (st1\<lparr>arp_ps := s'\<rparr>)"
    by (auto simp: len)
  have "etharp_arp_input E netif ethaddr p st = Some (st1\<lparr>arp_ps := s'\<rparr>)"
    using True pb st1(1) s2(1) s'(1)
    unfolding etharp_arp_input_def arp_learn_def arp_for_us_def arp_accepted_def ps_def
    by (auto simp: Let_def not_less hdr_def [symmetric] s1_def [symmetric] split: if_splits)
  then show ?thesis
    using True st1(1) s'(2) by auto
qed

end

end
