(* ===== verification/K66_Enet.thy ===== *)
theory K66_Enet
  imports Etharp_Table
begin

text \<open>
  The Ethernet driver of the board: \<^verbatim>\<open>lwipk66/lwipk66.c\<close>.  The driver state, the descriptor rings and
  the positions in them, is kept beside the allocator's heap in the heap component of the packet
  buffer state, so the driver runs over the same memory as the stack.  Registers other than the
  rings are not modelled.  The controller is the parameter \<open>dma\<close>: what happens to the rings
  between two reads of a descriptor; \<open>enet_hw\<close> states what the driver relies on of it.
\<close>

section \<open>Data\<close>

record enetbufferdesc =
  d_length :: u16
  d_flags :: u16
  d_buffer :: addr

record 'h k66 =
  k_mem :: 'h
  rx_ring :: "nat \<Rightarrow> enetbufferdesc"
  tx_ring :: "nat \<Rightarrow> enetbufferdesc"
  rxnum :: nat
  txnum :: nat
  inpkts :: u32
  outpkts :: u32

definition RXSIZE :: nat where "RXSIZE = 12"
definition TXSIZE :: nat where "TXSIZE = 10"
definition BWORDS :: nat where "BWORDS = 380"

text \<open>The rings as \<^verbatim>\<open>etherk66_init\<close> sets them up, with buffers of \<open>BWORDS\<close> 32-bit words each.\<close>

definition etherk66_init :: "addr \<Rightarrow> addr \<Rightarrow> 'h k66 \<Rightarrow> 'h k66" where
  "etherk66_init rxbufs txbufs k =
     k\<lparr>rx_ring := (\<lambda>i. if i < RXSIZE then \<lparr>d_length = 0, d_flags = (if i = RXSIZE - 1 then 0xA000 else 0x8000),
                                  d_buffer = rxbufs + i * BWORDS * 4\<rparr> else rx_ring k i),
       tx_ring := (\<lambda>i. if i < TXSIZE then \<lparr>d_length = 0, d_flags = (if i = TXSIZE - 1 then 0x2000 else 0),
                                  d_buffer = txbufs + i * BWORDS * 4\<rparr> else tx_ring k i)\<rparr>"

text \<open>The allocator of the stack, on the heap inside the driver state.\<close>

definition lift_alloc :: "'h alloc \<Rightarrow> 'h k66 alloc" where
  "lift_alloc A =
     \<lparr>al_malloc = (\<lambda>k n. let (h, p) = al_malloc A (k_mem k) n in (k\<lparr>k_mem := h\<rparr>, p)),
      al_free = (\<lambda>k p. k\<lparr>k_mem := al_free A (k_mem k) p\<rparr>),
      al_trim = (\<lambda>k p n. let (h, q) = al_trim A (k_mem k) p n in (k\<lparr>k_mem := h\<rparr>, q)),
      al_memp_malloc = (\<lambda>k t. let (h, p) = al_memp_malloc A (k_mem k) t in (k\<lparr>k_mem := h\<rparr>, p)),
      al_memp_free = (\<lambda>k t p. k\<lparr>k_mem := al_memp_free A (k_mem k) t p\<rparr>),
      al_custom_free = (\<lambda>k p. k\<lparr>k_mem := al_custom_free A (k_mem k) p\<rparr>),
      al_fresh = (\<lambda>k p. al_fresh A (k_mem k) p)\<rparr>"

section \<open>Sending\<close>

definition tx_free :: "'h k66 \<Rightarrow> bool" where
  "tx_free k \<longleftrightarrow> d_flags (tx_ring k (txnum k)) AND 0x8000 = 0"

partial_function (option) tx_wait :: "('h k66 \<Rightarrow> 'h k66) \<Rightarrow> 'h k66 \<Rightarrow> 'h k66 option" where
  "tx_wait dma k = (if tx_free k then Some k else tx_wait dma (dma k))"

partial_function (option) tx_copy :: "store \<Rightarrow> bytes \<Rightarrow> addr \<Rightarrow> addr \<Rightarrow> bytes option" where
  "tx_copy st m q dst =
     (if q \<noteq> NULL then
        do { qb \<leftarrow> st q; tx_copy st (MEMCPY m dst (pb_payload qb) (unat (pb_len qb))) (pb_next qb) (dst + unat (pb_len qb)) }
      else Some m)"

text \<open>The current descriptor gets its length and is handed to the controller; the position advances.\<close>

definition tx_push :: "u16 \<Rightarrow> 'h k66 \<Rightarrow> 'h k66" where
  "tx_push len k =
     (let buf = tx_ring k (txnum k)
      in k\<lparr>tx_ring := (tx_ring k)(txnum k := buf\<lparr>d_length := len, d_flags := d_flags buf OR 0x8C00\<rparr>),
           txnum := (if txnum k < TXSIZE - 1 then txnum k + 1 else 0)\<rparr>)"

definition k66_low_level_output ::
  "('h k66 \<Rightarrow> 'h k66) \<Rightarrow> netif \<Rightarrow> addr \<Rightarrow> 'h k66 pstate \<Rightarrow> ('h k66 pstate \<times> err_t) option" where
  "k66_low_level_output dma netif p s =
     do {
       let k = (heap s)\<lparr>outpkts := outpkts (heap s) + 1\<rparr>;
       k \<leftarrow> tx_wait dma k;
       pb \<leftarrow> pbufs s p;
       m \<leftarrow> tx_copy (pbufs s) (dmem s) p (d_buffer (tx_ring k (txnum k)));
       Some (s\<lparr>heap := tx_push (pb_tot_len pb) k, dmem := m\<rparr>, ERR_OK)
     }"

definition k66_arp_env ::
  "('h k66 \<Rightarrow> 'h k66) \<Rightarrow> 'h alloc \<Rightarrow> (addr \<Rightarrow> netif \<Rightarrow> 'h k66 arp \<Rightarrow> 'h k66 arp option) \<Rightarrow> 'h k66 arp_env" where
  "k66_arp_env dma A ip_input =
     \<lparr>ae_alloc = lift_alloc A, ae_linkoutput = k66_low_level_output dma, ae_ip_input = ip_input\<rparr>"

section \<open>Receiving\<close>

definition handle_frame ::
  "'h k66 arp_env \<Rightarrow> netif \<Rightarrow> addr \<Rightarrow> u16 \<Rightarrow> 'h k66 arp \<Rightarrow> 'h k66 arp option" where
  "handle_frame E netif packet len st =
     do {
       let s = arp_ps st;
       let s = s\<lparr>heap := (heap s)\<lparr>inpkts := inpkts (heap s) + 1\<rparr>\<rparr>;
       (s, p) \<leftarrow> pbuf_alloc (ae_alloc E) s PBUF_RAW len PBUF_RAM;
       if p = NULL then Some (st\<lparr>arp_ps := s\<rparr>)
       else do {
         pb \<leftarrow> pbufs s p;
         let s = s\<lparr>dmem := MEMCPY (dmem s) (pb_payload pb) packet (unat len)\<rparr>;
         (st, err) \<leftarrow> ethernet_input E p netif (st\<lparr>arp_ps := s\<rparr>);
         if err \<noteq> ERR_OK then do { (s, _) \<leftarrow> pbuf_free (ae_alloc E) (arp_ps st) p; Some (st\<lparr>arp_ps := s\<rparr>) }
         else Some st
       }
     }"

definition rx_release :: "nat \<Rightarrow> 'h k66 \<Rightarrow> 'h k66" where
  "rx_release i k =
     (if i < RXSIZE - 1
      then k\<lparr>rx_ring := (rx_ring k)(i := (rx_ring k i)\<lparr>d_flags := 0x8000\<rparr>), rxnum := i + 1\<rparr>
      else k\<lparr>rx_ring := (rx_ring k)(i := (rx_ring k i)\<lparr>d_flags := 0xA000\<rparr>), rxnum := 0\<rparr>)"

definition ether_poll ::
  "'h k66 arp_env \<Rightarrow> netif \<Rightarrow> ('h k66 arp \<Rightarrow> 'h k66 arp option) \<Rightarrow> 'h k66 arp \<Rightarrow> 'h k66 arp option" where
  "ether_poll E netif check_timeouts st =
     do {
       let k = heap (arp_ps st);
       let i = rxnum k;
       let buf = rx_ring k i;
       st \<leftarrow> (if d_flags buf AND 0x8000 = 0 then
                do {
                  st \<leftarrow> handle_frame E netif (d_buffer buf) (d_length buf) st;
                  Some (st\<lparr>arp_ps := (arp_ps st)\<lparr>heap := rx_release i (heap (arp_ps st))\<rparr>\<rparr>)
                }
              else Some st);
       check_timeouts st
     }"

declare tx_wait.simps [code] tx_copy.simps [code]

section \<open>The rings\<close>

text \<open>The wrap bit is set in the last descriptor of each ring and in no other, and the positions are inside.\<close>

definition ring_ok :: "nat \<Rightarrow> (nat \<Rightarrow> enetbufferdesc) \<Rightarrow> nat \<Rightarrow> bool" where
  "ring_ok n r k \<longleftrightarrow> k < n \<and> (\<forall>i<n. bit (d_flags (r i)) 13 \<longleftrightarrow> i = n - 1)"

definition rings_ok :: "'h k66 \<Rightarrow> bool" where
  "rings_ok k \<longleftrightarrow> ring_ok TXSIZE (tx_ring k) (txnum k) \<and> ring_ok RXSIZE (rx_ring k) (rxnum k)"

locale enet_hw =
  fixes dma :: "'h k66 \<Rightarrow> 'h k66"
  assumes dma_progress: "\<exists>n. tx_free ((dma ^^ n) k)"
    and dma_fixed: "txnum (dma k) = txnum k" "rxnum (dma k) = rxnum k" "k_mem (dma k) = k_mem k"
    and dma_tx: "bit (d_flags (tx_ring (dma k) i)) 13 = bit (d_flags (tx_ring k i)) 13" "d_buffer (tx_ring (dma k) i) = d_buffer (tx_ring k i)"
    and dma_rx: "bit (d_flags (rx_ring (dma k) i)) 13 = bit (d_flags (rx_ring k i)) 13"
begin

lemma tx_wait_ends: "\<exists>n. tx_wait dma k = Some ((dma ^^ n) k) \<and> tx_free ((dma ^^ n) k)"
proof -
  obtain n where "tx_free ((dma ^^ n) k)"
    using dma_progress by blast
  then show ?thesis
  proof (induction n arbitrary: k)
    case 0
    then show ?case
      by (intro exI [of _ 0]) (simp add: tx_wait.simps)
  next
    case (Suc n)
    then obtain i where "tx_wait dma (dma k) = Some ((dma ^^ i) (dma k))" "tx_free ((dma ^^ i) (dma k))"
      unfolding funpow_Suc_right comp_def by blast
    then show ?case
      by (cases "tx_free k") (auto simp: tx_wait.simps [of dma k] funpow_swap1 intro: exI [of _ 0] exI [of _ "Suc i"])
  qed
qed

lemma dma_pow:
  "txnum ((dma ^^ n) k) = txnum k" "rxnum ((dma ^^ n) k) = rxnum k" "k_mem ((dma ^^ n) k) = k_mem k"
  "bit (d_flags (tx_ring ((dma ^^ n) k) i)) 13 = bit (d_flags (tx_ring k i)) 13"
  "d_buffer (tx_ring ((dma ^^ n) k) i) = d_buffer (tx_ring k i)"
  "bit (d_flags (rx_ring ((dma ^^ n) k) i)) 13 = bit (d_flags (rx_ring k i)) 13"
  by (induction n) (simp_all add: dma_fixed dma_tx dma_rx)

end

lemma tx_copy_ok: "pchain st p as \<Longrightarrow> \<exists>m'. tx_copy st m p dst = Some m'"
proof (induction as arbitrary: p m dst)
  case Nil
  then show ?case
    by (simp add: tx_copy.simps)
next
  case (Cons a as)
  then obtain pb where "p = a" "a \<noteq> NULL" "st a = Some pb" "pchain st (pb_next pb) as"
    by (auto split: option.splits)
  then show ?case
    using Cons.IH by (subst tx_copy.simps) auto
qed

text \<open>Copying a chain into a buffer that its payloads do not overlap.\<close>

lemma tx_copy_data:
  assumes "pchain st p as" "apart st as dst (lens st as)"
  shows "tx_copy st m p dst = Some (mem_write m dst (pdata st m as))"
  using assms
proof (induction as arbitrary: p m dst)
  case Nil
  then show ?case
    by (simp add: tx_copy.simps)
next
  case (Cons a as)
  then obtain pb where pb: "p = a" "a \<noteq> NULL" "st a = Some pb" "pchain st (pb_next pb) as"
    by (auto split: option.splits)
  define xs where "xs = mem_read m (pb_payload pb) (unat (pb_len pb))"
  have ap: "apart st as dst (length xs)" "apart st as (dst + length xs) (lens st as)"
    using Cons.prems(2) pb(3) by (auto simp: xs_def intro: apart_mono)
  have "tx_copy st m p dst = tx_copy st (mem_write m dst xs) (pb_next pb) (dst + length xs)"
    using pb by (subst tx_copy.simps) (simp add: MEMCPY_def xs_def)
  also have "\<dots> = Some (mem_write (mem_write m dst xs) (dst + length xs) (pdata st m as))"
    using Cons.IH [OF pb(4) ap(2), of "mem_write m dst xs"] pdata_write_apart [OF ap(1)] by simp
  also have "mem_write (mem_write m dst xs) (dst + length xs) (pdata st m as) = mem_write m dst (pdata st m (a # as))"
    unfolding mem_write_append by (simp add: xs_def pb(3))
  finally show ?case .
qed

context enet_hw
begin

lemma low_level_output_ok:
  assumes "pchain (pbufs s) p as" "p \<noteq> NULL"
  shows "\<exists>n m pb. pbufs s p = Some pb \<and> tx_copy (pbufs s) (dmem s) p (d_buffer (tx_ring (heap s) (txnum (heap s)))) = Some m
    \<and> k66_low_level_output dma netif p s =
      Some (s\<lparr>heap := tx_push (pb_tot_len pb) ((dma ^^ n) ((heap s)\<lparr>outpkts := outpkts (heap s) + 1\<rparr>)), dmem := m\<rparr>, ERR_OK)"
proof -
  obtain pb where pb: "pbufs s p = Some pb"
    using pchain_nonNULL [OF assms] by blast
  obtain m where m: "tx_copy (pbufs s) (dmem s) p (d_buffer (tx_ring (heap s) (txnum (heap s)))) = Some m"
    using tx_copy_ok [OF assms(1)] by blast
  obtain n where n: "tx_wait dma ((heap s)\<lparr>outpkts := outpkts (heap s) + 1\<rparr>) = Some ((dma ^^ n) ((heap s)\<lparr>outpkts := outpkts (heap s) + 1\<rparr>))"
    using tx_wait_ends by blast
  have "k66_low_level_output dma netif p s =
      Some (s\<lparr>heap := tx_push (pb_tot_len pb) ((dma ^^ n) ((heap s)\<lparr>outpkts := outpkts (heap s) + 1\<rparr>)), dmem := m\<rparr>, ERR_OK)"
    using pb m n by (simp add: k66_low_level_output_def Let_def dma_pow)
  then show ?thesis
    using pb m by blast
qed

lemma tx_push_rings: "rings_ok k \<Longrightarrow> rings_ok (tx_push len k) \<and> k_mem (tx_push len k) = k_mem k"
proof -
  have "bit (w OR 0x8C00 :: u16) 13 = bit w 13" for w
    by (simp add: bit_or_iff bit_numeral_rec)
  then show "rings_ok k \<Longrightarrow> ?thesis"
    by (auto simp: tx_push_def Let_def rings_ok_def ring_ok_def TXSIZE_def)
qed

lemma dma_pow_rings: "rings_ok k \<Longrightarrow> rings_ok ((dma ^^ n) k)"
  by (simp add: rings_ok_def ring_ok_def dma_pow)

lemma low_level_output_rings:
  assumes "pchain (pbufs s) p as" "p \<noteq> NULL" "rings_ok (heap s)"
  shows "\<exists>s'. k66_low_level_output dma netif p s = Some (s', ERR_OK) \<and> pbufs s' = pbufs s \<and> rings_ok (heap s')
    \<and> k_mem (heap s') = k_mem (heap s)"
proof -
  from low_level_output_ok [OF assms(1,2), of netif] obtain n m and pb :: pbuf where run: "k66_low_level_output dma netif p s =
      Some (s\<lparr>heap := tx_push (pb_tot_len pb) ((dma ^^ n) ((heap s)\<lparr>outpkts := outpkts (heap s) + 1\<rparr>)), dmem := m\<rparr>, ERR_OK)"
    by blast
  have "rings_ok ((heap s)\<lparr>outpkts := outpkts (heap s) + 1\<rparr>)"
    using assms(3) by (simp add: rings_ok_def)
  then show ?thesis
    using tx_push_rings [OF dma_pow_rings] by (simp add: run dma_pow)
qed

end

sublocale enet_hw \<subseteq> k66_link: link_driver "k66_arp_env dma A ip_input" for A ip_input
proof
  fix netif p as and s :: "'h k66 pstate"
  assume ch: "pchain (pbufs s) p as" "p \<noteq> NULL"
  show "\<exists>s' err. ae_linkoutput (k66_arp_env dma A ip_input) netif p s = Some (s', err) \<and> pbufs s' = pbufs s"
    using low_level_output_ok [OF ch, of netif] by (auto simp: k66_arp_env_def)
qed

text \<open>A controller that has sent everything by the time the driver looks again.\<close>

definition dma_idle :: "'h k66 \<Rightarrow> 'h k66" where
  "dma_idle k = k\<lparr>tx_ring := (\<lambda>i. (tx_ring k i)\<lparr>d_flags := d_flags (tx_ring k i) AND 0x7fff\<rparr>)\<rparr>"

lemma and_7fff: "(w AND 0x7fff) AND 0x8000 = (0 :: u16)" "bit (w AND 0x7fff :: u16) 13 = bit w 13"
  by (simp_all add: and.assoc bit_and_iff bit_numeral_rec)

interpretation idle: enet_hw dma_idle
proof
  show "\<exists>n. tx_free ((dma_idle ^^ n) k)" for k :: "'a k66"
    by (intro exI [of _ 1]) (simp add: tx_free_def dma_idle_def and_7fff)
qed (simp_all add: dma_idle_def and_7fff)

end
