(* ===== verification/Etharp_Props.thy ===== *)
theory Etharp_Props
  imports K66_Enet
begin

text \<open>
  The properties of address resolution and of the board's driver.  Those that send packets hold for
  every driver that satisfies \<open>link_driver\<close>; the witnesses use the driver of \<^verbatim>\<open>lwipk66.c\<close>.
\<close>

section \<open>Ageing\<close>

fun etharp_tmrs :: "'h alloc \<Rightarrow> nat \<Rightarrow> 'h arp \<Rightarrow> 'h arp option" where
  "etharp_tmrs A 0 st = Some st"
| "etharp_tmrs A (Suc n) st = do { st \<leftarrow> etharp_tmr A st; etharp_tmrs A n st }"

lemma etharp_tmrs_ok:
  "arp_inv st \<Longrightarrow> \<exists>st'. etharp_tmrs A n st = Some st' \<and> arp_inv st' \<and> arp_table st' = map (tick ^^ n) (arp_table st)"
proof (induction n arbitrary: st)
  case (Suc n)
  obtain st1 where "etharp_tmr A st = Some st1" "arp_table st1 = map tick (arp_table st)" "arp_inv st1"
    using etharp_tmr_inv [OF Suc.prems] by blast
  then show ?case
    using Suc.IH [of st1] by (auto simp: funpow_swap1 simp del: funpow.simps simp add: funpow_Suc_right comp_def)
qed simp

lemma tick_age:
  assumes "entry_ok e" "live (tick e)"
  shows "unat (e_ctime (tick e)) = unat (e_ctime e) + 1" "e_state (tick e) = e_state e"
proof -
  have "live e"
    using assms(2) by (rule tick_sel(2))
  then have "unat (e_ctime e) < 240"
    using assms(1) by (cases "e_state e") (auto simp: entry_ok_def ARP_MAXAGE_def ARP_MAXPENDING_def word_less_nat_alt)
  then have "unat (e_ctime e + 1) = unat (e_ctime e) + 1"
    using unat_add_lem [of "e_ctime e" 1] by simp
  then show "unat (e_ctime (tick e)) = unat (e_ctime e) + 1" "e_state (tick e) = e_state e"
    using assms(2) by (auto simp: tick_def Let_def emptied_def split: if_splits)
qed

lemma ticks_age:
  assumes "entry_ok e" "live ((tick ^^ n) e)"
  shows "entry_ok ((tick ^^ n) e) \<and> unat (e_ctime ((tick ^^ n) e)) = unat (e_ctime e) + n \<and> e_state ((tick ^^ n) e) = e_state e"
  using assms(2)
proof (induction n)
  case (Suc n)
  have "live ((tick ^^ n) e)"
    using Suc.prems tick_sel(2) [of "(tick ^^ n) e"] by simp
  with Suc tick_age [of "(tick ^^ n) e"] show ?case
    by (auto intro: tick_ok)
qed (use assms(1) in simp)

lemma ticks_expire:
  assumes "entry_ok e" "240 \<le> n \<or> e_state e = ETHARP_STATE_PENDING \<and> 2 \<le> n"
  shows "\<not> live ((tick ^^ n) e)"
proof
  assume lv: "live ((tick ^^ n) e)"
  note age = ticks_age [OF assms(1) lv]
  then have "unat (e_ctime ((tick ^^ n) e)) < (if e_state e = ETHARP_STATE_PENDING then 2 else 240)"
    using lv by (cases "e_state e") (auto simp: entry_ok_def ARP_MAXAGE_def ARP_MAXPENDING_def word_less_nat_alt)
  then show False
    using age assms(2) by (auto split: if_splits)
qed

section \<open>ARP packets\<close>

lemmas arp_offsets = arp_opcode_def arp_shwaddr_def arp_dhwaddr_def arp_sipaddr_def arp_dipaddr_def arp_hwtype_def
  arp_proto_def arp_hwlen_def arp_protolen_def eth_dest_def eth_src_def eth_type_def SIZEOF_ETH_HDR_def ETH_PAD_SIZE_def

lemmas arp_mem_simps = mem_read_same mem_read_write_other mem_write_other mem_write_apply [of _ _ "[x]" for x]

lemma arp_raw_fields:
  fixes hdr ipa ipb opc m
  assumes "length ea = 6" "length eb = 6" "length ha = 6" "length hb = 6"
  defines "m' \<equiv> arp_raw_bytes ea eb ha ipa hb ipb opc hdr m"
  shows "mem_read m' (hdr + arp_sipaddr) 4 = le_bytes32 ipa" "mem_read m' (hdr + arp_dipaddr) 4 = le_bytes32 ipb"
    "mem_read m' (hdr + arp_shwaddr) 6 = ha" "mem_read m' (hdr + arp_opcode) 2 = le_bytes16 (lwip_htons opc)"
    "mem_read m' (hdr + arp_hwtype) 2 = le_bytes16 (lwip_htons HWTYPE_ETHERNET)"
    "mem_read m' (hdr + arp_proto) 2 = le_bytes16 (lwip_htons ETHTYPE_IP)"
    "m' (hdr + arp_hwlen) = ETHARP_HWADDR_LEN" "m' (hdr + arp_protolen) = 4"
  unfolding m'_def arp_raw_bytes_def Let_def arp_offsets by (simp_all add: arp_mem_simps assms(1-4) del: mem_write.simps)

text \<open>The reply written over a request is the packet that \<^verbatim>\<open>etharp_raw\<close> would build for it.\<close>

lemma reply_answers_request:
  fixes hdr ipa ipb m netif
  assumes "length hwa = 6" "length hwb = 6"
  shows "arp_reply_bytes netif hwb hdr (arp_raw_bytes hwa ethbroadcast hwa ipa ethzero ipb ARP_REQUEST hdr m)
    = arp_raw_bytes hwb hwa hwb (netif_ip_addr netif) hwa ipa ARP_REPLY hdr m"
proof -
  have len: "length ethbroadcast = 6" "length ethzero = 6"
    by (simp_all add: ethbroadcast_def ethzero_def)
  define m1 where "m1 = arp_raw_bytes hwa ethbroadcast hwa ipa ethzero ipb ARP_REQUEST hdr m"
  note f = arp_raw_fields [OF assms(1) len(1) assms(1) len(2), where hdr = hdr and ipa = ipa and ipb = ipb and opc = ARP_REQUEST and m = m, folded m1_def]
  have "arp_reply_bytes netif hwb hdr m1 =
    mem_write (mem_write (mem_write (mem_write (mem_write (mem_write (mem_write m1 (hdr + arp_opcode) (le_bytes16 (lwip_htons ARP_REPLY)))
      (hdr + arp_dipaddr) (le_bytes32 ipa)) (hdr + arp_sipaddr) (le_bytes32 (netif_ip_addr netif)))
      (hdr + arp_dhwaddr) hwa) (hdr + eth_dest) hwa) (hdr + arp_shwaddr) hwb) (hdr + eth_src) hwb"
    unfolding arp_reply_bytes_def Let_def using f(1,3) by (simp add: arp_offsets arp_mem_simps assms del: mem_write.simps)
  also have "\<dots> = arp_raw_bytes hwb hwa hwb (netif_ip_addr netif) hwa ipa ARP_REPLY hdr m"
  proof
    fix b
    have "b < hdr + 2 \<or> (hdr + 2 \<le> b \<and> b < hdr + 8) \<or> (hdr + 8 \<le> b \<and> b < hdr + 14) \<or> (hdr + 14 \<le> b \<and> b < hdr + 16)
        \<or> (hdr + 16 \<le> b \<and> b < hdr + 18) \<or> (hdr + 18 \<le> b \<and> b < hdr + 20) \<or> b = hdr + 20 \<or> b = hdr + 21
        \<or> (hdr + 22 \<le> b \<and> b < hdr + 24) \<or> (hdr + 24 \<le> b \<and> b < hdr + 30) \<or> (hdr + 30 \<le> b \<and> b < hdr + 34)
        \<or> (hdr + 34 \<le> b \<and> b < hdr + 40) \<or> (hdr + 40 \<le> b \<and> b < hdr + 44) \<or> hdr + 44 \<le> b"
      by linarith
    then show "mem_write (mem_write (mem_write (mem_write (mem_write (mem_write (mem_write m1 (hdr + arp_opcode) (le_bytes16 (lwip_htons ARP_REPLY)))
        (hdr + arp_dipaddr) (le_bytes32 ipa)) (hdr + arp_sipaddr) (le_bytes32 (netif_ip_addr netif)))
        (hdr + arp_dhwaddr) hwa) (hdr + eth_dest) hwa) (hdr + arp_shwaddr) hwb) (hdr + eth_src) hwb b
      = arp_raw_bytes hwb hwa hwb (netif_ip_addr netif) hwa ipa ARP_REPLY hdr m b"
      unfolding m1_def arp_raw_bytes_def Let_def arp_offsets
      by (elim disjE; simp add: mem_write_apply assms len del: mem_write.simps)
  qed
  finally show ?thesis
    unfolding m1_def .
qed

section \<open>States for the witnesses\<close>

definition demo_netif :: netif where
  "demo_netif = \<lparr>netif_ip_addr = IP4_ADDR 192 168 1 10, netif_netmask = IP4_ADDR 255 255 255 0, netif_gw = IP4_ADDR 192 168 1 1,
     netif_mtu = 1500, netif_hwaddr = [4, 0xe9, 0xe5, 0xba, 0xbe, 1], netif_flags = 0x62\<rparr>"

definition blank_entry :: etharp_entry where
  "blank_entry = \<lparr>e_q = NULL, e_ipaddr = 0, e_ethaddr = ethzero, e_state = ETHARP_STATE_EMPTY, e_ctime = 0\<rparr>"

definition demo_k66 :: "unit k66" where
  "demo_k66 = etherk66_init 5000 30000 \<lparr>k_mem = (), rx_ring = (\<lambda>_. \<lparr>d_length = 0, d_flags = 0, d_buffer = 0\<rparr>),
     tx_ring = (\<lambda>_. \<lparr>d_length = 0, d_flags = 0, d_buffer = 0\<rparr>), rxnum = 0, txnum = 0, inpkts = 0, outpkts = 0\<rparr>"

definition demo_arp :: "unit k66 arp" where
  "demo_arp = \<lparr>arp_table = replicate 10 blank_entry, etharp_cached_entry = 0,
     arp_ps = \<lparr>heap = demo_k66, pbufs = [100 \<mapsto> demo_pb 0 120 60 60],
       dmem = arp_raw_bytes [1, 2, 3, 4, 5, 6] ethbroadcast [1, 2, 3, 4, 5, 6] (IP4_ADDR 192 168 1 7) ethzero
                (IP4_ADDR 192 168 1 10) ARP_REQUEST 120 (\<lambda>_. 0)\<rparr>\<rparr>"

definition demo_arp_env :: "unit k66 arp_env" where
  "demo_arp_env = k66_arp_env dma_idle demo_alloc (\<lambda>p netif st. Some st)"

lemma demo_driver: "link_driver demo_arp_env"
  unfolding demo_arp_env_def by (rule idle.k66_link.link_driver_axioms)

lemma demo_queues: "queues (pbufs (arp_ps demo_arp)) (arp_table demo_arp) (\<lambda>_. [])"
  by (simp add: demo_arp_def queues_def blank_entry_def)

lemma demo_arp_inv: "arp_inv demo_arp"
proof -
  have "table_ok (arp_table demo_arp)"
    by (auto simp: demo_arp_def table_ok_def ARP_TABLE_SIZE_def ips_distinct_def entry_ok_def blank_entry_def)
  then show ?thesis
    using demo_queues by (auto simp: arp_inv_def demo_arp_def ARP_TABLE_SIZE_def)
qed

definition demo_full :: "unit arp" where
  "demo_full = \<lparr>arp_table = stable_entry 8 ethzero # stable_entry 7 ethzero # replicate 8 blank_entry,
     etharp_cached_entry = 0, arp_ps = demo_state\<rparr>"

lemma demo_full_inv: "arp_inv demo_full"
proof -
  have "table_ok (arp_table demo_full)"
    unfolding table_ok_def ips_distinct_def
    by (auto simp: demo_full_def ARP_TABLE_SIZE_def entry_ok_def blank_entry_def stable_entry_def ARP_MAXAGE_def nth_Cons')
  moreover have "queues s (arp_table demo_full) (\<lambda>_. [])" for s
    by (auto simp: demo_full_def queues_def blank_entry_def stable_entry_def nth_Cons')
  ultimately show ?thesis
    by (auto simp: arp_inv_def demo_full_def ARP_TABLE_SIZE_def)
qed

lemma demo_unicast:
  "IP4_ADDR 192 168 1 7 \<noteq> IPADDR_ANY" "\<not> ip4_addr_isbroadcast (IP4_ADDR 192 168 1 7) demo_netif"
  "\<not> ip_addr_ismulticast (IP4_ADDR 192 168 1 7)" "IP4_ADDR 192 168 1 10 \<noteq> IPADDR_ANY"
  by (code_simp)+

section \<open>Reachable states\<close>

text \<open>
  The cache over time.  Between two operations of the ARP code the rest of the stack may change any
  pbuf that does not wait on the table; a received packet is not one of those that wait.
\<close>

inductive arp_reachable :: "'h arp_env \<Rightarrow> netif \<Rightarrow> 'h arp \<Rightarrow> bool" for E :: "'h arp_env" and netif :: netif where
  start: "arp_table st = replicate ARP_TABLE_SIZE blank_entry \<Longrightarrow> etharp_cached_entry st = 0 \<Longrightarrow> arp_reachable E netif st"
| tmr: "arp_reachable E netif st \<Longrightarrow> etharp_tmr (ae_alloc E) st = Some st' \<Longrightarrow> arp_reachable E netif st'"
| lookup: "arp_reachable E netif st \<Longrightarrow> find_entry (ae_alloc E) (Some ip) flags st = Some (st', r) \<Longrightarrow> arp_reachable E netif st'"
| update: "arp_reachable E netif st \<Longrightarrow> update_arp_entry E netif ip mac flags st = Some (st', err) \<Longrightarrow> arp_reachable E netif st'"
| input: "arp_reachable E netif st \<Longrightarrow> queues (pbufs (arp_ps st)) (arp_table st) Q \<Longrightarrow> pchain (pbufs (arp_ps st)) p as \<Longrightarrow> p \<noteq> NULL
    \<Longrightarrow> (\<And>i. i < length (arp_table st) \<Longrightarrow> set (Q i) \<inter> set as = {})
    \<Longrightarrow> etharp_arp_input E netif (netif_hwaddr netif) p st = Some st' \<Longrightarrow> arp_reachable E netif st'"
| other: "arp_reachable E netif st \<Longrightarrow> queues (pbufs (arp_ps st)) (arp_table st) Q
    \<Longrightarrow> (\<And>i a. i < length (arp_table st) \<Longrightarrow> a \<in> set (Q i) \<Longrightarrow> pbufs s a = pbufs (arp_ps st) a)
    \<Longrightarrow> arp_reachable E netif (st\<lparr>arp_ps := s\<rparr>)"

lemma find_entry_inv:
  assumes "arp_inv st"
  shows "\<exists>st' r. find_entry A (Some ip) flags st = Some (st', r) \<and> arp_inv st'"
proof -
  obtain Q where T: "table_ok (arp_table st)" and q: "queues (pbufs (arp_ps st)) (arp_table st) Q"
    and c: "etharp_cached_entry st < ARP_TABLE_SIZE"
    using assms by (auto simp: arp_inv_def)
  show ?thesis
  proof (cases rule: find_entry_cases [OF T q, where A = A and ip = ip and flags = flags, case_names found none created])
    case (created i st')
    have "table_ok (arp_table st')"
      unfolding created(6) by (rule table_ok_upd) (use T created(4) in auto)
    then show ?thesis
      using created c by (auto simp: arp_inv_def)
  qed (use assms in auto)
qed

lemma queues_frame:
  assumes "queues s T Q" "\<And>i a. i < length T \<Longrightarrow> a \<in> set (Q i) \<Longrightarrow> s' a = s a"
  shows "queues s' T Q"
proof -
  have "pchain s' (e_q (T ! i)) (Q i) = pchain s (e_q (T ! i)) (Q i)" if "i < length T" for i
    using assms(2) [OF that] by (intro pchain_cong) auto
  then show ?thesis
    using assms(1) by (auto simp: queues_def)
qed

lemma blank_table_inv:
  assumes "arp_table st = replicate ARP_TABLE_SIZE blank_entry" "etharp_cached_entry st = 0"
  shows "arp_inv st"
proof -
  have "queues (pbufs (arp_ps st)) (arp_table st) (\<lambda>_. [])"
    using assms by (simp add: queues_def blank_entry_def)
  then show ?thesis
    using assms by (auto simp: arp_inv_def table_ok_def ARP_TABLE_SIZE_def ips_distinct_def entry_ok_def blank_entry_def)
qed

lemma update_arp_map_hit:
  assumes "link_driver E" "arp_inv st" "ip \<noteq> IPADDR_ANY" "\<not> ip4_addr_isbroadcast ip netif" "\<not> ip_addr_ismulticast ip"
  shows "\<exists>st'. update_arp_entry E netif ip mac ETHARP_FLAG_TRY_HARD st = Some (st', ERR_OK) \<and> arp_map (arp_table st') ip = Some mac"
proof -
  obtain Q where T: "table_ok (arp_table st)" and q: "queues (pbufs (arp_ps st)) (arp_table st) Q"
    using assms(2) by (auto simp: arp_inv_def)
  show ?thesis
  proof (cases rule: link_driver.update_arp_entry_cases [OF assms(1) T q assms(3-5),
        where mac = mac and flags = ETHARP_FLAG_TRY_HARD, case_names refused stored])
    case (stored st' i)
    have "is_stable (arp_table st' ! i)" "e_ipaddr (arp_table st' ! i) = ip" "e_ethaddr (arp_table st' ! i) = mac" "i < length (arp_table st')"
      using stored(2) by (simp_all add: stored(3) stable_entry_def)
    then have "arp_map (arp_table st') ip = Some mac"
      using stored(4) by (auto simp: arp_map_Some table_ok_def)
    then show ?thesis
      using stored(1) by blast
  qed (simp add: ETHARP_FLAG_TRY_HARD_def ETHARP_FLAG_FIND_ONLY_def)
qed

section \<open>Properties\<close>



text \<open>C14. The table refines a map from IP to Ethernet addresses: a lookup reads the map; an update with
  \<open>ETHARP_FLAG_TRY_HARD\<close> of a unicast address always succeeds and stores the pair, and it forgets
  at most one other address, only when the table is full, namely that of the entry
  \<open>recyclable\<close> singles out (the oldest stable one, else the oldest pending one without a packet,
  else the oldest pending one).\<close>

theorem update_arp_entry_refines_map:
  assumes "link_driver E" "arp_inv st"
    and "ip \<noteq> IPADDR_ANY" "\<not> ip4_addr_isbroadcast ip netif" "\<not> ip_addr_ismulticast ip"
  shows "\<exists>st'. update_arp_entry E netif ip mac ETHARP_FLAG_TRY_HARD st = Some (st', ERR_OK) \<and> arp_inv st'
    \<and> (arp_map (arp_table st') = (arp_map (arp_table st))(ip \<mapsto> mac)
       \<or> (\<exists>i. recyclable (arp_table st) i
            \<and> arp_map (arp_table st') = ((arp_map (arp_table st))(e_ipaddr (arp_table st ! i) := None))(ip \<mapsto> mac)))
    \<and> (\<exists>r. etharp_find_addr (ae_alloc E) ip st' = Some (st', r) \<and> map_option (\<lambda>(i, mac, ip). mac) r = Some mac)"
proof -
  obtain Q where T: "table_ok (arp_table st)" and q: "queues (pbufs (arp_ps st)) (arp_table st) Q"
    and c: "etharp_cached_entry st < ARP_TABLE_SIZE"
    using assms(2) by (auto simp: arp_inv_def)
  show ?thesis
  proof (cases rule: link_driver.update_arp_entry_cases [OF assms(1) T q assms(3-5),
        where mac = mac and flags = ETHARP_FLAG_TRY_HARD, case_names refused stored])
    case refused
    then show ?thesis
      by (simp add: ETHARP_FLAG_TRY_HARD_def ETHARP_FLAG_FIND_ONLY_def)
  next
    case (stored st' i)
    have d: "ips_distinct (arp_table st)" "ips_distinct (arp_table st')"
      using T stored(4) by (auto simp: table_ok_def)
    have inv: "arp_inv st'"
      using stored c by (auto simp: arp_inv_def)
    note mp = arp_map_update [OF d(1) d(2) [unfolded stored(3)] stored(2), folded stored(3)]
    have "arp_map (arp_table st') = (arp_map (arp_table st))(ip \<mapsto> mac)
       \<or> (\<exists>i. recyclable (arp_table st) i
            \<and> arp_map (arp_table st') = ((arp_map (arp_table st))(e_ipaddr (arp_table st ! i) := None))(ip \<mapsto> mac))"
      using stored(8) mp by (auto simp: fun_upd_upd)
    moreover have "\<exists>r. etharp_find_addr (ae_alloc E) ip st' = Some (st', r) \<and> map_option (\<lambda>(i, mac, ip). mac) r = Some mac"
    proof (cases rule: find_entry_cases [OF stored(4,6), where A = "ae_alloc E" and ip = ip and flags = ETHARP_FLAG_FIND_ONLY,
          case_names found none created])
      case (found j)
      have "j = i"
        using found stored(2,3) d(2) by (auto simp: ips_distinct_def stable_entry_def nth_list_update split: if_splits)
      then show ?thesis
        using found(1) stored(2,3) by (simp add: etharp_find_addr_def stable_entry_def)
    next
      case none
      then show ?thesis
        using stored(2,3) by (auto simp: has_ip_def stable_entry_def dest!: bspec [OF _ set_update_memI])
    next
      case (created j st'')
      then show ?thesis
        by (simp add: ETHARP_FLAG_FIND_ONLY_def)
    qed
    ultimately show ?thesis
      using stored(1) inv by blast
  qed
qed

theorem update_arp_entry_refines_map_witness:
  "\<exists>st'. update_arp_entry demo_arp_env demo_netif (IP4_ADDR 192 168 1 7) [1, 2, 3, 4, 5, 6] ETHARP_FLAG_TRY_HARD demo_arp = Some (st', ERR_OK)
     \<and> arp_map (arp_table st') (IP4_ADDR 192 168 1 7) = Some [1, 2, 3, 4, 5, 6]"
  using update_arp_entry_refines_map [OF demo_driver demo_arp_inv demo_unicast(1-3), of "[1, 2, 3, 4, 5, 6]"] by auto

text \<open>C25. Without traffic the cache forgets: every call of \<open>etharp_tmr\<close> returns, a pending entry is free
  again after two calls and its packet with it, and after 240 calls (\<^verbatim>\<open>ARP_MAXAGE\<close>) every entry is
  empty and no packet waits.\<close>

theorem etharp_tmr_expires:
  assumes "arp_inv st" "i < ARP_TABLE_SIZE" "240 \<le> n \<or> e_state (arp_table st ! i) = ETHARP_STATE_PENDING \<and> 2 \<le> n"
  shows "\<exists>st'. etharp_tmrs A n st = Some st' \<and> arp_inv st'
    \<and> e_state (arp_table st' ! i) = ETHARP_STATE_EMPTY \<and> e_q (arp_table st' ! i) = NULL"
proof -
  obtain st' where st': "etharp_tmrs A n st = Some st'" "arp_inv st'" "arp_table st' = map (tick ^^ n) (arp_table st)"
    using etharp_tmrs_ok [OF assms(1)] by blast
  have T: "length (arp_table st) = ARP_TABLE_SIZE" "entry_ok (arp_table st ! i)" "entry_ok (arp_table st' ! i)"
    using assms(1,2) st'(2) by (auto simp: arp_inv_def table_ok_def)
  then have "\<not> live (arp_table st' ! i)"
    using ticks_expire [OF T(2) assms(3)] assms(2) by (simp add: st'(3))
  then show ?thesis
    using st' T(3) by (auto simp: entry_ok_def)
qed

theorem etharp_tmr_expires_witness:
  "\<exists>st'. etharp_tmrs demo_alloc 240 demo_full = Some st' \<and> e_state (arp_table st' ! 0) = ETHARP_STATE_EMPTY"
  using etharp_tmr_expires [OF demo_full_inv, of 0 240 demo_alloc] by (auto simp: ARP_TABLE_SIZE_def)

text \<open>An ARP request for our own address, as \<open>etharp_raw\<close> builds it, teaches us the sender: after
  \<open>etharp_arp_input\<close> the cache maps the sender's IP address to its Ethernet address.  The packet
  must not be one that waits in the table.\<close>

theorem arp_input_learns_sender:
  assumes "link_driver E" "arp_inv st" "queues (pbufs (arp_ps st)) (arp_table st) Q"
    and "pchain (pbufs (arp_ps st)) p as" "p \<noteq> NULL" "pbufs (arp_ps st) p = Some pb"
    and "\<And>i. i < length (arp_table st) \<Longrightarrow> set (Q i) \<inter> set as = {}"
    and "SIZEOF_ETHARP_PACKET \<le> unat (pb_len pb)" "length hwa = 6"
    and "dmem (arp_ps st) = arp_raw_bytes hwa ethbroadcast hwa ipa ethzero (netif_ip_addr netif) ARP_REQUEST (pb_payload pb) m"
    and "netif_ip_addr netif \<noteq> IPADDR_ANY" "ipa \<noteq> IPADDR_ANY" "\<not> ip4_addr_isbroadcast ipa netif" "\<not> ip_addr_ismulticast ipa"
  shows "\<exists>st'. etharp_arp_input E netif (netif_hwaddr netif) p st = Some st' \<and> arp_inv st' \<and> arp_map (arp_table st') ipa = Some hwa"
proof -
  have len: "length ethbroadcast = 6" "length ethzero = 6"
    by (simp_all add: ethbroadcast_def ethzero_def)
  note f = arp_raw_fields [OF assms(9) len(1) assms(9) len(2), where hdr = "pb_payload pb" and ipa = ipa and ipb = "netif_ip_addr netif"
      and opc = ARP_REQUEST and m = m, folded assms(10)]
  have acc: "arp_accepted st pb"
    using assms(8) f load16_read [OF f(5)] load16_read [OF f(6)] by (simp add: arp_accepted_def arp_header_ok_def)
  have us: "arp_for_us netif st pb"
    using assms(11) load32_read [OF f(2)] by (simp add: arp_for_us_def)
  have learn: "arp_learn E netif st pb = update_arp_entry E netif ipa hwa ETHARP_FLAG_TRY_HARD st"
    using us load32_read [OF f(1)] f(3) by (simp add: arp_learn_def)
  from link_driver.arp_input_ok [OF assms(1-7), of netif "netif_hwaddr netif"] acc obtain st' st1 err where
    st': "etharp_arp_input E netif (netif_hwaddr netif) p st = Some st'" "arp_inv st'"
    "arp_learn E netif st pb = Some (st1, err)" "arp_table st' = arp_table st1"
    by auto
  from update_arp_map_hit [OF assms(1,2,12-14), of hwa] st'(3) learn have "arp_map (arp_table st1) ipa = Some hwa"
    by auto
  with st' show ?thesis
    by auto
qed

theorem arp_input_learns_sender_witness:
  "\<exists>st'. etharp_arp_input demo_arp_env demo_netif (netif_hwaddr demo_netif) 100 demo_arp = Some st'
     \<and> arp_map (arp_table st') (IP4_ADDR 192 168 1 7) = Some [1, 2, 3, 4, 5, 6]"
proof -
  have "pchain (pbufs (arp_ps demo_arp)) 100 [100]" "pbufs (arp_ps demo_arp) 100 = Some (demo_pb 0 120 60 60)"
    by (simp_all add: demo_arp_def demo_pb_def)
  moreover have "SIZEOF_ETHARP_PACKET \<le> unat (pb_len (demo_pb 0 120 60 60))"
    by (simp add: demo_pb_def SIZEOF_ETHARP_PACKET_def SIZEOF_ETHARP_HDR_def SIZEOF_ETH_HDR_def ETH_PAD_SIZE_def)
  moreover have "dmem (arp_ps demo_arp) = arp_raw_bytes [1, 2, 3, 4, 5, 6] ethbroadcast [1, 2, 3, 4, 5, 6] (IP4_ADDR 192 168 1 7) ethzero
      (netif_ip_addr demo_netif) ARP_REQUEST (pb_payload (demo_pb 0 120 60 60)) (\<lambda>_. 0)"
    by (simp add: demo_arp_def demo_netif_def demo_pb_def)
  ultimately show ?thesis
    using arp_input_learns_sender [OF demo_driver demo_arp_inv demo_queues, of 100 "[100]" "demo_pb 0 120 60 60"
        "[1, 2, 3, 4, 5, 6]" "IP4_ADDR 192 168 1 7" demo_netif "\<lambda>_. 0"] demo_unicast
    by (auto simp: demo_netif_def)
qed

text \<open>Request and reply fit together: the reply that \<open>etharp_arp_input\<close> writes over a request is,
  byte for byte and in the whole memory, the packet \<open>etharp_raw\<close> builds for a reply from the
  asked station, with its own addresses as the sender and the asking station's as the target.\<close>

theorem arp_reply_is_raw_reply:
  assumes "length hwa = 6" "length hwb = 6"
  shows "arp_reply_bytes netif hwb hdr (arp_raw_bytes hwa ethbroadcast hwa ipa ethzero ipb ARP_REQUEST hdr m)
    = arp_raw_bytes hwb hwa hwb (netif_ip_addr netif) hwa ipa ARP_REPLY hdr m"
  using assms by (rule reply_answers_request)

theorem arp_reply_is_raw_reply_witness:
  "arp_reply_bytes demo_netif [6, 5, 4, 3, 2, 1] 120 (arp_raw_bytes [1, 2, 3, 4, 5, 6] ethbroadcast [1, 2, 3, 4, 5, 6] 7 ethzero 8 ARP_REQUEST 120 (\<lambda>_. 0))
    = arp_raw_bytes [6, 5, 4, 3, 2, 1] [1, 2, 3, 4, 5, 6] [6, 5, 4, 3, 2, 1] (netif_ip_addr demo_netif) [1, 2, 3, 4, 5, 6] 7 ARP_REPLY 120 (\<lambda>_. 0)"
  by (rule arp_reply_is_raw_reply) simp_all



end
