(* ===== verification/Tcp_Pcb.thy ===== *)
theory Tcp_Pcb
  imports Ip_Addr Pbuf Header_Fields
begin

text \<open>
  The data of TCP (\<^verbatim>\<open>include/lwip/tcp.h\<close>, \<^verbatim>\<open>include/lwip/tcp_impl.h\<close>) and the functions of \<^verbatim>\<open>tcp.c\<close> and \<^verbatim>\<open>tcp_in.c\<close>
  that only read the segment and change one control block: comparison of sequence numbers, access to the
  header, the announced window, the options.  The queues of segments are lists; a segment record has the
  address of its struct.  In this configuration there are no time stamps, no queue of out-of-sequence segments,
  no oversized buffers and no backlog, and the checksum of data is added up when it is queued.
\<close>

unbundle bit_operations_syntax

section \<open>Sequence numbers\<close>

definition TCP_SEQ_LT :: "u32 \<Rightarrow> u32 \<Rightarrow> bool" where "TCP_SEQ_LT a b \<longleftrightarrow> sint (a - b) < 0"
definition TCP_SEQ_LEQ :: "u32 \<Rightarrow> u32 \<Rightarrow> bool" where "TCP_SEQ_LEQ a b \<longleftrightarrow> sint (a - b) \<le> 0"
definition TCP_SEQ_GT :: "u32 \<Rightarrow> u32 \<Rightarrow> bool" where "TCP_SEQ_GT a b \<longleftrightarrow> sint (a - b) > 0"
definition TCP_SEQ_GEQ :: "u32 \<Rightarrow> u32 \<Rightarrow> bool" where "TCP_SEQ_GEQ a b \<longleftrightarrow> sint (a - b) \<ge> 0"
definition TCP_SEQ_BETWEEN :: "u32 \<Rightarrow> u32 \<Rightarrow> u32 \<Rightarrow> bool" where
  "TCP_SEQ_BETWEEN a b c \<longleftrightarrow> TCP_SEQ_GEQ a b \<and> TCP_SEQ_LEQ a c"

lemma sint_u32: "sint (w :: u32) = (if unat w < 2 ^ 31 then int (unat w) else int (unat w) - 2 ^ 32)"
proof -
  define x u where "x = sint w" and "u = unat w"
  have b: "- 2147483648 \<le> x" "x < 2147483648"
    using sint_greater_eq [of w] sint_less [of w] by (simp_all add: x_def)
  have "int u = x mod 4294967296"
    unfolding x_def u_def by (simp add: uint_sint take_bit_eq_mod)
  moreover have "x mod 4294967296 = (if 0 \<le> x then x else x + 4294967296)"
  proof (cases "0 \<le> x")
    case False
    have "x mod 4294967296 = (x + 4294967296) mod 4294967296"
      by simp
    also have "\<dots> = x + 4294967296"
      using False b by (intro mod_pos_pos_trivial) auto
    finally show ?thesis
      using False by simp
  qed (use b in \<open>simp add: mod_pos_pos_trivial\<close>)
  ultimately show ?thesis
    unfolding x_def [symmetric] u_def [symmetric] using b by (auto split: if_splits)
qed

lemma seq_unat:
  "TCP_SEQ_GEQ a b \<longleftrightarrow> unat (a - b) < 2 ^ 31" "TCP_SEQ_LT a b \<longleftrightarrow> 2 ^ 31 \<le> unat (a - b)"
  "TCP_SEQ_LEQ a b \<longleftrightarrow> a = b \<or> 2 ^ 31 \<le> unat (a - b)" "TCP_SEQ_GT a b \<longleftrightarrow> a \<noteq> b \<and> unat (a - b) < 2 ^ 31"
proof -
  define u where "u = unat (a - b)"
  have u: "u < 2 ^ 32" "u = 0 \<longleftrightarrow> a = b" "sint (a - b) = (if u < 2 ^ 31 then int u else int u - 2 ^ 32)"
    using unat_u32_lt [of "a - b"] sint_u32 [of "a - b"] by (auto simp: u_def unat_eq_zero)
  then show "TCP_SEQ_GEQ a b \<longleftrightarrow> unat (a - b) < 2 ^ 31" "TCP_SEQ_LT a b \<longleftrightarrow> 2 ^ 31 \<le> unat (a - b)"
    "TCP_SEQ_LEQ a b \<longleftrightarrow> a = b \<or> 2 ^ 31 \<le> unat (a - b)" "TCP_SEQ_GT a b \<longleftrightarrow> a \<noteq> b \<and> unat (a - b) < 2 ^ 31"
    unfolding TCP_SEQ_GEQ_def TCP_SEQ_LT_def TCP_SEQ_LEQ_def TCP_SEQ_GT_def u_def [symmetric] by (auto split: if_splits)
qed

text \<open>Within a window of less than half the sequence space the test is the one of the offsets.\<close>

lemma seq_between_offset:
  assumes "unat (c - b) < 2 ^ 31"
  shows "TCP_SEQ_BETWEEN a b c \<longleftrightarrow> unat (a - b) \<le> unat (c - b)"
proof -
  define x y where "x = unat (a - b)" and "y = unat (c - b)"
  have "a - c = (a - b) - (c - b)"
    by simp
  then have "unat (a - c) = (if y \<le> x then x - y else x + 2 ^ 32 - y)"
    unfolding x_def y_def using unat_sub_if' [of "a - b" "c - b"] by simp
  moreover have "x < 2 ^ 32" "y < 2 ^ 31"
    using assms unat_u32_lt [of "a - b"] by (simp_all add: x_def y_def)
  moreover have "a = c \<longleftrightarrow> x = y"
    unfolding x_def y_def by (metis diff_add_cancel word_unat_eq_iff)
  ultimately show ?thesis
    unfolding TCP_SEQ_BETWEEN_def seq_unat x_def [symmetric] y_def [symmetric] by (auto split: if_splits)
qed

section \<open>Control blocks and segments\<close>

datatype tcp_state = CLOSED | LISTEN | SYN_SENT | SYN_RCVD | ESTABLISHED | FIN_WAIT_1 | FIN_WAIT_2 | CLOSE_WAIT | CLOSING | LAST_ACK | TIME_WAIT

text \<open>The order of the enumeration.\<close>

fun state_num :: "tcp_state \<Rightarrow> nat" where
  "state_num CLOSED = 0" | "state_num LISTEN = 1" | "state_num SYN_SENT = 2" | "state_num SYN_RCVD = 3"
| "state_num ESTABLISHED = 4" | "state_num FIN_WAIT_1 = 5" | "state_num FIN_WAIT_2 = 6" | "state_num CLOSE_WAIT = 7"
| "state_num CLOSING = 8" | "state_num LAST_ACK = 9" | "state_num TIME_WAIT = 10"

instantiation tcp_state :: linorder
begin

definition less_eq_tcp_state :: "tcp_state \<Rightarrow> tcp_state \<Rightarrow> bool" where "s \<le> t \<longleftrightarrow> state_num s \<le> state_num t"
definition less_tcp_state :: "tcp_state \<Rightarrow> tcp_state \<Rightarrow> bool" where "s < t \<longleftrightarrow> state_num s < state_num t"

instance
proof
  fix s t :: tcp_state
  show "s \<le> t \<Longrightarrow> t \<le> s \<Longrightarrow> s = t"
    by (cases s; cases t) (simp_all add: less_eq_tcp_state_def)
qed (auto simp: less_eq_tcp_state_def less_tcp_state_def)

end

text \<open>\<^verbatim>\<open>struct tcp_seg\<close>; \<open>sg_addr\<close> is the address of the struct itself.\<close>

record tcp_seg =
  sg_addr :: addr
  sg_p :: addr
  sg_len :: u16
  sg_chksum :: u16
  sg_chksum_swapped :: bool
  sg_flags :: u8
  sg_tcphdr :: addr

text \<open>The receive and accept functions: those of the stack, or of the application.\<close>

datatype recv_fn = Tcp_recv_null | Recv_app nat
datatype accept_fn = Tcp_accept_null | Accept_app nat

record tcp_pcb =
  t_local_ip :: ip_addr
  t_remote_ip :: ip_addr
  t_so_options :: u8
  t_tos :: u8
  t_ttl :: u8
  t_state :: tcp_state
  t_prio :: u8
  t_callback_arg :: nat
  t_accept :: "accept_fn option"
  t_local_port :: u16
  t_remote_port :: u16
  t_flags :: u8
  rcv_nxt :: u32
  rcv_wnd :: u16
  rcv_ann_wnd :: u16
  rcv_ann_right_edge :: u32
  t_tmr :: u32
  polltmr :: u8
  pollinterval :: u8
  rtime :: u16
  t_mss :: u16
  rttest :: u32
  rtseq :: u32
  t_sa :: u16
  t_sv :: u16
  t_rto :: u16
  nrtx :: u8
  lastack :: u32
  dupacks :: u8
  cwnd :: u16
  ssthresh :: u16
  snd_nxt :: u32
  snd_wnd :: u16
  snd_wl1 :: u32
  snd_wl2 :: u32
  snd_lbb :: u32
  t_acked :: u16
  snd_buf :: u16
  snd_queuelen :: u16
  unsent :: "tcp_seg list"
  unacked :: "tcp_seg list"
  refused_data :: addr
  t_sent :: "nat option"
  t_recv :: "recv_fn option"
  t_connected :: "nat option"
  t_poll :: "nat option"
  t_errf :: "nat option"
  keep_idle :: u32
  persist_cnt :: u32
  persist_backoff :: u8
  keep_cnt_sent :: u8

record tcp_pcb_listen =
  l_local_ip :: ip_addr
  l_so_options :: u8
  l_tos :: u8
  l_ttl :: u8
  l_prio :: u8
  l_callback_arg :: nat
  l_accept :: "accept_fn option"
  l_local_port :: u16

text \<open>The globals of TCP.  \<open>tcp_port\<close> and \<open>tcp_iss\<close> are the static variables of \<^verbatim>\<open>tcp_new_port\<close> and \<^verbatim>\<open>tcp_next_iss\<close>.  A
  list linked through \<^verbatim>\<open>next\<close> is the list of the addresses of its elements.\<close>

record tcp =
  tcp_pcbs :: "addr \<Rightarrow> tcp_pcb option"
  tcp_lpcbs :: "addr \<Rightarrow> tcp_pcb_listen option"
  tcp_bound_pcbs :: "addr list"
  tcp_listen_pcbs :: "addr list"
  tcp_active_pcbs :: "addr list"
  tcp_tw_pcbs :: "addr list"
  tcp_input_pcb :: addr
  tcp_ticks :: u32
  tcp_timer :: u8
  tcp_port :: u16
  tcp_iss :: u32

text \<open>The calls of the application through the function pointers of a control block.\<close>

datatype tcp_event = Ev_accept err_t | Ev_sent u16 | Ev_recv addr err_t | Ev_connected err_t | Ev_poll

definition blank_tcp :: tcp where
  "blank_tcp = \<lparr>tcp_pcbs = Map.empty, tcp_lpcbs = Map.empty, tcp_bound_pcbs = [], tcp_listen_pcbs = [], tcp_active_pcbs = [],
     tcp_tw_pcbs = [], tcp_input_pcb = NULL, tcp_ticks = 0, tcp_timer = 0, tcp_port = 0xc000, tcp_iss = 6510\<rparr>"

definition TCP_MSS_u16 :: u16 where "TCP_MSS_u16 = of_nat TCP_MSS"
definition TCP_WND :: u16 where "TCP_WND = 4 * TCP_MSS_u16"
definition TCP_SND_BUF :: u16 where "TCP_SND_BUF = 4 * TCP_MSS_u16"
definition TCP_SND_QUEUELEN :: u16 where "TCP_SND_QUEUELEN = 4 * TCP_SND_BUF div TCP_MSS_u16"
definition TCP_HLEN :: u16 where "TCP_HLEN = 20"

definition TCP_FIN :: u8 where "TCP_FIN = 0x01"
definition TCP_SYN :: u8 where "TCP_SYN = 0x02"
definition TCP_RST :: u8 where "TCP_RST = 0x04"
definition TCP_PSH :: u8 where "TCP_PSH = 0x08"
definition TCP_ACK :: u8 where "TCP_ACK = 0x10"

definition TF_ACK_DELAY :: u8 where "TF_ACK_DELAY = 0x01"
definition TF_ACK_NOW :: u8 where "TF_ACK_NOW = 0x02"
definition TF_INFR :: u8 where "TF_INFR = 0x04"
definition TF_RXCLOSED :: u8 where "TF_RXCLOSED = 0x10"
definition TF_FIN :: u8 where "TF_FIN = 0x20"
definition TF_NODELAY :: u8 where "TF_NODELAY = 0x40"
definition TF_NAGLEMEMERR :: u8 where "TF_NAGLEMEMERR = 0x80"

text \<open>Offsets in \<^verbatim>\<open>struct tcp_hdr\<close>.\<close>

definition th_src :: nat where "th_src = 0"
definition th_dest :: nat where "th_dest = 2"
definition th_seqno :: nat where "th_seqno = 4"
definition th_ackno :: nat where "th_ackno = 8"
definition th_hdrlen_rsvd_flags :: nat where "th_hdrlen_rsvd_flags = 12"
definition th_wnd :: nat where "th_wnd = 14"
definition th_chksum :: nat where "th_chksum = 16"
definition th_urgp :: nat where "th_urgp = 18"

lemmas th_offsets = th_src_def th_dest_def th_seqno_def th_ackno_def th_hdrlen_rsvd_flags_def th_wnd_def th_chksum_def th_urgp_def

definition TCPH_HDRLEN :: "bytes \<Rightarrow> addr \<Rightarrow> u16" where
  "TCPH_HDRLEN m hdr = drop_bit 12 (lwip_ntohs (load16 m (hdr + th_hdrlen_rsvd_flags)))"

definition TCPH_FLAGS :: "bytes \<Rightarrow> addr \<Rightarrow> u8" where
  "TCPH_FLAGS m hdr = ucast (lwip_ntohs (load16 m (hdr + th_hdrlen_rsvd_flags)) AND 0x3f)"

definition TCPH_HDRLEN_FLAGS_SET :: "bytes \<Rightarrow> addr \<Rightarrow> u16 \<Rightarrow> u8 \<Rightarrow> bytes" where
  "TCPH_HDRLEN_FLAGS_SET m hdr len flags =
     mem_write m (hdr + th_hdrlen_rsvd_flags) (le_bytes16 (lwip_htons (push_bit 12 len OR ucast flags)))"

definition TCPH_SET_FLAG :: "bytes \<Rightarrow> addr \<Rightarrow> u8 \<Rightarrow> bytes" where
  "TCPH_SET_FLAG m hdr flags =
     mem_write m (hdr + th_hdrlen_rsvd_flags) (le_bytes16 (load16 m (hdr + th_hdrlen_rsvd_flags) OR lwip_htons (ucast flags)))"

definition TCPH_FLAGS_SET :: "bytes \<Rightarrow> addr \<Rightarrow> u8 \<Rightarrow> bytes" where
  "TCPH_FLAGS_SET m hdr flags =
     mem_write m (hdr + th_hdrlen_rsvd_flags)
       (le_bytes16 (load16 m (hdr + th_hdrlen_rsvd_flags) AND lwip_htons (NOT 0x3f) OR lwip_htons (ucast flags)))"

text \<open>The sequence number of a segment in host order, and its length in sequence space.\<close>

definition seg_seqno :: "bytes \<Rightarrow> tcp_seg \<Rightarrow> u32" where
  "seg_seqno m seg = lwip_ntohl (load32 m (sg_tcphdr seg + th_seqno))"

definition TCP_TCPLEN :: "bytes \<Rightarrow> tcp_seg \<Rightarrow> u32" where
  "TCP_TCPLEN m seg = ucast (sg_len seg) + (if TCPH_FLAGS m (sg_tcphdr seg) AND (TCP_FIN OR TCP_SYN) \<noteq> 0 then 1 else 0)"

section \<open>Options\<close>

text \<open>The loop of \<^verbatim>\<open>tcp_parseopt\<close> over the options at \<open>opts\<close>; the result is the maximum segment size.  The indices stay
  below 300, far from the width of their type.\<close>

function parse_opts :: "bytes \<Rightarrow> addr \<Rightarrow> nat \<Rightarrow> nat \<Rightarrow> u16 \<Rightarrow> u16" where
  "parse_opts m opts max_c c mss =
     (if c < max_c then
        let opt = m (opts + c)
        in if opt = 0 then mss
           else if opt = 1 then parse_opts m opts max_c (c + 1) mss
           else if opt = 2 then
             if m (opts + (c + 1)) \<noteq> 4 \<or> c + 4 > max_c then mss
             else
               let v = push_bit 8 (ucast (m (opts + (c + 2)))) OR ucast (m (opts + (c + 3)))
               in parse_opts m opts max_c (c + 4) (if v > TCP_MSS_u16 \<or> v = 0 then TCP_MSS_u16 else v)
           else if m (opts + (c + 1)) = 0 then mss
           else parse_opts m opts max_c (c + unat (m (opts + (c + 1)))) mss
      else mss)"
  by auto
termination
  by (relation "measure (\<lambda>(m, opts, max_c, c, mss). max_c - c)") (auto intro!: diff_less_mono2 simp: unat_gt_0)

declare parse_opts.simps [simp del]

definition tcp_parseopt :: "bytes \<Rightarrow> addr \<Rightarrow> tcp_pcb \<Rightarrow> tcp_pcb" where
  "tcp_parseopt m tcphdr pcb =
     (if TCPH_HDRLEN m tcphdr > 5
      then pcb\<lparr>t_mss := parse_opts m (tcphdr + unat TCP_HLEN) (unat (push_bit 2 (TCPH_HDRLEN m tcphdr - 5))) 0 (t_mss pcb)\<rparr>
      else pcb)"

text \<open>\<^verbatim>\<open>TCP_BUILD_MSS_OPTION\<close>, as the octets it stores.\<close>

definition TCP_BUILD_MSS_OPTION :: "u8 list" where
  "TCP_BUILD_MSS_OPTION = le_bytes32 (lwip_htonl (push_bit 24 2 OR push_bit 16 4 OR push_bit 8 (ucast (TCP_MSS_u16 div 256)) OR ucast (TCP_MSS_u16 AND 255)))"

section \<open>The announced window\<close>

definition tcp_update_rcv_ann_wnd :: "tcp_pcb \<Rightarrow> tcp_pcb \<times> u32" where
  "tcp_update_rcv_ann_wnd pcb =
     (let new_right_edge = rcv_nxt pcb + ucast (rcv_wnd pcb)
      in if TCP_SEQ_GEQ new_right_edge (rcv_ann_right_edge pcb + ucast (min (TCP_WND div 2) (t_mss pcb)))
         then (pcb\<lparr>rcv_ann_wnd := rcv_wnd pcb\<rparr>, new_right_edge - rcv_ann_right_edge pcb)
         else if TCP_SEQ_GT (rcv_nxt pcb) (rcv_ann_right_edge pcb) then (pcb\<lparr>rcv_ann_wnd := 0\<rparr>, 0)
         else (pcb\<lparr>rcv_ann_wnd := ucast (rcv_ann_right_edge pcb - rcv_nxt pcb)\<rparr>, 0))"




text \<open>Option lists as a sender writes them, and the maximum segment size they set.\<close>

datatype tcp_opt = Nop | Mss u16 | Other u8 "u8 list"

fun opt_bytes :: "tcp_opt \<Rightarrow> u8 list" where
  "opt_bytes Nop = [1]"
| "opt_bytes (Mss v) = [2, 4, ucast (drop_bit 8 v), ucast v]"
| "opt_bytes (Other k bs) = k # of_nat (length bs + 2) # bs"

fun opt_ok :: "tcp_opt \<Rightarrow> bool" where
  "opt_ok (Other k bs) \<longleftrightarrow> 2 < k \<and> length bs < 254"
| "opt_ok _ \<longleftrightarrow> True"

fun opt_mss :: "u16 \<Rightarrow> tcp_opt \<Rightarrow> u16" where
  "opt_mss mss (Mss v) = (if v > TCP_MSS_u16 \<or> v = 0 then TCP_MSS_u16 else v)"
| "opt_mss mss _ = mss"

lemma mem_read_nth_add: "mem_read m a n = xs @ ys \<Longrightarrow> i < length xs \<Longrightarrow> m (a + i) = xs ! i"
  by (metis length_append length_mem_read nth_append nth_mem_read trans_less_add1)

lemma bytes16_join: "push_bit 8 (ucast (ucast (drop_bit 8 v) :: u8)) OR ucast (ucast v :: u8) = (v :: u16)"
  by (rule bit_word_eqI) (auto simp: bit_simps)

lemma parse_opts_reads:
  assumes "list_all opt_ok os" "mem_read m (opts + c) (max_c - c) = concat (map opt_bytes os) @ replicate k 0" "c \<le> max_c"
  shows "parse_opts m opts max_c c mss = foldl opt_mss mss os"
  using assms
proof (induction os arbitrary: c mss)
  case Nil
  show ?case
  proof (cases "c < max_c")
    case True
    then have "k = max_c - c"
      using arg_cong [OF Nil.prems(2), of length] by simp
    then have "m (opts + c) = 0"
      using nth_mem_read [of 0 "max_c - c" m "opts + c"] Nil.prems(2) True by simp
    then show ?thesis
      by (simp add: parse_opts.simps)
  qed (simp add: parse_opts.simps)
next
  case (Cons x os)
  let ?xs = "opt_bytes x" and ?ys = "concat (map opt_bytes os) @ replicate k 0"
  have read: "mem_read m (opts + c) (max_c - c) = ?xs @ ?ys"
    using Cons.prems(2) by simp
  have len: "length ?xs \<le> max_c - c" "0 < length ?xs"
    using arg_cong [OF read, of length] by (simp, cases x) simp_all
  have b: "m (opts + (c + i)) = ?xs ! i" if "i < length ?xs" for i
    using mem_read_nth_add [OF read that] by (simp add: add.assoc)
  have "length ?xs + (max_c - (c + length ?xs)) = max_c - c"
    using len by simp
  then have "mem_read m (opts + c) (length ?xs + (max_c - (c + length ?xs))) = ?xs @ ?ys"
    using read by (simp only:)
  then have rest: "mem_read m (opts + (c + length ?xs)) (max_c - (c + length ?xs)) = ?ys"
    unfolding mem_read_add by (simp add: add.assoc append_eq_append_conv)
  have ih: "parse_opts m opts max_c (c + length ?xs) mss' = foldl opt_mss mss' os" for mss'
    using Cons.IH [OF _ rest] Cons.prems(1,3) len(1) by simp
  have "c < max_c"
    using len by linarith
  show ?case
  proof (cases x)
    case Nop
    then show ?thesis
      using ih [of mss] b [of 0] \<open>c < max_c\<close> by (subst parse_opts.simps) simp
  next
    case (Mss v)
    have "v = push_bit 8 (ucast (?xs ! 2)) OR ucast (?xs ! 3)"
      using bytes16_join [of v] by (simp add: Mss)
    moreover have "\<not> max_c < c + 4"
      using len Mss by simp
    moreover have "parse_opts m opts max_c (c + 4) (opt_mss mss x) = foldl opt_mss (opt_mss mss x) os"
      using ih [of "opt_mss mss x"] by (simp add: Mss eval_nat_numeral)
    ultimately show ?thesis
      using b [of 0] b [of 1] b [of 2] b [of 3] \<open>c < max_c\<close> Mss by (subst parse_opts.simps) (simp add: Let_def)
  next
    case (Other kd bs)
    then have ok: "2 < kd" "length bs < 254"
      using Cons.prems(1) by simp_all
    have "unat (of_nat (length bs + 2) :: u8) = length bs + 2"
      using ok(2) by (subst unat_of_nat) simp
    moreover from this have "(of_nat (length bs + 2) :: u8) \<noteq> 0"
      by (metis add_2_eq_Suc' nat.distinct(1) unat_0)
    moreover have "kd \<noteq> 0" "kd \<noteq> 1" "kd \<noteq> 2"
      using ok(1) by auto
    ultimately show ?thesis
      using ih [of mss] b [of 0] b [of 1] \<open>c < max_c\<close> Other by (subst parse_opts.simps) (simp add: Let_def)
  qed
qed

text \<open>C38. \<^verbatim>\<open>tcp_parseopt\<close> reads option lists back: if the options of a header are an encoding of no-operations, maximum segment
  size options and other options, padded with end-of-list octets, the segment size becomes the last one that is given,
  limited to \<^verbatim>\<open>TCP_MSS\<close> (which also replaces 0), and is unchanged if there is none.\<close>

theorem tcp_parseopt_roundtrip:
  assumes "list_all opt_ok os" "5 \<le> unat (TCPH_HDRLEN m hdr)"
    "mem_read m (hdr + 20) (4 * (unat (TCPH_HDRLEN m hdr) - 5)) = concat (map opt_bytes os) @ replicate k 0"
  shows "tcp_parseopt m hdr pcb = pcb\<lparr>t_mss := foldl opt_mss (t_mss pcb) os\<rparr>"
proof -
  define l where "l = TCPH_HDRLEN m hdr"
  have "unat l < 16"
    using unat_u16_lt [of "lwip_ntohs (load16 m (hdr + th_hdrlen_rsvd_flags))"]
    by (simp add: l_def TCPH_HDRLEN_def drop_bit_eq_div unat_div div_less_iff_less_mult)
  moreover have "unat (l - 5) = unat l - 5"
    using assms(2) by (simp add: l_def unat_sub word_le_nat_alt)
  ultimately have mx: "unat (push_bit 2 (l - 5)) = 4 * (unat l - 5)"
    unfolding push_bit_eq_mult by (subst unat_mult_lem [THEN iffD1]) simp_all
  show ?thesis
  proof (cases "l = 5")
    case True
    then have "concat (map opt_bytes os) = []"
      using assms(3) by (simp add: l_def)
    then have "os = []"
      by (cases os; cases "hd os") auto
    then show ?thesis
      using True by (simp add: tcp_parseopt_def l_def)
  next
    case False
    then have "l > 5"
      using assms(2) by (simp add: l_def word_less_nat_alt word_unat_eq_iff)
    then show ?thesis
      using parse_opts_reads [OF assms(1), of m "hdr + 20" 0 "4 * (unat l - 5)" k "t_mss pcb"] assms(3) mx
      by (simp add: tcp_parseopt_def l_def [symmetric] TCP_HLEN_def)
  qed
qed


text \<open>A control block as \<^verbatim>\<open>tcp_alloc\<close> leaves it, apart from addresses and sequence numbers.\<close>

definition blank_pcb :: tcp_pcb where
  "blank_pcb = \<lparr>t_local_ip = 0, t_remote_ip = 0, t_so_options = 0, t_tos = 0, t_ttl = 0, t_state = CLOSED, t_prio = 0, t_callback_arg = 0,
     t_accept = None, t_local_port = 0, t_remote_port = 0, t_flags = 0, rcv_nxt = 0, rcv_wnd = 0, rcv_ann_wnd = 0, rcv_ann_right_edge = 0,
     t_tmr = 0, polltmr = 0, pollinterval = 0, rtime = 0, t_mss = 0, rttest = 0, rtseq = 0, t_sa = 0, t_sv = 0, t_rto = 0, nrtx = 0,
     lastack = 0, dupacks = 0, cwnd = 0, ssthresh = 0, snd_nxt = 0, snd_wnd = 0, snd_wl1 = 0, snd_wl2 = 0, snd_lbb = 0, t_acked = 0,
     snd_buf = 0, snd_queuelen = 0, unsent = [], unacked = [], refused_data = NULL, t_sent = None, t_recv = None, t_connected = None,
     t_poll = None, t_errf = None, keep_idle = 0, persist_cnt = 0, persist_backoff = 0, keep_cnt_sent = 0\<rparr>"


theorem tcp_parseopt_roundtrip_witness:
  "let m = mem_write (\<lambda>_. 0) 100 (replicate 12 0 @ [0x80, 2] @ replicate 6 0 @ [1, 3, 3, 7, 2, 4, 5, 0xb4, 4, 2, 0, 0])
   in tcp_parseopt m 100 blank_pcb = blank_pcb\<lparr>t_mss := 1460\<rparr>"
proof -
  define m :: bytes where "m = mem_write (\<lambda>_. 0) 100 (replicate 12 0 @ [0x80, 2] @ replicate 6 0 @ [1, 3, 3, 7, 2, 4, 5, 0xb4, 4, 2, 0, 0])"
  have l: "TCPH_HDRLEN m 100 = 8"
    by (simp add: TCPH_HDRLEN_def m_def th_offsets load16_def lwip_ntohs_def lwip_htons_def mem_write_apply nth_append del: mem_write.simps)
  have "mem_read m 120 12 = [1, 3, 3, 7, 2, 4, 5, 0xb4, 4, 2, 0, 0]"
    by (simp add: m_def mem_read_def upt_rec mem_write_apply nth_append del: mem_write.simps)
  also have "\<dots> = concat (map opt_bytes [Nop, Other 3 [7], Mss 1460, Other 4 []]) @ replicate 2 0"
    by code_simp
  finally have r: "mem_read m 120 12 = concat (map opt_bytes [Nop, Other 3 [7], Mss 1460, Other 4 []]) @ replicate 2 0" .
  have idx: "100 + 20 = (120 :: nat)" "4 * (unat (TCPH_HDRLEN m 100) - 5) = 12" "5 \<le> unat (TCPH_HDRLEN m 100)"
    by (simp_all add: l)
  have "tcp_parseopt m 100 blank_pcb = blank_pcb\<lparr>t_mss := foldl opt_mss (t_mss blank_pcb) [Nop, Other 3 [7], Mss 1460, Other 4 []]\<rparr>"
    by (rule tcp_parseopt_roundtrip [where m = m and hdr = 100 and k = 2, unfolded idx(1,2), OF _ idx(3) r]) simp
  also have "foldl opt_mss (t_mss blank_pcb) [Nop, Other 3 [7], Mss 1460, Other 4 []] = 1460"
    by (simp add: TCP_MSS_u16_def TCP_MSS_def)
  finally show ?thesis
    unfolding Let_def m_def .
qed


end
