(* ===== verification/Ip.thy ===== *)
theory Ip
  imports Etharp_Props Tcp_Pcb
begin

text \<open>
  The Internet layer: \<^verbatim>\<open>core/ipv4/ip.c\<close> without its input function, which is in \<open>Ip_Input\<close>.  The record
  \<open>net\<close> holds the globals of the stack: the ARP module with the packet buffers, the counter
  \<^verbatim>\<open>ip_id\<close>, the interfaces, the addresses of the packet being processed, the control blocks of UDP, raw
  sockets and TCP and the IGMP groups.  A list linked through \<^verbatim>\<open>next\<close> is the list of the addresses of its elements.
  An interface is denoted by its position in \<^verbatim>\<open>netif_list\<close>.  The record \<open>net_env\<close> holds what the layer
  calls through function pointers (\<^verbatim>\<open>netif->output\<close>, \<^verbatim>\<open>netif->igmp_mac_filter\<close>, \<^verbatim>\<open>pcb->recv\<close> and the other functions of the
  application), the random numbers of the C library and fragmentation.
\<close>

section \<open>State\<close>

record udp_pcb =
  local_ip :: ip_addr
  remote_ip :: ip_addr
  so_options :: u8
  pcb_tos :: u8
  pcb_ttl :: u8
  pcb_flags :: u8
  local_port :: u16
  remote_port :: u16
  multicast_ip :: ip_addr
  pcb_recv :: "(nat \<times> nat) option"

datatype igmp_state = IGMP_GROUP_NON_MEMBER | IGMP_GROUP_DELAYING_MEMBER | IGMP_GROUP_IDLE_MEMBER

record igmp_group =
  g_netif :: nat
  group_address :: ip_addr
  last_reporter_flag :: bool
  group_state :: igmp_state
  g_timer :: u16
  g_use :: u8

record raw_pcb =
  raw_local_ip :: ip_addr
  raw_remote_ip :: ip_addr
  raw_so_options :: u8
  raw_tos :: u8
  raw_ttl :: u8
  raw_protocol :: u8
  raw_pcb_recv :: "(nat \<times> nat) option"

record 'h net =
  net_arp :: "'h arp"
  ip_id :: u16
  netif_list :: "netif list"
  netif_default :: "nat option"
  current_iphdr_src :: ip_addr
  current_iphdr_dest :: ip_addr
  udp_pcbs :: "addr list"
  pcbs :: "addr \<Rightarrow> udp_pcb option"
  dhcp_pcb :: "nat \<Rightarrow> addr"
  raw_pcbs :: "addr list"
  raws :: "addr \<Rightarrow> raw_pcb option"
  igmp_group_list :: "addr list"
  igmp_groups :: "addr \<Rightarrow> igmp_group option"
  net_tcp :: tcp

record 'h net_env =
  ne_alloc :: "'h alloc"
  ne_output :: "nat \<Rightarrow> addr \<Rightarrow> ip_addr \<Rightarrow> 'h net \<Rightarrow> ('h net \<times> err_t) option"
  ne_ip_frag :: "addr \<Rightarrow> nat \<Rightarrow> ip_addr \<Rightarrow> 'h net \<Rightarrow> ('h net \<times> err_t) option"
  ne_recv :: "nat \<Rightarrow> nat \<Rightarrow> addr \<Rightarrow> addr \<Rightarrow> ip_addr \<Rightarrow> u16 \<Rightarrow> 'h net \<Rightarrow> 'h net option"
  ne_raw_recv :: "nat \<Rightarrow> nat \<Rightarrow> addr \<Rightarrow> addr \<Rightarrow> ip_addr \<Rightarrow> 'h net \<Rightarrow> ('h net \<times> bool) option"
  ne_tcp_event :: "nat \<Rightarrow> nat \<Rightarrow> addr \<Rightarrow> tcp_event \<Rightarrow> 'h net \<Rightarrow> ('h net \<times> err_t) option"
  ne_tcp_err :: "nat \<Rightarrow> nat \<Rightarrow> err_t \<Rightarrow> 'h net \<Rightarrow> 'h net option"
  ne_mac_filter :: "nat \<Rightarrow> (ip_addr \<Rightarrow> bool \<Rightarrow> 'h net \<Rightarrow> 'h net option) option"
  ne_rand :: "'h net \<Rightarrow> 'h net \<times> u32"

abbreviation net_ps :: "'h net \<Rightarrow> 'h pstate" where
  "net_ps n \<equiv> arp_ps (net_arp n)"

definition set_ps :: "'h pstate \<Rightarrow> 'h net \<Rightarrow> 'h net" where
  "set_ps ps n = n\<lparr>net_arp := (net_arp n)\<lparr>arp_ps := ps\<rparr>\<rparr>"

definition set_dmem :: "bytes \<Rightarrow> 'h net \<Rightarrow> 'h net" where
  "set_dmem m n = set_ps ((net_ps n)\<lparr>dmem := m\<rparr>) n"

text \<open>The packet buffer functions on the whole state.\<close>

definition net_free :: "'h net_env \<Rightarrow> addr \<Rightarrow> 'h net \<Rightarrow> 'h net option" where
  "net_free E p n = do { (ps, _) \<leftarrow> pbuf_free (ne_alloc E) (net_ps n) p; Some (set_ps ps n) }"

definition net_header :: "addr \<Rightarrow> u16 \<Rightarrow> 'h net \<Rightarrow> ('h net \<times> bool) option" where
  "net_header p inc n = do { (ps, fail) \<leftarrow> pbuf_header (net_ps n) p inc; Some (set_ps ps n, fail \<noteq> 0) }"

definition net_alloc :: "'h net_env \<Rightarrow> pbuf_layer \<Rightarrow> u16 \<Rightarrow> pbuf_type \<Rightarrow> 'h net \<Rightarrow> ('h net \<times> addr) option" where
  "net_alloc E layer len type n =
     do { (ps, p) \<leftarrow> pbuf_alloc (ne_alloc E) (net_ps n) layer len type; Some (set_ps ps n, p) }"

text \<open>The buffers of a chain, as the checksum functions walk over them.\<close>

partial_function (option) chain_bufs :: "store \<Rightarrow> bytes \<Rightarrow> addr \<Rightarrow> buf list option" where
  "chain_bufs st m p =
     (if p \<noteq> NULL then
        do { pb \<leftarrow> st p; bs \<leftarrow> chain_bufs st m (pb_next pb);
             Some ((pb_payload pb, mem_read m (pb_payload pb) (unat (pb_len pb))) # bs) }
      else Some [])"

abbreviation LWIP_CHKSUM :: "addr \<Rightarrow> u8 list \<Rightarrow> u16" where
  "LWIP_CHKSUM \<equiv> lwip_standard_chksum_2"

section \<open>Headers\<close>

definition NETIF_FLAG_UP :: u8 where "NETIF_FLAG_UP = 0x01"
definition NETIF_FLAG_IGMP :: u8 where "NETIF_FLAG_IGMP = 0x80"
definition IP_HLEN :: u16 where "IP_HLEN = 20"
definition IP_PROTO_ICMP :: u8 where "IP_PROTO_ICMP = 1"
definition IP_PROTO_IGMP :: u8 where "IP_PROTO_IGMP = 2"
definition IP_PROTO_UDP :: u8 where "IP_PROTO_UDP = 17"
definition IP_PROTO_TCP :: u8 where "IP_PROTO_TCP = 6"
definition IP_MF :: u16 where "IP_MF = 0x2000"
definition IP_OFFMASK :: u16 where "IP_OFFMASK = 0x1fff"

text \<open>Offsets in \<^verbatim>\<open>struct ip_hdr\<close>.\<close>

definition ih_v_hl_tos :: nat where "ih_v_hl_tos = 0"
definition ih_len :: nat where "ih_len = 2"
definition ih_id :: nat where "ih_id = 4"
definition ih_offset :: nat where "ih_offset = 6"
definition ih_ttl :: nat where "ih_ttl = 8"
definition ih_proto :: nat where "ih_proto = 9"
definition ih_chksum :: nat where "ih_chksum = 10"
definition ih_src :: nat where "ih_src = 12"
definition ih_dest :: nat where "ih_dest = 16"

definition IPH_V :: "bytes \<Rightarrow> addr \<Rightarrow> u16" where
  "IPH_V m hdr = drop_bit 12 (lwip_ntohs (load16 m (hdr + ih_v_hl_tos)))"

definition IPH_HL :: "bytes \<Rightarrow> addr \<Rightarrow> u16" where
  "IPH_HL m hdr = drop_bit 8 (lwip_ntohs (load16 m (hdr + ih_v_hl_tos))) AND 0x0f"

definition LWIP_MAKE_U16 :: "u8 \<Rightarrow> u8 \<Rightarrow> u16" where
  "LWIP_MAKE_U16 a b = push_bit 8 (ucast a) OR ucast b"

definition netif_is_up :: "netif \<Rightarrow> bool" where
  "netif_is_up netif \<longleftrightarrow> netif_flags netif AND NETIF_FLAG_UP \<noteq> 0"

section \<open>Routing\<close>

definition ip_route :: "ip_addr \<Rightarrow> 'h net \<Rightarrow> nat option" where
  "ip_route dest n =
     (case find (\<lambda>i. netif_is_up (netif_list n ! i)
              \<and> ip_addr_netcmp dest (netif_ip_addr (netif_list n ! i)) (netif_netmask (netif_list n ! i)))
            [0..<length (netif_list n)] of
        Some i \<Rightarrow> Some i
      | None \<Rightarrow>
          (case netif_default n of
             None \<Rightarrow> None
           | Some i \<Rightarrow> if netif_is_up (netif_list n ! i) then Some i else None))"

section \<open>Output\<close>

text \<open>The sum over the options, as 16-bit words of memory.\<close>

fun opt_sum :: "u32 \<Rightarrow> u8 list \<Rightarrow> u32" where
  "opt_sum acc (a # b # bs) = opt_sum (acc + ucast (ld16 a b)) bs"
| "opt_sum acc _ = acc"

text \<open>The fields of the header in the order the code fills them in, with the checksum added up on the
  way; \<open>chk_sum\<close> is the sum of the options.\<close>

definition ip_fill_header ::
  "u32 \<Rightarrow> u16 \<Rightarrow> u8 \<Rightarrow> u8 \<Rightarrow> u8 \<Rightarrow> u16 \<Rightarrow> u16 \<Rightarrow> ip_addr \<Rightarrow> ip_addr \<Rightarrow> addr \<Rightarrow> bytes \<Rightarrow> bytes" where
  "ip_fill_header chk_sum ip_hlen ttl tos proto tot_len ident src dest iphdr m =
     (let m = mem_write m (iphdr + ih_ttl) [ttl];
          m = mem_write m (iphdr + ih_proto) [proto];
          chk_sum = chk_sum + ucast (LWIP_MAKE_U16 proto ttl);
          m = mem_write m (iphdr + ih_dest) (le_bytes32 dest);
          chk_sum = chk_sum + (dest AND 0xFFFF);
          chk_sum = chk_sum + drop_bit 16 dest;
          v_hl_tos = lwip_htons (push_bit 12 4 OR push_bit 8 (ip_hlen div 4) OR ucast tos);
          m = mem_write m (iphdr + ih_v_hl_tos) (le_bytes16 v_hl_tos);
          chk_sum = chk_sum + ucast v_hl_tos;
          m = mem_write m (iphdr + ih_len) (le_bytes16 (lwip_htons tot_len));
          chk_sum = chk_sum + ucast (lwip_htons tot_len);
          m = mem_write m (iphdr + ih_offset) (le_bytes16 0);
          m = mem_write m (iphdr + ih_id) (le_bytes16 (lwip_htons ident));
          chk_sum = chk_sum + ucast (lwip_htons ident);
          m = mem_write m (iphdr + ih_src) (le_bytes32 src);
          chk_sum = chk_sum + (src AND 0xFFFF);
          chk_sum = chk_sum + drop_bit 16 src;
          chk_sum = drop_bit 16 chk_sum + (chk_sum AND 0xFFFF);
          chk_sum = drop_bit 16 chk_sum + chk_sum;
          chk_sum = NOT chk_sum
      in mem_write m (iphdr + ih_chksum) (le_bytes16 (ucast chk_sum)))"

text \<open>\<^verbatim>\<open>ip_output_if_opt\<close>: \<open>dest = None\<close> is \<^verbatim>\<open>IP_HDRINCL\<close>, and \<open>IPADDR_ANY\<close> for \<open>src\<close> also stands for a
  null pointer.\<close>

definition ip_send :: "'h net_env \<Rightarrow> addr \<Rightarrow> ip_addr \<Rightarrow> nat \<Rightarrow> 'h net \<Rightarrow> ('h net \<times> err_t) option" where
  "ip_send E p dest netif n =
     do {
       pb \<leftarrow> pbufs (net_ps n) p;
       let mtu = netif_mtu (netif_list n ! netif);
       if mtu \<noteq> 0 \<and> pb_tot_len pb > mtu then ne_ip_frag E p netif dest n
       else ne_output E netif p dest n
     }"

definition ip_output_if_opt ::
  "'h net_env \<Rightarrow> addr \<Rightarrow> ip_addr \<Rightarrow> ip_addr option \<Rightarrow> u8 \<Rightarrow> u8 \<Rightarrow> u8 \<Rightarrow> nat \<Rightarrow> u8 list \<Rightarrow> 'h net \<Rightarrow> ('h net \<times> err_t) option"
where
  "ip_output_if_opt E p src dest ttl tos proto netif ip_options n =
     (case dest of
        Some dest \<Rightarrow> do {
          let optlen = length ip_options;
          let optlen_aligned = (optlen + 3) div 4 * 4;
          (n, fail) \<leftarrow> (if optlen \<noteq> 0 then net_header p (of_nat optlen_aligned) n else Some (n, False));
          if fail then Some (n, ERR_BUF)
          else do {
            pb \<leftarrow> pbufs (net_ps n) p;
            let opts = (if optlen \<noteq> 0 then ip_options @ replicate (optlen_aligned - optlen) 0 else []);
            let n = set_dmem (mem_write (dmem (net_ps n)) (pb_payload pb) opts) n;
            (n, fail) \<leftarrow> net_header p IP_HLEN n;
            if fail then Some (n, ERR_BUF)
            else do {
              pb \<leftarrow> pbufs (net_ps n) p;
              let src = (if src = IPADDR_ANY then netif_ip_addr (netif_list n ! netif) else src);
              let m = ip_fill_header (opt_sum 0 opts) (IP_HLEN + of_nat optlen_aligned) ttl tos proto
                        (pb_tot_len pb) (ip_id n) src dest (pb_payload pb) (dmem (net_ps n));
              ip_send E p dest netif ((set_dmem m n)\<lparr>ip_id := ip_id n + 1\<rparr>)
            }
          }
        }
      | None \<Rightarrow> do {
          pb \<leftarrow> pbufs (net_ps n) p;
          ip_send E p (load32 (dmem (net_ps n)) (pb_payload pb + ih_dest)) netif n
        })"

definition ip_output_if ::
  "'h net_env \<Rightarrow> addr \<Rightarrow> ip_addr \<Rightarrow> ip_addr option \<Rightarrow> u8 \<Rightarrow> u8 \<Rightarrow> u8 \<Rightarrow> nat \<Rightarrow> 'h net \<Rightarrow> ('h net \<times> err_t) option" where
  "ip_output_if E p src dest ttl tos proto netif n = ip_output_if_opt E p src dest ttl tos proto netif [] n"

definition ip_output ::
  "'h net_env \<Rightarrow> addr \<Rightarrow> ip_addr \<Rightarrow> ip_addr \<Rightarrow> u8 \<Rightarrow> u8 \<Rightarrow> u8 \<Rightarrow> 'h net \<Rightarrow> ('h net \<times> err_t) option" where
  "ip_output E p src dest ttl tos proto n =
     (case ip_route dest n of
        None \<Rightarrow> Some (n, ERR_RTE)
      | Some netif \<Rightarrow> ip_output_if E p src (Some dest) ttl tos proto netif n)"

section \<open>Forwarding\<close>

text \<open>The incremental update of a checksum when the first octet of a 16-bit word goes down by \<open>d div 256\<close>:
  the same test and addition in \<^verbatim>\<open>ip_forward\<close> (the TTL, \<open>d = 0x100\<close>) and in \<^verbatim>\<open>icmp_input\<close> (the type).\<close>

definition chksum_raise :: "u16 \<Rightarrow> u16 \<Rightarrow> u16" where
  "chksum_raise d chksum =
     (if chksum \<ge> lwip_htons (0xffff - d) then chksum + lwip_htons d + 1 else chksum + lwip_htons d)"

definition ip_forward_header :: "addr \<Rightarrow> bytes \<Rightarrow> bytes" where
  "ip_forward_header iphdr m =
     mem_write m (iphdr + ih_chksum) (le_bytes16 (chksum_raise 0x100 (load16 m (iphdr + ih_chksum))))"

definition ip_forward ::
  "'h net_env \<Rightarrow> (addr \<Rightarrow> 'h net \<Rightarrow> 'h net option) \<Rightarrow> addr \<Rightarrow> addr \<Rightarrow> nat \<Rightarrow> 'h net \<Rightarrow> 'h net option" where
  "ip_forward E icmp_time_exceeded p iphdr inp n =
     (if ip_addr_islinklocal (current_iphdr_dest n) then Some n
      else case ip_route (current_iphdr_dest n) n of
        None \<Rightarrow> Some n
      | Some netif \<Rightarrow>
          if netif = inp then Some n
          else do {
            let m = dmem (net_ps n);
            let n = set_dmem (mem_write m (iphdr + ih_ttl) [m (iphdr + ih_ttl) - 1]) n;
            let m = dmem (net_ps n);
            if m (iphdr + ih_ttl) = 0 then
              if m (iphdr + ih_proto) \<noteq> IP_PROTO_ICMP then icmp_time_exceeded p n else Some n
            else do {
              (n, _) \<leftarrow> ne_output E netif p (current_iphdr_dest n) (set_dmem (ip_forward_header iphdr m) n);
              Some n
            }
          })"

section \<open>The header that is sent\<close>

text \<open>The twenty octets of a header with the given fields.\<close>

definition ip_header :: "u16 \<Rightarrow> u16 \<Rightarrow> u16 \<Rightarrow> u8 \<Rightarrow> u8 \<Rightarrow> u16 \<Rightarrow> ip_addr \<Rightarrow> ip_addr \<Rightarrow> u8 list" where
  "ip_header v_hl_tos len ident ttl proto ck src dest =
     le_bytes16 v_hl_tos @ le_bytes16 (lwip_htons len) @ le_bytes16 (lwip_htons ident) @ [0, 0, ttl, proto]
     @ le_bytes16 ck @ le_bytes32 src @ le_bytes32 dest"

definition hdr_word :: "u16 \<Rightarrow> u8 \<Rightarrow> u16" where
  "hdr_word ip_hlen tos = lwip_htons (push_bit 12 4 OR push_bit 8 (ip_hlen div 4) OR ucast tos)"

lemmas ih_offsets = ih_v_hl_tos_def ih_len_def ih_id_def ih_offset_def ih_ttl_def ih_proto_def ih_chksum_def
  ih_src_def ih_dest_def

lemma le_sum_u16: "le_sum (le_bytes16 w) = unat w"
proof -
  have "unat w div 256 < 256"
    using unat_u16_lt [of w] by linarith
  then show ?thesis
    by (simp add: le_bytes16_def unat_ucast_mod unat_drop_bit)
qed

lemma unat_MAKE_U16: "unat (LWIP_MAKE_U16 a b) = 256 * unat a + unat b"
  unfolding LWIP_MAKE_U16_def using unat_u8_lt [of a] unat_u8_lt [of b]
  by (subst unat_push_or) simp_all

text \<open>The sum of the header with a zero checksum field.\<close>

lemma le_sum_ip_header:
  "le_sum (ip_header v len ident ttl proto 0 src dest) =
     unat (LWIP_MAKE_U16 proto ttl) + unat dest mod 65536 + unat dest div 65536 + unat v + unat (lwip_htons len)
     + unat (lwip_htons ident) + unat src mod 65536 + unat src div 65536"
  unfolding ip_header_def
  by (simp add: le_sum_append_even le_sum_u16 le_sum_u32 unat_MAKE_U16)

lemma ucast_NOT: "(ucast (NOT w) :: u16) = NOT (ucast (w :: u32))"
  by (rule bit_word_eqI) (simp add: bit_simps)

lemma fold_low:
  "ucast (NOT (drop_bit 16 (FOLD_U32T c) + FOLD_U32T c)) = NOT (of_nat (unat (FOLD_U32T (FOLD_U32T c))) :: u16)"
proof -
  have "(ucast (drop_bit 16 w + w) :: u16) = ucast (FOLD_U32T w)" for w :: u32
    by (simp add: word_unat_eq_iff unat_ucast_mod FOLD_U32T_def unat_word_ariths unat_and_ffff mod_mod_cancel mod_add_right_eq)
  then have "(ucast (NOT (drop_bit 16 (FOLD_U32T c) + FOLD_U32T c)) :: u16) = NOT (ucast (FOLD_U32T (FOLD_U32T c)))"
    by (simp add: ucast_NOT)
  then show ?thesis
    by simp
qed

lemma ip_fill_header_read:
  assumes "ck = NOT (of_nat (oc16 (unat chk_sum + le_sum (ip_header (hdr_word ip_hlen tos) len ident ttl proto 0 src dest))))"
    and "unat chk_sum < 2147483648"
  shows "mem_read (ip_fill_header chk_sum ip_hlen ttl tos proto len ident src dest hdr m) hdr 20
    = ip_header (hdr_word ip_hlen tos) len ident ttl proto ck src dest"
proof -
  define c where "c = chk_sum + ucast (LWIP_MAKE_U16 proto ttl) + (dest AND 0xFFFF) + drop_bit 16 dest + ucast (hdr_word ip_hlen tos)
    + ucast (lwip_htons len) + ucast (lwip_htons ident) + (src AND 0xFFFF) + drop_bit 16 src"
  let ?h = "ip_header (hdr_word ip_hlen tos) len ident ttl proto 0 src dest"
  have hi: "unat w div 65536 < 65536" "unat w mod 65536 < 65536" for w :: u32
    using unat_u32_lt [of w] by (linarith, simp)
  have "unat chk_sum + le_sum ?h < 4294967296"
    using assms(2) hi [of src] hi [of dest] unat_u16_lt [of "LWIP_MAKE_U16 proto ttl"]
      unat_u16_lt [of "hdr_word ip_hlen tos"] unat_u16_lt [of "lwip_htons len"] unat_u16_lt [of "lwip_htons ident"]
    unfolding le_sum_ip_header by linarith
  then have "unat c = unat chk_sum + le_sum ?h"
    unfolding c_def unat_word_ariths(1) unat_and_ffff le_sum_ip_header unat_ucast_u16_u32 unat_drop_bit
    by (simp only: mod_add_left_eq add.assoc [symmetric]) simp
  then have "oc_eq (unat (FOLD_U32T (FOLD_U32T c))) (unat chk_sum + le_sum ?h)"
    using FOLD_oc_eq oc_eq_trans by metis
  then have "unat (FOLD_U32T (FOLD_U32T c)) = oc16 (unat chk_sum + le_sum ?h)"
    using FOLD_FOLD_lt by (rule oc16_unique)
  then have ck: "ucast (NOT (drop_bit 16 (FOLD_U32T c) + FOLD_U32T c)) = ck"
    unfolding fold_low by (simp add: assms(1))
  have fold: "drop_bit 16 c + (c AND 0xFFFF) = FOLD_U32T c"
    by (simp add: FOLD_U32T_def)
  define m' where "m' = ip_fill_header chk_sum ip_hlen ttl tos proto len ident src dest hdr m"
  have "m' = mem_write (mem_write (mem_write (mem_write (mem_write (mem_write (mem_write (mem_write (mem_write m
      (hdr + 8) [ttl]) (hdr + 9) [proto]) (hdr + 16) (le_bytes32 dest)) (hdr + 0) (le_bytes16 (hdr_word ip_hlen tos)))
      (hdr + 2) (le_bytes16 (lwip_htons len))) (hdr + 6) (le_bytes16 0)) (hdr + 4) (le_bytes16 (lwip_htons ident)))
      (hdr + 12) (le_bytes32 src)) (hdr + 10) (le_bytes16 ck)"
    unfolding m'_def ip_fill_header_def Let_def ih_offsets hdr_word_def [symmetric] c_def [symmetric] fold ck ..
  then have m': "mem_read m' (hdr + 0) 2 = le_bytes16 (hdr_word ip_hlen tos)" "mem_read m' (hdr + 2) 2 = le_bytes16 (lwip_htons len)"
    "mem_read m' (hdr + 4) 2 = le_bytes16 (lwip_htons ident)" "mem_read m' (hdr + 6) 2 = [0, 0]"
    "mem_read m' (hdr + 8) 1 = [ttl]" "mem_read m' (hdr + 9) 1 = [proto]" "mem_read m' (hdr + 10) 2 = le_bytes16 ck"
    "mem_read m' (hdr + 12) 4 = le_bytes32 src" "mem_read m' (hdr + 16) 4 = le_bytes32 dest"
    by (simp_all add: mem_read_same mem_read_write_other le_bytes16_def [of 0] del: mem_write.simps)
  have r: "mem_read m' (hdr + i) (j + k) = mem_read m' (hdr + i) j @ mem_read m' (hdr + (i + j)) k" for i j k
    by (simp only: mem_read_add add.assoc)
  have "mem_read m' hdr 20 = mem_read m' (hdr + 0) 2 @ mem_read m' (hdr + 2) 2 @ mem_read m' (hdr + 4) 2 @ mem_read m' (hdr + 6) 2
      @ mem_read m' (hdr + 8) 1 @ mem_read m' (hdr + 9) 1 @ mem_read m' (hdr + 10) 2 @ mem_read m' (hdr + 12) 4 @ mem_read m' (hdr + 16) 4"
    using r [of 0 2 18] r [of 2 2 16] r [of 4 2 14] r [of 6 2 12] r [of 8 1 11] r [of 9 1 10] r [of 10 2 8] r [of 12 4 4]
    by simp
  then show ?thesis
    unfolding m' ip_header_def m'_def [symmetric] by simp
qed

text \<open>Bytes outside the header are as before.\<close>

lemma ip_fill_header_other:
  assumes "b < hdr \<or> hdr + 20 \<le> b"
  shows "ip_fill_header chk_sum ip_hlen ttl tos proto len ident src dest hdr m b = m b"
  using assms unfolding ip_fill_header_def Let_def ih_offsets
  by (elim disjE) (simp_all add: mem_write_other del: mem_write.simps)

lemma opt_sum_le_sum:
  assumes "even (length bs)" "unat acc + le_sum bs < 4294967296"
  shows "unat (opt_sum acc bs) = unat acc + le_sum bs"
  using assms
proof (induction acc bs rule: opt_sum.induct)
  case (1 acc a b bs)
  have ld: "unat (ld16 a b) = unat a + 256 * unat b"
    using unat_u8_lt [of a] unat_u8_lt [of b] unfolding ld16_def by (subst unat_push_or) simp_all
  then have "unat (acc + ucast (ld16 a b)) = unat acc + unat a + 256 * unat b"
    using 1(3) by (simp add: unat_word_ariths unat_ucast_u16_u32)
  with 1 show ?case
    by simp
qed auto

lemma header_verifies:
  assumes "ck = NOT (of_nat (oc16 (le_sum opts + le_sum (ip_header v len ident ttl proto 0 src dest))))"
    and "length opts < 65000"
  shows "inet_chksum LWIP_CHKSUM a (ip_header v len ident ttl proto ck src dest @ opts) = 0"
proof -
  define xs where "xs = le_bytes16 v @ le_bytes16 (lwip_htons len) @ le_bytes16 (lwip_htons ident) @ [0, 0, ttl, proto]"
  define ys where "ys = le_bytes32 src @ le_bytes32 dest @ opts"
  have h: "ip_header v len ident ttl proto c src dest @ opts = xs @ [ucast c, ucast (drop_bit 8 c)] @ ys" for c
    by (simp add: ip_header_def xs_def ys_def le_bytes16_def [of c])
  have "le_sum (xs @ [0, 0] @ ys) = le_sum opts + le_sum (ip_header v len ident ttl proto 0 src dest)"
    using h [of 0] le_sum_append_even [of "ip_header v len ident ttl proto 0 src dest" opts] by (simp add: ip_header_def)
  moreover have "even (length xs)"
    by (simp add: xs_def)
  ultimately have "NOT (of_nat (oc16 (le_sum (xs @ [ucast ck, ucast (drop_bit 8 ck)] @ ys))) :: u16) = 0"
    using assms(1) oc16_field_verifies by metis
  moreover have "length (xs @ [ucast ck, ucast (drop_bit 8 ck)] @ ys) < 65536"
    using assms(2) by (simp add: xs_def ys_def)
  ultimately show ?thesis
    unfolding h by (simp only: chksum_2.inet_chksum_eq)
qed

section \<open>Incremental checksums\<close>

lemma inet_chksum_zero_iff:
  assumes "length bs < 65536"
  shows "inet_chksum LWIP_CHKSUM a bs = 0 \<longleftrightarrow> le_sum bs \<noteq> 0 \<and> 65535 dvd le_sum bs"
proof -
  have "65535 \<le> oc16 (le_sum bs) \<longleftrightarrow> oc16 (le_sum bs) = 65535"
    using oc16_lt [of "le_sum bs"] by linarith
  then have "inet_chksum LWIP_CHKSUM a bs = 0 \<longleftrightarrow> oc16 (le_sum bs) = 65535"
    unfolding chksum_2.inet_chksum_eq [OF assms] word_unat_eq_iff unat_not
    by (simp add: unat_of_nat)
  also have "\<dots> \<longleftrightarrow> le_sum bs \<noteq> 0 \<and> 65535 dvd le_sum bs"
  proof (cases "le_sum bs")
    case (Suc k)
    have "k mod 65535 = 65534 \<longleftrightarrow> 65535 dvd Suc k"
      by (simp add: dvd_eq_mod_eq_0 mod_Suc)
    then show ?thesis
      by (simp add: oc16_def Suc)
  qed (simp add: oc16_def)
  finally show ?thesis .
qed

lemma unat_chksum_raise:
  assumes "unat d = 256 * k"
  shows "unat (chksum_raise d ck) = (if unat ck \<ge> 65535 - k then unat ck + k + 1 - 65536 else unat ck + k)"
proof -
  have k: "k < 256"
    using assms unat_u16_lt [of d] by linarith
  then have "65535 - 256 * k = 255 + 256 * (255 - k)"
    by (simp add: diff_mult_distrib2)
  then have t: "unat (0xffff - d) = 255 + 256 * (255 - k)"
    using k by (simp add: unat_sub_if' assms)
  have "unat (lwip_htons d) = k"
    using k by (simp add: unat_htons assms)
  moreover have "unat (lwip_htons (0xffff - d)) = 65535 - k"
    using k unfolding unat_htons t by simp
  moreover have "(unat ck + k + 1) mod 65536 = unat ck + k + 1 - 65536" if "65535 - k \<le> unat ck"
    using that k unat_u16_lt [of ck] by (simp add: le_mod_geq)
  moreover have "(unat ck + k) mod 65536 = unat ck + k" if "\<not> 65535 - k \<le> unat ck"
    using that k by simp
  ultimately show ?thesis
    by (simp add: chksum_raise_def word_le_nat_alt unat_word_ariths mod_Suc_eq)
qed

text \<open>If a word loses \<open>k\<close> in its first octet and the checksum is raised by it, the sum is still a
  multiple of 65535.\<close>

lemma chksum_raise_dvd:
  assumes "unat d = 256 * k" "k \<le> t" "65535 dvd r + t + unat ck"
  shows "65535 dvd r + (t - k) + unat (chksum_raise d ck)"
proof (cases "unat ck \<ge> 65535 - k")
  case True
  have "k < 256"
    using assms(1) unat_u16_lt [of d] by linarith
  then have "r + t + unat ck = r + (t - k) + unat (chksum_raise d ck) + 65535"
    using True assms(2) unfolding unat_chksum_raise [OF assms(1)] by simp
  then show ?thesis
    using assms(3) by (metis dvd_add_left_iff dvd_refl)
next
  case False
  then have "r + (t - k) + unat (chksum_raise d ck) = r + t + unat ck"
    using assms(2) unfolding unat_chksum_raise [OF assms(1)] by simp
  then show ?thesis
    using assms(3) by (simp only:)
qed

lemma le_bytes16_load16: "le_bytes16 (load16 m a) = [m a, m (a + 1)]"
proof -
  have "ucast (ucast x OR push_bit 8 (ucast y) :: u16) = x" "ucast (drop_bit 8 (ucast x OR push_bit 8 (ucast y) :: u16)) = y" for x y :: u8
    by (rule bit_word_eqI, auto simp: bit_simps)+
  then show ?thesis
    by (simp add: le_bytes16_def load16_def)
qed

section \<open>Moving the payload pointer\<close>

lemma net_ps_set [simp]: "net_ps (set_ps ps n) = ps" "netif_list (set_ps ps n) = netif_list n" "ip_id (set_ps ps n) = ip_id n"
  "set_ps ps (set_ps ps' n) = set_ps ps n" "dmem (net_ps (set_dmem m n)) = m" "pbufs (net_ps (set_dmem m n)) = pbufs (net_ps n)"
  "netif_list (set_dmem m n) = netif_list n" "ip_id (set_dmem m n) = ip_id n"
  by (simp_all add: set_ps_def set_dmem_def)

lemma net_header_room:
  assumes "pbufs (net_ps n) p = Some pb" "p \<noteq> NULL" "pb_type pb = PBUF_RAM \<or> pb_type pb = PBUF_POOL"
    "0 < k" "k < 32768" "p + SIZEOF_STRUCT_PBUF + k \<le> pb_payload pb"
  shows "net_header p (of_nat k) n = Some (set_ps (set_pbuf p (pb\<lparr>pb_payload := pb_payload pb - k, pb_len := pb_len pb + of_nat k,
    pb_tot_len := pb_tot_len pb + of_nat k\<rparr>) (net_ps n)) n, False)"
proof -
  have u: "unat (of_nat k :: u16) = k"
    using assms(5) by (simp add: unat_of_nat)
  then have k: "sint (of_nat k :: u16) = int k" "(of_nat k :: u16) \<noteq> 0"
    using assms(4,5) sint_u16_pos [of "of_nat k"] sint_u16_neg [of "of_nat k"] sint_u16_range(1) [of "of_nat k"]
    by (linarith, auto)
  show ?thesis
    using assms unfolding net_header_def pbuf_header_def
    by (auto simp: k Let_def nat_diff_distrib')
qed

lemma hdr_fields:
  assumes "h < 16"
  shows "drop_bit 12 (push_bit 12 4 OR push_bit 8 h OR ucast (tos :: u8)) = (4 :: u16)"
    "drop_bit 8 (push_bit 12 4 OR push_bit 8 h OR ucast tos) AND 0x0f = (h :: u16)"
proof -
  have h: "unat h < 16"
    using assms by (simp add: word_less_nat_alt)
  have "unat (push_bit 8 h OR ucast tos :: u16) = 256 * unat h + unat tos"
    using h unat_u8_lt [of tos] by (subst unat_push_or) simp_all
  moreover have "256 * unat h + unat tos < 4096"
    using h unat_u8_lt [of tos] by linarith
  ultimately have w: "unat (push_bit 12 4 OR push_bit 8 h OR ucast tos :: u16) = 16384 + (256 * unat h + unat tos)"
    by (subst unat_push_or) simp_all
  show "drop_bit 12 (push_bit 12 4 OR push_bit 8 h OR ucast tos) = (4 :: u16)"
    using h unat_u8_lt [of tos] unfolding word_unat_eq_iff unat_drop_bit w by simp
  have "(16384 + (256 * unat h + unat tos)) div 256 = 64 + unat h"
    using unat_u8_lt [of tos] by linarith
  moreover have "(64 + unat h) mod 16 = unat h"
    using h mod_mult_self2 [of "unat h" 16 4] by (simp add: add.commute)
  ultimately show "drop_bit 8 (push_bit 12 4 OR push_bit 8 h OR ucast tos) AND 0x0f = (h :: u16)"
    using h unat_u8_lt [of tos] unat_and_mask [of "drop_bit 8 (push_bit 12 4 OR push_bit 8 h OR ucast tos :: u16)" 4]
    unfolding word_unat_eq_iff unat_drop_bit w by (simp add: mask_numeral unat_drop_bit w)
qed

text \<open>The fields of the header, read back from memory.\<close>

lemma ip_header_fields:
  assumes "mem_read m hdr 20 = ip_header (hdr_word ip_hlen tos) len ident ttl proto ck src dest" "ip_hlen div 4 < 16"
  shows "IPH_V m hdr = 4" "IPH_HL m hdr = ip_hlen div 4" "load16 m (hdr + ih_len) = lwip_htons len"
    "load16 m (hdr + ih_id) = lwip_htons ident" "load16 m (hdr + ih_offset) = 0"
    "m (hdr + ih_ttl) = ttl" "m (hdr + ih_proto) = proto" "load16 m (hdr + ih_chksum) = ck"
    "load32 m (hdr + ih_src) = src" "load32 m (hdr + ih_dest) = dest"
proof -
  have sub: "mem_read m (hdr + i) k = take k (drop i (ip_header (hdr_word ip_hlen tos) len ident ttl proto ck src dest))"
    if "i + k \<le> 20" for i k
    unfolding assms(1) [symmetric] using that by (simp add: min_absorb1)
  have w: "load16 m (hdr + 0) = hdr_word ip_hlen tos"
    by (rule load16_read) (simp add: sub [of 0 2, simplified] ip_header_def)
  show "IPH_V m hdr = 4" "IPH_HL m hdr = ip_hlen div 4"
    unfolding IPH_V_def IPH_HL_def ih_offsets w by (simp_all only: hdr_word_def lwip_ntohs_def htons_involutive hdr_fields [OF assms(2)])
  have o: "mem_read m (hdr + 8) 1 = [ttl]" "mem_read m (hdr + 9) 1 = [proto]"
    by (simp_all add: sub ip_header_def)
  show "m (hdr + ih_ttl) = ttl" "m (hdr + ih_proto) = proto"
    using o nth_mem_read [of 0 1 m "hdr + 8"] nth_mem_read [of 0 1 m "hdr + 9"] by (simp_all add: ih_offsets)
  show "load16 m (hdr + ih_len) = lwip_htons len" "load16 m (hdr + ih_id) = lwip_htons ident" "load16 m (hdr + ih_offset) = 0"
    "load16 m (hdr + ih_chksum) = ck"
    by (rule load16_read, simp add: ih_offsets sub ip_header_def le_bytes16_def [of 0] del: add_2_eq_Suc')+
  show "load32 m (hdr + ih_src) = src" "load32 m (hdr + ih_dest) = dest"
    by (rule load32_read, simp add: ih_offsets sub ip_header_def)+
qed

lemma align4_bounds: "k \<le> (k + 3) div 4 * 4" "k \<le> 40 \<Longrightarrow> (k + 3) div 4 * 4 \<le> 40" for k :: nat
  by presburger+



lemma ip_output_header:
  assumes "pbufs (net_ps n) p = Some pb" "p \<noteq> NULL" "pb_type pb = PBUF_RAM \<or> pb_type pb = PBUF_POOL"
    "length opts \<le> 40" "p + SIZEOF_STRUCT_PBUF + 20 + (length opts + 3) div 4 * 4 \<le> pb_payload pb"
  defines "L \<equiv> (length opts + 3) div 4 * 4"
  shows "\<exists>n' pb'. ip_output_if_opt E p src (Some dest) ttl tos proto netif opts n = ip_send E p dest netif n' \<and>
    pbufs (net_ps n') p = Some pb' \<and>
    pb' = pb\<lparr>pb_payload := pb_payload pb - L - 20, pb_len := pb_len pb + of_nat L + 20, pb_tot_len := pb_tot_len pb + of_nat L + 20\<rparr> \<and>
    ip_id n' = ip_id n + 1 \<and> netif_list n' = netif_list n \<and>
    (let m = dmem (net_ps n'); hdr = pb_payload pb' in
       (\<exists>ck. mem_read m hdr 20 = ip_header (hdr_word (IP_HLEN + of_nat L) tos) (pb_tot_len pb') (ip_id n) ttl proto ck
          (if src = IPADDR_ANY then netif_ip_addr (netif_list n ! netif) else src) dest) \<and>
       IPH_V m hdr = 4 \<and> unat (IPH_HL m hdr) * 4 = 20 + L \<and> lwip_ntohs (load16 m (hdr + ih_len)) = pb_tot_len pb' \<and>
       load16 m (hdr + ih_offset) = 0 \<and> m (hdr + ih_ttl) = ttl \<and> m (hdr + ih_proto) = proto \<and>
       load32 m (hdr + ih_src) = (if src = IPADDR_ANY then netif_ip_addr (netif_list n ! netif) else src) \<and>
       load32 m (hdr + ih_dest) = dest \<and>
       inet_chksum LWIP_CHKSUM hdr (mem_read m hdr (20 + L)) = 0 \<and>
       (\<forall>b. b < hdr \<or> pb_payload pb \<le> b \<longrightarrow> m b = dmem (net_ps n) b))"
proof -
  define pad where "pad = (if opts = [] then [] else opts @ replicate (L - length opts) 0)"
  have L: "length opts \<le> L" "L \<le> 40" "4 dvd L"
    using align4_bounds [of "length opts"] assms(4) unfolding L_def by auto
  have pad: "length pad = L"
    using L(1) by (auto simp: pad_def L_def)
  have ev: "even (length pad)"
    using L(3) pad by (auto elim: dvd_trans [rotated])
  define pb1 where "pb1 = pb\<lparr>pb_payload := pb_payload pb - L, pb_len := pb_len pb + of_nat L, pb_tot_len := pb_tot_len pb + of_nat L\<rparr>"
  define n1 where "n1 = (if opts = [] then n else set_ps (set_pbuf p pb1 (net_ps n)) n)"
  have step1: "(if length opts \<noteq> 0 then net_header p (of_nat L) n else Some (n, False)) = Some (n1, False)"
    using net_header_room [OF assms(1-3), of L] L assms(5) unfolding n1_def pb1_def L_def [symmetric]
    by (cases "opts = []") auto
  have n1: "pbufs (net_ps n1) p = Some pb1" "dmem (net_ps n1) = dmem (net_ps n)" "netif_list n1 = netif_list n" "ip_id n1 = ip_id n"
    using assms(1) pad by (auto simp: n1_def pb1_def pad_def set_pbuf_def)
  define n2 where "n2 = set_dmem (mem_write (dmem (net_ps n)) (pb_payload pb1) pad) n1"
  define pb2 where "pb2 = pb1\<lparr>pb_payload := pb_payload pb1 - 20, pb_len := pb_len pb1 + 20, pb_tot_len := pb_tot_len pb1 + 20\<rparr>"
  define n3 where "n3 = set_ps (set_pbuf p pb2 (net_ps n2)) n2"
  have n2: "pbufs (net_ps n2) p = Some pb1" "netif_list n2 = netif_list n" "ip_id n2 = ip_id n"
    using n1 by (simp_all add: n2_def)
  have step2: "net_header p IP_HLEN n2 = Some (n3, False)"
    using net_header_room [OF n2(1) assms(2), of 20] assms(3,5)
    unfolding n3_def pb2_def IP_HLEN_def L_def [symmetric] by (simp add: pb1_def)
  define hdr where "hdr = pb_payload pb2"
  have hdr: "hdr = pb_payload pb - L - 20" "hdr + 20 = pb_payload pb1" "pb_payload pb1 + L = pb_payload pb"
    using assms(5) unfolding L_def [symmetric] by (simp_all add: hdr_def pb2_def pb1_def)
  have n3: "pbufs (net_ps n3) p = Some pb2" "dmem (net_ps n3) = mem_write (dmem (net_ps n)) (hdr + 20) pad"
    "netif_list n3 = netif_list n" "ip_id n3 = ip_id n"
    using n2 by (simp_all add: n3_def set_pbuf_def hdr(2)) (simp add: n2_def)
  define s where "s = (if src = IPADDR_ANY then netif_ip_addr (netif_list n ! netif) else src)"
  define hl where "hl = IP_HLEN + (of_nat L :: u16)"
  define m where "m = ip_fill_header (opt_sum 0 pad) hl ttl tos proto (pb_tot_len pb2) (ip_id n) s dest hdr (dmem (net_ps n3))"
  define n4 where "n4 = (set_dmem m n3)\<lparr>ip_id := ip_id n + 1\<rparr>"
  have padeq: "(if length opts \<noteq> 0 then opts @ replicate (L - length opts) 0 else []) = pad"
    by (simp add: pad_def)
  have out: "ip_output_if_opt E p src (Some dest) ttl tos proto netif opts n = ip_send E p dest netif n4"
    unfolding ip_output_if_opt_def option.case Let_def L_def [symmetric] step1 padeq
    using n1 n3 step2 by (simp add: n2_def [symmetric] hdr_def s_def m_def n4_def hl_def)
  have small: "le_sum pad < 2147483648"
    using le_sum_bound [of pad] pad L(2) by linarith
  then have sum: "unat (opt_sum 0 pad) = le_sum pad"
    using opt_sum_le_sum [OF ev, of 0] by simp
  define ck where "ck = (NOT (of_nat (oc16 (le_sum pad + le_sum (ip_header (hdr_word hl tos) (pb_tot_len pb2) (ip_id n) ttl proto 0 s dest)))) :: u16)"
  have H: "mem_read m hdr 20 = ip_header (hdr_word hl tos) (pb_tot_len pb2) (ip_id n) ttl proto ck s dest"
    unfolding m_def by (rule ip_fill_header_read) (simp_all add: ck_def sum small)
  have other: "m b = mem_write (dmem (net_ps n)) (hdr + 20) pad b" if "b < hdr \<or> hdr + 20 \<le> b" for b
    unfolding m_def n3(2) using that by (rule ip_fill_header_other)
  have "mem_read m (hdr + 20) L = pad"
    using other pad by (intro nth_equalityI) (simp_all add: mem_write_apply)
  then have "mem_read m hdr (20 + L) = ip_header (hdr_word hl tos) (pb_tot_len pb2) (ip_id n) ttl proto ck s dest @ pad"
    by (simp add: mem_read_add H)
  then have verify: "inet_chksum LWIP_CHKSUM hdr (mem_read m hdr (20 + L)) = 0"
    using pad L(2) by (simp only: header_verifies [OF ck_def])
  have hl: "unat hl = 20 + L"
    using L(2) by (simp add: hl_def IP_HLEN_def unat_word_ariths unat_of_nat)
  have hl4: "unat (hl div 4) = 5 + L div 4"
    using L(3) by (simp add: unat_div hl)
  then have "hl div 4 < 16"
    using L(2) by (simp add: word_less_nat_alt)
  note fields = ip_header_fields [OF H this]
  have rest: "m b = dmem (net_ps n) b" if "b < hdr \<or> pb_payload pb \<le> b" for b
    using that other [of b] hdr pad by (auto simp: mem_write_apply)
  have "unat (IPH_HL m hdr) * 4 = 20 + L"
    unfolding fields(2) hl4 using L(3) by (elim dvdE) simp
  moreover have "pbufs (net_ps n4) p = Some pb2" "dmem (net_ps n4) = m" "ip_id n4 = ip_id n + 1" "netif_list n4 = netif_list n"
    using n3 by (simp_all add: n4_def)
  moreover have "pb2 = pb\<lparr>pb_payload := pb_payload pb - L - 20, pb_len := pb_len pb + of_nat L + 20, pb_tot_len := pb_tot_len pb + of_nat L + 20\<rparr>"
    by (simp add: pb2_def pb1_def)
  moreover have "\<exists>ck. mem_read m hdr 20 = ip_header (hdr_word (IP_HLEN + of_nat L) tos) (pb_tot_len pb2) (ip_id n) ttl proto ck s dest"
    using H unfolding hl_def by blast
  ultimately show ?thesis
    using out hdr(1) verify fields rest unfolding s_def [symmetric]
    by (intro exI [of _ n4] exI [of _ pb2] conjI) (simp_all add: Let_def lwip_ntohs_def hdr_def [symmetric])
qed

section \<open>Properties\<close>

text \<open>C29. For a packet with room in front of its data, \<^verbatim>\<open>ip_output_if_opt\<close> puts a header there that the
  input function of a receiver accepts: version 4, the header length with the options padded to a multiple
  of four, the total length, not a fragment, the protocol, TTL and addresses asked for (the address of
  the interface when none is given), and a checksum over header and options that verifies.  The data
  and all other memory are as before, the packet is handed on for sending, and \<^verbatim>\<open>ip_id\<close> counts up.\<close>

theorem ip_output_builds_header:
  assumes "pbufs (net_ps n) p = Some pb" "p \<noteq> NULL" "pb_type pb = PBUF_RAM \<or> pb_type pb = PBUF_POOL"
    "length opts \<le> 40" "p + SIZEOF_STRUCT_PBUF + 20 + (length opts + 3) div 4 * 4 \<le> pb_payload pb"
  defines "L \<equiv> (length opts + 3) div 4 * 4"
  shows "\<exists>n' pb'. ip_output_if_opt E p src (Some dest) ttl tos proto netif opts n = ip_send E p dest netif n' \<and>
    pbufs (net_ps n') p = Some pb' \<and> pb_payload pb' = pb_payload pb - L - 20 \<and>
    pb_tot_len pb' = pb_tot_len pb + of_nat L + 20 \<and> ip_id n' = ip_id n + 1 \<and>
    (let m = dmem (net_ps n'); hdr = pb_payload pb' in
       IPH_V m hdr = 4 \<and> unat (IPH_HL m hdr) * 4 = 20 + L \<and> lwip_ntohs (load16 m (hdr + ih_len)) = pb_tot_len pb' \<and>
       load16 m (hdr + ih_offset) = 0 \<and> m (hdr + ih_ttl) = ttl \<and> m (hdr + ih_proto) = proto \<and>
       load32 m (hdr + ih_src) = (if src = IPADDR_ANY then netif_ip_addr (netif_list n ! netif) else src) \<and>
       load32 m (hdr + ih_dest) = dest \<and>
       inet_chksum LWIP_CHKSUM hdr (mem_read m hdr (20 + L)) = 0 \<and>
       (\<forall>b. b < hdr \<or> pb_payload pb \<le> b \<longrightarrow> m b = dmem (net_ps n) b))"
  using ip_output_header [OF assms(1-5), of E src dest ttl tos proto netif, folded L_def] by (auto simp: Let_def)

text \<open>A machine with one interface and one packet of four octets in a pool buffer, for the witnesses.\<close>

definition ip_demo :: "unit net" where
  "ip_demo = \<lparr>net_arp = \<lparr>arp_table = [], etharp_cached_entry = 0, arp_ps = \<lparr>heap = (),
       pbufs = [1000 \<mapsto> \<lparr>pb_next = NULL, pb_payload = 1100, pb_tot_len = 4, pb_len = 4, pb_type = PBUF_POOL, pb_flags = 0, pb_ref = 1\<rparr>],
       dmem = (\<lambda>a. of_nat a)\<rparr>\<rparr>,
     ip_id = 7, netif_list = [demo_netif\<lparr>netif_flags := 0x63\<rparr>], netif_default = Some 0, current_iphdr_src = 0, current_iphdr_dest = 0,
     udp_pcbs = [], pcbs = Map.empty, dhcp_pcb = (\<lambda>_. NULL), raw_pcbs = [], raws = Map.empty,
     igmp_group_list = [], igmp_groups = Map.empty, net_tcp = blank_tcp\<rparr>"

theorem ip_output_builds_header_witness:
  "\<forall>E :: unit net_env. \<exists>n' pb'. ip_output_if_opt E 1000 IPADDR_ANY (Some 0x0100a8c0) 64 0 17 0 [0x94, 4, 0] ip_demo = ip_send E 1000 0x0100a8c0 0 n' \<and>
    pbufs (net_ps n') 1000 = Some pb' \<and> pb_payload pb' = 1076 \<and> pb_tot_len pb' = 28 \<and>
    inet_chksum LWIP_CHKSUM 1076 (mem_read (dmem (net_ps n')) 1076 24) = 0"
  (is "\<forall>E. ?P E")
proof
  fix E :: "unit net_env"
  obtain n' pb' where "ip_output_if_opt E 1000 IPADDR_ANY (Some 0x0100a8c0) 64 0 17 0 [0x94, 4, 0] ip_demo = ip_send E 1000 0x0100a8c0 0 n'"
    "pbufs (net_ps n') 1000 = Some pb'" "pb_payload pb' = 1076" "pb_tot_len pb' = 28"
    "inet_chksum LWIP_CHKSUM 1076 (mem_read (dmem (net_ps n')) 1076 24) = 0"
    using ip_output_builds_header [where n = ip_demo and p = 1000 and opts = "[0x94, 4, 0]" and E = E and src = IPADDR_ANY
        and dest = "0x0100a8c0" and ttl = 64 and tos = 0 and proto = 17 and netif = 0]
    by (auto simp: ip_demo_def SIZEOF_STRUCT_PBUF_def LWIP_MEM_ALIGN_SIZE_def MEM_ALIGNMENT_def Let_def)
  then show "?P E"
    by blast
qed

text \<open>C30. Forwarding keeps the header checksum right: for a packet whose header verifies and whose TTL is not
  zero, the header with the TTL counted down and the checksum adjusted incrementally verifies again, for every
  value of the checksum field, those where the addition wraps included; only these two fields change.\<close>

theorem ip_forward_keeps_checksum:
  assumes "inet_chksum LWIP_CHKSUM hdr (mem_read m hdr hlen) = 0" "20 \<le> hlen" "hlen < 65536"
    and "IPH_V m hdr = 4" "m (hdr + ih_ttl) \<noteq> 0"
  defines "m' \<equiv> ip_forward_header hdr (mem_write m (hdr + ih_ttl) [m (hdr + ih_ttl) - 1])"
  shows "inet_chksum LWIP_CHKSUM hdr (mem_read m' hdr hlen) = 0 \<and> m' (hdr + ih_ttl) = m (hdr + ih_ttl) - 1 \<and>
    (\<forall>b. b \<notin> {hdr + ih_ttl, hdr + ih_chksum, hdr + ih_chksum + 1} \<longrightarrow> m' b = m b)"
proof -
  define ck where "ck = load16 m (hdr + 10)"
  define xs where "xs = mem_read m hdr 8"
  define ys where "ys = mem_read m (hdr + 12) (hlen - 12)"
  define t where "t = m (hdr + 8)"
  have split: "mem_read w hdr hlen = mem_read w hdr 8 @ [w (hdr + 8), w (hdr + 9), w (hdr + 10), w (hdr + 11)] @ mem_read w (hdr + 12) (hlen - 12)" for w
  proof -
    have "mem_read w (hdr + 8) 4 = [w (hdr + 8), w (hdr + 9), w (hdr + 10), w (hdr + 11)]"
      by (simp add: mem_read_def upt_rec add.commute)
    then show ?thesis
      using mem_read_add [of w hdr 8 "hlen - 8"] mem_read_add [of w "hdr + 8" 4 "hlen - 12"] assms(2) by (simp add: add.commute)
  qed
  have ckb: "[m (hdr + 10), m (hdr + 11)] = le_bytes16 ck"
    by (simp add: ck_def le_bytes16_load16 add.commute)
  have bytes: "mem_read m hdr hlen = xs @ [t, m (hdr + 9)] @ le_bytes16 ck @ ys"
    by (simp add: split [of m] xs_def ys_def t_def ckb [symmetric])
  define r where "r = le_sum xs + 256 * unat (m (hdr + 9)) + le_sum ys"
  have sum: "le_sum (xs @ [x, m (hdr + 9)] @ le_bytes16 c @ ys) = r + unat x + unat c" for x c
    by (simp add: le_sum_append_even xs_def r_def le_sum_u16)
  have t: "unat t \<ge> 1"
    using assms(5) by (simp add: t_def ih_offsets Suc_le_eq unat_gt_0)
  define ck' where "ck' = chksum_raise 0x100 ck"
  have m': "m' = mem_write (mem_write m (hdr + 8) [t - 1]) (hdr + 10) (le_bytes16 ck')"
    unfolding m'_def ip_forward_header_def ih_offsets t_def ck'_def ck_def load16_def
    by (simp add: mem_write_other del: mem_write.simps)
  have "mem_read m' hdr hlen = xs @ [t - 1, m (hdr + 9)] @ le_bytes16 ck' @ ys"
    by (subst split) (simp add: m' mem_write_apply mem_read_write_other xs_def ys_def le_bytes16_def del: mem_write.simps)
  moreover have "65535 dvd r + unat (t - 1) + unat ck'"
  proof -
    have "length (mem_read m hdr hlen) < 65536"
      using assms(3) by simp
    from iffD1 [OF inet_chksum_zero_iff [OF this] assms(1)] have "65535 dvd r + unat t + unat ck"
      unfolding bytes sum by blast
    from chksum_raise_dvd [of "0x100" 1 "unat t" r ck, OF _ t this] show ?thesis
      using t by (simp add: ck'_def unat_sub_if')
  qed
  moreover have "r \<noteq> 0"
  proof
    assume "r = 0"
    then have "le_sum xs = 0"
      by (simp add: r_def)
    then have "load16 m (hdr + 0) = 0"
      by (simp add: xs_def mem_read_def upt_rec load16_def unat_eq_0)
    then show False
      using assms(4) by (simp add: IPH_V_def ih_offsets lwip_ntohs_def)
  qed
  ultimately have "le_sum (mem_read m' hdr hlen) \<noteq> 0 \<and> 65535 dvd le_sum (mem_read m' hdr hlen)"
    using sum by simp
  then have "inet_chksum LWIP_CHKSUM hdr (mem_read m' hdr hlen) = 0"
    using assms(3) by (simp add: inet_chksum_zero_iff)
  then show ?thesis
    by (simp add: m' ih_offsets mem_write_apply t_def del: mem_write.simps) auto
qed

theorem ip_forward_keeps_checksum_witness:
  "let m = ip_fill_header 0 20 64 0 17 48 1 0x0a01a8c0 0x01020304 100 (\<lambda>a. of_nat a)
   in inet_chksum LWIP_CHKSUM 100 (mem_read (ip_forward_header 100 (mem_write m 108 [63])) 100 20) = 0"
proof -
  define m :: bytes where "m = ip_fill_header 0 20 64 0 17 48 1 0x0a01a8c0 0x01020304 100 (\<lambda>a. of_nat a)"
  define ck where "ck = (NOT (of_nat (oc16 (unat (0 :: u32) + le_sum (ip_header (hdr_word 20 0) 48 1 64 17 0 0x0a01a8c0 0x01020304)))) :: u16)"
  have H: "mem_read m 100 20 = ip_header (hdr_word 20 0) 48 1 64 17 ck 0x0a01a8c0 0x01020304"
    unfolding m_def by (rule ip_fill_header_read) (simp_all add: ck_def)
  have f: "IPH_V m 100 = 4" "m (100 + ih_ttl) = 64"
    by (rule ip_header_fields [OF H], simp)+
  have "inet_chksum LWIP_CHKSUM 100 (mem_read m 100 20) = 0"
    unfolding H using header_verifies [of ck "[]" "hdr_word 20 0" 48 1 64 17 "0x0a01a8c0" "0x01020304" 100] by (simp add: ck_def)
  from ip_forward_keeps_checksum [OF this _ _ f(1)] f(2)
  have "inet_chksum LWIP_CHKSUM 100 (mem_read (ip_forward_header 100 (mem_write m (100 + ih_ttl) [64 - 1])) 100 20) = 0"
    by simp
  then show ?thesis
    by (simp add: m_def [symmetric] ih_offsets del: mem_write.simps)
qed

end
