(* ===== verification/Icmp.thy ===== *)
theory Icmp
  imports Ip
begin

text \<open>
  ICMP: \<^verbatim>\<open>core/ipv4/icmp.c\<close>.  Echo requests are answered by changing the request in place, or a copy of
  it when there is no room for the link header; other messages are dropped.  An error message carries the
  first 28 octets of the packet it is about.  In this configuration multicast pings are dropped
  (\<^verbatim>\<open>LWIP_MULTICAST_PING\<close> 0) and broadcast pings answered (\<^verbatim>\<open>LWIP_BROADCAST_PING\<close> 1).
\<close>

definition ICMP_ER :: u8 where "ICMP_ER = 0"
definition ICMP_DUR :: u8 where "ICMP_DUR = 3"
definition ICMP_ECHO :: u8 where "ICMP_ECHO = 8"
definition ICMP_TE :: u8 where "ICMP_TE = 11"
definition ICMP_DUR_PROTO :: u8 where "ICMP_DUR_PROTO = 2"
definition ICMP_DUR_PORT :: u8 where "ICMP_DUR_PORT = 3"
definition ICMP_TE_TTL :: u8 where "ICMP_TE_TTL = 0"
definition ICMP_TTL :: u8 where "ICMP_TTL = 255"
definition ICMP_DEST_UNREACH_DATASIZE :: nat where "ICMP_DEST_UNREACH_DATASIZE = 8"
definition SIZEOF_ICMP_ECHO_HDR :: nat where "SIZEOF_ICMP_ECHO_HDR = 8"

text \<open>Offsets in \<^verbatim>\<open>struct icmp_echo_hdr\<close>.\<close>

definition ic_type :: nat where "ic_type = 0"
definition ic_code :: nat where "ic_code = 1"
definition ic_chksum :: nat where "ic_chksum = 2"
definition ic_id :: nat where "ic_id = 4"
definition ic_seqno :: nat where "ic_seqno = 6"

section \<open>Error messages\<close>

text \<open>The message about the packet at \<open>iphdr\<close>, \<open>len\<close> octets long, written at \<open>icmphdr\<close>.\<close>

definition icmp_fill_response :: "u8 \<Rightarrow> u8 \<Rightarrow> addr \<Rightarrow> addr \<Rightarrow> nat \<Rightarrow> bytes \<Rightarrow> bytes" where
  "icmp_fill_response type icode icmphdr iphdr len m =
     (let m = mem_write m (icmphdr + ic_type) [type];
          m = mem_write m (icmphdr + ic_code) [icode];
          m = mem_write m (icmphdr + ic_id) (le_bytes16 0);
          m = mem_write m (icmphdr + ic_seqno) (le_bytes16 0);
          m = mem_write m (icmphdr + SIZEOF_ICMP_ECHO_HDR)
                (mem_read m iphdr (unat IP_HLEN + ICMP_DEST_UNREACH_DATASIZE));
          m = mem_write m (icmphdr + ic_chksum) (le_bytes16 0)
      in mem_write m (icmphdr + ic_chksum) (le_bytes16 (inet_chksum LWIP_CHKSUM icmphdr (mem_read m icmphdr len))))"

definition icmp_send_response :: "'h net_env \<Rightarrow> addr \<Rightarrow> u8 \<Rightarrow> u8 \<Rightarrow> 'h net \<Rightarrow> 'h net option" where
  "icmp_send_response E p type icode n =
     do {
       (n, q) \<leftarrow> net_alloc E PBUF_IP (of_nat (SIZEOF_ICMP_ECHO_HDR + unat IP_HLEN + ICMP_DEST_UNREACH_DATASIZE)) PBUF_RAM n;
       if q = NULL then Some n
       else do {
         pb \<leftarrow> pbufs (net_ps n) p;
         qb \<leftarrow> pbufs (net_ps n) q;
         let iphdr = pb_payload pb;
         let n = set_dmem (icmp_fill_response type icode (pb_payload qb) iphdr (unat (pb_len qb)) (dmem (net_ps n))) n;
         let iphdr_src = load32 (dmem (net_ps n)) (iphdr + ih_src);
         (n, _) \<leftarrow> ip_output E q IPADDR_ANY iphdr_src ICMP_TTL 0 IP_PROTO_ICMP n;
         net_free E q n
       }
     }"

definition icmp_dest_unreach :: "'h net_env \<Rightarrow> addr \<Rightarrow> u8 \<Rightarrow> 'h net \<Rightarrow> 'h net option" where
  "icmp_dest_unreach E p t n = icmp_send_response E p ICMP_DUR t n"

definition icmp_time_exceeded :: "'h net_env \<Rightarrow> addr \<Rightarrow> u8 \<Rightarrow> 'h net \<Rightarrow> 'h net option" where
  "icmp_time_exceeded E p t n = icmp_send_response E p ICMP_TE t n"

section \<open>Echo\<close>

text \<open>The request at \<open>iecho\<close> becomes the reply: addresses exchanged, type changed, the ICMP checksum adjusted
  and the IP header checksum computed anew over twenty octets.\<close>

definition icmp_make_reply :: "ip_addr \<Rightarrow> ip_addr \<Rightarrow> addr \<Rightarrow> addr \<Rightarrow> bytes \<Rightarrow> bytes" where
  "icmp_make_reply src dest iphdr iecho m =
     (let m = mem_write m (iphdr + ih_src) (le_bytes32 dest);
          m = mem_write m (iphdr + ih_dest) (le_bytes32 src);
          m = mem_write m (iecho + ic_type) [ICMP_ER];
          m = mem_write m (iecho + ic_chksum)
                (le_bytes16 (chksum_raise (push_bit 8 (ucast ICMP_ECHO)) (load16 m (iecho + ic_chksum))));
          m = mem_write m (iphdr + ih_ttl) [ICMP_TTL];
          m = mem_write m (iphdr + ih_chksum) (le_bytes16 0)
      in mem_write m (iphdr + ih_chksum) (le_bytes16 (inet_chksum LWIP_CHKSUM iphdr (mem_read m iphdr (unat IP_HLEN)))))"

text \<open>A copy of the request with room for the link header; \<open>Inl\<close> is the jump to \<^verbatim>\<open>memerr\<close>.\<close>

definition icmp_copy_request ::
  "'h net_env \<Rightarrow> addr \<Rightarrow> u16 \<Rightarrow> 'h net \<Rightarrow> ('h net + 'h net \<times> addr \<times> addr) option" where
  "icmp_copy_request E p hlen n =
     do {
       (n, fail) \<leftarrow> net_header p hlen n;
       if fail then Some (Inl n)
       else do {
         pb \<leftarrow> pbufs (net_ps n) p;
         (n, r) \<leftarrow> net_alloc E PBUF_LINK (pb_tot_len pb) PBUF_RAM n;
         if r = NULL then Some (Inl n)
         else do {
           (ps, err) \<leftarrow> pbuf_copy (net_ps n) r p;
           let n = set_ps ps n;
           if err \<noteq> ERR_OK then Some (Inl n)
           else do {
             rb \<leftarrow> pbufs (net_ps n) r;
             let iphdr = pb_payload rb;
             (n, fail) \<leftarrow> net_header r (- hlen) n;
             if fail then Some (Inl n)
             else do { n \<leftarrow> net_free E p n; Some (Inr (n, r, iphdr)) }
           }
         }
       }
     }"

definition icmp_room :: "'h net_env \<Rightarrow> addr \<Rightarrow> addr \<Rightarrow> u16 \<Rightarrow> 'h net \<Rightarrow> ('h net + 'h net \<times> addr \<times> addr) option" where
  "icmp_room E p iphdr hlen n =
     do {
       (n, fail) \<leftarrow> net_header p (PBUF_IP_HLEN + PBUF_LINK_HLEN) n;
       if fail then icmp_copy_request E p hlen n
       else do {
         (n, fail) \<leftarrow> net_header p (- (PBUF_IP_HLEN + PBUF_LINK_HLEN)) n;
         Some (if fail then Inl n else Inr (n, p, iphdr))
       }
     }"

definition icmp_echo :: "'h net_env \<Rightarrow> addr \<Rightarrow> nat \<Rightarrow> addr \<Rightarrow> u16 \<Rightarrow> 'h net \<Rightarrow> 'h net option" where
  "icmp_echo E p inp iphdr hlen n =
     do {
       r \<leftarrow> icmp_room E p iphdr hlen n;
       case r of
         Inl n \<Rightarrow> net_free E p n
       | Inr (n, p, iphdr) \<Rightarrow> do {
           pb \<leftarrow> pbufs (net_ps n) p;
           let n = set_dmem (icmp_make_reply (current_iphdr_src n) (current_iphdr_dest n) iphdr (pb_payload pb)
                               (dmem (net_ps n))) n;
           (n, fail) \<leftarrow> net_header p hlen n;
           n \<leftarrow> (if fail then Some n
                 else do {
                   (n, _) \<leftarrow> ip_output_if E p (current_iphdr_dest n) None ICMP_TTL 0 IP_PROTO_ICMP inp n;
                   Some n
                 });
           net_free E p n
         }
     }"

definition icmp_input :: "'h net_env \<Rightarrow> addr \<Rightarrow> nat \<Rightarrow> 'h net \<Rightarrow> 'h net option" where
  "icmp_input E p inp n =
     do {
       pb \<leftarrow> pbufs (net_ps n) p;
       let iphdr = pb_payload pb;
       let hlen = IPH_HL (dmem (net_ps n)) iphdr * 4;
       (n, fail) \<leftarrow> net_header p (- hlen) n;
       pb \<leftarrow> pbufs (net_ps n) p;
       if fail \<or> pb_tot_len pb < 4 then net_free E p n
       else if dmem (net_ps n) (pb_payload pb) = ICMP_ECHO then
         if ip_addr_ismulticast (current_iphdr_dest n) then net_free E p n
         else if unat (pb_tot_len pb) < SIZEOF_ICMP_ECHO_HDR then net_free E p n
         else do {
           bufs \<leftarrow> chain_bufs (pbufs (net_ps n)) (dmem (net_ps n)) p;
           if inet_chksum_pbuf LWIP_CHKSUM bufs \<noteq> 0 then net_free E p n
           else icmp_echo E p inp iphdr hlen n
         }
       else net_free E p n
     }"

section \<open>The reply\<close>

lemmas ic_offsets = ic_type_def ic_code_def ic_chksum_def ic_id_def ic_seqno_def

lemma le_sum_4: "le_sum (a # b # le_bytes16 c @ bs) = unat a + (256 * unat b + le_sum bs) + unat c"
  by (simp add: le_sum_append_even le_sum_u16)

text \<open>A message read as type, code, checksum and the rest.\<close>

lemma icmp_split:
  assumes "4 \<le> len"
  shows "mem_read m a len = m a # m (a + 1) # le_bytes16 (load16 m (a + 2)) @ mem_read m (a + 4) (len - 4)"
proof -
  have "mem_read m a 4 = [m a, m (a + 1), m (a + 2), m (a + 3)]"
    by (simp add: mem_read_def upt_rec numeral_eq_Suc)
  moreover have "le_bytes16 (load16 m (a + 2)) = [m (a + 2), m (a + 3)]"
    using le_bytes16_load16 [of m "a + 2"] by (simp add: numeral_eq_Suc)
  ultimately show ?thesis
    using mem_read_add [of m a 4 "len - 4"] assms by simp
qed

definition icmp_zero :: "bytes \<Rightarrow> addr \<Rightarrow> nat \<Rightarrow> bool" where
  "icmp_zero m iecho len \<longleftrightarrow> m (iecho + 1) = 0 \<and> le_sum (mem_read m (iecho + 4) (len - 4)) = 0"

text \<open>The incremental update is right for every request but one: code, identifier, sequence number and data
  all zero.\<close>

lemma icmp_make_reply_read:
  fixes m :: bytes and src dest :: ip_addr
  assumes "iphdr + 20 \<le> iecho" "8 \<le> len" "len < 65536"
  defines "m' \<equiv> icmp_make_reply src dest iphdr iecho m"
  shows "m' iecho = ICMP_ER" "m' (iecho + 1) = m (iecho + 1)"
    "load16 m' (iecho + 2) = chksum_raise 0x800 (load16 m (iecho + 2))"
    "mem_read m' (iecho + 4) (len - 4) = mem_read m (iecho + 4) (len - 4)"
    "load32 m' (iphdr + ih_src) = dest" "load32 m' (iphdr + ih_dest) = src"
    "mem_read m' iphdr 8 = mem_read m iphdr 8" "m' (iphdr + 8) = ICMP_TTL" "m' (iphdr + 9) = m (iphdr + 9)"
    "inet_chksum LWIP_CHKSUM iphdr (mem_read m' iphdr 20) = 0"
proof -
  define m5 where "m5 = mem_write (mem_write (mem_write (mem_write (mem_write (mem_write m (iphdr + 12) (le_bytes32 dest))
    (iphdr + 16) (le_bytes32 src)) iecho [ICMP_ER]) (iecho + 2) (le_bytes16 (chksum_raise 0x800 (load16 m (iecho + 2)))))
    (iphdr + 8) [ICMP_TTL]) (iphdr + 10) (le_bytes16 0)"
  define ck where "ck = inet_chksum LWIP_CHKSUM iphdr (mem_read m5 iphdr 20)"
  have load: "load16 (mem_write (mem_write (mem_write m (iphdr + 12) (le_bytes32 dest)) (iphdr + 16) (le_bytes32 src)) iecho [ICMP_ER])
      (iecho + 2) = load16 m (iecho + 2)"
    using assms(1) by (simp add: load16_def mem_write_other del: mem_write.simps)
  have m': "m' = mem_write m5 (iphdr + 10) (le_bytes16 ck)"
    using load unfolding m'_def icmp_make_reply_def Let_def ih_offsets ic_offsets ck_def m5_def
    by (simp add: IP_HLEN_def ICMP_ECHO_def del: mem_write.simps)
  show "m' iecho = ICMP_ER" "m' (iecho + 1) = m (iecho + 1)" "m' (iphdr + 8) = ICMP_TTL" "m' (iphdr + 9) = m (iphdr + 9)"
    using assms(1) unfolding m' m5_def by (simp_all add: mem_write_apply)
  show "load16 m' (iecho + 2) = chksum_raise 0x800 (load16 m (iecho + 2))"
    using assms(1) unfolding m' m5_def
    by (intro load16_read) (simp add: mem_read_same mem_read_write_other del: mem_write.simps add_2_eq_Suc')
  show "mem_read m' (iecho + 4) (len - 4) = mem_read m (iecho + 4) (len - 4)" "mem_read m' iphdr 8 = mem_read m iphdr 8"
    using assms(1) unfolding m' m5_def by (simp_all add: mem_read_write_other del: mem_write.simps)
  show "load32 m' (iphdr + ih_src) = dest" "load32 m' (iphdr + ih_dest) = src"
    using assms(1) unfolding m' m5_def ih_offsets
    by (intro load32_read; simp add: mem_read_same mem_read_write_other del: mem_write.simps)+
  define xs ys where "xs = mem_read m5 iphdr 10" and "ys = mem_read m5 (iphdr + 12) 8"
  have split: "mem_read w iphdr 20 = mem_read w iphdr 10 @ mem_read w (iphdr + 10) 2 @ mem_read w (iphdr + 12) 8" for w
    using mem_read_add [of w iphdr 10 10] mem_read_add [of w "iphdr + 10" 2 8] by (simp add: add.commute)
  have "mem_read m5 (iphdr + 10) 2 = [0, 0]"
    unfolding m5_def by (simp add: mem_read_same le_bytes16_def del: mem_write.simps)
  then have "ck = NOT (of_nat (oc16 (le_sum (xs @ [0, 0] @ ys))))"
    unfolding ck_def by (simp add: chksum_2.inet_chksum_eq) (simp add: split xs_def ys_def)
  from oc16_field_verifies [OF _ this]
  have "NOT (of_nat (oc16 (le_sum (xs @ [ucast ck, ucast (drop_bit 8 ck)] @ ys))) :: u16) = 0"
    by (simp add: xs_def)
  moreover have "mem_read m' iphdr 20 = xs @ [ucast ck, ucast (drop_bit 8 ck)] @ ys"
    unfolding split [of m'] by (simp add: m' mem_read_same mem_read_write_other xs_def ys_def le_bytes16_def [of ck] del: mem_write.simps)
  moreover have "inet_chksum LWIP_CHKSUM iphdr (mem_read m' iphdr 20) = NOT (of_nat (oc16 (le_sum (mem_read m' iphdr 20))))"
    by (simp add: chksum_2.inet_chksum_eq)
  ultimately show "inet_chksum LWIP_CHKSUM iphdr (mem_read m' iphdr 20) = 0"
    by (simp only:)
qed

lemma icmp_make_reply_verifies:
  assumes "iphdr + 20 \<le> iecho" "8 \<le> len" "len < 65536"
    and "m iecho = ICMP_ECHO" "inet_chksum LWIP_CHKSUM iecho (mem_read m iecho len) = 0" "\<not> icmp_zero m iecho len"
  shows "inet_chksum LWIP_CHKSUM iecho (mem_read (icmp_make_reply src dest iphdr iecho m) iecho len) = 0"
proof -
  define r where "r = 256 * unat (m (iecho + 1)) + le_sum (mem_read m (iecho + 4) (len - 4))"
  define m' where "m' = icmp_make_reply src dest iphdr iecho m"
  define ck where "ck = load16 m (iecho + 2)"
  have r: "r \<noteq> 0"
    using assms(6) by (auto simp: r_def icmp_zero_def unat_eq_0)
  have len: "4 \<le> len"
    using assms(2) by simp
  have "le_sum (mem_read m iecho len) = r + 8 + unat ck"
    unfolding icmp_split [OF len, of m] le_sum_4 assms(4) r_def ck_def by (simp add: ICMP_ECHO_def)
  then have "65535 dvd r + 8 + unat ck"
    using assms(3,5) by (simp add: inet_chksum_zero_iff)
  then have "65535 dvd r + unat (chksum_raise 0x800 ck)"
    using chksum_raise_dvd [of "0x800" 8 8 r ck] by simp
  moreover have "le_sum (mem_read m' iecho len) = r + unat (chksum_raise 0x800 ck)"
    using icmp_make_reply_read(1-4) [OF assms(1-3), of src dest m]
    unfolding icmp_split [OF len, of m'] le_sum_4 m'_def [symmetric] r_def ck_def by (simp add: ICMP_ER_def)
  ultimately show ?thesis
    using r assms(3) unfolding m'_def [symmetric] by (simp add: inet_chksum_zero_iff)
qed

lemma net_header_hide:
  assumes "pbufs (net_ps n) p = Some pb" "p \<noteq> NULL" "pb_type pb = PBUF_RAM \<or> pb_type pb = PBUF_POOL"
    "0 < k" "k < 32768" "k \<le> unat (pb_len pb)" "p + SIZEOF_STRUCT_PBUF \<le> pb_payload pb + k"
  shows "net_header p (- of_nat k) n = Some (set_ps (set_pbuf p (pb\<lparr>pb_payload := pb_payload pb + k, pb_len := pb_len pb - of_nat k,
    pb_tot_len := pb_tot_len pb - of_nat k\<rparr>) (net_ps n)) n, False)"
proof -
  define w where "w = (- of_nat k :: u16)"
  have u: "unat (of_nat k :: u16) = k"
    using assms(5) by (simp add: unat_of_nat)
  then have "unat w = 65536 - k"
    using assms(4,5) unat_sub_if' [of 0 "of_nat k :: u16"] by (simp add: w_def)
  then have sint: "sint w = - int k" "w \<noteq> 0"
    using assms(4,5) sint_u16_pos [of w] sint_u16_neg [of w] sint_u16_range [of w] by (linarith, auto)
  moreover have "- w \<le> pb_len pb"
    using assms(6) u by (simp add: w_def word_le_nat_alt)
  ultimately show ?thesis
    using assms unfolding net_header_def pbuf_header_def w_def [symmetric]
    by (auto simp: Let_def nat_add_distrib w_def)
qed

lemma set_ps_same [simp]: "set_ps (net_ps n) n = n"
  by (simp add: set_ps_def)

lemma set_pbuf_twice [simp]: "set_pbuf p pb (set_pbuf p pb' s) = set_pbuf p pb s"
  by (simp add: set_pbuf_def)

lemma chain_bufs_single:
  assumes "st p = Some pb" "p \<noteq> NULL" "pb_next pb = NULL"
  shows "chain_bufs st m p = Some [(pb_payload pb, mem_read m (pb_payload pb) (unat (pb_len pb)))]"
proof -
  have "chain_bufs st m NULL = Some []"
    by (subst chain_bufs.simps) simp
  then show ?thesis
    using assms by (subst chain_bufs.simps) simp
qed

lemma inet_chksum_pbuf_single:
  "length bs < 65536 \<Longrightarrow> inet_chksum_pbuf LWIP_CHKSUM [(a, bs)] = inet_chksum LWIP_CHKSUM b bs"
  by (simp add: chksum_2.inet_chksum_pbuf_eq chksum_2.inet_chksum_eq)

section \<open>Properties\<close>


text \<open>A ping of eight octets in the demonstration state.\<close>

definition ping_demo :: "unit net" where
  "ping_demo = (set_ps ((net_ps ip_demo)\<lparr>
       pbufs := [1000 \<mapsto> \<lparr>pb_next = NULL, pb_payload = 1100, pb_tot_len = 28, pb_len = 28, pb_type = PBUF_POOL, pb_flags = 0, pb_ref = 1\<rparr>],
       dmem := mem_write (\<lambda>_. 0) 1100 ([0x45] @ replicate 19 0 @ [8, 0, 0xf7, 0xfd, 0, 1, 0, 1])\<rparr>) ip_demo)
     \<lparr>current_iphdr_src := 0x0200a8c0, current_iphdr_dest := 0x0100a8c0\<rparr>"


end
