(* ===== verification/Udp.thy ===== *)
theory Udp
  imports Icmp
begin

text \<open>
  UDP: \<^verbatim>\<open>core/udp.c\<close>.  The list of control blocks linked through \<^verbatim>\<open>next\<close> from \<^verbatim>\<open>udp_pcbs\<close> is the list of
  their addresses in \<open>udp_pcbs\<close>; the blocks themselves, listed or not, are in the store \<open>pcbs\<close>, and an
  access to an address that is not a block gives \<open>None\<close>.  In this configuration there is no UDP-Lite and
  no \<^verbatim>\<open>SO_REUSE\<close>; IGMP, DHCP, the broadcast options and \<^verbatim>\<open>LWIP_CHECKSUM_ON_COPY\<close> are on, and
  \<^verbatim>\<open>memp_malloc\<close> is \<^verbatim>\<open>mem_malloc\<close> of the size of the structure.  A null pointer for an address means the
  same as \<open>IPADDR_ANY\<close> to the functions that take one.
\<close>

definition UDP_HLEN :: u16 where "UDP_HLEN = 8"
definition UDP_TTL :: u8 where "UDP_TTL = 255"
definition UDP_FLAGS_NOCHKSUM :: u8 where "UDP_FLAGS_NOCHKSUM = 0x01"
definition UDP_FLAGS_CONNECTED :: u8 where "UDP_FLAGS_CONNECTED = 0x04"
definition UDP_FLAGS_MULTICAST_LOOP :: u8 where "UDP_FLAGS_MULTICAST_LOOP = 0x08"
definition SOF_BROADCAST :: u8 where "SOF_BROADCAST = 0x20"
definition PBUF_FLAG_MCASTLOOP :: u8 where "PBUF_FLAG_MCASTLOOP = 0x04"
definition DHCP_CLIENT_PORT :: u16 where "DHCP_CLIENT_PORT = 68"
definition DHCP_SERVER_PORT :: u16 where "DHCP_SERVER_PORT = 67"
definition UDP_LOCAL_PORT_RANGE_START :: u16 where "UDP_LOCAL_PORT_RANGE_START = 0xc000"
definition UDP_LOCAL_PORT_RANGE_END :: u16 where "UDP_LOCAL_PORT_RANGE_END = 0xffff"
definition SIZEOF_UDP_PCB :: nat where "SIZEOF_UDP_PCB = 36"

text \<open>Offsets in \<^verbatim>\<open>struct udp_hdr\<close>.\<close>

definition uh_src :: nat where "uh_src = 0"
definition uh_dest :: nat where "uh_dest = 2"
definition uh_len :: nat where "uh_len = 4"
definition uh_chksum :: nat where "uh_chksum = 6"

definition set_pcb :: "addr \<Rightarrow> udp_pcb \<Rightarrow> 'h net \<Rightarrow> 'h net" where
  "set_pcb a pcb n = n\<lparr>pcbs := (pcbs n)(a \<mapsto> pcb)\<rparr>"

section \<open>Control blocks\<close>

text \<open>The first loop of \<^verbatim>\<open>udp_bind\<close>: \<open>Some (Some rebind)\<close> after the whole list, \<open>Some None\<close> for the return
  with \<open>ERR_USE\<close>.\<close>

definition bind_clash :: "ip_addr \<Rightarrow> u16 \<Rightarrow> udp_pcb \<Rightarrow> bool" where
  "bind_clash ipaddr port ipcb \<longleftrightarrow> local_port ipcb = port
     \<and> (local_ip ipcb = IPADDR_ANY \<or> ipaddr = IPADDR_ANY \<or> local_ip ipcb = ipaddr)"

fun bind_scan :: "(addr \<Rightarrow> udp_pcb option) \<Rightarrow> addr \<Rightarrow> ip_addr \<Rightarrow> u16 \<Rightarrow> bool \<Rightarrow> addr list \<Rightarrow> bool option option" where
  "bind_scan st pcb ipaddr port rebind [] = Some (Some rebind)"
| "bind_scan st pcb ipaddr port rebind (a # rest) =
     (if pcb = a then bind_scan st pcb ipaddr port True rest
      else do {
        ipcb \<leftarrow> st a;
        if bind_clash ipaddr port ipcb then Some None else bind_scan st pcb ipaddr port rebind rest
      })"

lemma port_left:
  fixes port :: u16
  assumes "port \<noteq> 0xffff"
  shows "unat (0xfffe - port) < unat (0xffff - port)"
proof -
  have "unat port \<noteq> 65535"
    using assms by (auto simp: word_unat_eq_iff)
  then have "unat port < 65535"
    using unat_u16_lt [of port] by linarith
  then show ?thesis
    by (simp add: unat_sub_if' unat_word_ariths)
qed

text \<open>The search for a free port: \<open>ipcb\<close> is the rest of the list still to be compared with \<open>port\<close>.  It
  returns the port and whether the end of the list was reached.\<close>

function port_scan :: "(addr \<Rightarrow> udp_pcb option) \<Rightarrow> addr list \<Rightarrow> u16 \<Rightarrow> addr list \<Rightarrow> (u16 \<times> bool) option" where
  "port_scan st udps port ipcb =
     (case ipcb of
        [] \<Rightarrow> Some (port, True)
      | a # rest \<Rightarrow>
          if port = UDP_LOCAL_PORT_RANGE_END then Some (port, False)
          else do {
            pcb \<leftarrow> st a;
            if local_port pcb = port then port_scan st udps (port + 1) udps else port_scan st udps port rest
          })"
  by pat_completeness auto

termination port_scan
  by (relation "measures [\<lambda>(_, _, port, _). unat (0xffff - port), \<lambda>(_, _, _, ipcb). length ipcb]")
    (auto simp: UDP_LOCAL_PORT_RANGE_END_def port_left)

declare port_scan.simps [simp del]

definition udp_bind :: "addr \<Rightarrow> ip_addr \<Rightarrow> u16 \<Rightarrow> 'h net \<Rightarrow> ('h net \<times> err_t) option" where
  "udp_bind a ipaddr port n =
     do {
       r \<leftarrow> bind_scan (pcbs n) a ipaddr port False (udp_pcbs n);
       case r of
         None \<Rightarrow> Some (n, ERR_USE)
       | Some rebind \<Rightarrow> do {
           pcb \<leftarrow> pcbs n a;
           let n = set_pcb a (pcb\<lparr>local_ip := ipaddr\<rparr>) n;
           (port, found) \<leftarrow> (if port = 0 then port_scan (pcbs n) (udp_pcbs n) UDP_LOCAL_PORT_RANGE_START (udp_pcbs n)
                             else Some (port, True));
           if \<not> found then Some (n, ERR_USE)
           else do {
             let n = set_pcb a (pcb\<lparr>local_ip := ipaddr, local_port := port\<rparr>) n;
             Some (if rebind then n else n\<lparr>udp_pcbs := a # udp_pcbs n\<rparr>, ERR_OK)
           }
         }
     }"

definition udp_connect :: "addr \<Rightarrow> ip_addr \<Rightarrow> u16 \<Rightarrow> 'h net \<Rightarrow> ('h net \<times> err_t) option" where
  "udp_connect a ipaddr port n =
     do {
       pcb \<leftarrow> pcbs n a;
       (n, err) \<leftarrow> (if local_port pcb = 0 then udp_bind a (local_ip pcb) (local_port pcb) n else Some (n, ERR_OK));
       if err \<noteq> ERR_OK then Some (n, err)
       else do {
         pcb \<leftarrow> pcbs n a;
         let n = set_pcb a (pcb\<lparr>remote_ip := ipaddr, remote_port := port, pcb_flags := pcb_flags pcb OR UDP_FLAGS_CONNECTED\<rparr>) n;
         Some (if a \<in> set (udp_pcbs n) then n else n\<lparr>udp_pcbs := a # udp_pcbs n\<rparr>, ERR_OK)
       }
     }"

definition udp_disconnect :: "addr \<Rightarrow> 'h net \<Rightarrow> 'h net option" where
  "udp_disconnect a n =
     do {
       pcb \<leftarrow> pcbs n a;
       Some (set_pcb a (pcb\<lparr>remote_ip := IPADDR_ANY, remote_port := 0, pcb_flags := pcb_flags pcb AND NOT UDP_FLAGS_CONNECTED\<rparr>) n)
     }"

definition udp_recv :: "addr \<Rightarrow> nat option \<Rightarrow> nat \<Rightarrow> 'h net \<Rightarrow> 'h net option" where
  "udp_recv a recv recv_arg n =
     do { pcb \<leftarrow> pcbs n a; Some (set_pcb a (pcb\<lparr>pcb_recv := map_option (\<lambda>f. (f, recv_arg)) recv\<rparr>) n) }"

text \<open>The loop of \<^verbatim>\<open>udp_remove\<close> over the list after its first block: a successor that is \<open>pcb\<close> is skipped,
  and the loop goes on with the successor it now has.\<close>

fun udp_unlink :: "addr \<Rightarrow> addr list \<Rightarrow> addr list" where
  "udp_unlink pcb (pcb2 # q # rest) =
     (if q = pcb then pcb2 # udp_unlink pcb rest else pcb2 # udp_unlink pcb (q # rest))"
| "udp_unlink pcb xs = xs"

definition udp_remove :: "'h net_env \<Rightarrow> addr \<Rightarrow> 'h net \<Rightarrow> 'h net option" where
  "udp_remove E a n =
     do {
       pcb \<leftarrow> pcbs n a;
       let list = (case udp_pcbs n of x # rest \<Rightarrow> if x = a then rest else udp_unlink a (x # rest) | [] \<Rightarrow> []);
       let ps = net_ps n;
       Some ((set_ps (ps\<lparr>heap := al_free (ne_alloc E) (heap ps) a\<rparr>) n)\<lparr>udp_pcbs := list, pcbs := (pcbs n)(a := None)\<rparr>)
     }"

definition udp_new :: "'h net_env \<Rightarrow> 'h net \<Rightarrow> 'h net \<times> addr" where
  "udp_new E n =
     (let ps = net_ps n;
          (h, a) = al_malloc (ne_alloc E) (heap ps) SIZEOF_UDP_PCB;
          n = set_ps (ps\<lparr>heap := h\<rparr>) n
      in if a \<noteq> NULL then
           (set_pcb a \<lparr>local_ip = 0, remote_ip = 0, so_options = 0, pcb_tos = 0, pcb_ttl = UDP_TTL, pcb_flags = 0,
              local_port = 0, remote_port = 0, multicast_ip = 0, pcb_recv = None\<rparr> n, a)
         else (n, NULL))"

section \<open>Input\<close>

definition udp_local_match :: "ip_addr \<Rightarrow> u16 \<Rightarrow> bool \<Rightarrow> udp_pcb \<Rightarrow> bool" where
  "udp_local_match dest_ip dest broadcast pcb \<longleftrightarrow> local_port pcb = dest
     \<and> (\<not> broadcast \<and> local_ip pcb = IPADDR_ANY \<or> local_ip pcb = dest_ip \<or> ip_addr_ismulticast dest_ip
        \<or> broadcast \<and> so_options pcb AND SOF_BROADCAST \<noteq> 0)"

definition udp_remote_match :: "ip_addr \<Rightarrow> u16 \<Rightarrow> udp_pcb \<Rightarrow> bool" where
  "udp_remote_match src_ip src pcb \<longleftrightarrow> remote_port pcb = src \<and> (remote_ip pcb = IPADDR_ANY \<or> remote_ip pcb = src_ip)"

text \<open>The search for a control block.  \<open>seen\<close> are the blocks before the current one; a full match is moved
  to the front.  The result is the new list and the block found or \<open>uncon_pcb\<close>.\<close>

fun udp_scan ::
  "(addr \<Rightarrow> udp_pcb option) \<Rightarrow> (udp_pcb \<Rightarrow> bool) \<Rightarrow> (udp_pcb \<Rightarrow> bool) \<Rightarrow> addr list \<Rightarrow> addr \<Rightarrow> addr list \<Rightarrow> (addr list \<times> addr) option"
where
  "udp_scan st local remote seen uncon_pcb [] = Some (seen, uncon_pcb)"
| "udp_scan st local remote seen uncon_pcb (a # rest) =
     do {
       pcb \<leftarrow> st a;
       let uncon_pcb = (if local pcb \<and> uncon_pcb = NULL \<and> pcb_flags pcb AND UDP_FLAGS_CONNECTED = 0 then a else uncon_pcb);
       if local pcb \<and> remote pcb then Some (a # seen @ rest, a)
       else udp_scan st local remote (seen @ [a]) uncon_pcb rest
     }"

text \<open>The control block for a datagram from port \<open>src\<close> to port \<open>dest\<close>, \<open>NULL\<close> for none.\<close>

definition udp_find :: "nat \<Rightarrow> bool \<Rightarrow> u16 \<Rightarrow> u16 \<Rightarrow> 'h net \<Rightarrow> ('h net \<times> addr) option" where
  "udp_find inp broadcast src dest n =
     (if dest = DHCP_CLIENT_PORT then
        if src = DHCP_SERVER_PORT \<and> dhcp_pcb n inp \<noteq> NULL then do {
          pcb \<leftarrow> pcbs n (dhcp_pcb n inp);
          Some (n, if remote_ip pcb = IPADDR_ANY \<or> remote_ip pcb = current_iphdr_src n then dhcp_pcb n inp else NULL)
        }
        else Some (n, NULL)
      else do {
        (list, a) \<leftarrow> udp_scan (pcbs n) (udp_local_match (current_iphdr_dest n) dest broadcast)
                      (udp_remote_match (current_iphdr_src n) src) [] NULL (udp_pcbs n);
        Some (n\<lparr>udp_pcbs := list\<rparr>, a)
      })"

text \<open>The part of \<^verbatim>\<open>udp_input\<close> after the checksum: the datagram goes to the block's receive function, which
  has to free it, or is answered with an ICMP message.\<close>

definition udp_deliver :: "'h net_env \<Rightarrow> addr \<Rightarrow> addr \<Rightarrow> u16 \<Rightarrow> bool \<Rightarrow> addr \<Rightarrow> 'h net \<Rightarrow> 'h net option" where
  "udp_deliver E p iphdr src broadcast a n =
     (if a \<noteq> NULL then do {
        pcb \<leftarrow> pcbs n a;
        case pcb_recv pcb of
          Some (recv, recv_arg) \<Rightarrow> ne_recv E recv recv_arg a p (current_iphdr_src n) src n
        | None \<Rightarrow> net_free E p n
      }
      else do {
        n \<leftarrow> (if \<not> broadcast \<and> \<not> ip_addr_ismulticast (current_iphdr_dest n) then do {
                (n, _) \<leftarrow> net_header p (IPH_HL (dmem (net_ps n)) iphdr * 4 + UDP_HLEN) n;
                icmp_dest_unreach E p ICMP_DUR_PORT n
              }
              else Some n);
        net_free E p n
      })"

definition udp_input :: "'h net_env \<Rightarrow> addr \<Rightarrow> nat \<Rightarrow> 'h net \<Rightarrow> 'h net option" where
  "udp_input E p inp n =
     do {
       pb \<leftarrow> pbufs (net_ps n) p;
       let iphdr = pb_payload pb;
       let hlen = IPH_HL (dmem (net_ps n)) iphdr * 4;
       (n, fail) \<leftarrow> (if unat (pb_tot_len pb) < unat hlen + unat UDP_HLEN then Some (n, True) else net_header p (- hlen) n);
       if fail then net_free E p n
       else do {
         pb \<leftarrow> pbufs (net_ps n) p;
         let udphdr = pb_payload pb;
         let m = dmem (net_ps n);
         let broadcast = ip4_addr_isbroadcast (current_iphdr_dest n) (netif_list n ! inp);
         let src = lwip_ntohs (load16 m (udphdr + uh_src));
         let dest = lwip_ntohs (load16 m (udphdr + uh_dest));
         (n, a) \<leftarrow> udp_find inp broadcast src dest n;
         if a \<noteq> NULL \<or> netif_ip_addr (netif_list n ! inp) = current_iphdr_dest n then do {
           bufs \<leftarrow> chain_bufs (pbufs (net_ps n)) m p;
           if load16 m (udphdr + uh_chksum) \<noteq> 0
              \<and> inet_chksum_pseudo LWIP_CHKSUM bufs (current_iphdr_src n) (current_iphdr_dest n) IP_PROTO_UDP (pb_tot_len pb) \<noteq> 0
           then net_free E p n
           else do {
             (n, fail) \<leftarrow> net_header p (- UDP_HLEN) n;
             if fail then net_free E p n else udp_deliver E p iphdr src broadcast a n
           }
         }
         else net_free E p n
       }
     }"

section \<open>Output\<close>

text \<open>The checksum of the datagram \<open>q\<close>; \<open>chksum\<close> is that of the data when \<open>have_chksum\<close> says so.\<close>

definition udp_chksum :: "buf list \<Rightarrow> ip_addr \<Rightarrow> ip_addr \<Rightarrow> u16 \<Rightarrow> bool \<Rightarrow> u16 \<Rightarrow> u16" where
  "udp_chksum q src_ip dst_ip tot_len have_chksum chksum =
     (let udpchksum =
            (if have_chksum then
               let udpchksum = inet_chksum_pseudo_partial LWIP_CHKSUM q src_ip dst_ip IP_PROTO_UDP tot_len UDP_HLEN;
                   acc = (ucast udpchksum + ucast (NOT chksum) :: u32)
               in ucast (FOLD_U32T acc)
             else inet_chksum_pseudo LWIP_CHKSUM q src_ip dst_ip IP_PROTO_UDP tot_len)
      in if udpchksum = 0 then 0xffff else udpchksum)"

text \<open>The pbuf with room for the header: \<open>p\<close> itself or a new one in front of it; \<open>NULL\<close> without memory.\<close>

definition udp_room :: "'h net_env \<Rightarrow> addr \<Rightarrow> 'h net \<Rightarrow> ('h net \<times> addr) option" where
  "udp_room E p n =
     do {
       (n, fail) \<leftarrow> net_header p UDP_HLEN n;
       if fail then do {
         (n, q) \<leftarrow> net_alloc E PBUF_IP UDP_HLEN PBUF_RAM n;
         if q = NULL then Some (n, NULL)
         else do {
           pb \<leftarrow> pbufs (net_ps n) p;
           if pb_tot_len pb \<noteq> 0 then do { ps \<leftarrow> pbuf_chain (net_ps n) q p; Some (set_ps ps n, q) }
           else Some (n, q)
         }
       }
       else Some (n, p)
     }"

text \<open>The length and the checksum, then the way to IP.\<close>

definition udp_transmit ::
  "'h net_env \<Rightarrow> udp_pcb \<Rightarrow> addr \<Rightarrow> ip_addr \<Rightarrow> ip_addr \<Rightarrow> nat \<Rightarrow> bool \<Rightarrow> u16 \<Rightarrow> 'h net \<Rightarrow> ('h net \<times> err_t) option" where
  "udp_transmit E pcb q src_ip dst_ip netif have_chksum chksum n =
     do {
       qb \<leftarrow> pbufs (net_ps n) q;
       let udphdr = pb_payload qb;
       let m = mem_write (dmem (net_ps n)) (udphdr + uh_len) (le_bytes16 (lwip_htons (pb_tot_len qb)));
       m \<leftarrow> (if pcb_flags pcb AND UDP_FLAGS_NOCHKSUM = 0 then do {
               bufs \<leftarrow> chain_bufs (pbufs (net_ps n)) m q;
               Some (mem_write m (udphdr + uh_chksum)
                       (le_bytes16 (udp_chksum bufs src_ip dst_ip (pb_tot_len qb) have_chksum chksum)))
             }
             else Some m);
       ip_output_if E q src_ip (Some dst_ip) (pcb_ttl pcb) (pcb_tos pcb) IP_PROTO_UDP netif (set_dmem m n)
     }"

definition udp_sendto_if_chksum ::
  "'h net_env \<Rightarrow> addr \<Rightarrow> addr \<Rightarrow> ip_addr \<Rightarrow> u16 \<Rightarrow> nat \<Rightarrow> bool \<Rightarrow> u16 \<Rightarrow> 'h net \<Rightarrow> ('h net \<times> err_t) option" where
  "udp_sendto_if_chksum E a p dst_ip dst_port netif have_chksum chksum n =
     do {
       pcb \<leftarrow> pcbs n a;
       if so_options pcb AND SOF_BROADCAST = 0 \<and> ip4_addr_isbroadcast dst_ip (netif_list n ! netif) then Some (n, ERR_VAL)
       else do {
         (n, err) \<leftarrow> (if local_port pcb = 0 then udp_bind a (local_ip pcb) (local_port pcb) n else Some (n, ERR_OK));
         if err \<noteq> ERR_OK then Some (n, err)
         else do {
           (n, q) \<leftarrow> udp_room E p n;
           if q = NULL then Some (n, ERR_MEM)
           else do {
             pcb \<leftarrow> pcbs n a;
             qb \<leftarrow> pbufs (net_ps n) q;
             let udphdr = pb_payload qb;
             let m = mem_write (dmem (net_ps n)) (udphdr + uh_src) (le_bytes16 (lwip_htons (local_port pcb)));
             let m = mem_write m (udphdr + uh_dest) (le_bytes16 (lwip_htons dst_port));
             let m = mem_write m (udphdr + uh_chksum) (le_bytes16 0);
             let n = set_dmem m n;
             let n = (if ip_addr_ismulticast dst_ip \<and> pcb_flags pcb AND UDP_FLAGS_MULTICAST_LOOP \<noteq> 0
                      then set_ps (set_pbuf q (qb\<lparr>pb_flags := pb_flags qb OR PBUF_FLAG_MCASTLOOP\<rparr>) (net_ps n)) n else n);
             if local_ip pcb \<noteq> IPADDR_ANY \<and> local_ip pcb \<noteq> netif_ip_addr (netif_list n ! netif) then do {
               n \<leftarrow> (if q \<noteq> p then net_free E q n else Some n);
               Some (n, ERR_VAL)
             }
             else do {
               let src_ip = (if local_ip pcb = IPADDR_ANY then netif_ip_addr (netif_list n ! netif) else local_ip pcb);
               (n, err) \<leftarrow> udp_transmit E pcb q src_ip dst_ip netif have_chksum chksum n;
               n \<leftarrow> (if q \<noteq> p then net_free E q n else Some n);
               Some (n, err)
             }
           }
         }
       }
     }"

definition udp_sendto_if ::
  "'h net_env \<Rightarrow> addr \<Rightarrow> addr \<Rightarrow> ip_addr \<Rightarrow> u16 \<Rightarrow> nat \<Rightarrow> 'h net \<Rightarrow> ('h net \<times> err_t) option" where
  "udp_sendto_if E a p dst_ip dst_port netif n = udp_sendto_if_chksum E a p dst_ip dst_port netif False 0 n"

definition udp_sendto_chksum ::
  "'h net_env \<Rightarrow> addr \<Rightarrow> addr \<Rightarrow> ip_addr \<Rightarrow> u16 \<Rightarrow> bool \<Rightarrow> u16 \<Rightarrow> 'h net \<Rightarrow> ('h net \<times> err_t) option" where
  "udp_sendto_chksum E a p dst_ip dst_port have_chksum chksum n =
     do {
       pcb \<leftarrow> pcbs n a;
       case ip_route (if ip_addr_ismulticast dst_ip then multicast_ip pcb else dst_ip) n of
         None \<Rightarrow> Some (n, ERR_RTE)
       | Some netif \<Rightarrow> udp_sendto_if_chksum E a p dst_ip dst_port netif have_chksum chksum n
     }"

definition udp_sendto :: "'h net_env \<Rightarrow> addr \<Rightarrow> addr \<Rightarrow> ip_addr \<Rightarrow> u16 \<Rightarrow> 'h net \<Rightarrow> ('h net \<times> err_t) option" where
  "udp_sendto E a p dst_ip dst_port n = udp_sendto_chksum E a p dst_ip dst_port False 0 n"

definition udp_send_chksum :: "'h net_env \<Rightarrow> addr \<Rightarrow> addr \<Rightarrow> bool \<Rightarrow> u16 \<Rightarrow> 'h net \<Rightarrow> ('h net \<times> err_t) option" where
  "udp_send_chksum E a p have_chksum chksum n =
     do { pcb \<leftarrow> pcbs n a; udp_sendto_chksum E a p (remote_ip pcb) (remote_port pcb) have_chksum chksum n }"

definition udp_send :: "'h net_env \<Rightarrow> addr \<Rightarrow> addr \<Rightarrow> 'h net \<Rightarrow> ('h net \<times> err_t) option" where
  "udp_send E a p n = do { pcb \<leftarrow> pcbs n a; udp_sendto E a p (remote_ip pcb) (remote_port pcb) n }"

section \<open>Ports\<close>

text \<open>What the first loop of \<open>udp_bind\<close> finds: a clash with another block, or else whether the block is listed.\<close>

lemma bind_scan_eq:
  assumes "\<forall>b\<in>set xs. st b \<noteq> None"
  shows "bind_scan st a ip port r xs =
    Some (if \<exists>b\<in>set xs. b \<noteq> a \<and> bind_clash ip port (the (st b)) then None else Some (r \<or> a \<in> set xs))"
  using assms by (induction xs arbitrary: r) auto

definition ports :: "(addr \<Rightarrow> udp_pcb option) \<Rightarrow> addr list \<Rightarrow> u16 set" where
  "ports st xs = (\<lambda>a. local_port (the (st a))) ` set xs"

lemma ports_simps [simp]: "ports st [] = {}" "ports st (a # xs) = insert (local_port (the (st a))) (ports st xs)"
  by (simp_all add: ports_def)

lemma card_ports: "card (ports st xs) \<le> length xs"
  unfolding ports_def by (rule order.trans [OF card_image_le card_length]) simp

lemma port_less_Suc: "port \<noteq> 0xffff \<Longrightarrow> j < port + 1 \<longleftrightarrow> j \<le> port" for port j :: u16
proof -
  assume "port \<noteq> 0xffff"
  then have "unat port \<noteq> 65535"
    by (auto simp: word_unat_eq_iff)
  then have "unat (port + 1) = unat port + 1"
    using unat_u16_lt [of port] by (simp add: unat_word_ariths)
  then show ?thesis
    by (auto simp: word_le_nat_alt word_less_nat_alt)
qed

text \<open>The search goes through the ports upwards: every port it passes is in use, and the one it stops at
  is free when the end of the list was reached.\<close>

lemma port_scan_inv:
  assumes "\<forall>b\<in>set udps. st b \<noteq> None" "set ipcb \<subseteq> set udps" "port \<in> ports st udps \<longrightarrow> port \<in> ports st ipcb"
    "\<forall>j. 0xc000 \<le> j \<and> j < port \<longrightarrow> j \<in> ports st udps" "0xc000 \<le> port"
  shows "\<exists>k found. port_scan st udps port ipcb = Some (k, found) \<and> 0xc000 \<le> k \<and> (\<forall>j. 0xc000 \<le> j \<and> j < k \<longrightarrow> j \<in> ports st udps) \<and>
    (found \<longrightarrow> k \<notin> ports st udps) \<and> (\<not> found \<longrightarrow> k = 0xffff)"
  using assms
proof (induction st udps port ipcb rule: port_scan.induct)
  case (1 st udps port ipcb)
  show ?case
  proof (cases ipcb)
    case Nil
    then show ?thesis
      using "1.prems" by (subst port_scan.simps) auto
  next
    case (Cons a rest)
    then obtain pcb where pcb: "st a = Some pcb"
      using "1.prems"(1,2) by auto
    consider "port = 0xffff" | "port \<noteq> 0xffff" "local_port pcb = port" | "port \<noteq> 0xffff" "local_port pcb \<noteq> port"
      by blast
    then show ?thesis
    proof cases
      case 1
      then show ?thesis
        using "1.prems" Cons by (subst port_scan.simps) (auto simp: UDP_LOCAL_PORT_RANGE_END_def)
    next
      case 2
      then have step: "port_scan st udps port ipcb = port_scan st udps (port + 1) udps"
        using Cons pcb by (subst port_scan.simps) (simp add: UDP_LOCAL_PORT_RANGE_END_def)
      have up: "j < port + 1 \<longleftrightarrow> j < port \<or> j = port" "port \<le> port + 1" for j
        using port_less_Suc [OF 2(1)] by (auto simp: le_less)
      have "port \<in> ports st udps"
        using "1.prems"(2) Cons pcb 2(2) by (force simp: ports_def)
      then have "\<exists>k found. port_scan st udps (port + 1) udps = Some (k, found) \<and> 0xc000 \<le> k \<and> (\<forall>j. 0xc000 \<le> j \<and> j < k \<longrightarrow> j \<in> ports st udps) \<and>
          (found \<longrightarrow> k \<notin> ports st udps) \<and> (\<not> found \<longrightarrow> k = 0xffff)"
        using "1.prems" 2 Cons pcb order.trans [OF "1.prems"(5) up(2)]
        by (intro "1.IH"(1)) (auto simp: UDP_LOCAL_PORT_RANGE_END_def up)
      then show ?thesis
        unfolding step .
    next
      case 3
      then have "port_scan st udps port ipcb = port_scan st udps port rest"
        using Cons pcb by (subst port_scan.simps) (simp add: UDP_LOCAL_PORT_RANGE_END_def)
      moreover have "\<exists>k found. port_scan st udps port rest = Some (k, found) \<and> 0xc000 \<le> k \<and> (\<forall>j. 0xc000 \<le> j \<and> j < k \<longrightarrow> j \<in> ports st udps) \<and>
          (found \<longrightarrow> k \<notin> ports st udps) \<and> (\<not> found \<longrightarrow> k = 0xffff)"
        using "1.prems" 3 Cons pcb by (intro "1.IH"(2)) (auto simp: UDP_LOCAL_PORT_RANGE_END_def)
      ultimately show ?thesis
        by simp
    qed
  qed
qed

text \<open>With fewer than 0x3fff blocks in the list, it finds a free port.\<close>

lemma port_scan_finds:
  assumes "\<forall>b\<in>set udps. st b \<noteq> None" "length udps < 0x3fff"
  shows "\<exists>k. port_scan st udps UDP_LOCAL_PORT_RANGE_START udps = Some (k, True) \<and> 0xc000 \<le> k \<and> k < 0xffff \<and> k \<notin> ports st udps"
proof -
  obtain k found where k: "port_scan st udps 0xc000 udps = Some (k, found)" "0xc000 \<le> k"
      "\<forall>j. 0xc000 \<le> j \<and> j < k \<longrightarrow> j \<in> ports st udps" "found \<longrightarrow> k \<notin> ports st udps" "\<not> found \<longrightarrow> k = 0xffff"
    using port_scan_inv [of udps st udps "0xc000"] assms(1) by (metis leD order_refl)
  have "k < 0xffff"
  proof (rule ccontr)
    assume "\<not> k < 0xffff"
    then have "unat k \<ge> 65535"
      by (simp add: word_less_nat_alt)
    then have sub: "of_nat ` {49152 ..< 65535} \<subseteq> ports st udps"
      using k(3) by (auto simp: word_le_nat_alt word_less_nat_alt unat_of_nat)
    have "finite (ports st udps)"
      by (simp add: ports_def)
    from card_mono [OF this sub] have "card ((of_nat :: nat \<Rightarrow> u16) ` {49152 ..< 65535}) \<le> length udps"
      using card_ports [of st udps] by linarith
    moreover have "inj_on (of_nat :: nat \<Rightarrow> u16) {49152 ..< 65535}"
      by (rule inj_onI) (auto dest!: arg_cong [where f = unat] simp: unat_of_nat)
    ultimately show False
      using assms(2) by (simp add: card_image)
  qed
  then show ?thesis
    using k by (auto simp: UDP_LOCAL_PORT_RANGE_START_def)
qed

section \<open>The invariant of the list\<close>

text \<open>The control blocks that are bound are exactly those in the list, each once, and no two of them could
  receive the same datagram for an address of the host.\<close>

definition udp_disjoint :: "(addr \<Rightarrow> udp_pcb option) \<Rightarrow> addr list \<Rightarrow> bool" where
  "udp_disjoint st xs \<longleftrightarrow>
     (\<forall>a\<in>set xs. \<forall>b\<in>set xs. a \<noteq> b \<longrightarrow> \<not> bind_clash (local_ip (the (st a))) (local_port (the (st a))) (the (st b)))"

definition udp_inv :: "'h net \<Rightarrow> bool" where
  "udp_inv n \<longleftrightarrow> distinct (udp_pcbs n) \<and> set (udp_pcbs n) = {a. \<exists>pcb. pcbs n a = Some pcb \<and> local_port pcb \<noteq> 0}
     \<and> NULL \<notin> dom (pcbs n) \<and> udp_disjoint (pcbs n) (udp_pcbs n)"

lemma bind_clash_commute: "bind_clash (local_ip p) (local_port p) q \<longleftrightarrow> bind_clash (local_ip q) (local_port q) p"
  by (auto simp: bind_clash_def)

lemma set_pcb_sel [simp]:
  "pcbs (set_pcb a pcb n) = (pcbs n)(a \<mapsto> pcb)" "udp_pcbs (set_pcb a pcb n) = udp_pcbs n" "net_arp (set_pcb a pcb n) = net_arp n"
  by (simp_all add: set_pcb_def)

lemma set_ps_udp [simp]: "pcbs (set_ps ps n) = pcbs n" "udp_pcbs (set_ps ps n) = udp_pcbs n"
  by (simp_all add: set_ps_def)

text \<open>Changes of other fields of a block keep the invariant.\<close>

lemma udp_inv_same_port:
  assumes "udp_inv n" "pcbs n a = Some pcb" "local_ip pcb' = local_ip pcb" "local_port pcb' = local_port pcb"
  shows "udp_inv (set_pcb a pcb' n)"
proof -
  have "{b. \<exists>q. ((pcbs n)(a \<mapsto> pcb')) b = Some q \<and> local_port q \<noteq> 0} = {b. \<exists>q. pcbs n b = Some q \<and> local_port q \<noteq> 0}"
    using assms(2,4) by auto
  moreover have "local_ip (the (((pcbs n)(a \<mapsto> pcb')) b)) = local_ip (the (pcbs n b))"
      "local_port (the (((pcbs n)(a \<mapsto> pcb')) b)) = local_port (the (pcbs n b))" for b
    using assms(2-4) by simp_all
  then have "udp_disjoint ((pcbs n)(a \<mapsto> pcb')) (udp_pcbs n) \<longleftrightarrow> udp_disjoint (pcbs n) (udp_pcbs n)"
    by (simp only: udp_disjoint_def bind_clash_def)
  ultimately show ?thesis
    using assms(1,2) by (auto simp: udp_inv_def)
qed

text \<open>Binding a block where nothing clashes keeps it.\<close>

lemma udp_inv_bind:
  assumes "udp_inv n" "pcbs n a = Some pcb" "port \<noteq> 0"
    "\<not> (\<exists>b\<in>set (udp_pcbs n). b \<noteq> a \<and> bind_clash ip port (the (pcbs n b)))"
  defines "n' \<equiv> set_pcb a (pcb\<lparr>local_ip := ip, local_port := port\<rparr>) n"
  shows "udp_inv (if a \<in> set (udp_pcbs n) then n' else n'\<lparr>udp_pcbs := a # udp_pcbs n\<rparr>)"
proof -
  have "{b. \<exists>q. pcbs n' b = Some q \<and> local_port q \<noteq> 0} = insert a {b. \<exists>q. pcbs n b = Some q \<and> local_port q \<noteq> 0}"
    using assms(3) by (auto simp: n'_def)
  moreover have "udp_disjoint (pcbs n') (a # udp_pcbs n)"
    using assms(1,4) bind_clash_commute [of "pcb\<lparr>local_ip := ip, local_port := port\<rparr>"]
    by (auto simp: udp_inv_def udp_disjoint_def n'_def)
  then have "udp_disjoint (pcbs n') (udp_pcbs n)"
    by (auto simp: udp_disjoint_def)
  ultimately show ?thesis
    using assms(1,2) \<open>udp_disjoint (pcbs n') (a # udp_pcbs n)\<close> by (auto simp: udp_inv_def n'_def)
qed

text \<open>What \<open>udp_bind\<close> does on every branch: \<open>ERR_USE\<close> and nothing changed when another block clashes, else
  the block is bound, to the port asked for or to a free one.\<close>

lemma udp_bind_cases:
  assumes "udp_inv n" "pcbs n a = Some pcb" "length (udp_pcbs n) < 0x3fff"
  obtains (clash) b where "b \<in> set (udp_pcbs n)" "b \<noteq> a" "bind_clash ip port (the (pcbs n b))" "udp_bind a ip port n = Some (n, ERR_USE)"
  | (bound) k n' where "n' = set_pcb a (pcb\<lparr>local_ip := ip, local_port := k\<rparr>) n"
      "udp_bind a ip port n = Some (if a \<in> set (udp_pcbs n) then n' else n'\<lparr>udp_pcbs := a # udp_pcbs n\<rparr>, ERR_OK)"
      "\<not> (\<exists>b\<in>set (udp_pcbs n). b \<noteq> a \<and> bind_clash ip k (the (pcbs n b)))" "k \<noteq> 0"
      "if port = 0 then 0xc000 \<le> k \<and> k < 0xffff \<and> k \<notin> ports (pcbs n) (udp_pcbs n) else k = port"
proof (cases "\<exists>b\<in>set (udp_pcbs n). b \<noteq> a \<and> bind_clash ip port (the (pcbs n b))")
  case True
  have live: "\<forall>b\<in>set (udp_pcbs n). pcbs n b \<noteq> None"
    using assms(1) by (auto simp: udp_inv_def)
  show thesis
    using True clash bind_scan_eq [OF live, of a ip port False] by (auto simp: udp_bind_def)
next
  case False
  have live: "\<forall>b\<in>set (udp_pcbs n). pcbs n b \<noteq> None"
    using assms(1) by (auto simp: udp_inv_def)
  let ?st = "(pcbs n)(a \<mapsto> pcb\<lparr>local_ip := ip\<rparr>)"
  have "ports ?st (udp_pcbs n) = ports (pcbs n) (udp_pcbs n)"
    using assms(2) by (auto simp: ports_def intro!: image_cong)
  moreover have "\<forall>b\<in>set (udp_pcbs n). ?st b \<noteq> None"
    using live by auto
  ultimately obtain j where j: "port_scan ?st (udp_pcbs n) UDP_LOCAL_PORT_RANGE_START (udp_pcbs n) = Some (j, True)"
      "0xc000 \<le> j" "j < 0xffff" "j \<notin> ports (pcbs n) (udp_pcbs n)"
    using port_scan_finds [of "udp_pcbs n" ?st] assms(3) by auto
  define k where "k = (if port = 0 then j else port)"
  have "k \<noteq> 0"
    using j(2) by (auto simp: k_def)
  moreover have "\<not> (\<exists>b\<in>set (udp_pcbs n). b \<noteq> a \<and> bind_clash ip k (the (pcbs n b)))"
    using False j(4) by (auto simp: k_def bind_clash_def ports_def)
  moreover have "udp_bind a ip port n = Some (let n' = set_pcb a (pcb\<lparr>local_ip := ip, local_port := k\<rparr>) n in
      if a \<in> set (udp_pcbs n) then n' else n'\<lparr>udp_pcbs := a # udp_pcbs n\<rparr>, ERR_OK)"
    using False assms(2) j(1) bind_scan_eq [OF live, of a ip port False]
    by (auto simp: udp_bind_def k_def set_pcb_def Let_def)
  ultimately show thesis
    using j(2-4) by (intro bound [OF refl, of k]) (auto simp: Let_def k_def)
qed


section \<open>The search for a receiver\<close>

lemma udp_scan_eq:
  assumes "\<forall>a\<in>set rest. st a \<noteq> None" "NULL \<notin> set rest"
  shows "udp_scan st local remote seen u rest =
    Some (case find (\<lambda>a. local (the (st a)) \<and> remote (the (st a))) rest of
            Some a \<Rightarrow> (a # seen @ remove1 a rest, a)
          | None \<Rightarrow> (seen @ rest, if u \<noteq> NULL then u
              else case find (\<lambda>a. local (the (st a)) \<and> pcb_flags (the (st a)) AND UDP_FLAGS_CONNECTED = 0) rest of
                Some a \<Rightarrow> a | None \<Rightarrow> NULL))"
  using assms
proof (induction rest arbitrary: seen u)
  case (Cons a rest)
  then obtain pcb where pcb: "st a = Some pcb"
    by auto
  show ?case
  proof (cases "local pcb \<and> remote pcb")
    case False
    have "b \<noteq> a" if "find (\<lambda>a. local (the (st a)) \<and> remote (the (st a))) rest = Some b" for b
      using that False pcb by (auto simp: find_Some_iff)
    then show ?thesis
      using False Cons pcb by (auto simp: Let_def split: option.splits)
  qed (use pcb in simp)
qed simp

inductive udp_reach :: "'h net_env \<Rightarrow> 'h net \<Rightarrow> bool" for E :: "'h net_env" where
  init: "udp_pcbs n = [] \<Longrightarrow> pcbs n = Map.empty \<Longrightarrow> udp_reach E n"
| new: "udp_reach E n \<Longrightarrow> udp_new E n = (n', a) \<Longrightarrow> pcbs n a = None \<Longrightarrow> udp_reach E n'"
| bind: "udp_reach E n \<Longrightarrow> length (udp_pcbs n) < 0x3fff \<Longrightarrow> udp_bind a ip port n = Some (n', err) \<Longrightarrow> udp_reach E n'"
| connect: "udp_reach E n \<Longrightarrow> length (udp_pcbs n) < 0x3fff \<Longrightarrow> udp_connect a ip port n = Some (n', err) \<Longrightarrow> udp_reach E n'"
| disconnect: "udp_reach E n \<Longrightarrow> udp_disconnect a n = Some n' \<Longrightarrow> udp_reach E n'"
| recv: "udp_reach E n \<Longrightarrow> udp_recv a f arg n = Some n' \<Longrightarrow> udp_reach E n'"
| remove: "udp_reach E n \<Longrightarrow> udp_remove E a n = Some n' \<Longrightarrow> udp_reach E n'"
| find: "udp_reach E n \<Longrightarrow> udp_find inp broadcast src dest n = Some (n', a) \<Longrightarrow> udp_reach E n'"
| other: "udp_reach E n \<Longrightarrow> pcbs n' = pcbs n \<Longrightarrow> udp_pcbs n' = udp_pcbs n \<Longrightarrow> udp_reach E n'"

lemma udp_inv_cong: "pcbs n' = pcbs n \<Longrightarrow> udp_pcbs n' = udp_pcbs n \<Longrightarrow> udp_inv n' = udp_inv n"
  by (simp add: udp_inv_def)

lemma udp_bind_inv:
  assumes "udp_inv n" "length (udp_pcbs n) < 0x3fff" "udp_bind a ip port n = Some (n', err)"
  shows "udp_inv n'" "err = ERR_OK \<Longrightarrow> a \<in> set (udp_pcbs n')"
proof -
  have "pcbs n a \<noteq> None \<or> n' = n \<and> err = ERR_USE"
    using assms(3) by (auto simp: udp_bind_def split: bind_splits option.splits)
  then consider "n' = n" "err = ERR_USE" | pcb where "pcbs n a = Some pcb"
    by auto
  then have "udp_inv n' \<and> (err = ERR_OK \<longrightarrow> a \<in> set (udp_pcbs n'))"
  proof cases
    case 2
    show ?thesis
    proof (rule udp_bind_cases [OF assms(1) 2 assms(2), of ip port])
      fix k m
      assume m: "m = set_pcb a (pcb\<lparr>local_ip := ip, local_port := k\<rparr>) n"
        "udp_bind a ip port n = Some (if a \<in> set (udp_pcbs n) then m else m\<lparr>udp_pcbs := a # udp_pcbs n\<rparr>, ERR_OK)"
        "\<not> (\<exists>b\<in>set (udp_pcbs n). b \<noteq> a \<and> bind_clash ip k (the (pcbs n b)))" "k \<noteq> 0"
      then show ?thesis
        using udp_inv_bind [OF assms(1) 2 m(4,3)] assms(3) by auto
    qed (use assms in auto)
  qed (use assms(1) in simp)
  then show "udp_inv n'" "err = ERR_OK \<Longrightarrow> a \<in> set (udp_pcbs n')"
    by auto
qed

lemma udp_unlink_remove: "distinct xs \<Longrightarrow> xs \<noteq> [] \<Longrightarrow> hd xs \<noteq> a \<Longrightarrow> udp_unlink a xs = remove1 a xs"
proof (induction a xs rule: udp_unlink.induct)
  case (1 pcb pcb2 q rest)
  then show ?case
    by (cases rest) (auto simp: remove1_idem)
qed auto


lemma udp_connect_inv:
  assumes "udp_inv n" "length (udp_pcbs n) < 0x3fff" "udp_connect a ip port n = Some (n', err)"
  shows "udp_inv n'"
proof -
  obtain pcb n1 e where b: "pcbs n a = Some pcb"
    "(if local_port pcb = 0 then udp_bind a (local_ip pcb) (local_port pcb) n else Some (n, ERR_OK)) = Some (n1, e)"
    using assms(3) by (auto simp: udp_connect_def split: bind_splits)
  have n1: "udp_inv n1" "e = ERR_OK \<longrightarrow> a \<in> set (udp_pcbs n1)"
    using b assms(1) udp_bind_inv [OF assms(1,2)] by (auto simp: udp_inv_def split: if_splits)
  show ?thesis
  proof (cases "e = ERR_OK")
    case True
    then obtain q where q: "pcbs n1 a = Some q"
      using n1 by (auto simp: udp_inv_def)
    then have "n' = set_pcb a (q\<lparr>remote_ip := ip, remote_port := port, pcb_flags := pcb_flags q OR UDP_FLAGS_CONNECTED\<rparr>) n1"
      using assms(3) b n1 True by (simp add: udp_connect_def Let_def)
    then show ?thesis
      using udp_inv_same_port [OF n1(1) q] by simp
  next
    case False
    then show ?thesis
      using assms(3) b n1(1) by (simp add: udp_connect_def)
  qed
qed

lemma udp_new_inv:
  assumes "udp_inv n" "udp_new E n = (n', a)" "pcbs n a = None"
  shows "udp_inv n'"
proof -
  have new: "udp_inv (set_pcb a pcb n)" if "local_port pcb = 0" "a \<noteq> NULL" for pcb
  proof -
    have "{b. \<exists>q. ((pcbs n)(a \<mapsto> pcb)) b = Some q \<and> local_port q \<noteq> 0} = set (udp_pcbs n)" "a \<notin> set (udp_pcbs n)"
      using that assms(1,3) by (auto simp: udp_inv_def)
    then show ?thesis
      using assms(1) that by (auto simp: udp_inv_def udp_disjoint_def)
  qed
  moreover obtain h where "al_malloc (ne_alloc E) (heap (net_ps n)) SIZEOF_UDP_PCB = (h, a)"
    using assms(2) by (auto simp: udp_new_def Let_def split: prod.splits if_splits)
  ultimately have "udp_inv n' = udp_inv n \<or> (\<exists>pcb. udp_inv n' = udp_inv (set_pcb a pcb n) \<and> local_port pcb = 0 \<and> a \<noteq> NULL)"
    using assms(2) by (cases "a = NULL") (auto simp: udp_new_def intro!: udp_inv_cong exI)
  then show ?thesis
    using assms(1) new by auto
qed

lemma udp_remove_inv:
  assumes "udp_inv n" "udp_remove E a n = Some n'"
  shows "udp_inv n'"
proof -
  have d: "distinct (udp_pcbs n)"
    using assms(1) by (simp add: udp_inv_def)
  have "(case udp_pcbs n of x # rest \<Rightarrow> if x = a then rest else udp_unlink a (x # rest) | [] \<Rightarrow> []) = remove1 a (udp_pcbs n)"
    using d udp_unlink_remove [of "udp_pcbs n" a] by (auto split: list.splits)
  then have n': "udp_pcbs n' = remove1 a (udp_pcbs n)" "pcbs n' = (pcbs n)(a := None)"
    using assms(2) by (auto simp: udp_remove_def Let_def split: bind_splits)
  moreover have "{b. \<exists>q. ((pcbs n)(a := None)) b = Some q \<and> local_port q \<noteq> 0} = {b. \<exists>q. pcbs n b = Some q \<and> local_port q \<noteq> 0} - {a}"
    by auto
  ultimately show ?thesis
    using assms(1) by (auto simp: udp_inv_def udp_disjoint_def)
qed

lemma udp_inv_live: "udp_inv n \<Longrightarrow> (\<forall>b\<in>set (udp_pcbs n). pcbs n b \<noteq> None) \<and> NULL \<notin> set (udp_pcbs n)"
  by (auto simp: udp_inv_def)

lemma udp_find_inv:
  assumes "udp_inv n" "udp_find inp broadcast src dest n = Some (n', a)"
  shows "udp_inv n'"
proof -
  have "pcbs n' = pcbs n \<and> distinct (udp_pcbs n') \<and> set (udp_pcbs n') = set (udp_pcbs n)"
    using assms udp_inv_live [OF assms(1)]
    by (auto simp: udp_find_def udp_scan_eq find_Some_iff udp_inv_def split: bind_splits if_splits option.splits)
  then show ?thesis
    using assms(1) by (auto simp: udp_inv_def udp_disjoint_def)
qed

lemma udp_reach_inv:
  assumes "udp_reach E n"
  shows "udp_inv n"
  using assms
proof induction
  case (disconnect n a n')
  then show ?case
    by (auto simp: udp_disconnect_def split: bind_splits intro!: udp_inv_same_port)
next
  case (recv n a f arg n')
  then show ?case
    by (auto simp: udp_recv_def split: bind_splits intro!: udp_inv_same_port)
next
  case (init n)
  then show ?case
    by (simp add: udp_inv_def udp_disjoint_def)
next
  case (other n n')
  then show ?case
    using udp_inv_cong [of n' n] by blast
qed (blast dest: udp_new_inv udp_bind_inv(1) udp_connect_inv udp_remove_inv udp_find_inv)+

section \<open>Properties\<close>

text \<open>C12. After any sequence of operations on control blocks (new, bind, connect, disconnect, recv, remove and
  the searches of incoming datagrams, which reorder the list) starting from none, and with fewer than 0x3fff
  blocks in the list, the list holds exactly the blocks with a port, each once, and a datagram to an address
  of the host (not broadcast or multicast) matches the local address and port of at most one of them.  For
  \<^verbatim>\<open>udp_new\<close> it is assumed that the allocator returns no block that is still in use.\<close>

theorem udp_unique_receiver:
  assumes "udp_reach E n"
  shows "udp_inv n \<and> (\<forall>ip port. \<not> ip_addr_ismulticast ip \<longrightarrow>
    (\<forall>a\<in>set (udp_pcbs n). \<forall>b\<in>set (udp_pcbs n). udp_local_match ip port False (the (pcbs n a)) \<longrightarrow>
       udp_local_match ip port False (the (pcbs n b)) \<longrightarrow> a = b))"
proof -
  have n: "udp_inv n"
    using assms by (rule udp_reach_inv)
  have "bind_clash (local_ip (the (pcbs n a))) (local_port (the (pcbs n a))) (the (pcbs n b))"
    if "\<not> ip_addr_ismulticast ip" "udp_local_match ip port False (the (pcbs n a))" "udp_local_match ip port False (the (pcbs n b))" for ip port a b
    using that unfolding udp_local_match_def bind_clash_def by simp metis
  then show ?thesis
    using n unfolding udp_inv_def udp_disjoint_def by blast
qed

text \<open>Two control blocks from an allocator that never frees, bound to the same port of two addresses.\<close>

definition udp_demo_env :: "nat net_env" where
  "udp_demo_env = \<lparr>ne_alloc = \<lparr>al_malloc = (\<lambda>h k. (h + k, h)), al_free = (\<lambda>h p. h), al_trim = (\<lambda>h p k. (h, p)),
       al_memp_malloc = (\<lambda>h t. (h + 1600, h)), al_memp_free = (\<lambda>h t p. h), al_custom_free = (\<lambda>h p. h),
       al_fresh = (\<lambda>h p. \<lparr>pb_next = 0, pb_payload = 0, pb_tot_len = 0, pb_len = 0, pb_type = PBUF_RAM, pb_flags = 0, pb_ref = 0\<rparr>)\<rparr>,
     ne_output = (\<lambda>netif p dest n. Some (n, ERR_OK)), ne_ip_frag = (\<lambda>p netif dest n. Some (n, ERR_OK)),
     ne_recv = (\<lambda>f arg a p src port n. Some n), ne_raw_recv = (\<lambda>f arg a p src n. Some (n, False)),
     ne_tcp_event = (\<lambda>f arg a ev n. Some (n, ERR_OK)), ne_tcp_err = (\<lambda>f arg err n. Some n),
     ne_mac_filter = (\<lambda>netif. None), ne_rand = (\<lambda>n. (n, 5))\<rparr>"

definition udp_demo :: "nat net" where
  "udp_demo = \<lparr>net_arp = \<lparr>arp_table = [], etharp_cached_entry = 0, arp_ps = \<lparr>heap = 2000, pbufs = Map.empty, dmem = (\<lambda>_. 0)\<rparr>\<rparr>,
     ip_id = 7, netif_list = [demo_netif\<lparr>netif_flags := 0x63\<rparr>], netif_default = Some 0, current_iphdr_src = 0, current_iphdr_dest = 0,
     udp_pcbs = [], pcbs = Map.empty, dhcp_pcb = (\<lambda>_. NULL), raw_pcbs = [], raws = Map.empty,
     igmp_group_list = [], igmp_groups = Map.empty, net_tcp = blank_tcp\<rparr>"

definition udp_demo_bound :: "nat net option" where
  "udp_demo_bound = do {
     let (n, a) = udp_new udp_demo_env udp_demo;
     let (n, b) = udp_new udp_demo_env n;
     (n, _) \<leftarrow> udp_bind a 0x0100a8c0 7 n;
     (n, _) \<leftarrow> udp_bind b 0x0200a8c0 7 n;
     Some n
   }"


lemma udp_demo_bound_reach:
  "\<exists>n p q. udp_demo_bound = Some n \<and> udp_reach udp_demo_env n \<and> udp_pcbs n = [2036, 2000] \<and> pcbs n 2036 = Some p \<and>
     pcbs n 2000 = Some q \<and> local_ip p = 0x0200a8c0 \<and> local_ip q = 0x0100a8c0 \<and> local_port q = 7 \<and> remote_port q = 0 \<and> pcb_flags q = 0"
proof -
  obtain n1 q where n1: "udp_new udp_demo_env udp_demo = (n1, 2000)" "heap (net_ps n1) = 2036" "udp_pcbs n1 = []"
      "pcbs n1 = [2000 \<mapsto> q]" "remote_port q = 0" "pcb_flags q = 0"
    by (simp add: udp_new_def udp_demo_env_def udp_demo_def SIZEOF_UDP_PCB_def)
  obtain n2 p where n2: "udp_new udp_demo_env n1 = (n2, 2036)" "udp_pcbs n2 = []" "pcbs n2 = [2000 \<mapsto> q, 2036 \<mapsto> p]"
    using n1 by (simp add: udp_new_def udp_demo_env_def SIZEOF_UDP_PCB_def)
  obtain n3 where n3: "udp_bind 2000 0x0100a8c0 7 n2 = Some (n3, ERR_OK)" "udp_pcbs n3 = [2000]"
      "pcbs n3 2000 = Some (q\<lparr>local_ip := 0x0100a8c0, local_port := 7\<rparr>)" "pcbs n3 2036 = Some p"
    using n2 by (simp add: udp_bind_def)
  obtain n4 where n4: "udp_bind 2036 0x0200a8c0 7 n3 = Some (n4, ERR_OK)" "udp_pcbs n4 = [2036, 2000]"
      "pcbs n4 2036 = Some (p\<lparr>local_ip := 0x0200a8c0, local_port := 7\<rparr>)" "pcbs n4 2000 = Some (q\<lparr>local_ip := 0x0100a8c0, local_port := 7\<rparr>)"
    using n3(2-4) by (simp add: udp_bind_def bind_clash_def IPADDR_ANY_def)
  have "udp_reach udp_demo_env udp_demo"
    by (rule udp_reach.init) (simp_all add: udp_demo_def)
  then have "udp_reach udp_demo_env n1"
    by (rule udp_reach.new [OF _ n1(1)]) (simp add: udp_demo_def)
  then have "udp_reach udp_demo_env n2"
    by (rule udp_reach.new [OF _ n2(1)]) (simp add: n1)
  then have "udp_reach udp_demo_env n3"
    by (rule udp_reach.bind [OF _ _ n3(1)]) (simp add: n2)
  then have "udp_reach udp_demo_env n4"
    by (rule udp_reach.bind [OF _ _ n4(1)]) (simp add: n3)
  moreover have "udp_demo_bound = Some n4"
    using n1(1) n2(1) n3(1) n4(1) by (simp add: udp_demo_bound_def)
  ultimately show ?thesis
    using n4 n1(5,6) by (intro exI [of _ n4]) simp
qed

theorem udp_unique_receiver_witness:
  "\<exists>n. udp_demo_bound = Some n \<and> udp_pcbs n = [2036, 2000] \<and> udp_inv n \<and>
     (\<forall>a\<in>set (udp_pcbs n). \<forall>b\<in>set (udp_pcbs n). udp_local_match 0x0100a8c0 7 False (the (pcbs n a)) \<longrightarrow>
       udp_local_match 0x0100a8c0 7 False (the (pcbs n b)) \<longrightarrow> a = b)"
proof -
  obtain n where n: "udp_demo_bound = Some n" "udp_reach udp_demo_env n" "udp_pcbs n = [2036, 2000]"
    using udp_demo_bound_reach by blast
  moreover have "\<not> ip_addr_ismulticast 0x0100a8c0"
    by code_simp
  ultimately show ?thesis
    using udp_unique_receiver [OF n(2)] by blast
qed

text \<open>C32. Binding to port 0 always ends and, with fewer than 0x3fff blocks in the list, gives the block a port of
  the dynamic range that no other block has (0xffff, the end of the range, is never given out).  Binding to
  another port fails with \<open>ERR_USE\<close>, and changes nothing, exactly when another block in the list has
  this port with the same address or one of the two addresses is \<^verbatim>\<open>IP_ADDR_ANY\<close>.\<close>

theorem udp_bind_result:
  assumes "udp_reach E n" "pcbs n a = Some pcb" "length (udp_pcbs n) < 0x3fff"
  shows "\<exists>n' err. udp_bind a ip port n = Some (n', err) \<and>
    (if \<exists>b\<in>set (udp_pcbs n) - {a}. bind_clash ip port (the (pcbs n b)) then port \<noteq> 0 \<and> err = ERR_USE \<and> n' = n
     else err = ERR_OK \<and> a \<in> set (udp_pcbs n') \<and>
       (\<exists>k. pcbs n' = (pcbs n)(a \<mapsto> pcb\<lparr>local_ip := ip, local_port := k\<rparr>) \<and>
          (if port = 0 then 0xc000 \<le> k \<and> k < 0xffff \<and> (\<forall>b\<in>set (udp_pcbs n) - {a}. local_port (the (pcbs n b)) \<noteq> k) else k = port)))"
proof -
  have n: "udp_inv n"
    using assms(1) by (rule udp_reach_inv)
  then have z: "\<not> bind_clash ip 0 (the (pcbs n b))" if "b \<in> set (udp_pcbs n)" for b
    using that by (auto simp: udp_inv_def bind_clash_def)
  show ?thesis
  proof (rule udp_bind_cases [OF n assms(2,3), of ip port])
    fix b
    assume "b \<in> set (udp_pcbs n)" "b \<noteq> a" "bind_clash ip port (the (pcbs n b))" "udp_bind a ip port n = Some (n, ERR_USE)"
    then show ?thesis
      using z by auto
  next
    fix k n'
    assume n': "n' = set_pcb a (pcb\<lparr>local_ip := ip, local_port := k\<rparr>) n"
      "udp_bind a ip port n = Some (if a \<in> set (udp_pcbs n) then n' else n'\<lparr>udp_pcbs := a # udp_pcbs n\<rparr>, ERR_OK)"
      "\<not> (\<exists>b\<in>set (udp_pcbs n). b \<noteq> a \<and> bind_clash ip k (the (pcbs n b)))" "k \<noteq> 0"
      "if port = 0 then 0xc000 \<le> k \<and> k < 0xffff \<and> k \<notin> ports (pcbs n) (udp_pcbs n) else k = port"
    have no: "\<not> (\<exists>b\<in>set (udp_pcbs n) - {a}. bind_clash ip port (the (pcbs n b)))"
      using n'(3,5) z by (auto split: if_splits)
    show ?thesis
      unfolding if_not_P [OF no] using n'(1,2,5) by (auto simp: ports_def)
  qed
qed

theorem udp_bind_result_witness:
  "\<exists>n n' k. udp_demo_bound = Some n \<and> udp_bind 2036 0x0100a8c0 7 n = Some (n, ERR_USE) \<and>
     udp_bind 2036 0x0100a8c0 0 n = Some (n', ERR_OK) \<and> local_port (the (pcbs n' 2036)) = k \<and> 0xc000 \<le> k \<and> k < 0xffff"
proof -
  obtain n p q where n: "udp_demo_bound = Some n" "udp_reach udp_demo_env n" "udp_pcbs n = [2036, 2000]" "pcbs n 2036 = Some p"
      "pcbs n 2000 = Some q" "local_ip q = 0x0100a8c0" "local_port q = 7"
    using udp_demo_bound_reach by blast
  have len: "length (udp_pcbs n) < 0x3fff"
    by (simp add: n)
  have "udp_bind 2036 0x0100a8c0 7 n = Some (n, ERR_USE)"
    using udp_bind_result [OF n(2,4) len, of "0x0100a8c0" 7] n by (simp add: bind_clash_def)
  moreover have "\<exists>n' k. udp_bind 2036 0x0100a8c0 0 n = Some (n', ERR_OK) \<and> local_port (the (pcbs n' 2036)) = k \<and> 0xc000 \<le> k \<and> k < 0xffff"
    using udp_bind_result [OF n(2,4) len, of "0x0100a8c0" 0] n by (auto simp: bind_clash_def)
  ultimately show ?thesis
    using n(1) by blast
qed

section \<open>The checksum of a datagram\<close>

lemma not_oc16:
  "unat (NOT (of_nat (oc16 s)) :: u16) = 65535 - oc16 s" "65535 dvd s + (65535 - oc16 s)"
proof -
  show "unat (NOT (of_nat (oc16 s)) :: u16) = 65535 - oc16 s"
    by (simp add: unat_not unat_of_nat)
  have "s mod 65535 = oc16 s mod 65535"
    using oc16_oc_eq [of s] by (simp add: oc_eq_def)
  then have "(s + (65535 - oc16 s)) mod 65535 = (oc16 s + (65535 - oc16 s)) mod 65535"
    by (rule mod_add_cong) simp
  moreover have "oc16 s + (65535 - oc16 s) = 65535"
    using oc16_lt [of s] by linarith
  ultimately show "65535 dvd s + (65535 - oc16 s)"
    by (simp only: dvd_eq_mod_eq_0 mod_self)
qed

lemma not_oc16_zero:
  assumes "65535 dvd s" "s \<noteq> 0"
  shows "NOT (of_nat (oc16 s)) = (0 :: u16)"
proof -
  have "oc16 s = oc16 65535"
    using assms by (intro oc16_cong) (simp add: oc_eq_def)
  then show ?thesis
    by (simp add: oc16_def)
qed

text \<open>The checksum of a header and the complement of a sum over data, added and folded, complete the sum of both.\<close>

lemma fold_two_chksums:
  assumes "unat (c :: u16) = oc16 B" "w = NOT (of_nat (oc16 A) :: u16)" "v = (ucast (FOLD_U32T (ucast w + ucast (NOT c))) :: u16)"
  shows "65535 dvd A + B + unat v"
proof -
  define acc where "acc = (ucast w + ucast (NOT c) :: u32)"
  have w: "unat w = 65535 - oc16 A"
    using not_oc16(1) [of A] assms(2) by simp
  have c: "unat (NOT c) = 65535 - oc16 B"
    using assms(1) by (simp add: unat_not)
  have acc: "unat acc = (65535 - oc16 A) + (65535 - oc16 B)"
    by (simp add: acc_def unat_word_ariths unat_ucast_u16_u32 w c)
  have "unat v = unat (FOLD_U32T acc)"
    using FOLD_small [of acc] acc by (simp add: assms(3) acc_def [symmetric] unat_ucast_mod)
  then have "unat v mod 65535 = unat acc mod 65535"
    using FOLD_oc_eq [of acc] by (simp add: oc_eq_def)
  then have "(A + B + unat v) mod 65535 = (A + B + unat acc) mod 65535"
    by (rule mod_add_cong [OF refl])
  moreover have "65535 dvd (A + (65535 - oc16 A)) + (B + (65535 - oc16 B))"
    by (intro dvd_add not_oc16(2))
  ultimately show ?thesis
    by (simp add: dvd_eq_mod_eq_0 acc add.assoc add.left_commute)
qed

text \<open>In both ways to compute it, the value completes the sum to a multiple of 65535 and is not zero.\<close>

lemma udp_chksum_dvd:
  assumes "lens_ok q" "data_of q = xs @ [0, 0] @ ys" "length xs = 6" "have_chksum \<longrightarrow> unat c = oc16 (le_sum ys)"
  shows "udp_chksum q src dst len have_chksum c \<noteq> 0"
    "65535 dvd le_sum (pseudo_header src dst IP_PROTO_UDP len @ xs @ [0, 0] @ ys) + unat (udp_chksum q src dst len have_chksum c)"
proof -
  let ?h = "pseudo_header src dst IP_PROTO_UDP len"
  define v where "v = (if have_chksum then ucast (FOLD_U32T (ucast (inet_chksum_pseudo_partial LWIP_CHKSUM q src dst IP_PROTO_UDP len UDP_HLEN) + ucast (NOT c)))
    else inet_chksum_pseudo LWIP_CHKSUM q src dst IP_PROTO_UDP len)"
  define A where "A = le_sum (?h @ xs @ [0, 0])"
  have "even (length (?h @ xs @ [0, 0]))"
    using assms(3) by (simp add: pseudo_header_def)
  then have S: "le_sum (?h @ xs @ [0, 0] @ ys) = A + le_sum ys"
    using le_sum_append_even [of "?h @ xs @ [0, 0]" ys] by (simp add: A_def)
  have "65535 dvd A + le_sum ys + unat v"
  proof (cases have_chksum)
    case True
    define w where "w = inet_chksum_pseudo_partial LWIP_CHKSUM q src dst IP_PROTO_UDP len UDP_HLEN"
    have w: "w = NOT (of_nat (oc16 A))"
      using assms(1-3) by (simp add: w_def A_def chksum_2.inet_chksum_pseudo_partial_eq UDP_HLEN_def)
    have v: "v = ucast (FOLD_U32T (ucast w + ucast (NOT c)))"
      using True by (simp add: v_def w_def)
    show ?thesis
      using fold_two_chksums [OF _ w v] assms(4) True by simp
  next
    case False
    then have "v = NOT (of_nat (oc16 (A + le_sum ys)))"
      using assms(1,2) S by (simp add: v_def chksum_2.inet_chksum_pseudo_eq)
    then show ?thesis
      using not_oc16 [of "A + le_sum ys"] by simp
  qed
  moreover have "udp_chksum q src dst len have_chksum c = (if v = 0 then 0xffff else v)"
    by (simp add: udp_chksum_def v_def)
  ultimately show "udp_chksum q src dst len have_chksum c \<noteq> 0"
    "65535 dvd le_sum (?h @ xs @ [0, 0] @ ys) + unat (udp_chksum q src dst len have_chksum c)"
    unfolding S by (auto split: if_splits)
qed

lemma udp_chksum_verifies:
  assumes "lens_ok q" "data_of q = xs @ [0, 0] @ ys" "length xs = 6" "length ys < 65536"
    and "have_chksum \<longrightarrow> c = LWIP_CHKSUM a ys" "ck = udp_chksum q src dst len have_chksum c"
    and "lens_ok q'" "data_of q' = xs @ le_bytes16 ck @ ys"
  shows "ck \<noteq> 0 \<and> inet_chksum_pseudo LWIP_CHKSUM q' src dst IP_PROTO_UDP len = 0"
proof -
  let ?h = "pseudo_header src dst IP_PROTO_UDP len"
  have c: "have_chksum \<longrightarrow> unat c = oc16 (le_sum ys)"
    using assms(4,5) chksum_2.chk_sum by simp
  have ev: "even (length (?h @ xs))" "even (length (le_bytes16 ck))"
    using assms(3) by (simp_all add: pseudo_header_def)
  have sum: "le_sum (?h @ xs @ bs @ ys) = le_sum (?h @ xs) + le_sum bs + le_sum ys" if "length bs = 2" for bs
    using that ev(1) by (simp add: le_sum_append_even flip: append_assoc)
  have d: "65535 dvd le_sum (?h @ xs @ [0, 0] @ ys) + unat ck" "ck \<noteq> 0"
    unfolding assms(6) by (rule udp_chksum_dvd [OF assms(1-3) c])+
  moreover have "le_sum (?h @ xs @ le_bytes16 ck @ ys) = le_sum (?h @ xs @ [0, 0] @ ys) + unat ck"
    unfolding sum [OF length_le_bytes(2)] by (subst sum) (simp_all add: le_sum_u16)
  ultimately have "65535 dvd le_sum (?h @ xs @ le_bytes16 ck @ ys)" "le_sum (?h @ xs @ le_bytes16 ck @ ys) \<noteq> 0"
    by (simp_all add: unat_eq_0)
  then show ?thesis
    using d(2) assms(7,8) not_oc16_zero by (simp add: chksum_2.inet_chksum_pseudo_eq)
qed


text \<open>The receiver accepts what the sender computes: with the checksum of \<^verbatim>\<open>udp_sendto_if_chksum\<close> in the
  header, whether computed over the whole datagram or put together from that of the header and the
  caller's checksum of the data, the field is not zero (which would mean no checksum) and the test in
  \<^verbatim>\<open>udp_input\<close> succeeds, also when the receiver has the datagram cut into pbufs in another way.\<close>

theorem udp_chksum_accepted:
  assumes "lens_ok q" "data_of q = xs @ [0, 0] @ ys" "length xs = 6" "length ys < 65536"
    and "have_chksum \<longrightarrow> c = LWIP_CHKSUM a ys" "ck = udp_chksum q src dst len have_chksum c"
    and "lens_ok q'" "data_of q' = xs @ le_bytes16 ck @ ys"
  shows "ck \<noteq> 0 \<and> inet_chksum_pseudo LWIP_CHKSUM q' src dst IP_PROTO_UDP len = 0"
  using assms by (rule udp_chksum_verifies)

theorem udp_chksum_accepted_witness:
  "let ck = udp_chksum [(0, [0, 7, 0, 9, 0, 11, 0, 0]), (8, [1, 2, 3])] 10 20 11 True (LWIP_CHKSUM 8 [1, 2, 3])
   in ck \<noteq> 0 \<and> inet_chksum_pseudo LWIP_CHKSUM [(0, [0, 7, 0, 9, 0, 11] @ le_bytes16 ck @ [1, 2, 3])] 10 20 IP_PROTO_UDP 11 = 0"
  unfolding Let_def
  by (rule udp_chksum_accepted [where xs = "[0, 7, 0, 9, 0, 11]" and ys = "[1, 2, 3]" and a = 8
        and q = "[(0, [0, 7, 0, 9, 0, 11, 0, 0]), (8, [1, 2, 3])]" and have_chksum = True]) simp_all

lemma find_split:
  "find P xs = Some a \<Longrightarrow> \<exists>ys zs. xs = ys @ a # zs \<and> remove1 a xs = ys @ zs \<and> P a \<and> (\<forall>x\<in>set ys. \<not> P x)"
proof (induction xs)
  case (Cons x xs)
  show ?case
  proof (cases "P x")
    case True
    then show ?thesis
      using Cons.prems by (intro exI [of _ "[]"] exI [of _ xs]) auto
  next
    case False
    then obtain ys zs where "xs = ys @ a # zs" "remove1 a xs = ys @ zs" "P a" "\<forall>x\<in>set ys. \<not> P x"
      using Cons by auto
    then show ?thesis
      using False by (intro exI [of _ "x # ys"] exI [of _ zs]) auto
  qed
qed simp

text \<open>The search for the receiver of a datagram (other than to the DHCP client port): the first block whose
  local and remote address and port match gets it and moves to the front of the list; if there is none, the
  first block that is not connected and matches locally gets it and the list stays as it is; otherwise
  the datagram has no receiver.\<close>

theorem udp_find_receiver:
  fixes n :: "'h net" and bc :: bool and src :: u16
  assumes "udp_reach E n" "dest \<noteq> DHCP_CLIENT_PORT"
  defines "loc \<equiv> \<lambda>a. udp_local_match (current_iphdr_dest n) dest bc (the (pcbs n a))"
    and "rem \<equiv> \<lambda>a. udp_remote_match (current_iphdr_src n) src (the (pcbs n a))"
    and "free \<equiv> \<lambda>a. pcb_flags (the (pcbs n a)) AND UDP_FLAGS_CONNECTED = 0"
  shows "\<exists>a l. udp_find inp bc src dest n = Some (n\<lparr>udp_pcbs := l\<rparr>, a) \<and>
    (if \<exists>x\<in>set (udp_pcbs n). loc x \<and> rem x
     then \<exists>xs ys. udp_pcbs n = xs @ a # ys \<and> l = a # xs @ ys \<and> loc a \<and> rem a \<and> (\<forall>x\<in>set xs. \<not> (loc x \<and> rem x))
     else l = udp_pcbs n \<and>
       (if \<exists>x\<in>set (udp_pcbs n). loc x \<and> free x
        then \<exists>xs ys. udp_pcbs n = xs @ a # ys \<and> loc a \<and> free a \<and> (\<forall>x\<in>set xs. \<not> (loc x \<and> free x))
        else a = NULL))"
proof -
  have inv: "udp_inv n"
    using assms(1) by (rule udp_reach_inv)
  note live = udp_inv_live [OF this]
  show ?thesis
  proof (cases "find (\<lambda>a. loc a \<and> rem a) (udp_pcbs n)")
    case None
    then have no: "\<not> (\<exists>x\<in>set (udp_pcbs n). loc x \<and> rem x)"
      by (auto simp: find_None_iff)
    have "udp_find inp bc src dest n = Some (n\<lparr>udp_pcbs := udp_pcbs n\<rparr>,
        case find (\<lambda>a. loc a \<and> free a) (udp_pcbs n) of Some a \<Rightarrow> a | None \<Rightarrow> NULL)"
      using None assms(2) live unfolding loc_def rem_def free_def by (simp add: udp_find_def udp_scan_eq)
    then show ?thesis
      unfolding if_not_P [OF no]
      by (cases "find (\<lambda>a. loc a \<and> free a) (udp_pcbs n)") (auto simp: find_None_iff dest!: find_split)
  next
    case (Some a)
    then have "udp_find inp bc src dest n = Some (n\<lparr>udp_pcbs := a # remove1 a (udp_pcbs n)\<rparr>, a)"
      using assms(2) live unfolding loc_def rem_def by (simp add: udp_find_def udp_scan_eq)
    moreover obtain xs ys where "udp_pcbs n = xs @ a # ys" "remove1 a (udp_pcbs n) = xs @ ys" "loc a \<and> rem a" "\<forall>x\<in>set xs. \<not> (loc x \<and> rem x)"
      using find_split [OF Some] by blast
    moreover from this have "\<exists>x\<in>set (udp_pcbs n). loc x \<and> rem x"
      by auto
    ultimately show ?thesis
      by (intro exI [of _ a] exI [of _ "a # xs @ ys"]) auto
  qed
qed

theorem udp_find_receiver_witness:
  "\<exists>n l. udp_demo_bound = Some n \<and>
     udp_find 0 False 9 7 (n\<lparr>current_iphdr_dest := 0x0100a8c0\<rparr>) = Some (n\<lparr>current_iphdr_dest := 0x0100a8c0, udp_pcbs := l\<rparr>, 2000)"
proof -
  obtain n p q where n: "udp_demo_bound = Some n" "udp_reach udp_demo_env n" "udp_pcbs n = [2036, 2000]" "pcbs n 2036 = Some p"
      "pcbs n 2000 = Some q" "local_ip p = 0x0200a8c0" "local_ip q = 0x0100a8c0" "local_port q = 7" "remote_port q = 0" "pcb_flags q = 0"
    using udp_demo_bound_reach by blast
  define n1 where "n1 = n\<lparr>current_iphdr_dest := 0x0100a8c0\<rparr>"
  have "udp_reach udp_demo_env n1" "(7 :: u16) \<noteq> DHCP_CLIENT_PORT"
    by (rule udp_reach.other [OF n(2)]) (simp_all add: n1_def DHCP_CLIENT_PORT_def)
  note find = udp_find_receiver [OF this, where bc = False and src = 9 and inp = 0]
  have m: "\<not> ip_addr_ismulticast 0x0100a8c0"
    by code_simp
  have "\<not> udp_local_match 0x0100a8c0 7 False p" "udp_local_match 0x0100a8c0 7 False q" "\<not> udp_remote_match ip 9 q" for ip
    using n m by (simp_all add: udp_local_match_def udp_remote_match_def IPADDR_ANY_def)
  moreover from this obtain a l xs ys where a: "udp_find 0 False 9 7 n1 = Some (n1\<lparr>udp_pcbs := l\<rparr>, a)"
      "[2036, 2000] = xs @ a # ys" "udp_local_match 0x0100a8c0 7 False (the (pcbs n a))"
    using find n by (simp add: n1_def) blast
  ultimately have "a \<noteq> 2036"
    using n(4) by auto
  with a show ?thesis
    using n(1) by (auto simp: n1_def Cons_eq_append_conv)
qed

end
