(* ===== verification/Raw.thy ===== *)
theory Raw
  imports Udp
begin

text \<open>
  Raw sockets: \<^verbatim>\<open>core/raw.c\<close>, which is compiled when \<^verbatim>\<open>LWIP_RAW\<close> is 1.  A control block takes the packets of one protocol.  The receive function of
  a block says whether it has taken the packet; the result \<open>None\<close> also covers a receive function that
  changes the list of control blocks while it is being walked over, which the interface does not provide for.
\<close>

definition RAW_TTL :: u8 where "RAW_TTL = 255"
definition SIZEOF_RAW_PCB :: nat where "SIZEOF_RAW_PCB = 28"

definition set_raw :: "addr \<Rightarrow> raw_pcb \<Rightarrow> 'h net \<Rightarrow> 'h net" where
  "set_raw a pcb n = n\<lparr>raws := (raws n)(a \<mapsto> pcb)\<rparr>"

definition raw_match :: "u8 \<Rightarrow> nat \<Rightarrow> 'h net \<Rightarrow> raw_pcb \<Rightarrow> bool" where
  "raw_match proto inp n pcb \<longleftrightarrow> raw_protocol pcb = proto
     \<and> (raw_local_ip pcb = IPADDR_ANY \<or> raw_local_ip pcb = current_iphdr_dest n)
     \<and> (raw_so_options pcb AND SOF_BROADCAST \<noteq> 0 \<or> \<not> ip4_addr_isbroadcast (current_iphdr_dest n) (netif_list n ! inp))"

text \<open>The loop of \<^verbatim>\<open>raw_input\<close>; \<open>seen\<close> are the blocks before the current one.\<close>

fun raw_walk :: "'h net_env \<Rightarrow> addr \<Rightarrow> u8 \<Rightarrow> nat \<Rightarrow> addr list \<Rightarrow> addr list \<Rightarrow> 'h net \<Rightarrow> ('h net \<times> bool) option" where
  "raw_walk E p proto inp seen [] n = Some (n, False)"
| "raw_walk E p proto inp seen (a # rest) n =
     do {
       pcb \<leftarrow> raws n a;
       (n', eaten) \<leftarrow> (if raw_match proto inp n pcb then
                         case raw_pcb_recv pcb of
                           Some (recv, recv_arg) \<Rightarrow> ne_raw_recv E recv recv_arg a p (current_iphdr_src n) n
                         | None \<Rightarrow> Some (n, False)
                       else Some (n, False));
       if raw_pcbs n' \<noteq> raw_pcbs n then None
       else if eaten then Some (if seen \<noteq> [] then n'\<lparr>raw_pcbs := a # seen @ rest\<rparr> else n', True)
       else raw_walk E p proto inp (seen @ [a]) rest n'
     }"

definition raw_input :: "'h net_env \<Rightarrow> addr \<Rightarrow> nat \<Rightarrow> 'h net \<Rightarrow> ('h net \<times> bool) option" where
  "raw_input E p inp n =
     do {
       pb \<leftarrow> pbufs (net_ps n) p;
       raw_walk E p (dmem (net_ps n) (pb_payload pb + ih_proto)) inp [] (raw_pcbs n) n
     }"

text \<open>No control block takes packets of the protocol.\<close>

definition no_raw :: "u8 \<Rightarrow> 'h net \<Rightarrow> bool" where
  "no_raw proto n \<longleftrightarrow> (\<forall>a\<in>set (raw_pcbs n). case raws n a of None \<Rightarrow> False | Some pcb \<Rightarrow> raw_protocol pcb \<noteq> proto)"

lemma raw_walk_none:
  "(\<forall>a\<in>set l. case raws n a of None \<Rightarrow> False | Some pcb \<Rightarrow> raw_protocol pcb \<noteq> proto) \<Longrightarrow> raw_walk E p proto inp seen l n = Some (n, False)"
  by (induction l arbitrary: seen) (auto simp: raw_match_def split: option.splits)

lemma raw_input_none:
  "pbufs (net_ps n) p = Some pb \<Longrightarrow> no_raw (dmem (net_ps n) (pb_payload pb + ih_proto)) n \<Longrightarrow> raw_input E p inp n = Some (n, False)"
  by (simp add: raw_input_def no_raw_def raw_walk_none)

definition raw_bind :: "addr \<Rightarrow> ip_addr \<Rightarrow> 'h net \<Rightarrow> ('h net \<times> err_t) option" where
  "raw_bind a ipaddr n = do { pcb \<leftarrow> raws n a; Some (set_raw a (pcb\<lparr>raw_local_ip := ipaddr\<rparr>) n, ERR_OK) }"

definition raw_connect :: "addr \<Rightarrow> ip_addr \<Rightarrow> 'h net \<Rightarrow> ('h net \<times> err_t) option" where
  "raw_connect a ipaddr n = do { pcb \<leftarrow> raws n a; Some (set_raw a (pcb\<lparr>raw_remote_ip := ipaddr\<rparr>) n, ERR_OK) }"

definition raw_recv :: "addr \<Rightarrow> nat option \<Rightarrow> nat \<Rightarrow> 'h net \<Rightarrow> 'h net option" where
  "raw_recv a recv recv_arg n =
     do { pcb \<leftarrow> raws n a; Some (set_raw a (pcb\<lparr>raw_pcb_recv := map_option (\<lambda>f. (f, recv_arg)) recv\<rparr>) n) }"

text \<open>The pbuf to send: \<open>p\<close> when it has room for the header, else an empty one in front of it; \<open>NULL\<close> for \<open>ERR_MEM\<close>.\<close>

definition raw_room :: "'h net_env \<Rightarrow> addr \<Rightarrow> 'h net \<Rightarrow> ('h net \<times> addr) option" where
  "raw_room E p n =
     do {
       (n, fail) \<leftarrow> net_header p IP_HLEN n;
       if fail then do {
         (n, q) \<leftarrow> net_alloc E PBUF_IP 0 PBUF_RAM n;
         if q = NULL then Some (n, NULL)
         else do {
           pb \<leftarrow> pbufs (net_ps n) p;
           if pb_tot_len pb \<noteq> 0 then do { ps \<leftarrow> pbuf_chain (net_ps n) q p; Some (set_ps ps n, q) }
           else Some (n, q)
         }
       }
       else do {
         (n, fail) \<leftarrow> net_header p (- IP_HLEN) n;
         Some (n, if fail then NULL else p)
       }
     }"

definition raw_sendto :: "'h net_env \<Rightarrow> addr \<Rightarrow> addr \<Rightarrow> ip_addr \<Rightarrow> 'h net \<Rightarrow> ('h net \<times> err_t) option" where
  "raw_sendto E a p ipaddr n =
     do {
       pcb \<leftarrow> raws n a;
       (n, q) \<leftarrow> raw_room E p n;
       if q = NULL then Some (n, ERR_MEM)
       else do {
         let drop = (\<lambda>n err. do { n \<leftarrow> (if q \<noteq> p then net_free E q n else Some n); Some (n, err) });
         case ip_route ipaddr n of
           None \<Rightarrow> drop n ERR_RTE
         | Some netif \<Rightarrow>
             if raw_so_options pcb AND SOF_BROADCAST = 0 \<and> ip4_addr_isbroadcast ipaddr (netif_list n ! netif) then drop n ERR_VAL
             else do {
               let src_ip = (if raw_local_ip pcb = IPADDR_ANY then netif_ip_addr (netif_list n ! netif) else raw_local_ip pcb);
               (n, err) \<leftarrow> ip_output_if E q src_ip (Some ipaddr) (raw_ttl pcb) (raw_tos pcb) (raw_protocol pcb) netif n;
               drop n err
             }
       }
     }"

definition raw_send :: "'h net_env \<Rightarrow> addr \<Rightarrow> addr \<Rightarrow> 'h net \<Rightarrow> ('h net \<times> err_t) option" where
  "raw_send E a p n = do { pcb \<leftarrow> raws n a; raw_sendto E a p (raw_remote_ip pcb) n }"

definition raw_remove :: "'h net_env \<Rightarrow> addr \<Rightarrow> 'h net \<Rightarrow> 'h net option" where
  "raw_remove E a n =
     do {
       pcb \<leftarrow> raws n a;
       let list = (case raw_pcbs n of x # rest \<Rightarrow> if x = a then rest else udp_unlink a (x # rest) | [] \<Rightarrow> []);
       let ps = net_ps n;
       Some ((set_ps (ps\<lparr>heap := al_free (ne_alloc E) (heap ps) a\<rparr>) n)\<lparr>raw_pcbs := list, raws := (raws n)(a := None)\<rparr>)
     }"

definition raw_new :: "'h net_env \<Rightarrow> u8 \<Rightarrow> 'h net \<Rightarrow> 'h net \<times> addr" where
  "raw_new E proto n =
     (let ps = net_ps n;
          (h, a) = al_malloc (ne_alloc E) (heap ps) SIZEOF_RAW_PCB;
          n = set_ps (ps\<lparr>heap := h\<rparr>) n
      in if a \<noteq> NULL then
           ((set_raw a \<lparr>raw_local_ip = 0, raw_remote_ip = 0, raw_so_options = 0, raw_tos = 0, raw_ttl = RAW_TTL,
               raw_protocol = proto, raw_pcb_recv = None\<rparr> n)\<lparr>raw_pcbs := a # raw_pcbs n\<rparr>, a)
         else (n, NULL))"

end
