(* ===== verification/Net_Link.thy ===== *)
theory Net_Link
  imports Raw
begin

text \<open>
  What the protocols above IP rely on of the link below: sending a packet, fragmented or not, the filter of
  the driver and the random numbers change nothing but the ARP module with the packet buffers.  The locale
  \<open>net_link\<close> states this; it holds for \<^verbatim>\<open>etharp_output\<close> over the driver of the board.
\<close>

definition keeps_upper :: "'h net \<Rightarrow> 'h net \<Rightarrow> bool" where
  "keeps_upper n n' \<longleftrightarrow> n' = n\<lparr>net_arp := net_arp n', ip_id := ip_id n'\<rparr>"

lemma keeps_upper_refl [simp]: "keeps_upper n n"
  by (simp add: keeps_upper_def)

lemma keeps_upper_trans [trans]: "keeps_upper n n' \<Longrightarrow> keeps_upper n' n'' \<Longrightarrow> keeps_upper n n''"
  by (cases n, cases n', cases n'') (auto simp: keeps_upper_def)

lemma keeps_upperI [intro]: "keeps_upper n (n\<lparr>net_arp := a\<rparr>)" "keeps_upper n (n\<lparr>ip_id := i\<rparr>)" "keeps_upper n (set_ps ps n)" "keeps_upper n (set_dmem m n)"
  by (cases n; simp add: keeps_upper_def set_ps_def set_dmem_def)+

lemma keeps_upper_left [simp]:
  "keeps_upper (n\<lparr>net_arp := a\<rparr>) n' \<longleftrightarrow> keeps_upper n n'" "keeps_upper (n\<lparr>ip_id := i\<rparr>) n' \<longleftrightarrow> keeps_upper n n'"
  "keeps_upper (set_ps ps n) n' \<longleftrightarrow> keeps_upper n n'" "keeps_upper (set_dmem m n) n' \<longleftrightarrow> keeps_upper n n'"
  by (cases n; cases n'; auto simp: keeps_upper_def set_ps_def set_dmem_def)+

lemma keeps_upperD:
  assumes "keeps_upper n n'"
  shows "netif_list n' = netif_list n" "udp_pcbs n' = udp_pcbs n" "pcbs n' = pcbs n" "raw_pcbs n' = raw_pcbs n" "raws n' = raws n"
    "igmp_group_list n' = igmp_group_list n" "igmp_groups n' = igmp_groups n" "net_tcp n' = net_tcp n"
    "current_iphdr_src n' = current_iphdr_src n" "current_iphdr_dest n' = current_iphdr_dest n"
  using assms by (cases n; cases n'; simp add: keeps_upper_def)+

locale net_link =
  fixes E :: "'h net_env"
  assumes output_law: "ne_output E i p dest n = Some (n', err) \<Longrightarrow> keeps_upper n n'"
    and frag_law: "ne_ip_frag E p i dest n = Some (n', err) \<Longrightarrow> keeps_upper n n'"
    and filter_law: "ne_mac_filter E i = Some f \<Longrightarrow> f addr add n = Some n' \<Longrightarrow> keeps_upper n n'"
    and rand_law: "ne_rand E n = (n', r) \<Longrightarrow> keeps_upper n n'"
begin

lemma net_free_keeps: "net_free E p n = Some n' \<Longrightarrow> keeps_upper n n'"
  by (auto simp: net_free_def split: bind_splits)

lemma net_alloc_keeps: "net_alloc E layer len type n = Some (n', q) \<Longrightarrow> keeps_upper n n'"
  by (auto simp: net_alloc_def split: bind_splits)

lemma net_header_keeps: "net_header p inc n = Some (n', fail) \<Longrightarrow> keeps_upper n n'"
  by (auto simp: net_header_def split: bind_splits)

lemma ip_send_keeps: "ip_send E p dest netif n = Some (n', err) \<Longrightarrow> keeps_upper n n'"
  by (auto simp: ip_send_def Let_def split: bind_splits if_splits dest: output_law frag_law)

lemma ip_output_if_opt_keeps:
  assumes "ip_output_if_opt E p src dest ttl tos proto netif opts n = Some (n', err)"
  shows "keeps_upper n n'"
proof (cases dest)
  case None
  then show ?thesis
    using assms by (auto simp: ip_output_if_opt_def Option.bind_eq_Some_conv dest: ip_send_keeps)
next
  case (Some d)
  then show ?thesis
    using assms
    by (auto simp: ip_output_if_opt_def Let_def Option.bind_eq_Some_conv split: if_splits
        dest!: net_header_keeps ip_send_keeps intro: keeps_upper_trans)
      (blast intro: keeps_upper_trans)+
qed

end

section \<open>The board\<close>

text \<open>The environment on the board: \<^verbatim>\<open>netif->output\<close> is \<^verbatim>\<open>etharp_output\<close> (\<^verbatim>\<open>lwipk66.c\<close>) and there is no filter for multicast
  addresses.  Fragmentation, callbacks, TCP and random numbers are left open.\<close>

definition board_env ::
  "'h arp_env \<Rightarrow> (addr \<Rightarrow> nat \<Rightarrow> ip_addr \<Rightarrow> 'h net \<Rightarrow> ('h net \<times> err_t) option)
    \<Rightarrow> (nat \<Rightarrow> nat \<Rightarrow> addr \<Rightarrow> addr \<Rightarrow> ip_addr \<Rightarrow> u16 \<Rightarrow> 'h net \<Rightarrow> 'h net option)
    \<Rightarrow> (nat \<Rightarrow> nat \<Rightarrow> addr \<Rightarrow> addr \<Rightarrow> ip_addr \<Rightarrow> 'h net \<Rightarrow> ('h net \<times> bool) option)
    \<Rightarrow> (nat \<Rightarrow> nat \<Rightarrow> addr \<Rightarrow> tcp_event \<Rightarrow> 'h net \<Rightarrow> ('h net \<times> err_t) option) \<Rightarrow> (nat \<Rightarrow> nat \<Rightarrow> err_t \<Rightarrow> 'h net \<Rightarrow> 'h net option)
    \<Rightarrow> ('h net \<Rightarrow> u32) \<Rightarrow> 'h net_env" where
  "board_env A frag recv rrecv ev err rnd =
     \<lparr>ne_alloc = ae_alloc A,
      ne_output = (\<lambda>i p dest n. do { (st, err) \<leftarrow> etharp_output A (netif_list n ! i) p dest (net_arp n); Some (n\<lparr>net_arp := st\<rparr>, err) }),
      ne_ip_frag = frag, ne_recv = recv, ne_raw_recv = rrecv, ne_tcp_event = ev, ne_tcp_err = err,
      ne_mac_filter = (\<lambda>_. None), ne_rand = (\<lambda>n. (n, rnd n))\<rparr>"

text \<open>The law for fragmentation.\<close>

locale fragmentation =
  fixes frag :: "addr \<Rightarrow> nat \<Rightarrow> ip_addr \<Rightarrow> 'h net \<Rightarrow> ('h net \<times> err_t) option"
  assumes frag_keeps: "frag p i dest n = Some (n', err) \<Longrightarrow> keeps_upper n n'"

sublocale fragmentation \<subseteq> board: net_link "board_env A frag recv rrecv ev err rnd" for A recv rrecv ev err rnd
  by unfold_locales (auto simp: board_env_def split: bind_splits dest: frag_keeps)

text \<open>Fragmentation that finds no memory.\<close>

definition frag_no_memory :: "addr \<Rightarrow> nat \<Rightarrow> ip_addr \<Rightarrow> 'h net \<Rightarrow> ('h net \<times> err_t) option" where
  "frag_no_memory p i dest n = Some (n, ERR_MEM)"

interpretation no_memory: fragmentation frag_no_memory
  by unfold_locales (simp add: frag_no_memory_def)

end
