(* ===== verification/Igmp.thy ===== *)
theory Igmp
  imports Net_Link
begin

text \<open>
  IGMP version 2, the host side: \<^verbatim>\<open>core/ipv4/igmp.c\<close>.  A group is joined on an interface; while it is a delaying
  member its timer runs, and when it expires a report is sent.  The loops walk over the list as it is at their
  start: what they call (sending a packet, the filter of the driver) does not change the list of groups.
  A division by zero, which C leaves undefined, is \<open>None\<close>, and so is an allocator that returns a block which
  is a live group.
\<close>

definition IGMP_TTL :: u8 where "IGMP_TTL = 1"
definition IGMP_MINLEN :: u16 where "IGMP_MINLEN = 8"
definition ROUTER_ALERT :: u16 where "ROUTER_ALERT = 0x9404"
definition IGMP_MEMB_QUERY :: u8 where "IGMP_MEMB_QUERY = 0x11"
definition IGMP_V2_MEMB_REPORT :: u8 where "IGMP_V2_MEMB_REPORT = 0x16"
definition IGMP_LEAVE_GROUP :: u8 where "IGMP_LEAVE_GROUP = 0x17"
definition IGMP_V1_DELAYING_MEMBER_TMR :: u8 where "IGMP_V1_DELAYING_MEMBER_TMR = 10"
definition IGMP_JOIN_DELAYING_MEMBER_TMR :: u8 where "IGMP_JOIN_DELAYING_MEMBER_TMR = 5"
definition SIZEOF_IGMP_GROUP :: nat where "SIZEOF_IGMP_GROUP = 20"

text \<open>Offsets in \<^verbatim>\<open>struct igmp_msg\<close>.\<close>

definition gm_msgtype :: nat where "gm_msgtype = 0"
definition gm_maxresp :: nat where "gm_maxresp = 1"
definition gm_checksum :: nat where "gm_checksum = 2"
definition gm_group_address :: nat where "gm_group_address = 4"

text \<open>The two addresses as \<^verbatim>\<open>igmp_init\<close> sets them.\<close>

definition allsystems :: ip_addr where "allsystems = IP4_ADDR 224 0 0 1"
definition allrouters :: ip_addr where "allrouters = IP4_ADDR 224 0 0 2"

definition set_group :: "addr \<Rightarrow> igmp_group \<Rightarrow> 'h net \<Rightarrow> 'h net" where
  "set_group g grp n = n\<lparr>igmp_groups := (igmp_groups n)(g \<mapsto> grp)\<rparr>"

section \<open>Groups\<close>

fun lookfor_walk :: "(addr \<Rightarrow> igmp_group option) \<Rightarrow> nat \<Rightarrow> ip_addr \<Rightarrow> addr list \<Rightarrow> addr option" where
  "lookfor_walk st ifp addr [] = Some NULL"
| "lookfor_walk st ifp addr (g # rest) =
     do { grp \<leftarrow> st g; if g_netif grp = ifp \<and> group_address grp = addr then Some g else lookfor_walk st ifp addr rest }"

definition igmp_lookfor_group :: "nat \<Rightarrow> ip_addr \<Rightarrow> 'h net \<Rightarrow> addr option" where
  "igmp_lookfor_group ifp addr n = lookfor_walk (igmp_groups n) ifp addr (igmp_group_list n)"

definition igmp_lookup_group :: "'h net_env \<Rightarrow> nat \<Rightarrow> ip_addr \<Rightarrow> 'h net \<Rightarrow> ('h net \<times> addr) option" where
  "igmp_lookup_group E ifp addr n =
     do {
       grp \<leftarrow> igmp_lookfor_group ifp addr n;
       if grp \<noteq> NULL then Some (n, grp)
       else do {
         let ps = net_ps n;
         let (h, g) = al_malloc (ne_alloc E) (heap ps) SIZEOF_IGMP_GROUP;
         let n = set_ps (ps\<lparr>heap := h\<rparr>) n;
         if g \<noteq> NULL then
           if igmp_groups n g \<noteq> None then None
           else Some ((set_group g \<lparr>g_netif = ifp, group_address = addr, last_reporter_flag = False,
                         group_state = IGMP_GROUP_NON_MEMBER, g_timer = 0, g_use = 0\<rparr> n)\<lparr>igmp_group_list := g # igmp_group_list n\<rparr>, g)
         else Some (n, NULL)
       }
     }"

definition free_group :: "'h net_env \<Rightarrow> addr \<Rightarrow> 'h net \<Rightarrow> 'h net" where
  "free_group E g n =
     (set_ps ((net_ps n)\<lparr>heap := al_free (ne_alloc E) (heap (net_ps n)) g\<rparr>) n)\<lparr>igmp_groups := (igmp_groups n)(g := None)\<rparr>"

text \<open>The loop of \<^verbatim>\<open>igmp_remove_group\<close>; \<open>None\<close> when the end is reached.\<close>

fun igmp_unlink :: "addr \<Rightarrow> addr list \<Rightarrow> addr list option" where
  "igmp_unlink grp (tmp # g # rest) =
     (if g = grp then Some (tmp # rest) else map_option ((#) tmp) (igmp_unlink grp (g # rest)))"
| "igmp_unlink grp _ = None"

definition igmp_remove_group :: "'h net_env \<Rightarrow> addr \<Rightarrow> 'h net \<Rightarrow> 'h net \<times> err_t" where
  "igmp_remove_group E grp n =
     (let (list, err) =
            (case igmp_group_list n of
               x # rest \<Rightarrow>
                 if x = grp then (rest, ERR_OK)
                 else (case igmp_unlink grp (x # rest) of Some l \<Rightarrow> (l, ERR_OK) | None \<Rightarrow> (x # rest, ERR_ARG))
             | [] \<Rightarrow> ([], ERR_ARG))
      in (free_group E grp (n\<lparr>igmp_group_list := list\<rparr>), err))"

section \<open>Timers and messages\<close>

definition igmp_start_timer :: "'h net_env \<Rightarrow> addr \<Rightarrow> u8 \<Rightarrow> 'h net \<Rightarrow> 'h net option" where
  "igmp_start_timer E g max_time n =
     do {
       let max_time = (if max_time = 0 then 1 else max_time);
       let (n, r) = ne_rand E n;
       if max_time = 1 then None
       else do {
         grp \<leftarrow> igmp_groups n g;
         Some (set_group g (grp\<lparr>g_timer := ucast (r mod ucast (max_time - 1)) + 1\<rparr>) n)
       }
     }"

definition igmp_delaying_member :: "'h net_env \<Rightarrow> addr \<Rightarrow> u8 \<Rightarrow> 'h net \<Rightarrow> 'h net option" where
  "igmp_delaying_member E g maxresp n =
     do {
       grp \<leftarrow> igmp_groups n g;
       if group_state grp = IGMP_GROUP_IDLE_MEMBER
          \<or> group_state grp = IGMP_GROUP_DELAYING_MEMBER \<and> (g_timer grp = 0 \<or> ucast maxresp < g_timer grp)
       then do {
         n \<leftarrow> igmp_start_timer E g maxresp n;
         grp \<leftarrow> igmp_groups n g;
         Some (set_group g (grp\<lparr>group_state := IGMP_GROUP_DELAYING_MEMBER\<rparr>) n)
       }
       else Some n
     }"

definition igmp_ip_output_if :: "'h net_env \<Rightarrow> addr \<Rightarrow> ip_addr \<Rightarrow> ip_addr \<Rightarrow> nat \<Rightarrow> 'h net \<Rightarrow> ('h net \<times> err_t) option" where
  "igmp_ip_output_if E p src dest netif n =
     ip_output_if_opt E p src (Some dest) IGMP_TTL 0 IP_PROTO_IGMP netif (le_bytes16 (lwip_htons ROUTER_ALERT) @ le_bytes16 0) n"

text \<open>The eight octets of a message at \<open>igmp\<close>.\<close>

definition igmp_fill :: "u8 \<Rightarrow> ip_addr \<Rightarrow> addr \<Rightarrow> bytes \<Rightarrow> bytes" where
  "igmp_fill type groupaddr igmp m =
     (let m = mem_write m (igmp + gm_group_address) (le_bytes32 groupaddr);
          m = mem_write m (igmp + gm_msgtype) [type];
          m = mem_write m (igmp + gm_maxresp) [0];
          m = mem_write m (igmp + gm_checksum) (le_bytes16 0)
      in mem_write m (igmp + gm_checksum) (le_bytes16 (inet_chksum LWIP_CHKSUM igmp (mem_read m igmp (unat IGMP_MINLEN)))))"

definition igmp_send :: "'h net_env \<Rightarrow> addr \<Rightarrow> u8 \<Rightarrow> 'h net \<Rightarrow> 'h net option" where
  "igmp_send E g type n =
     do {
       (n, p) \<leftarrow> net_alloc E PBUF_TRANSPORT IGMP_MINLEN PBUF_RAM n;
       if p \<noteq> NULL then do {
         pb \<leftarrow> pbufs (net_ps n) p;
         grp \<leftarrow> igmp_groups n g;
         let src = netif_ip_addr (netif_list n ! g_netif grp);
         let n = (if type = IGMP_V2_MEMB_REPORT then set_group g (grp\<lparr>last_reporter_flag := True\<rparr>) n else n);
         n \<leftarrow> (if type = IGMP_V2_MEMB_REPORT \<or> type = IGMP_LEAVE_GROUP then do {
                 let dest = (if type = IGMP_V2_MEMB_REPORT then group_address grp else allrouters);
                 let n = set_dmem (igmp_fill type (group_address grp) (pb_payload pb) (dmem (net_ps n))) n;
                 (n, _) \<leftarrow> igmp_ip_output_if E p src dest (g_netif grp) n;
                 Some n
               }
               else Some n);
         net_free E p n
       }
       else Some n
     }"

definition igmp_timeout :: "'h net_env \<Rightarrow> addr \<Rightarrow> 'h net \<Rightarrow> 'h net option" where
  "igmp_timeout E g n =
     do {
       grp \<leftarrow> igmp_groups n g;
       if group_state grp = IGMP_GROUP_DELAYING_MEMBER then igmp_send E g IGMP_V2_MEMB_REPORT n else Some n
     }"

definition igmp_tmr_group :: "'h net_env \<Rightarrow> addr \<Rightarrow> 'h net \<Rightarrow> 'h net option" where
  "igmp_tmr_group E g n =
     do {
       grp \<leftarrow> igmp_groups n g;
       if g_timer grp > 0 then do {
         let n = set_group g (grp\<lparr>g_timer := g_timer grp - 1\<rparr>) n;
         if g_timer grp - 1 = 0 then igmp_timeout E g n else Some n
       }
       else Some n
     }"

text \<open>A function applied to every group of a list.\<close>

fun each_group :: "(addr \<Rightarrow> 'h net \<Rightarrow> 'h net option) \<Rightarrow> addr list \<Rightarrow> 'h net \<Rightarrow> 'h net option" where
  "each_group f [] n = Some n"
| "each_group f (g # rest) n = do { n \<leftarrow> f g n; each_group f rest n }"

definition igmp_tmr :: "'h net_env \<Rightarrow> 'h net \<Rightarrow> 'h net option" where
  "igmp_tmr E n = each_group (igmp_tmr_group E) (igmp_group_list n) n"

section \<open>Start and stop\<close>

definition mac_filter :: "'h net_env \<Rightarrow> nat \<Rightarrow> ip_addr \<Rightarrow> bool \<Rightarrow> 'h net \<Rightarrow> 'h net option" where
  "mac_filter E netif addr add n = (case ne_mac_filter E netif of None \<Rightarrow> Some n | Some f \<Rightarrow> f addr add n)"

definition igmp_start :: "'h net_env \<Rightarrow> nat \<Rightarrow> 'h net \<Rightarrow> ('h net \<times> err_t) option" where
  "igmp_start E netif n =
     do {
       (n, g) \<leftarrow> igmp_lookup_group E netif allsystems n;
       if g \<noteq> NULL then do {
         grp \<leftarrow> igmp_groups n g;
         n \<leftarrow> mac_filter E netif allsystems True (set_group g (grp\<lparr>group_state := IGMP_GROUP_IDLE_MEMBER, g_use := g_use grp + 1\<rparr>) n);
         Some (n, ERR_OK)
       }
       else Some (n, ERR_MEM)
     }"

text \<open>The loop of \<^verbatim>\<open>igmp_stop\<close>: \<open>prev\<close> are the groups kept so far.\<close>

fun igmp_stop_walk :: "'h net_env \<Rightarrow> nat \<Rightarrow> addr list \<Rightarrow> addr list \<Rightarrow> 'h net \<Rightarrow> 'h net option" where
  "igmp_stop_walk E netif prev [] n = Some n"
| "igmp_stop_walk E netif prev (g # rest) n =
     do {
       grp \<leftarrow> igmp_groups n g;
       if g_netif grp = netif then do {
         n \<leftarrow> mac_filter E netif (group_address grp) False (n\<lparr>igmp_group_list := prev @ rest\<rparr>);
         igmp_stop_walk E netif prev rest (free_group E g n)
       }
       else igmp_stop_walk E netif (prev @ [g]) rest n
     }"

definition igmp_stop :: "'h net_env \<Rightarrow> nat \<Rightarrow> 'h net \<Rightarrow> ('h net \<times> err_t) option" where
  "igmp_stop E netif n = do { n \<leftarrow> igmp_stop_walk E netif [] (igmp_group_list n) n; Some (n, ERR_OK) }"

definition igmp_report_groups :: "'h net_env \<Rightarrow> nat \<Rightarrow> 'h net \<Rightarrow> 'h net option" where
  "igmp_report_groups E netif n =
     each_group (\<lambda>g n. do {
         grp \<leftarrow> igmp_groups n g;
         if g_netif grp = netif then igmp_delaying_member E g IGMP_JOIN_DELAYING_MEMBER_TMR n else Some n
       }) (igmp_group_list n) n"

section \<open>Joining and leaving\<close>

definition igmp_applies :: "ip_addr \<Rightarrow> netif \<Rightarrow> bool" where
  "igmp_applies ifaddr netif \<longleftrightarrow> netif_flags netif AND NETIF_FLAG_IGMP \<noteq> 0 \<and> (ifaddr = IPADDR_ANY \<or> netif_ip_addr netif = ifaddr)"

text \<open>The group \<open>g\<close> of \<^verbatim>\<open>igmp_joingroup\<close> becomes a member, unless it is one already.\<close>

definition igmp_join_member :: "'h net_env \<Rightarrow> nat \<Rightarrow> ip_addr \<Rightarrow> addr \<Rightarrow> 'h net \<Rightarrow> 'h net option" where
  "igmp_join_member E netif groupaddr g n =
     do {
       grp \<leftarrow> igmp_groups n g;
       if group_state grp \<noteq> IGMP_GROUP_NON_MEMBER then Some n
       else do {
         n \<leftarrow> (if g_use grp = 0 then mac_filter E netif groupaddr True n else Some n);
         n \<leftarrow> igmp_send E g IGMP_V2_MEMB_REPORT n;
         n \<leftarrow> igmp_start_timer E g IGMP_JOIN_DELAYING_MEMBER_TMR n;
         grp \<leftarrow> igmp_groups n g;
         Some (set_group g (grp\<lparr>group_state := IGMP_GROUP_DELAYING_MEMBER\<rparr>) n)
       }
     }"

fun igmp_join_walk :: "'h net_env \<Rightarrow> ip_addr \<Rightarrow> ip_addr \<Rightarrow> nat list \<Rightarrow> err_t \<Rightarrow> 'h net \<Rightarrow> ('h net \<times> err_t) option" where
  "igmp_join_walk E ifaddr groupaddr [] err n = Some (n, err)"
| "igmp_join_walk E ifaddr groupaddr (netif # rest) err n =
     (if igmp_applies ifaddr (netif_list n ! netif) then do {
        (n, g) \<leftarrow> igmp_lookup_group E netif groupaddr n;
        if g \<noteq> NULL then do {
          n \<leftarrow> igmp_join_member E netif groupaddr g n;
          grp \<leftarrow> igmp_groups n g;
          igmp_join_walk E ifaddr groupaddr rest ERR_OK (set_group g (grp\<lparr>g_use := g_use grp + 1\<rparr>) n)
        }
        else Some (n, ERR_MEM)
      }
      else igmp_join_walk E ifaddr groupaddr rest err n)"

definition igmp_joingroup :: "'h net_env \<Rightarrow> ip_addr \<Rightarrow> ip_addr \<Rightarrow> 'h net \<Rightarrow> ('h net \<times> err_t) option" where
  "igmp_joingroup E ifaddr groupaddr n =
     (if \<not> ip_addr_ismulticast groupaddr \<or> groupaddr = allsystems then Some (n, ERR_VAL)
      else igmp_join_walk E ifaddr groupaddr [0..<length (netif_list n)] ERR_VAL n)"

text \<open>One user less of the group \<open>g\<close> of \<^verbatim>\<open>igmp_leavegroup\<close>.\<close>

definition igmp_leave_member :: "'h net_env \<Rightarrow> nat \<Rightarrow> ip_addr \<Rightarrow> addr \<Rightarrow> 'h net \<Rightarrow> 'h net option" where
  "igmp_leave_member E netif groupaddr g n =
     do {
       grp \<leftarrow> igmp_groups n g;
       if g_use grp \<le> 1 then do {
         n \<leftarrow> (if last_reporter_flag grp then igmp_send E g IGMP_LEAVE_GROUP n else Some n);
         n \<leftarrow> mac_filter E netif groupaddr False n;
         Some (fst (igmp_remove_group E g n))
       }
       else Some (set_group g (grp\<lparr>g_use := g_use grp - 1\<rparr>) n)
     }"

fun igmp_leave_walk :: "'h net_env \<Rightarrow> ip_addr \<Rightarrow> ip_addr \<Rightarrow> nat list \<Rightarrow> err_t \<Rightarrow> 'h net \<Rightarrow> ('h net \<times> err_t) option" where
  "igmp_leave_walk E ifaddr groupaddr [] err n = Some (n, err)"
| "igmp_leave_walk E ifaddr groupaddr (netif # rest) err n =
     (if igmp_applies ifaddr (netif_list n ! netif) then do {
        g \<leftarrow> igmp_lookfor_group netif groupaddr n;
        if g \<noteq> NULL then do {
          n \<leftarrow> igmp_leave_member E netif groupaddr g n;
          igmp_leave_walk E ifaddr groupaddr rest ERR_OK n
        }
        else igmp_leave_walk E ifaddr groupaddr rest err n
      }
      else igmp_leave_walk E ifaddr groupaddr rest err n)"

definition igmp_leavegroup :: "'h net_env \<Rightarrow> ip_addr \<Rightarrow> ip_addr \<Rightarrow> 'h net \<Rightarrow> ('h net \<times> err_t) option" where
  "igmp_leavegroup E ifaddr groupaddr n =
     (if \<not> ip_addr_ismulticast groupaddr \<or> groupaddr = allsystems then Some (n, ERR_VAL)
      else igmp_leave_walk E ifaddr groupaddr [0..<length (netif_list n)] ERR_VAL n)"

section \<open>Input\<close>

text \<open>A message of type \<^verbatim>\<open>IGMP_MEMB_QUERY\<close> at \<open>igmp\<close>, received for the group \<open>g\<close>.\<close>

definition igmp_query :: "'h net_env \<Rightarrow> nat \<Rightarrow> ip_addr \<Rightarrow> addr \<Rightarrow> addr \<Rightarrow> 'h net \<Rightarrow> 'h net option" where
  "igmp_query E inp dest igmp g n =
     do {
       let m = dmem (net_ps n);
       let groupaddr = load32 m (igmp + gm_group_address);
       if dest = allsystems \<and> groupaddr = IPADDR_ANY then do {
         let m = (if m (igmp + gm_maxresp) = 0 then mem_write m (igmp + gm_maxresp) [IGMP_V1_DELAYING_MEMBER_TMR] else m);
         let n = set_dmem m n;
         each_group (\<lambda>g n. do {
             grp \<leftarrow> igmp_groups n g;
             if g_netif grp = inp \<and> group_address grp \<noteq> allsystems
             then igmp_delaying_member E g (dmem (net_ps n) (igmp + gm_maxresp)) n else Some n
           }) (igmp_group_list n) n
       }
       else if groupaddr \<noteq> IPADDR_ANY then do {
         g \<leftarrow> (if dest = allsystems then igmp_lookfor_group inp groupaddr n else Some g);
         if g \<noteq> NULL then igmp_delaying_member E g (m (igmp + gm_maxresp)) n else Some n
       }
       else Some n
     }"

definition igmp_input :: "'h net_env \<Rightarrow> addr \<Rightarrow> nat \<Rightarrow> ip_addr \<Rightarrow> 'h net \<Rightarrow> 'h net option" where
  "igmp_input E p inp dest n =
     do {
       pb \<leftarrow> pbufs (net_ps n) p;
       (n, fail) \<leftarrow> net_header p (- (IPH_HL (dmem (net_ps n)) (pb_payload pb) * 4)) n;
       pb \<leftarrow> pbufs (net_ps n) p;
       let igmp = pb_payload pb;
       let m = dmem (net_ps n);
       if fail \<or> pb_len pb < IGMP_MINLEN then net_free E p n
       else if inet_chksum LWIP_CHKSUM igmp (mem_read m igmp (unat (pb_len pb))) \<noteq> 0 then net_free E p n
       else do {
         g \<leftarrow> igmp_lookfor_group inp dest n;
         if g = NULL then net_free E p n
         else do {
           n \<leftarrow> (if m (igmp + gm_msgtype) = IGMP_MEMB_QUERY then igmp_query E inp dest igmp g n
                 else if m (igmp + gm_msgtype) = IGMP_V2_MEMB_REPORT then do {
                   grp \<leftarrow> igmp_groups n g;
                   Some (if group_state grp = IGMP_GROUP_DELAYING_MEMBER
                         then set_group g (grp\<lparr>g_timer := 0, group_state := IGMP_GROUP_IDLE_MEMBER, last_reporter_flag := False\<rparr>) n
                         else n)
                 }
                 else Some n);
           net_free E p n
         }
       }
     }"

section \<open>The invariant\<close>

definition group_ok :: "igmp_group \<Rightarrow> bool" where
  "group_ok grp \<longleftrightarrow> group_state grp \<noteq> IGMP_GROUP_NON_MEMBER \<and> (g_timer grp \<noteq> 0 \<longrightarrow> group_state grp = IGMP_GROUP_DELAYING_MEMBER \<or> group_address grp = allsystems)"

definition group_keys :: "(addr \<Rightarrow> igmp_group option) \<Rightarrow> bool" where
  "group_keys st \<longleftrightarrow> (\<forall>g h a b. st g = Some a \<and> st h = Some b \<and> g_netif a = g_netif b \<and> group_address a = group_address b \<longrightarrow> g = h)"

definition groups_inv :: "'h net \<Rightarrow> bool" where
  "groups_inv n \<longleftrightarrow> distinct (igmp_group_list n) \<and> set (igmp_group_list n) = dom (igmp_groups n) \<and> NULL \<notin> dom (igmp_groups n)
     \<and> group_keys (igmp_groups n)"

definition igmp_inv :: "'h net \<Rightarrow> bool" where
  "igmp_inv n \<longleftrightarrow> groups_inv n \<and> (\<forall>g grp. igmp_groups n g = Some grp \<longrightarrow> group_ok grp)"

lemma set_group_sel [simp]:
  "igmp_groups (set_group g grp n) = (igmp_groups n)(g \<mapsto> grp)" "igmp_group_list (set_group g grp n) = igmp_group_list n"
  "netif_list (set_group g grp n) = netif_list n" "net_arp (set_group g grp n) = net_arp n"
  by (simp_all add: set_group_def)

lemma igmp_cong:
  assumes "keeps_upper n n'"
  shows "groups_inv n' = groups_inv n" "igmp_inv n' = igmp_inv n"
  using keeps_upperD [OF assms] by (simp_all add: groups_inv_def igmp_inv_def)

lemma group_keys_upd:
  assumes "group_keys st" "st g = Some grp" "g_netif grp' = g_netif grp" "group_address grp' = group_address grp"
  shows "group_keys (st(g \<mapsto> grp'))"
  using assms unfolding group_keys_def by (metis fun_upd_apply option.inject)

lemma groups_inv_set:
  assumes "groups_inv n" "igmp_groups n g = Some grp" "g_netif grp' = g_netif grp" "group_address grp' = group_address grp"
  shows "groups_inv (set_group g grp' n)"
  using assms group_keys_upd [of "igmp_groups n" g grp grp'] by (auto simp: groups_inv_def)

lemma igmp_inv_set:
  assumes "igmp_inv n" "igmp_groups n g = Some grp" "g_netif grp' = g_netif grp" "group_address grp' = group_address grp" "group_ok grp'"
  shows "igmp_inv (set_group g grp' n)"
  using assms groups_inv_set [of n g grp grp'] by (auto simp: igmp_inv_def)

lemma igmp_inv_keeps:
  assumes "igmp_inv n" "igmp_groups n g = Some grp" "keeps_upper (set_group g grp' n) n'"
    "g_netif grp' = g_netif grp" "group_address grp' = group_address grp" "group_ok grp'"
  shows "igmp_inv n' \<and> igmp_group_list n' = igmp_group_list n"
proof
  show "igmp_inv n'"
    using igmp_inv_set [OF assms(1,2,4-6)] igmp_cong(2) [OF assms(3)] by blast
  show "igmp_group_list n' = igmp_group_list n"
    using keeps_upperD(6) [OF assms(3)] by simp
qed

lemma igmp_inv_ok: "igmp_inv n \<Longrightarrow> igmp_groups n g = Some grp \<Longrightarrow> group_ok grp"
  by (simp add: igmp_inv_def)

text \<open>The search finds the one group with the interface and address.\<close>

lemma lookfor_walk_eq:
  assumes "\<forall>g\<in>set xs. st g \<noteq> None"
  shows "lookfor_walk st ifp addr xs =
    Some (case find (\<lambda>g. g_netif (the (st g)) = ifp \<and> group_address (the (st g)) = addr) xs of Some g \<Rightarrow> g | None \<Rightarrow> NULL)"
  using assms by (induction xs) auto

lemma option_eqI: "(\<And>z. x = Some z \<longleftrightarrow> y = Some z) \<Longrightarrow> x = y"
  by (metis option.exhaust)

lemma igmp_lookfor_cases:
  assumes "groups_inv n"
  obtains (found) g grp where "igmp_lookfor_group ifp addr n = Some g" "g \<noteq> NULL" "igmp_groups n g = Some grp" "g_netif grp = ifp" "group_address grp = addr"
  | (absent) "igmp_lookfor_group ifp addr n = Some NULL" "\<And>g grp. igmp_groups n g = Some grp \<Longrightarrow> \<not> (g_netif grp = ifp \<and> group_address grp = addr)"
proof -
  let ?P = "\<lambda>g. g_netif (the (igmp_groups n g)) = ifp \<and> group_address (the (igmp_groups n g)) = addr"
  have live: "\<forall>g\<in>set (igmp_group_list n). igmp_groups n g \<noteq> None"
    using assms by (auto simp: groups_inv_def)
  note eq = lookfor_walk_eq [OF live, of ifp addr, folded igmp_lookfor_group_def]
  show thesis
  proof (cases "find ?P (igmp_group_list n)")
    case None
    have "\<not> (g_netif grp = ifp \<and> group_address grp = addr)" if "igmp_groups n g = Some grp" for g grp
      using None that assms by (force simp: find_None_iff groups_inv_def)
    then show thesis
      using None eq absent by (simp add: igmp_lookfor_group_def)
  next
    case (Some g)
    then have "g \<in> set (igmp_group_list n)" "?P g"
      by (auto simp: find_Some_iff)
    moreover from this obtain grp where "igmp_groups n g = Some grp"
      using live by blast
    moreover from this have "g \<noteq> NULL"
      using assms unfolding groups_inv_def by (metis domI)
    ultimately show thesis
      using Some eq by (intro found [of g grp]) (simp_all add: igmp_lookfor_group_def)
  qed
qed

lemma igmp_unlink_remove: "distinct xs \<Longrightarrow> xs \<noteq> [] \<Longrightarrow> hd xs \<noteq> g \<Longrightarrow> g \<in> set xs \<Longrightarrow> igmp_unlink g xs = Some (remove1 g xs)"
  by (induction g xs rule: igmp_unlink.induct) auto

text \<open>A new group, on top of the list.\<close>

lemma groups_inv_new:
  assumes "groups_inv n" "g \<noteq> NULL" "igmp_groups n g = None"
    "\<And>h grp. igmp_groups n h = Some grp \<Longrightarrow> \<not> (g_netif grp = g_netif new \<and> group_address grp = group_address new)"
  shows "groups_inv ((set_group g new n)\<lparr>igmp_group_list := g # igmp_group_list n\<rparr>)"
proof -
  have "group_keys ((igmp_groups n)(g \<mapsto> new))"
    using assms(1,4) unfolding groups_inv_def group_keys_def by (metis fun_upd_apply option.inject)
  then show ?thesis
    using assms(1-3) by (auto simp: groups_inv_def)
qed

lemma groups_inv_remove:
  assumes "groups_inv n"
  shows "groups_inv (free_group E g (n\<lparr>igmp_group_list := remove1 g (igmp_group_list n)\<rparr>))"
  using assms by (auto simp: groups_inv_def free_group_def set_ps_def group_keys_def)


lemma keeps_set_group: "keeps_upper n n' \<Longrightarrow> keeps_upper (set_group g grp n) (set_group g grp n')"
  by (cases n; cases n') (auto simp: keeps_upper_def set_group_def)

lemma set_group_same: "igmp_groups n g = Some grp \<Longrightarrow> set_group g grp n = n"
  by (cases n) (simp add: set_group_def fun_upd_idem)

lemma set_group_twice [simp]: "set_group g grp (set_group g grp' n) = set_group g grp n"
  by (cases n) (simp add: set_group_def)

text \<open>The timer that is started is not zero and less than the time allowed.\<close>

lemma timer_value:
  fixes r :: u32 and max_time :: u8
  assumes "max_time \<noteq> 0" "max_time \<noteq> 1"
  defines "t \<equiv> ucast (r mod ucast (max_time - 1)) + 1 :: u16"
  shows "t \<noteq> 0" "unat t < unat max_time"
proof -
  have "unat max_time \<noteq> 0" "unat max_time \<noteq> 1"
    using assms(1,2) by (simp_all add: word_unat_eq_iff)
  then have m: "unat (max_time - 1) = unat max_time - 1" "0 < unat max_time - 1"
    using assms(1) by (simp_all add: unat_minus_one)
  define k where "k = unat r mod (unat max_time - 1)"
  have k: "k < unat max_time - 1"
    using m(2) by (simp add: k_def)
  have "unat (ucast (r mod ucast (max_time - 1)) :: u16) = k"
    using k unat_u8_lt [of max_time] by (simp add: unat_ucast_mod unat_mod unat_ucast_u8_u32 m(1) k_def)
  then have "unat t = k + 1"
    using k unat_u8_lt [of max_time] by (simp add: t_def unat_word_ariths)
  then show "t \<noteq> 0" "unat t < unat max_time"
    using k by (auto simp: word_unat_eq_iff)
qed

text \<open>What the module promises: a map from interface and address to the group.\<close>

definition membership :: "'h net \<Rightarrow> nat \<Rightarrow> ip_addr \<Rightarrow> igmp_group option" where
  "membership n ifp addr =
     (case igmp_lookfor_group ifp addr n of Some g \<Rightarrow> if g = NULL then None else igmp_groups n g | None \<Rightarrow> None)"

lemma membership_iff:
  assumes "groups_inv n"
  shows "membership n ifp addr = Some grp \<longleftrightarrow> (\<exists>g. igmp_groups n g = Some grp \<and> g_netif grp = ifp \<and> group_address grp = addr)"
  using assms
proof (cases rule: igmp_lookfor_cases [of n ifp addr])
  case (found g grp')
  then have "g = h" if "igmp_groups n h = Some grp" "g_netif grp = ifp" "group_address grp = addr" for h
    using that assms unfolding groups_inv_def group_keys_def by blast
  then show ?thesis
    using found by (auto simp: membership_def)
qed (auto simp: membership_def)

lemma membership_cong:
  assumes "groups_inv n" "groups_inv n'" "\<And>g grp. igmp_groups n' g = Some grp \<and> g_netif grp = i \<and> group_address grp = a
     \<longleftrightarrow> igmp_groups n g = Some grp \<and> g_netif grp = i \<and> group_address grp = a"
  shows "membership n' i a = membership n i a"
proof (rule option_eqI)
  fix grp
  show "membership n' i a = Some grp \<longleftrightarrow> membership n i a = Some grp"
    unfolding membership_iff [OF assms(1)] membership_iff [OF assms(2)] using assms(3) by blast
qed

text \<open>A change of one entry of the table is a change of one entry of the map.\<close>

lemma membership_upd:
  assumes "groups_inv n" "groups_inv n'" "igmp_groups n' = (igmp_groups n)(g := new)"
    "\<And>grp. igmp_groups n g = Some grp \<Longrightarrow> g_netif grp = i \<and> group_address grp = a"
    "\<And>grp. new = Some grp \<Longrightarrow> g_netif grp = i \<and> group_address grp = a"
    "igmp_groups n g = None \<Longrightarrow> membership n i a = None"
  shows "membership n' = (membership n)(i := (membership n i)(a := new))"
proof (intro ext option_eqI)
  fix j b grp
  have keys: "h = g" if "igmp_groups n h = Some grp" "g_netif grp = i" "group_address grp = a" for h
  proof (cases "igmp_groups n g")
    case None
    then show ?thesis
      using that assms(6) membership_iff [OF assms(1), of i a grp] by auto
  next
    case (Some grp')
    then show ?thesis
      using that assms(4) [of grp'] assms(1) unfolding groups_inv_def group_keys_def by metis
  qed
  show "membership n' j b = Some grp \<longleftrightarrow> ((membership n)(i := (membership n i)(a := new))) j b = Some grp"
  proof (cases "j = i \<and> b = a")
    case True
    then show ?thesis
      using keys assms(5) by (auto simp: membership_iff [OF assms(2)] assms(3))
  next
    case False
    then have "((membership n)(i := (membership n i)(a := new))) j b = membership n j b"
      by auto
    moreover have "membership n' j b = membership n j b"
    proof (rule membership_cong [OF assms(1,2)])
      show "igmp_groups n' h = Some x \<and> g_netif x = j \<and> group_address x = b \<longleftrightarrow> igmp_groups n h = Some x \<and> g_netif x = j \<and> group_address x = b" for h x
        using False assms(4,5) [of x] unfolding assms(3) by (cases "h = g") auto
    qed
    ultimately show ?thesis
      by simp
  qed
qed

text \<open>How an entry of the map changes when its group is joined: a new member delays its report by one to four ticks.\<close>

definition joined :: "igmp_group option \<Rightarrow> igmp_group option \<Rightarrow> bool" where
  "joined old new =
     (case new of
        None \<Rightarrow> False
      | Some grp \<Rightarrow>
          (case old of
             Some grp' \<Rightarrow> grp = grp'\<lparr>g_use := g_use grp' + 1\<rparr>
           | None \<Rightarrow> g_use grp = 1 \<and> group_state grp = IGMP_GROUP_DELAYING_MEMBER \<and> g_timer grp \<noteq> 0 \<and> g_timer grp < 5))"

definition left :: "igmp_group option \<Rightarrow> igmp_group option" where
  "left old = (case old of None \<Rightarrow> None | Some grp \<Rightarrow> if g_use grp \<le> 1 then None else Some (grp\<lparr>g_use := g_use grp - 1\<rparr>))"

text \<open>All but one group are as they should be: the state between a lookup and the end of a join.\<close>

definition igmp_inv_but :: "addr \<Rightarrow> 'h net \<Rightarrow> bool" where
  "igmp_inv_but g n \<longleftrightarrow> groups_inv n \<and> (\<forall>h grp. h \<noteq> g \<longrightarrow> igmp_groups n h = Some grp \<longrightarrow> group_ok grp)"

lemma igmp_inv_but_weaken: "igmp_inv n \<Longrightarrow> igmp_inv_but g n"
  by (simp add: igmp_inv_def igmp_inv_but_def)

lemma igmp_inv_but_keeps:
  assumes "igmp_inv_but g n" "igmp_groups n g = Some grp" "keeps_upper (set_group g grp' n) n'"
    "g_netif grp' = g_netif grp" "group_address grp' = group_address grp"
  shows "igmp_inv_but g n'" "group_ok grp' \<Longrightarrow> igmp_inv n'"
proof -
  have "groups_inv (set_group g grp' n)"
    using groups_inv_set [of n g grp grp'] assms by (simp add: igmp_inv_but_def)
  then have "groups_inv n'"
    using igmp_cong(1) [OF assms(3)] by blast
  moreover have "igmp_groups n' = (igmp_groups n)(g \<mapsto> grp')"
    using keeps_upperD(7) [OF assms(3)] by simp
  ultimately show "igmp_inv_but g n'" "group_ok grp' \<Longrightarrow> igmp_inv n'"
    using assms(1) by (simp_all add: igmp_inv_but_def igmp_inv_def)
qed

lemma igmp_inv_but_ok: "igmp_inv_but g n \<Longrightarrow> igmp_groups n g = Some grp \<Longrightarrow> group_ok grp \<Longrightarrow> igmp_inv n"
  unfolding igmp_inv_but_def igmp_inv_def by (metis option.inject)

text \<open>A group that is taken off the list and given back.\<close>

lemma igmp_inv_freed:
  assumes "igmp_inv n" "igmp_group_list n' = remove1 g (igmp_group_list n)" "igmp_groups n' = igmp_groups n"
  shows "igmp_inv (free_group E g n')"
  using assms by (auto simp: igmp_inv_def groups_inv_def free_group_def set_ps_def group_keys_def)

lemma igmp_remove_group_inv:
  assumes "igmp_inv n" "igmp_groups n g = Some grp"
  shows "igmp_inv (fst (igmp_remove_group E g n))" "snd (igmp_remove_group E g n) = ERR_OK"
    "igmp_groups (fst (igmp_remove_group E g n)) = (igmp_groups n)(g := None)"
proof -
  have "g \<in> set (igmp_group_list n)" and d: "distinct (igmp_group_list n)"
    using assms by (auto simp: igmp_inv_def groups_inv_def)
  then obtain x rest where l: "igmp_group_list n = x # rest"
    by (cases "igmp_group_list n") auto
  have "igmp_remove_group E g n = (free_group E g (n\<lparr>igmp_group_list := remove1 g (igmp_group_list n)\<rparr>), ERR_OK)"
    using igmp_unlink_remove [OF d, of g] \<open>g \<in> _\<close> by (cases "x = g") (simp_all add: igmp_remove_group_def l)
  then show "igmp_inv (fst (igmp_remove_group E g n))" "snd (igmp_remove_group E g n) = ERR_OK"
    "igmp_groups (fst (igmp_remove_group E g n)) = (igmp_groups n)(g := None)"
    using igmp_inv_freed [OF assms(1), of "n\<lparr>igmp_group_list := remove1 g (igmp_group_list n)\<rparr>" g] by (simp_all add: free_group_def)
qed

context net_link
begin

lemma igmp_start_timer_keeps:
  assumes "igmp_start_timer E g max_time n = Some n'" "igmp_groups n g = Some grp"
  shows "\<exists>t. keeps_upper (set_group g (grp\<lparr>g_timer := t\<rparr>) n) n' \<and> t \<noteq> 0 \<and> unat t < unat max_time"
proof -
  obtain n1 r where r: "ne_rand E n = (n1, r)"
    by fastforce
  then have n1: "igmp_groups n1 g = Some grp" "keeps_upper n n1"
    using rand_law [OF r] assms(2) keeps_upperD(7) [OF rand_law [OF r]] by simp_all
  have m: "max_time \<noteq> 0" "max_time \<noteq> 1"
    using assms(1) r by (auto simp: igmp_start_timer_def Let_def split: if_splits)
  then have "n' = set_group g (grp\<lparr>g_timer := ucast (r mod ucast (max_time - 1)) + 1\<rparr>) n1"
    using assms(1) r n1(1) by (simp add: igmp_start_timer_def Let_def)
  then show ?thesis
    using timer_value [OF m, of r] keeps_set_group [OF n1(2)] by blast
qed

lemma igmp_send_keeps:
  assumes "igmp_send E g type n = Some n'" "igmp_groups n g = Some grp"
  shows "\<exists>f. keeps_upper (set_group g (grp\<lparr>last_reporter_flag := f\<rparr>) n) n'"
proof -
  obtain n1 p where a: "net_alloc E PBUF_TRANSPORT IGMP_MINLEN PBUF_RAM n = Some (n1, p)"
    using assms(1) by (auto simp: igmp_send_def split: bind_splits)
  then have k: "keeps_upper n n1"
    by (rule net_alloc_keeps)
  then have g1: "igmp_groups n1 g = Some grp"
    using keeps_upperD(7) assms(2) by metis
  define n2 where "n2 = (if type = IGMP_V2_MEMB_REPORT then set_group g (grp\<lparr>last_reporter_flag := True\<rparr>) n1 else n1)"
  have "keeps_upper n2 n'" if "p \<noteq> NULL"
    using assms(1) a g1 that
    by (auto simp: igmp_send_def Option.bind_eq_Some_conv Let_def n2_def igmp_ip_output_if_def split: if_splits
        dest!: net_free_keeps ip_output_if_opt_keeps intro: keeps_upper_trans)
  moreover have "\<exists>f. keeps_upper (set_group g (grp\<lparr>last_reporter_flag := f\<rparr>) n) n2"
  proof (cases "type = IGMP_V2_MEMB_REPORT")
    case True
    then show ?thesis
      using keeps_set_group [OF k] by (auto simp: n2_def)
  next
    case False
    then show ?thesis
      using k set_group_same [OF assms(2)] by (auto simp: n2_def intro!: exI [of _ "last_reporter_flag grp"])
  qed
  moreover have "\<exists>f. keeps_upper (set_group g (grp\<lparr>last_reporter_flag := f\<rparr>) n) n'" if "p = NULL"
    using assms(1) a that k set_group_same [OF assms(2)] by (auto simp: igmp_send_def intro!: exI [of _ "last_reporter_flag grp"])
  ultimately show ?thesis
    using keeps_upper_trans by blast
qed

lemma igmp_delaying_member_inv:
  assumes "igmp_delaying_member E g maxresp n = Some n'" "igmp_inv n"
  shows "igmp_inv n' \<and> igmp_group_list n' = igmp_group_list n"
proof -
  obtain grp where g: "igmp_groups n g = Some grp"
    using assms(1) by (auto simp: igmp_delaying_member_def split: bind_splits)
  consider "n' = n" | n1 where "igmp_start_timer E g maxresp n = Some n1"
      "(do { grp \<leftarrow> igmp_groups n1 g; Some (set_group g (grp\<lparr>group_state := IGMP_GROUP_DELAYING_MEMBER\<rparr>) n1) }) = Some n'"
    using assms(1) g by (auto simp: igmp_delaying_member_def Option.bind_eq_Some_conv split: if_splits)
  then show ?thesis
  proof cases
    case 2
    from igmp_start_timer_keeps [OF 2(1) g] obtain t where t: "keeps_upper (set_group g (grp\<lparr>g_timer := t\<rparr>) n) n1"
      by blast
    then have "igmp_groups n1 g = Some (grp\<lparr>g_timer := t\<rparr>)"
      using keeps_upperD(7) [OF t] by simp
    then have n': "n' = set_group g (grp\<lparr>g_timer := t, group_state := IGMP_GROUP_DELAYING_MEMBER\<rparr>) n1"
      using 2(2) by simp
    have k: "keeps_upper (set_group g (grp\<lparr>g_timer := t, group_state := IGMP_GROUP_DELAYING_MEMBER\<rparr>) n) n'"
      unfolding n' using keeps_set_group [OF t, of g "grp\<lparr>g_timer := t, group_state := IGMP_GROUP_DELAYING_MEMBER\<rparr>"] by simp
    show ?thesis
      by (rule igmp_inv_keeps [OF assms(2) g k]) (simp_all add: group_ok_def)
  qed (use assms(2) in simp)
qed

lemma igmp_timeout_inv:
  assumes "igmp_timeout E g n = Some n'" "igmp_inv n"
  shows "igmp_inv n' \<and> igmp_group_list n' = igmp_group_list n"
proof -
  obtain grp where g: "igmp_groups n g = Some grp"
    using assms(1) by (auto simp: igmp_timeout_def split: bind_splits)
  have eq: "igmp_timeout E g n = (if group_state grp = IGMP_GROUP_DELAYING_MEMBER then igmp_send E g IGMP_V2_MEMB_REPORT n else Some n)"
    by (simp add: igmp_timeout_def g)
  show ?thesis
  proof (cases "group_state grp = IGMP_GROUP_DELAYING_MEMBER")
    case True
    with eq obtain f where k: "keeps_upper (set_group g (grp\<lparr>last_reporter_flag := f\<rparr>) n) n'"
      using igmp_send_keeps [of g IGMP_V2_MEMB_REPORT n n' grp] g assms(1) by auto
    have "group_ok (grp\<lparr>last_reporter_flag := f\<rparr>)"
      using igmp_inv_ok [OF assms(2) g] by (simp add: group_ok_def)
    then show ?thesis
      by (intro igmp_inv_keeps [OF assms(2) g k]) simp_all
  qed (use assms eq in simp)
qed

lemma igmp_tmr_group_inv:
  assumes "igmp_tmr_group E g n = Some n'" "igmp_inv n"
  shows "igmp_inv n' \<and> igmp_group_list n' = igmp_group_list n"
proof -
  obtain grp where g: "igmp_groups n g = Some grp"
    using assms(1) by (auto simp: igmp_tmr_group_def split: bind_splits)
  define n1 where "n1 = set_group g (grp\<lparr>g_timer := g_timer grp - 1\<rparr>) n"
  have n1: "igmp_inv n1" "igmp_group_list n1 = igmp_group_list n" if "0 < g_timer grp"
  proof -
    have "group_ok (grp\<lparr>g_timer := g_timer grp - 1\<rparr>)"
      using igmp_inv_ok [OF assms(2) g] that by (auto simp: group_ok_def)
    then show "igmp_inv n1" "igmp_group_list n1 = igmp_group_list n"
      unfolding n1_def by (simp_all add: igmp_inv_set [OF assms(2) g])
  qed
  have "igmp_tmr_group E g n =
      (if g_timer grp > 0 then if g_timer grp - 1 = 0 then igmp_timeout E g n1 else Some n1 else Some n)"
    by (simp add: igmp_tmr_group_def g n1_def Let_def)
  then show ?thesis
    using assms n1 igmp_timeout_inv [of g n1 n'] by (simp split: if_split_asm)
qed

lemma each_group_inv:
  assumes "each_group f xs n = Some n'" "igmp_inv n"
    and "\<And>g n n'. f g n = Some n' \<Longrightarrow> igmp_inv n \<Longrightarrow> igmp_inv n' \<and> igmp_group_list n' = igmp_group_list n"
  shows "igmp_inv n' \<and> igmp_group_list n' = igmp_group_list n"
  using assms(1,2)
proof (induction xs arbitrary: n)
  case (Cons g xs)
  then obtain n1 where "f g n = Some n1" "each_group f xs n1 = Some n'"
    by (auto simp: Option.bind_eq_Some_conv)
  then show ?case
    using Cons.IH [of n1] assms(3) Cons.prems(2) by metis
qed simp

lemma igmp_tmr_inv: "igmp_tmr E n = Some n' \<Longrightarrow> igmp_inv n \<Longrightarrow> igmp_inv n'"
  unfolding igmp_tmr_def using each_group_inv igmp_tmr_group_inv by blast

lemma igmp_report_groups_inv:
  assumes "igmp_report_groups E netif n = Some n'" "igmp_inv n"
  shows "igmp_inv n'"
  using assms unfolding igmp_report_groups_def
  by (rule each_group_inv [THEN conjunct1])
    (auto simp: Option.bind_eq_Some_conv split: if_splits dest: igmp_delaying_member_inv)

lemma mac_filter_keeps: "mac_filter E netif addr add n = Some n' \<Longrightarrow> keeps_upper n n'"
  by (auto simp: mac_filter_def split: option.splits dest: filter_law)

text \<open>A group that is looked up is there, maybe as a new one that is not a member yet.\<close>

lemma igmp_lookup_group_result:
  assumes "igmp_lookup_group E ifp addr n = Some (n', g)" "groups_inv n"
  shows "g = NULL \<and> keeps_upper n n' \<or> (g \<noteq> NULL \<and> groups_inv n' \<and>
    (\<exists>grp. igmp_groups n' g = Some grp \<and> g_netif grp = ifp \<and> group_address grp = addr \<and>
       (n' = n \<or> membership n ifp addr = None \<and> igmp_groups n g = None \<and> igmp_groups n' = (igmp_groups n)(g \<mapsto> grp) \<and> g_timer grp = 0 \<and> g_use grp = 0 \<and>
          group_state grp = IGMP_GROUP_NON_MEMBER)))"
  using assms(2)
proof (rule igmp_lookfor_cases [of n ifp addr])
  fix h grp
  assume "igmp_lookfor_group ifp addr n = Some h" "h \<noteq> NULL" "igmp_groups n h = Some grp" "g_netif grp = ifp" "group_address grp = addr"
  then show ?thesis
    using assms by (simp add: igmp_lookup_group_def)
next
  assume no: "igmp_lookfor_group ifp addr n = Some NULL" "\<And>g grp. igmp_groups n g = Some grp \<Longrightarrow> \<not> (g_netif grp = ifp \<and> group_address grp = addr)"
  obtain h a where a: "al_malloc (ne_alloc E) (heap (net_ps n)) SIZEOF_IGMP_GROUP = (h, a)"
    by fastforce
  define n1 where "n1 = set_ps ((net_ps n)\<lparr>heap := h\<rparr>) n"
  define new where "new = \<lparr>g_netif = ifp, group_address = addr, last_reporter_flag = False,
    group_state = IGMP_GROUP_NON_MEMBER, g_timer = 0, g_use = 0\<rparr>"
  have k: "keeps_upper n n1"
    by (auto simp: n1_def)
  note same = keeps_upperD(6,7) [OF k]
  have n': "n' = (if a = NULL then n1 else (set_group a new n1)\<lparr>igmp_group_list := a # igmp_group_list n1\<rparr>)" "g = a"
      "a \<noteq> NULL \<Longrightarrow> igmp_groups n1 a = None"
    using assms(1) no(1) a by (auto simp: igmp_lookup_group_def Let_def n1_def new_def split: if_splits)
  show ?thesis
  proof (cases "a = NULL")
    case False
    have "groups_inv ((set_group a new n1)\<lparr>igmp_group_list := a # igmp_group_list n1\<rparr>)"
    proof (rule groups_inv_new)
      show "groups_inv n1"
        using igmp_cong(1) [OF k] assms(2) by blast
      show "\<not> (g_netif grp = g_netif new \<and> group_address grp = group_address new)" if "igmp_groups n1 j = Some grp" for j grp
        using no(2) [of j grp] that same(2) by (simp add: new_def)
    qed (use False n'(3) in simp_all)
    then have "groups_inv n'"
      using False n'(1) by simp
    moreover have "membership n ifp addr = None"
      by (simp add: membership_def no(1))
    ultimately show ?thesis
      using False n' same by (auto simp: new_def)
  qed (use n' k in simp)
qed

lemma igmp_lookup_group_netifs: "igmp_lookup_group E ifp addr n = Some (n', g) \<Longrightarrow> netif_list n' = netif_list n"
  by (auto simp: igmp_lookup_group_def Option.bind_eq_Some_conv Let_def set_ps_def split: if_splits prod.splits)

lemma igmp_lookup_group_inv:
  assumes "igmp_lookup_group E ifp addr n = Some (n', g)" "igmp_inv n"
  shows "g = NULL \<and> igmp_inv n' \<or> (g \<noteq> NULL \<and> igmp_inv_but g n' \<and>
    (\<exists>grp. igmp_groups n' g = Some grp \<and> g_netif grp = ifp \<and> group_address grp = addr \<and> (group_state grp \<noteq> IGMP_GROUP_NON_MEMBER \<longrightarrow> group_ok grp)))"
proof -
  have "groups_inv n"
    using assms(2) by (simp add: igmp_inv_def)
  from igmp_lookup_group_result [OF assms(1) this] show ?thesis
  proof (elim disjE conjE exE)
    assume "g = NULL" "keeps_upper n n'"
    then show ?thesis
      using igmp_cong(2) assms(2) by blast
  next
    fix grp
    assume "g \<noteq> NULL" "igmp_groups n' g = Some grp" "g_netif grp = ifp" "group_address grp = addr" "n' = n"
    then show ?thesis
      using igmp_inv_but_weaken [OF assms(2)] igmp_inv_ok [OF assms(2)] by blast
  next
    fix grp
    assume *: "g \<noteq> NULL" "groups_inv n'" "igmp_groups n' g = Some grp" "g_netif grp = ifp" "group_address grp = addr"
      "igmp_groups n' = (igmp_groups n)(g \<mapsto> grp)" "group_state grp = IGMP_GROUP_NON_MEMBER"
    then have "igmp_inv_but g n'"
      using assms(2) by (simp add: igmp_inv_but_def igmp_inv_def)
    then show ?thesis
      using * by blast
  qed
qed

lemma igmp_start_inv:
  assumes "igmp_start E netif n = Some (n', err)" "igmp_inv n"
  shows "igmp_inv n'"
proof -
  obtain n1 g where l: "igmp_lookup_group E netif allsystems n = Some (n1, g)"
    using assms(1) by (auto simp: igmp_start_def split: bind_splits)
  show ?thesis
  proof (cases "g = NULL")
    case True
    then show ?thesis
      using assms(1) l igmp_lookup_group_inv [OF l assms(2)] by (simp add: igmp_start_def)
  next
    case False
    with igmp_lookup_group_inv [OF l assms(2)] obtain grp where but: "igmp_inv_but g n1" and g: "igmp_groups n1 g = Some grp"
      and a: "group_address grp = allsystems"
      by blast
    let ?grp = "grp\<lparr>group_state := IGMP_GROUP_IDLE_MEMBER, g_use := g_use grp + 1\<rparr>"
    have "mac_filter E netif allsystems True (set_group g ?grp n1) = Some n'"
      using assms(1) False l g by (auto simp: igmp_start_def Option.bind_eq_Some_conv)
    then have "keeps_upper (set_group g ?grp n1) n'"
      by (rule mac_filter_keeps)
    from igmp_inv_but_keeps(2) [OF but g this] show ?thesis
      using a by (simp add: group_ok_def)
  qed
qed

lemma igmp_stop_walk_inv:
  assumes "igmp_stop_walk E netif prev rest n = Some n'" "igmp_inv n" "igmp_group_list n = prev @ rest"
  shows "igmp_inv n'"
  using assms
proof (induction rest arbitrary: prev n)
  case (Cons g rest)
  obtain grp where g: "igmp_groups n g = Some grp"
    using Cons.prems(1) by (auto split: bind_splits)
  show ?case
  proof (cases "g_netif grp = netif")
    case True
    obtain n1 where f: "mac_filter E netif (group_address grp) False (n\<lparr>igmp_group_list := prev @ rest\<rparr>) = Some n1"
      and w: "igmp_stop_walk E netif prev rest (free_group E g n1) = Some n'"
      using Cons.prems(1) g True by (auto simp: Option.bind_eq_Some_conv)
    have "distinct (igmp_group_list n)"
      using Cons.prems(2) by (simp add: igmp_inv_def groups_inv_def)
    then have r: "prev @ rest = remove1 g (igmp_group_list n)"
      by (simp add: Cons.prems(3) remove1_append)
    note k = keeps_upperD(6,7) [OF mac_filter_keeps [OF f]]
    have "igmp_inv (free_group E g n1)"
      using k r by (intro igmp_inv_freed [OF Cons.prems(2)]) simp_all
    moreover have "igmp_group_list (free_group E g n1) = prev @ rest"
      using k by (simp add: free_group_def set_ps_def)
    ultimately show ?thesis
      using Cons.IH w by blast
  next
    case False
    then show ?thesis
      using Cons.IH [of "prev @ [g]" n] Cons.prems g by simp
  qed
qed simp

lemma igmp_stop_inv: "igmp_stop E netif n = Some (n', err) \<Longrightarrow> igmp_inv n \<Longrightarrow> igmp_inv n'"
  using igmp_stop_walk_inv [of netif "[]" "igmp_group_list n" n] by (auto simp: igmp_stop_def Option.bind_eq_Some_conv)

text \<open>The part of a join that makes a new group a member.\<close>

lemma igmp_join_member_keeps:
  assumes "igmp_join_member E netif addr g n = Some n'"
    and g: "igmp_groups n g = Some grp" and ok: "group_state grp \<noteq> IGMP_GROUP_NON_MEMBER \<Longrightarrow> group_ok grp"
  shows "\<exists>grp'. keeps_upper (set_group g grp' n) n' \<and> g_netif grp' = g_netif grp \<and> group_address grp' = group_address grp
     \<and> g_use grp' = g_use grp \<and> group_ok grp' \<and> (group_state grp \<noteq> IGMP_GROUP_NON_MEMBER \<longrightarrow> grp' = grp) \<and>
     (group_state grp = IGMP_GROUP_NON_MEMBER \<longrightarrow> group_state grp' = IGMP_GROUP_DELAYING_MEMBER \<and> g_timer grp' \<noteq> 0 \<and> g_timer grp' < 5)"
proof (cases "group_state grp = IGMP_GROUP_NON_MEMBER")
  case False
  then show ?thesis
    using assms set_group_same [OF g] by (intro exI [of _ grp]) (simp add: igmp_join_member_def)
next
  case True
  obtain n1 n2 n3 where steps: "(if g_use grp = 0 then mac_filter E netif addr True n else Some n) = Some n1"
      "igmp_send E g IGMP_V2_MEMB_REPORT n1 = Some n2" "igmp_start_timer E g IGMP_JOIN_DELAYING_MEMBER_TMR n2 = Some n3"
      "(do { grp \<leftarrow> igmp_groups n3 g; Some (set_group g (grp\<lparr>group_state := IGMP_GROUP_DELAYING_MEMBER\<rparr>) n3) }) = Some n'"
    using assms(1) True unfolding igmp_join_member_def g by (auto simp: Option.bind_eq_Some_conv [of "if _ then _ else _"] Option.bind_eq_Some_conv [of "igmp_send _ _ _ _"]
        Option.bind_eq_Some_conv [of "igmp_start_timer _ _ _ _"])
  have k1: "keeps_upper n n1"
    using steps(1) mac_filter_keeps by (simp split: if_splits)
  then have "igmp_groups n1 g = Some grp"
    using keeps_upperD(7) g by metis
  with igmp_send_keeps [OF steps(2)] obtain f where k2: "keeps_upper (set_group g (grp\<lparr>last_reporter_flag := f\<rparr>) n1) n2"
    by blast
  have "igmp_groups n2 g = Some (grp\<lparr>last_reporter_flag := f\<rparr>)"
    using keeps_upperD(7) [OF k2] by simp
  from igmp_start_timer_keeps [OF steps(3) this] obtain t where
    k3: "keeps_upper (set_group g (grp\<lparr>last_reporter_flag := f, g_timer := t\<rparr>) n2) n3" and t: "t \<noteq> 0" "unat t < 5"
    by (auto simp: IGMP_JOIN_DELAYING_MEMBER_TMR_def)
  let ?grp = "grp\<lparr>last_reporter_flag := f, g_timer := t, group_state := IGMP_GROUP_DELAYING_MEMBER\<rparr>"
  have "n' = set_group g ?grp n3"
    using steps(4) keeps_upperD(7) [OF k3] by simp
  moreover have "keeps_upper (set_group g ?grp n) (set_group g ?grp n3)"
    using keeps_upper_trans [OF keeps_upper_trans [OF keeps_set_group [OF k1] keeps_set_group [OF k2, of g ?grp, unfolded set_group_twice]]
        keeps_set_group [OF k3, of g ?grp, unfolded set_group_twice]] .
  moreover have "t < 5"
    using t(2) by (simp add: word_less_nat_alt)
  ultimately show ?thesis
    using t True by (intro exI [of _ ?grp]) (simp add: group_ok_def)
qed

text \<open>One interface: the entry of the map is there, with one more user.\<close>

lemma igmp_join_step:
  assumes inv: "igmp_inv n" and l: "igmp_lookup_group E i addr n = Some (n1, g)" "g \<noteq> NULL"
    and m: "igmp_join_member E i addr g n1 = Some n2" and g2: "igmp_groups n2 g = Some grp2"
  defines "n3 \<equiv> set_group g (grp2\<lparr>g_use := g_use grp2 + 1\<rparr>) n2"
  shows "igmp_inv n3" "netif_list n3 = netif_list n"
    "\<exists>new. membership n3 = (membership n)(i := (membership n i)(addr := new)) \<and> joined (membership n i addr) new"
proof -
  have gi: "groups_inv n"
    using inv by (simp add: igmp_inv_def)
  from igmp_lookup_group_inv [OF l(1) inv] l(2) obtain grp where but: "igmp_inv_but g n1" and g: "igmp_groups n1 g = Some grp"
    and keys: "g_netif grp = i" "group_address grp = addr" and ok: "group_state grp \<noteq> IGMP_GROUP_NON_MEMBER \<Longrightarrow> group_ok grp"
    by blast
  from igmp_join_member_keeps [OF m g ok] obtain grp' where k: "keeps_upper (set_group g grp' n1) n2"
    and same: "g_netif grp' = g_netif grp" "group_address grp' = group_address grp" "g_use grp' = g_use grp" "group_ok grp'"
      "group_state grp \<noteq> IGMP_GROUP_NON_MEMBER \<Longrightarrow> grp' = grp"
    and new: "group_state grp = IGMP_GROUP_NON_MEMBER \<Longrightarrow> group_state grp' = IGMP_GROUP_DELAYING_MEMBER \<and> g_timer grp' \<noteq> 0 \<and> g_timer grp' < 5"
    by blast
  have n2: "igmp_groups n2 = (igmp_groups n1)(g \<mapsto> grp')"
    using keeps_upperD(7) [OF k] by simp
  then have grp2: "grp2 = grp'"
    using g2 by simp
  have "igmp_inv n2"
    by (rule igmp_inv_but_keeps(2) [OF but g k same(1,2,4)])
  then show i3: "igmp_inv n3"
    unfolding n3_def using g2 same(4) grp2 by (intro igmp_inv_set) (simp_all add: group_ok_def)
  then have gi3: "groups_inv n3"
    by (simp add: igmp_inv_def)
  show "netif_list n3 = netif_list n"
    using keeps_upperD(1) [OF k] igmp_lookup_group_netifs [OF l(1)] by (simp add: n3_def)
  let ?new = "grp'\<lparr>g_use := g_use grp' + 1\<rparr>"
  from igmp_lookup_group_result [OF l(1) gi] l(2) consider
      "n1 = n" | "membership n i addr = None" "igmp_groups n g = None" "igmp_groups n1 = (igmp_groups n)(g \<mapsto> grp)" "g_use grp = 0"
      "group_state grp = IGMP_GROUP_NON_MEMBER"
    using g by auto
  then have "membership n3 = (membership n)(i := (membership n i)(addr := Some ?new)) \<and> joined (membership n i addr) (Some ?new)"
  proof cases
    case 1
    then have "grp' = grp"
      using same(5) igmp_inv_ok [OF inv] g by (simp add: group_ok_def)
    moreover have "membership n i addr = Some grp"
      using membership_iff [OF gi] g 1 keys by blast
    moreover have "membership n3 = (membership n)(i := (membership n i)(addr := Some ?new))"
      using 1 g keys same n2 grp2 by (intro membership_upd [OF gi gi3, of g]) (auto simp: n3_def)
    ultimately show ?thesis
      by (simp add: joined_def)
  next
    case 2
    then have "membership n3 = (membership n)(i := (membership n i)(addr := Some ?new))"
      using g keys same n2 grp2 by (intro membership_upd [OF gi gi3, of g]) (auto simp: n3_def)
    then show ?thesis
      using new 2 same(3) by (simp add: joined_def)
  qed
  then show "\<exists>new. membership n3 = (membership n)(i := (membership n i)(addr := new)) \<and> joined (membership n i addr) new"
    by blast
qed

lemma igmp_join_walk_effect:
  assumes "igmp_join_walk E ifaddr addr ifs err n = Some (n', err')" "igmp_inv n" "distinct ifs"
  shows "igmp_inv n'" "netif_list n' = netif_list n" "err' \<noteq> ERR_MEM \<Longrightarrow> (if a = addr \<and> i \<in> set ifs \<and> igmp_applies ifaddr (netif_list n ! i)
     then joined (membership n i a) (membership n' i a) else membership n' i a = membership n i a)"
proof -
  have "igmp_inv n' \<and> netif_list n' = netif_list n \<and> (err' \<noteq> ERR_MEM \<longrightarrow> (if a = addr \<and> i \<in> set ifs \<and> igmp_applies ifaddr (netif_list n ! i)
     then joined (membership n i a) (membership n' i a) else membership n' i a = membership n i a))"
    using assms
  proof (induction ifs arbitrary: err n)
    case (Cons netif ifs)
    show ?case
    proof (cases "igmp_applies ifaddr (netif_list n ! netif)")
      case True
      then obtain n1 g where l: "igmp_lookup_group E netif addr n = Some (n1, g)"
        using Cons.prems(1) by (auto split: bind_splits)
      show ?thesis
      proof (cases "g = NULL")
        case g: True
        then show ?thesis
          using Cons.prems(1) l igmp_lookup_group_inv [OF l Cons.prems(2)] igmp_lookup_group_netifs [OF l] True by simp
      next
        case False
        obtain n2 grp where m: "igmp_join_member E netif addr g n1 = Some n2" "igmp_groups n2 g = Some grp"
          and w: "igmp_join_walk E ifaddr addr ifs ERR_OK (set_group g (grp\<lparr>g_use := g_use grp + 1\<rparr>) n2) = Some (n', err')"
          using Cons.prems(1) l False True by (auto simp: Option.bind_eq_Some_conv [of "igmp_join_member _ _ _ _ _"] Option.bind_eq_Some_conv [of "igmp_groups _ _"])
        note st = igmp_join_step [OF Cons.prems(2) l False m]
        from st(3) obtain new where new: "membership (set_group g (grp\<lparr>g_use := g_use grp + 1\<rparr>) n2) = (membership n)(netif := (membership n netif)(addr := new))"
            "joined (membership n netif addr) new"
          by blast
        note ih = Cons.IH [OF w st(1)]
        show ?thesis
          using ih Cons.prems(3) new True st(2) by (auto split: if_splits)
      qed
    next
      case False
      then show ?thesis
        using Cons by auto
    qed
  qed simp
  then show "igmp_inv n'" "netif_list n' = netif_list n" "err' \<noteq> ERR_MEM \<Longrightarrow> (if a = addr \<and> i \<in> set ifs \<and> igmp_applies ifaddr (netif_list n ! i)
     then joined (membership n i a) (membership n' i a) else membership n' i a = membership n i a)"
    by blast+
qed

lemma igmp_joingroup_inv: "igmp_joingroup E ifaddr addr n = Some (n', err) \<Longrightarrow> igmp_inv n \<Longrightarrow> igmp_inv n'"
  by (auto simp: igmp_joingroup_def split: if_splits dest: igmp_join_walk_effect(1))

lemma igmp_leave_member_result:
  assumes "igmp_leave_member E netif addr g n = Some n'" "igmp_groups n g = Some grp" "igmp_inv n"
  shows "igmp_inv n'" "igmp_groups n' = (igmp_groups n)(g := if g_use grp \<le> 1 then None else Some (grp\<lparr>g_use := g_use grp - 1\<rparr>))"
proof -
  have "igmp_inv n' \<and> igmp_groups n' = (igmp_groups n)(g := if g_use grp \<le> 1 then None else Some (grp\<lparr>g_use := g_use grp - 1\<rparr>))"
  proof (cases "g_use grp \<le> 1")
    case True
    obtain n1 n2 where s: "(if last_reporter_flag grp then igmp_send E g IGMP_LEAVE_GROUP n else Some n) = Some n1"
        "mac_filter E netif addr False n1 = Some n2" and n': "n' = fst (igmp_remove_group E g n2)"
      using assms(1) True unfolding igmp_leave_member_def assms(2)
      by (auto simp: Option.bind_eq_Some_conv [of "if _ then _ else _"] Option.bind_eq_Some_conv [of "mac_filter _ _ _ _ _"])
    have "\<exists>f. keeps_upper (set_group g (grp\<lparr>last_reporter_flag := f\<rparr>) n) n1"
    proof (cases "last_reporter_flag grp")
      case False
      have "grp\<lparr>last_reporter_flag := last_reporter_flag grp\<rparr> = grp"
        by simp
      then have "keeps_upper (set_group g (grp\<lparr>last_reporter_flag := last_reporter_flag grp\<rparr>) n) n1"
        using s(1) False set_group_same [OF assms(2)] by (simp only: if_False option.inject keeps_upper_refl)
      then show ?thesis
        by blast
    qed (use s(1) igmp_send_keeps [OF _ assms(2)] in simp)
    then obtain f where k: "keeps_upper (set_group g (grp\<lparr>last_reporter_flag := f\<rparr>) n) n2"
      using mac_filter_keeps [OF s(2)] keeps_upper_trans by blast
    have "group_ok (grp\<lparr>last_reporter_flag := f\<rparr>)"
      using igmp_inv_ok [OF assms(3,2)] by (simp add: group_ok_def)
    then have i2: "igmp_inv n2"
      using igmp_inv_keeps [OF assms(3,2) k] by simp
    have g2: "igmp_groups n2 = (igmp_groups n)(g \<mapsto> grp\<lparr>last_reporter_flag := f\<rparr>)"
      using keeps_upperD(7) [OF k] by simp
    then have "igmp_groups n2 g = Some (grp\<lparr>last_reporter_flag := f\<rparr>)"
      by simp
    note igmp_remove_group_inv(1,3) [OF i2 this, of E]
    then show ?thesis
      using True n' g2 by simp
  next
    case False
    moreover have "group_ok (grp\<lparr>g_use := g_use grp - 1\<rparr>)"
      using igmp_inv_ok [OF assms(3,2)] by (simp add: group_ok_def)
    ultimately show ?thesis
      using assms(1) igmp_inv_set [OF assms(3,2), of "grp\<lparr>g_use := g_use grp - 1\<rparr>"] by (simp add: igmp_leave_member_def assms(2)) auto
  qed
  then show "igmp_inv n'" "igmp_groups n' = (igmp_groups n)(g := if g_use grp \<le> 1 then None else Some (grp\<lparr>g_use := g_use grp - 1\<rparr>))"
    by simp_all
qed

lemma igmp_leave_step:
  assumes "igmp_leave_member E i addr g n = Some n'" "igmp_groups n g = Some grp" "igmp_inv n" "g_netif grp = i" "group_address grp = addr"
  shows "membership n' = (membership n)(i := (membership n i)(addr := left (membership n i addr)))"
proof -
  note res = igmp_leave_member_result [OF assms(1-3)]
  have gi: "groups_inv n" "groups_inv n'"
    using assms(3) res(1) by (simp_all add: igmp_inv_def)
  have "membership n i addr = Some grp"
    using membership_iff [OF gi(1)] assms(2,4,5) by blast
  then have "left (membership n i addr) = (if g_use grp \<le> 1 then None else Some (grp\<lparr>g_use := g_use grp - 1\<rparr>))"
    by (simp add: left_def)
  then show ?thesis
    using assms(2,4,5) res(2) by (intro membership_upd [OF gi, of g]) (auto split: if_splits)
qed

lemma igmp_leave_member_netifs:
  assumes "igmp_leave_member E i addr g n = Some n'"
  shows "netif_list n' = netif_list n"
proof -
  obtain grp where g: "igmp_groups n g = Some grp"
    using assms by (auto simp: igmp_leave_member_def split: bind_splits)
  have rm: "netif_list (fst (igmp_remove_group E g n1)) = netif_list n1" for n1
    by (simp add: igmp_remove_group_def free_group_def set_ps_def Let_def split: prod.split)
  have snd: "netif_list n1 = netif_list n" if "igmp_send E g IGMP_LEAVE_GROUP n = Some n1" for n1
    using igmp_send_keeps [OF that g] keeps_upperD(1) by fastforce
  show ?thesis
    using assms unfolding igmp_leave_member_def g
    by (auto simp: Option.bind_eq_Some_conv [of "if _ then _ else _"] Option.bind_eq_Some_conv [of "mac_filter _ _ _ _ _"] rm
        split: if_split_asm dest!: snd mac_filter_keeps keeps_upperD(1))
qed

lemma igmp_leave_walk_effect:
  assumes "igmp_leave_walk E ifaddr addr ifs err n = Some (n', err')" "igmp_inv n" "distinct ifs"
  shows "igmp_inv n'" "membership n' i a = (if a = addr \<and> i \<in> set ifs \<and> igmp_applies ifaddr (netif_list n ! i)
     then left (membership n i a) else membership n i a)"
proof -
  have "igmp_inv n' \<and> membership n' i a = (if a = addr \<and> i \<in> set ifs \<and> igmp_applies ifaddr (netif_list n ! i)
     then left (membership n i a) else membership n i a)"
    using assms
  proof (induction ifs arbitrary: err n)
    case (Cons netif ifs)
    have "groups_inv n"
      using Cons.prems(2) by (simp add: igmp_inv_def)
    then show ?case
    proof (cases rule: igmp_lookfor_cases [of n netif addr])
      case (found g grp)
      show ?thesis
      proof (cases "igmp_applies ifaddr (netif_list n ! netif)")
        case True
        then obtain n1 where m: "igmp_leave_member E netif addr g n = Some n1" and w: "igmp_leave_walk E ifaddr addr ifs ERR_OK n1 = Some (n', err')"
          using Cons.prems(1) found(1,2) by (auto simp: Option.bind_eq_Some_conv [of "igmp_leave_member _ _ _ _ _"])
        note ih = Cons.IH [OF w igmp_leave_member_result(1) [OF m found(3) Cons.prems(2)]]
        show ?thesis
          using ih Cons.prems(3) True igmp_leave_step [OF m found(3) Cons.prems(2) found(4,5)] igmp_leave_member_netifs [OF m] by auto
      qed (use Cons in auto)
    next
      case absent
      then have "membership n netif addr = None"
        by (simp add: membership_def)
      then show ?thesis
        using Cons absent(1) by (auto simp: left_def split: if_split_asm)
    qed
  qed simp
  then show "igmp_inv n'" "membership n' i a = (if a = addr \<and> i \<in> set ifs \<and> igmp_applies ifaddr (netif_list n ! i)
     then left (membership n i a) else membership n i a)"
    by blast+
qed

lemma igmp_leavegroup_inv: "igmp_leavegroup E ifaddr addr n = Some (n', err) \<Longrightarrow> igmp_inv n \<Longrightarrow> igmp_inv n'"
  by (auto simp: igmp_leavegroup_def split: if_splits dest: igmp_leave_walk_effect(1))

lemma igmp_query_inv:
  assumes "igmp_query E inp dest igmp g n = Some n'" "igmp_inv n"
  shows "igmp_inv n'"
proof -
  let ?step = "\<lambda>g n. do { grp \<leftarrow> igmp_groups n g; if g_netif grp = inp \<and> group_address grp \<noteq> allsystems
     then igmp_delaying_member E g (dmem (net_ps n) (igmp + gm_maxresp)) n else Some n }"
  have all: "igmp_inv n'" if "each_group ?step xs (set_dmem m n) = Some n'" for xs m
  proof (rule each_group_inv [THEN conjunct1, OF that])
    show "igmp_inv (set_dmem m n)"
      using igmp_cong(2) [OF keeps_upperI(4)] assms(2) by blast
  qed (auto simp: Option.bind_eq_Some_conv split: if_splits dest: igmp_delaying_member_inv)
  have one: "igmp_inv n'" if "(do { g \<leftarrow> (if dest = allsystems then igmp_lookfor_group inp addr n else Some g);
      if g \<noteq> NULL then igmp_delaying_member E g r n else Some n }) = Some n'" for addr r
    using that assms(2) by (auto simp: Option.bind_eq_Some_conv split: if_splits dest: igmp_delaying_member_inv)
  show ?thesis
    using assms(1) assms(2) all one unfolding igmp_query_def Let_def by (simp split: if_split_asm)
qed

lemma igmp_input_inv:
  assumes "igmp_input E p inp dest n = Some n'" "igmp_inv n"
  shows "igmp_inv n'"
proof -
  obtain pb n1 fail pb1 where b: "pbufs (net_ps n) p = Some pb"
      "net_header p (- (IPH_HL (dmem (net_ps n)) (pb_payload pb) * 4)) n = Some (n1, fail)" "pbufs (net_ps n1) p = Some pb1"
    using assms(1) by (auto simp: igmp_input_def Option.bind_eq_Some_conv)
  have i1: "igmp_inv n1"
    using igmp_cong(2) [OF net_header_keeps [OF b(2)]] assms(2) by blast
  have free: "igmp_inv n'" if "net_free E p n2 = Some n'" "igmp_inv n2" for n2
    using igmp_cong(2) [OF net_free_keeps [OF that(1)]] that(2) by blast
  have report: "igmp_inv (set_group g (grp\<lparr>g_timer := 0, group_state := IGMP_GROUP_IDLE_MEMBER, last_reporter_flag := False\<rparr>) n1)"
    if "igmp_groups n1 g = Some grp" for g grp
    using that by (intro igmp_inv_set [OF i1]) (simp_all add: group_ok_def)
  show ?thesis
    using assms(1) unfolding igmp_input_def b Option.bind.bind_lunit prod.case Let_def b(3)
    by (auto simp: Option.bind_eq_Some_conv i1 split: if_split_asm intro: free report igmp_query_inv [OF _ i1])
qed

text \<open>What a join and a leave of an application do to the map.\<close>

lemma igmp_joingroup_effect:
  assumes "igmp_joingroup E ifaddr addr n = Some (n', err)" "igmp_inv n" "err \<noteq> ERR_MEM"
    "ip_addr_ismulticast addr" "addr \<noteq> allsystems"
  shows "if a = addr \<and> i < length (netif_list n) \<and> igmp_applies ifaddr (netif_list n ! i)
     then joined (membership n i a) (membership n' i a) else membership n' i a = membership n i a"
  using igmp_join_walk_effect(3) [of ifaddr addr "[0..<length (netif_list n)]" ERR_VAL n n' err] assms by (simp add: igmp_joingroup_def)

lemma igmp_joingroup_netifs: "igmp_joingroup E ifaddr addr n = Some (n', err) \<Longrightarrow> igmp_inv n \<Longrightarrow> netif_list n' = netif_list n"
  by (auto simp: igmp_joingroup_def split: if_splits dest: igmp_join_walk_effect(2))

lemma igmp_leavegroup_effect:
  assumes "igmp_leavegroup E ifaddr addr n = Some (n', err)" "igmp_inv n" "ip_addr_ismulticast addr" "addr \<noteq> allsystems"
  shows "membership n' i a = (if a = addr \<and> i < length (netif_list n) \<and> igmp_applies ifaddr (netif_list n ! i)
     then left (membership n i a) else membership n i a)"
  using igmp_leave_walk_effect(2) [of ifaddr addr "[0..<length (netif_list n)]" ERR_VAL n n' err] assms by (simp add: igmp_leavegroup_def)

lemmas igmp_ops_inv = igmp_start_inv igmp_stop_inv igmp_report_groups_inv igmp_joingroup_inv igmp_leavegroup_inv igmp_input_inv igmp_tmr_inv

end

lemma left_joined:
  assumes "joined old new" "\<And>grp. old = Some grp \<Longrightarrow> g_use grp \<noteq> 0 \<and> g_use grp \<noteq> 255"
  shows "left new = old"
proof (cases old)
  case None
  then show ?thesis
    using assms(1) by (auto simp: joined_def left_def split: option.splits)
next
  case (Some grp)
  define u where "u = g_use grp"
  have u: "u \<noteq> 0" "u \<noteq> 255"
    using assms(2) Some by (simp_all add: u_def)
  then have "unat u \<noteq> 0" "unat u \<noteq> 255" "unat u < 256"
    using unat_u8_lt [of u] by (simp_all add: word_unat_eq_iff)
  then have "\<not> u + 1 \<le> 1"
    by (simp add: word_le_nat_alt unat_word_ariths)
  then show ?thesis
    using assms(1) Some by (auto simp: joined_def left_def u_def split: option.splits)
qed

text \<open>The states the module can reach: its entry points in any order, and the rest of the stack in between.\<close>

inductive igmp_reach :: "'h net_env \<Rightarrow> 'h net \<Rightarrow> bool" for E where
  init: "igmp_group_list n = [] \<Longrightarrow> igmp_groups n = Map.empty \<Longrightarrow> igmp_reach E n"
| start: "igmp_reach E n \<Longrightarrow> igmp_start E netif n = Some (n', err) \<Longrightarrow> igmp_reach E n'"
| stop: "igmp_reach E n \<Longrightarrow> igmp_stop E netif n = Some (n', err) \<Longrightarrow> igmp_reach E n'"
| report: "igmp_reach E n \<Longrightarrow> igmp_report_groups E netif n = Some n' \<Longrightarrow> igmp_reach E n'"
| join: "igmp_reach E n \<Longrightarrow> igmp_joingroup E ifaddr addr n = Some (n', err) \<Longrightarrow> igmp_reach E n'"
| leave: "igmp_reach E n \<Longrightarrow> igmp_leavegroup E ifaddr addr n = Some (n', err) \<Longrightarrow> igmp_reach E n'"
| input: "igmp_reach E n \<Longrightarrow> igmp_input E p inp dest n = Some n' \<Longrightarrow> igmp_reach E n'"
| tmr: "igmp_reach E n \<Longrightarrow> igmp_tmr E n = Some n' \<Longrightarrow> igmp_reach E n'"
| other: "igmp_reach E n \<Longrightarrow> igmp_group_list n' = igmp_group_list n \<Longrightarrow> igmp_groups n' = igmp_groups n \<Longrightarrow> igmp_reach E n'"

lemma igmp_reach_inv:
  assumes "net_link E" "igmp_reach E n"
  shows "igmp_inv n"
  using assms(2)
proof (induction rule: igmp_reach.induct)
  case (other n n')
  then show ?case
    by (simp add: igmp_inv_def groups_inv_def)
next
  case (init n)
  then show ?case
    by (simp add: igmp_inv_def groups_inv_def group_keys_def)
qed (blast intro: net_link.igmp_ops_inv [OF assms(1)])+

text \<open>A stack whose allocator has room for groups and none for packets.\<close>

definition igmp_demo_env :: "nat net_env" where
  "igmp_demo_env = udp_demo_env\<lparr>ne_alloc := (ne_alloc udp_demo_env)\<lparr>al_malloc := (\<lambda>h k. if k = SIZEOF_IGMP_GROUP then (h + k, h) else (h, NULL))\<rparr>\<rparr>"

lemma igmp_demo_link: "net_link igmp_demo_env"
  by unfold_locales (auto simp: igmp_demo_env_def udp_demo_env_def)

definition igmp_demo :: "nat net" where
  "igmp_demo = udp_demo\<lparr>netif_list := [demo_netif\<lparr>netif_flags := 0xe3\<rparr>]\<rparr>"

definition igmp_demo_group :: igmp_group where
  "igmp_demo_group = \<lparr>g_netif = 0, group_address = IP4_ADDR 224 0 0 251, last_reporter_flag = False,
     group_state = IGMP_GROUP_DELAYING_MEMBER, g_timer = 2, g_use = 1\<rparr>"

lemma igmp_demo_env_sel [simp]:
  "al_malloc (ne_alloc igmp_demo_env) h k = (if k = SIZEOF_IGMP_GROUP then (h + k, h) else (h, NULL))"
  "ne_mac_filter igmp_demo_env i = None" "ne_rand igmp_demo_env n = (n, 5)"
  by (simp_all add: igmp_demo_env_def udp_demo_env_def)

lemma igmp_demo_no_packet: "LWIP_MEM_ALIGN_SIZE (16 + unat (layer_offset PBUF_TRANSPORT)) + LWIP_MEM_ALIGN_SIZE (unat IGMP_MINLEN) \<noteq> 20"
  by code_simp

lemma igmp_demo_addr: "ip_addr_ismulticast (IP4_ADDR 224 0 0 251)" "IP4_ADDR 224 0 0 251 \<noteq> allsystems"
  by (simp_all add: ip_addr_ismulticast_def IP4_ADDR_def allsystems_def) code_simp

lemma igmp_demo_join:
  "\<exists>n. igmp_joingroup igmp_demo_env 0 (IP4_ADDR 224 0 0 251) igmp_demo = Some (n, ERR_OK) \<and>
     igmp_group_list n = [2000] \<and> igmp_groups n = [2000 \<mapsto> igmp_demo_group]"
  by (simp add: igmp_joingroup_def igmp_demo_def udp_demo_def igmp_applies_def Let_def set_ps_def set_group_def igmp_demo_addr igmp_demo_no_packet
    NETIF_FLAG_IGMP_def igmp_lookup_group_def igmp_lookfor_group_def SIZEOF_IGMP_GROUP_def igmp_join_member_def mac_filter_def IPADDR_ANY_def
    igmp_send_def net_alloc_def pbuf_alloc_def igmp_start_timer_def IGMP_JOIN_DELAYING_MEMBER_TMR_def igmp_demo_group_def)

section \<open>Properties\<close>



text \<open>C33. \<^verbatim>\<open>igmp_joingroup\<close>, seen as an operation on the map from interface and address to group: on every interface the
  call applies to, the entry gets one more user, and a new entry becomes a member whose report is delayed by one to four
  ticks; every other entry is as before.\<close>

theorem igmp_join_refines:
  assumes "net_link E" "igmp_inv n" "ip_addr_ismulticast addr" "addr \<noteq> allsystems"
    "igmp_joingroup E ifaddr addr n = Some (n', err)" "err \<noteq> ERR_MEM"
  shows "if a = addr \<and> i < length (netif_list n) \<and> igmp_applies ifaddr (netif_list n ! i)
     then joined (membership n i a) (membership n' i a) else membership n' i a = membership n i a"
  by (rule net_link.igmp_joingroup_effect [OF assms(1,5,2,6,3,4)])

lemma igmp_demo_inv: "igmp_inv igmp_demo"
  by (simp add: igmp_inv_def groups_inv_def group_keys_def igmp_demo_def udp_demo_def)

lemma igmp_demo_applies: "igmp_applies 0 (netif_list igmp_demo ! 0)" "length (netif_list igmp_demo) = 1"
  by (simp_all add: igmp_applies_def igmp_demo_def NETIF_FLAG_IGMP_def IPADDR_ANY_def)

theorem igmp_join_refines_witness:
  "\<exists>n. igmp_joingroup igmp_demo_env 0 (IP4_ADDR 224 0 0 251) igmp_demo = Some (n, ERR_OK) \<and>
     joined (membership igmp_demo 0 (IP4_ADDR 224 0 0 251)) (membership n 0 (IP4_ADDR 224 0 0 251))"
proof -
  obtain n where n: "igmp_joingroup igmp_demo_env 0 (IP4_ADDR 224 0 0 251) igmp_demo = Some (n, ERR_OK)"
    using igmp_demo_join by blast
  from igmp_join_refines [OF igmp_demo_link igmp_demo_inv igmp_demo_addr this, of "IP4_ADDR 224 0 0 251" 0] show ?thesis
    using n igmp_demo_applies by simp
qed

text \<open>C15. Leaving undoes joining: after \<^verbatim>\<open>igmp_joingroup\<close> and \<^verbatim>\<open>igmp_leavegroup\<close> with the same arguments the map from interface
  and address to group is the one before, as long as the 8-bit count of users of the group was neither 0 nor 255.\<close>

theorem igmp_leave_undoes_join:
  assumes "net_link E" "igmp_inv n" "ip_addr_ismulticast addr" "addr \<noteq> allsystems"
    "igmp_joingroup E ifaddr addr n = Some (n1, err)" "err \<noteq> ERR_MEM" "igmp_leavegroup E ifaddr addr n1 = Some (n2, err')"
    "\<forall>i grp. membership n i addr = Some grp \<longrightarrow> g_use grp \<noteq> 0 \<and> g_use grp \<noteq> 255"
  shows "membership n2 = membership n"
proof (intro ext)
  fix i a
  have n1: "igmp_inv n1" "netif_list n1 = netif_list n"
    using net_link.igmp_joingroup_inv [OF assms(1,5,2)] net_link.igmp_joingroup_netifs [OF assms(1,5,2)] by simp_all
  note j = net_link.igmp_joingroup_effect [OF assms(1,5,2,6,3,4), of a i]
  note l = net_link.igmp_leavegroup_effect [OF assms(1,7) n1(1) assms(3,4), of i a]
  show "membership n2 i a = membership n i a"
  proof (cases "a = addr \<and> i < length (netif_list n) \<and> igmp_applies ifaddr (netif_list n ! i)")
    case True
    then show ?thesis
      using left_joined [of "membership n i a" "membership n1 i a"] j l n1(2) assms(8) by simp
  next
    case False
    then show ?thesis
      using j l n1(2) by (simp only: if_False)
  qed
qed

theorem igmp_leave_undoes_join_witness:
  "\<exists>n1 n2. igmp_joingroup igmp_demo_env 0 (IP4_ADDR 224 0 0 251) igmp_demo = Some (n1, ERR_OK) \<and>
     igmp_leavegroup igmp_demo_env 0 (IP4_ADDR 224 0 0 251) n1 = Some (n2, ERR_OK) \<and> membership n2 = membership igmp_demo"
proof -
  obtain n1 where n1: "igmp_joingroup igmp_demo_env 0 (IP4_ADDR 224 0 0 251) igmp_demo = Some (n1, ERR_OK)"
      "igmp_group_list n1 = [2000]" "igmp_groups n1 = [2000 \<mapsto> igmp_demo_group]"
    using igmp_demo_join by blast
  have "netif_list n1 = netif_list igmp_demo"
    using net_link.igmp_joingroup_netifs [OF igmp_demo_link n1(1) igmp_demo_inv] .
  then obtain n2 where n2: "igmp_leavegroup igmp_demo_env 0 (IP4_ADDR 224 0 0 251) n1 = Some (n2, ERR_OK)"
    using n1(2,3) igmp_demo_applies by (simp add: igmp_leavegroup_def igmp_demo_addr igmp_lookfor_group_def igmp_demo_group_def
        igmp_leave_member_def mac_filter_def)
  have "\<forall>i grp. membership igmp_demo i (IP4_ADDR 224 0 0 251) = Some grp \<longrightarrow> g_use grp \<noteq> 0 \<and> g_use grp \<noteq> 255"
    by (simp add: membership_def igmp_lookfor_group_def igmp_demo_def udp_demo_def)
  from igmp_leave_undoes_join [OF igmp_demo_link igmp_demo_inv igmp_demo_addr n1(1) _ n2 this] show ?thesis
    using n1(1) n2 by auto
qed

text \<open>C34. A received membership query with a maximum response time of 0 or 1 (tenths of a second) that is addressed to a
  group which has no report pending makes the code divide by zero: \<^verbatim>\<open>igmp_start_timer\<close> draws a random number
  modulo the time less one.\<close>

theorem igmp_query_faults:
  assumes "pbufs (net_ps n) p = Some pb" "p \<noteq> NULL" "pb_type pb = PBUF_POOL" "p + SIZEOF_STRUCT_PBUF \<le> pb_payload pb" "28 \<le> unat (pb_len pb)"
    and "IPH_HL (dmem (net_ps n)) (pb_payload pb) = 5"
    and "inet_chksum LWIP_CHKSUM (pb_payload pb + 20) (mem_read (dmem (net_ps n)) (pb_payload pb + 20) (unat (pb_len pb) - 20)) = 0"
    and "dmem (net_ps n) (pb_payload pb + 20) = IGMP_MEMB_QUERY" "dmem (net_ps n) (pb_payload pb + 21) \<le> 1"
      "load32 (dmem (net_ps n)) (pb_payload pb + 24) \<noteq> IPADDR_ANY"
    and "dest \<noteq> allsystems" "membership n inp dest = Some grp" "group_state grp \<noteq> IGMP_GROUP_NON_MEMBER"
      "group_state grp = IGMP_GROUP_DELAYING_MEMBER \<Longrightarrow> g_timer grp = 0"
  shows "igmp_input E p inp dest n = None"
proof -
  define pb1 where "pb1 = pb\<lparr>pb_payload := pb_payload pb + 20, pb_len := pb_len pb - 20, pb_tot_len := pb_tot_len pb - 20\<rparr>"
  define n1 where "n1 = set_ps (set_pbuf p pb1 (net_ps n)) n"
  have hide: "net_header p (- 20) n = Some (n1, False)"
    using net_header_hide [of n p pb 20] assms(1-5) by (simp add: n1_def pb1_def)
  have len: "unat (pb_len pb - 20) = unat (pb_len pb) - 20"
    using assms(5) by (simp add: unat_sub word_le_nat_alt)
  have n1: "pbufs (net_ps n1) p = Some pb1" "dmem (net_ps n1) = dmem (net_ps n)" "igmp_groups n1 = igmp_groups n"
    "igmp_lookfor_group inp dest n1 = igmp_lookfor_group inp dest n"
    by (simp_all add: n1_def igmp_lookfor_group_def set_pbuf_def set_ps_def)
  obtain g where g: "igmp_lookfor_group inp dest n = Some g" "g \<noteq> NULL" "igmp_groups n g = Some grp"
    using assms(12) by (auto simp: membership_def split: option.splits if_splits)
  have maxresp: "r = 0 \<or> r = 1" if "r \<le> 1" for r :: u8
    using that by (simp add: word_le_nat_alt word_unat_eq_iff) linarith
  have "igmp_start_timer E g r n2 = None" if "r \<le> 1" for r and n2 :: "'a net"
    using maxresp [OF that] by (auto simp: igmp_start_timer_def Let_def split: prod.splits)
  then have "igmp_delaying_member E g r n1 = None" if "r \<le> 1" for r
    using that g(3) n1(3) assms(13,14) by (cases "group_state grp") (simp_all add: igmp_delaying_member_def)
  then have "igmp_query E inp dest (pb_payload pb1) g n1 = None"
    using assms(9-11) g(2) n1(2) by (simp add: igmp_query_def Let_def gm_group_address_def gm_maxresp_def pb1_def add.commute)
  moreover have "\<not> pb_len pb1 < IGMP_MINLEN"
    using len assms(5) by (simp add: pb1_def word_less_nat_alt IGMP_MINLEN_def)
  ultimately show ?thesis
    using assms(1,6-8) hide n1 g(1,2) len
    by (simp add: igmp_input_def Let_def gm_msgtype_def) (simp add: pb1_def)
qed

text \<open>A query for 224.0.0.251 with maximum response time 1, and the interface a member of that group.\<close>

definition igmp_query_demo :: "nat net" where
  "igmp_query_demo = set_ps ((net_ps udp_demo)\<lparr>
       pbufs := [1000 \<mapsto> \<lparr>pb_next = NULL, pb_payload = 1100, pb_tot_len = 28, pb_len = 28, pb_type = PBUF_POOL, pb_flags = 0, pb_ref = 1\<rparr>],
       dmem := mem_write (\<lambda>_. 0) 1100 ([0x45] @ replicate 19 0 @ [0x11, 1, 0x0e, 0x03, 224, 0, 0, 251])\<rparr>)
     (udp_demo\<lparr>igmp_group_list := [500], igmp_groups := [500 \<mapsto> igmp_demo_group\<lparr>g_timer := 0\<rparr>]\<rparr>)"

theorem igmp_query_faults_witness: "igmp_input udp_demo_env 1000 0 (IP4_ADDR 224 0 0 251) igmp_query_demo = None"
proof -
  define pb where "pb = \<lparr>pb_next = NULL, pb_payload = 1100, pb_tot_len = 28, pb_len = 28, pb_type = PBUF_POOL, pb_flags = 0, pb_ref = 1\<rparr>"
  define m :: bytes where "m = mem_write (\<lambda>_. 0) 1100 ([0x45] @ replicate 19 0 @ [0x11, 1, 0x0e, 0x03, 224, 0, 0, 251])"
  have n: "pbufs (net_ps igmp_query_demo) 1000 = Some pb" "dmem (net_ps igmp_query_demo) = m"
    by (simp_all add: igmp_query_demo_def pb_def m_def del: mem_write.simps)
  have msg: "mem_read m 1120 8 = [0x11, 1, 0x0e, 0x03, 224, 0, 0, 251]"
    by (simp add: m_def mem_read_def upt_rec mem_write_apply nth_append del: mem_write.simps)
  have "inet_chksum LWIP_CHKSUM 1120 (mem_read m 1120 8) = 0"
    unfolding msg by (subst inet_chksum_zero_iff) simp_all
  moreover have "IPH_HL m 1100 = 5" "m 1120 = IGMP_MEMB_QUERY" "m 1121 \<le> 1" "load32 m 1124 \<noteq> IPADDR_ANY"
    by (simp_all add: m_def IPH_HL_def load16_def load32_def ih_offsets mem_write_apply lwip_ntohs_def lwip_htons_def IGMP_MEMB_QUERY_def IPADDR_ANY_def of_le_bytes32_def
        nth_append del: mem_write.simps)
  moreover have "membership igmp_query_demo 0 (IP4_ADDR 224 0 0 251) = Some (igmp_demo_group\<lparr>g_timer := 0\<rparr>)"
    by (simp add: membership_def igmp_lookfor_group_def igmp_query_demo_def igmp_demo_group_def set_ps_def)
  ultimately show ?thesis
    using igmp_query_faults [OF n(1), of "IP4_ADDR 224 0 0 251" 0 "igmp_demo_group\<lparr>g_timer := 0\<rparr>"] igmp_demo_addr(2)
    by (simp add: n pb_def SIZEOF_STRUCT_PBUF_def LWIP_MEM_ALIGN_SIZE_def MEM_ALIGNMENT_def igmp_demo_group_def)
qed


end
