(* ===== verification/Tcp_Out.thy ===== *)
theory Tcp_Out
  imports Net_Link
begin

text \<open>
  TCP output: \<^verbatim>\<open>core/tcp_out.c\<close>, with the two functions of \<^verbatim>\<open>tcp.c\<close> that free segments.  A control block is denoted by its
  address.  In this configuration there are no oversized buffers, so \<^verbatim>\<open>tcp_pbuf_prealloc\<close> is \<^verbatim>\<open>pbuf_alloc\<close>, and no time
  stamps; the checksum of the data is added up when the data is queued (\<^verbatim>\<open>TCP_CHECKSUM_ON_COPY\<close>).
\<close>

definition TF_SEG_OPTS_MSS :: u8 where "TF_SEG_OPTS_MSS = 0x01"
definition TF_SEG_DATA_CHECKSUMMED :: u8 where "TF_SEG_DATA_CHECKSUMMED = 0x04"
definition TCP_SNDQUEUELEN_OVERFLOW :: u16 where "TCP_SNDQUEUELEN_OVERFLOW = 0xffff - 3"
definition TCP_WRITE_FLAG_COPY :: u8 where "TCP_WRITE_FLAG_COPY = 0x01"
definition TCP_WRITE_FLAG_MORE :: u8 where "TCP_WRITE_FLAG_MORE = 0x02"
definition TCP_TTL :: u8 where "TCP_TTL = 255"
definition SIZEOF_TCP_SEG :: nat where "SIZEOF_TCP_SEG = 20"

definition LWIP_TCP_OPT_LENGTH :: "u8 \<Rightarrow> u16" where
  "LWIP_TCP_OPT_LENGTH flags = (if flags AND TF_SEG_OPTS_MSS \<noteq> 0 then 4 else 0)"

abbreviation tpcb :: "'h net \<Rightarrow> addr \<Rightarrow> tcp_pcb option" where
  "tpcb n a \<equiv> tcp_pcbs (net_tcp n) a"

definition set_tpcb :: "addr \<Rightarrow> tcp_pcb \<Rightarrow> 'h net \<Rightarrow> 'h net" where
  "set_tpcb a pcb n = n\<lparr>net_tcp := (net_tcp n)\<lparr>tcp_pcbs := (tcp_pcbs (net_tcp n))(a \<mapsto> pcb)\<rparr>\<rparr>"

definition upd_tpcb :: "addr \<Rightarrow> (tcp_pcb \<Rightarrow> tcp_pcb) \<Rightarrow> 'h net \<Rightarrow> 'h net option" where
  "upd_tpcb a f n = do { pcb \<leftarrow> tpcb n a; Some (set_tpcb a (f pcb) n) }"

abbreviation net_mem :: "'h net \<Rightarrow> bytes" where
  "net_mem n \<equiv> dmem (net_ps n)"

abbreviation set_flag :: "u8 \<Rightarrow> tcp_pcb \<Rightarrow> tcp_pcb" where
  "set_flag f pcb \<equiv> pcb\<lparr>t_flags := t_flags pcb OR f\<rparr>"

abbreviation clear_flag :: "u8 \<Rightarrow> tcp_pcb \<Rightarrow> tcp_pcb" where
  "clear_flag f pcb \<equiv> pcb\<lparr>t_flags := t_flags pcb AND NOT f\<rparr>"

definition tcp_ack :: "tcp_pcb \<Rightarrow> tcp_pcb" where
  "tcp_ack pcb = (if t_flags pcb AND TF_ACK_DELAY \<noteq> 0 then set_flag TF_ACK_NOW (clear_flag TF_ACK_DELAY pcb) else set_flag TF_ACK_DELAY pcb)"

definition tcp_ack_now :: "tcp_pcb \<Rightarrow> tcp_pcb" where
  "tcp_ack_now pcb = set_flag TF_ACK_NOW pcb"

section \<open>Segments\<close>

text \<open>\<^verbatim>\<open>memp_malloc\<close> and \<^verbatim>\<open>memp_free\<close> of a struct of a given size.\<close>

definition net_malloc :: "'h net_env \<Rightarrow> nat \<Rightarrow> 'h net \<Rightarrow> 'h net \<times> addr" where
  "net_malloc E sz n = (let (h, a) = al_malloc (ne_alloc E) (heap (net_ps n)) sz in (set_ps ((net_ps n)\<lparr>heap := h\<rparr>) n, a))"

definition net_mfree :: "'h net_env \<Rightarrow> addr \<Rightarrow> 'h net \<Rightarrow> 'h net" where
  "net_mfree E a n = set_ps ((net_ps n)\<lparr>heap := al_free (ne_alloc E) (heap (net_ps n)) a\<rparr>) n"

definition tcp_seg_free :: "'h net_env \<Rightarrow> tcp_seg \<Rightarrow> 'h net \<Rightarrow> 'h net option" where
  "tcp_seg_free E seg n =
     do { n \<leftarrow> (if sg_p seg \<noteq> NULL then net_free E (sg_p seg) n else Some n); Some (net_mfree E (sg_addr seg) n) }"

fun tcp_segs_free :: "'h net_env \<Rightarrow> tcp_seg list \<Rightarrow> 'h net \<Rightarrow> 'h net option" where
  "tcp_segs_free E [] n = Some n"
| "tcp_segs_free E (seg # rest) n = do { n \<leftarrow> tcp_seg_free E seg n; tcp_segs_free E rest n }"

definition tcp_create_segment :: "'h net_env \<Rightarrow> addr \<Rightarrow> addr \<Rightarrow> u8 \<Rightarrow> u32 \<Rightarrow> u8 \<Rightarrow> 'h net \<Rightarrow> ('h net \<times> tcp_seg option) option" where
  "tcp_create_segment E a p flags seqno optflags n =
     do {
       pcb \<leftarrow> tpcb n a;
       let optlen = LWIP_TCP_OPT_LENGTH optflags;
       let (n, s) = net_malloc E SIZEOF_TCP_SEG n;
       if s = NULL then do { n \<leftarrow> net_free E p n; Some (n, None) }
       else do {
         pb \<leftarrow> pbufs (net_ps n) p;
         let seg = \<lparr>sg_addr = s, sg_p = p, sg_len = pb_tot_len pb - optlen, sg_chksum = 0, sg_chksum_swapped = False,
                    sg_flags = optflags, sg_tcphdr = NULL\<rparr>;
         (n, fail) \<leftarrow> net_header p TCP_HLEN n;
         if fail then do { n \<leftarrow> tcp_seg_free E seg n; Some (n, None) }
         else do {
           pb \<leftarrow> pbufs (net_ps n) p;
           let hdr = pb_payload pb;
           let m = mem_write (net_mem n) (hdr + th_src) (le_bytes16 (lwip_htons (t_local_port pcb)));
           let m = mem_write m (hdr + th_dest) (le_bytes16 (lwip_htons (t_remote_port pcb)));
           let m = mem_write m (hdr + th_seqno) (le_bytes32 (lwip_htonl seqno));
           let m = TCPH_HDRLEN_FLAGS_SET m hdr (5 + optlen div 4) flags;
           let m = mem_write m (hdr + th_urgp) (le_bytes16 0);
           Some (set_dmem m n, Some (seg\<lparr>sg_tcphdr := hdr\<rparr>))
         }
       }
     }"

definition tcp_seg_add_chksum :: "u16 \<Rightarrow> u16 \<Rightarrow> u16 \<times> bool \<Rightarrow> u16 \<times> bool" where
  "tcp_seg_add_chksum chksum len seg =
     (let (seg_chksum, seg_chksum_swapped) = seg;
          helper = ucast chksum + ucast seg_chksum;
          chksum = ucast (FOLD_U32T helper)
      in if len AND 1 \<noteq> 0 then (ucast (SWAP_BYTES_IN_WORD (ucast chksum)), \<not> seg_chksum_swapped)
         else (chksum, seg_chksum_swapped))"

text \<open>A segment put into a queue that is sorted by sequence numbers.\<close>

fun insert_seg :: "bytes \<Rightarrow> tcp_seg \<Rightarrow> tcp_seg list \<Rightarrow> tcp_seg list" where
  "insert_seg m seg [] = [seg]"
| "insert_seg m seg (cur # rest) =
     (if TCP_SEQ_LT (seg_seqno m cur) (seg_seqno m seg) then cur # insert_seg m seg rest else seg # cur # rest)"

section \<open>Control segments\<close>

text \<open>The header of a segment without data, in the order of the code.\<close>

definition tcp_fill_hdr :: "addr \<Rightarrow> u16 \<Rightarrow> u16 \<Rightarrow> u32 \<Rightarrow> u32 \<Rightarrow> u16 \<Rightarrow> u8 \<Rightarrow> u16 \<Rightarrow> bytes \<Rightarrow> bytes" where
  "tcp_fill_hdr hdr src dest seqno_be ackno len flags wnd m =
     (let m = mem_write m (hdr + th_src) (le_bytes16 (lwip_htons src));
          m = mem_write m (hdr + th_dest) (le_bytes16 (lwip_htons dest));
          m = mem_write m (hdr + th_seqno) (le_bytes32 seqno_be);
          m = mem_write m (hdr + th_ackno) (le_bytes32 (lwip_htonl ackno));
          m = TCPH_HDRLEN_FLAGS_SET m hdr len flags;
          m = mem_write m (hdr + th_wnd) (le_bytes16 (lwip_htons wnd));
          m = mem_write m (hdr + th_chksum) (le_bytes16 0)
      in mem_write m (hdr + th_urgp) (le_bytes16 0))"

definition tcp_output_alloc_header :: "'h net_env \<Rightarrow> addr \<Rightarrow> u16 \<Rightarrow> u16 \<Rightarrow> u32 \<Rightarrow> 'h net \<Rightarrow> ('h net \<times> addr) option" where
  "tcp_output_alloc_header E a optlen datalen seqno_be n =
     do {
       (n, p) \<leftarrow> net_alloc E PBUF_IP (TCP_HLEN + optlen + datalen) PBUF_RAM n;
       if p \<noteq> NULL then do {
         pcb \<leftarrow> tpcb n a;
         pb \<leftarrow> pbufs (net_ps n) p;
         let n = set_dmem (tcp_fill_hdr (pb_payload pb) (t_local_port pcb) (t_remote_port pcb) seqno_be (rcv_nxt pcb)
                             (5 + optlen div 4) TCP_ACK (rcv_ann_wnd pcb) (net_mem n)) n;
         Some (set_tpcb a (pcb\<lparr>rcv_ann_right_edge := rcv_nxt pcb + ucast (rcv_ann_wnd pcb)\<rparr>) n, p)
       }
       else Some (n, NULL)
     }"

text \<open>The checksum, the packet to IP, and the buffer freed: the end of every function that sends such a segment.\<close>

definition tcp_send_hdr :: "'h net_env \<Rightarrow> addr \<Rightarrow> ip_addr \<Rightarrow> ip_addr \<Rightarrow> u8 \<Rightarrow> u8 \<Rightarrow> 'h net \<Rightarrow> 'h net option" where
  "tcp_send_hdr E p local remote ttl tos n =
     do {
       pb \<leftarrow> pbufs (net_ps n) p;
       bufs \<leftarrow> chain_bufs (pbufs (net_ps n)) (net_mem n) p;
       let n = set_dmem (mem_write (net_mem n) (pb_payload pb + th_chksum)
                 (le_bytes16 (inet_chksum_pseudo LWIP_CHKSUM bufs local remote IP_PROTO_TCP (pb_tot_len pb)))) n;
       (n, _) \<leftarrow> ip_output E p local remote ttl tos IP_PROTO_TCP n;
       net_free E p n
     }"

definition tcp_send_empty_ack :: "'h net_env \<Rightarrow> addr \<Rightarrow> 'h net \<Rightarrow> ('h net \<times> err_t) option" where
  "tcp_send_empty_ack E a n =
     do {
       pcb \<leftarrow> tpcb n a;
       (n, p) \<leftarrow> tcp_output_alloc_header E a 0 0 (lwip_htonl (snd_nxt pcb)) n;
       if p = NULL then Some (n, ERR_BUF)
       else do {
         n \<leftarrow> upd_tpcb a (clear_flag (TF_ACK_DELAY OR TF_ACK_NOW)) n;
         pcb \<leftarrow> tpcb n a;
         n \<leftarrow> tcp_send_hdr E p (t_local_ip pcb) (t_remote_ip pcb) (t_ttl pcb) (t_tos pcb) n;
         Some (n, ERR_OK)
       }
     }"

definition tcp_rst :: "'h net_env \<Rightarrow> u32 \<Rightarrow> u32 \<Rightarrow> ip_addr \<Rightarrow> ip_addr \<Rightarrow> u16 \<Rightarrow> u16 \<Rightarrow> 'h net \<Rightarrow> 'h net option" where
  "tcp_rst E seqno ackno local_addr remote_addr lport rport n =
     do {
       (n, p) \<leftarrow> net_alloc E PBUF_IP TCP_HLEN PBUF_RAM n;
       if p = NULL then Some n
       else do {
         pb \<leftarrow> pbufs (net_ps n) p;
         let n = set_dmem (tcp_fill_hdr (pb_payload pb) lport rport (lwip_htonl seqno) ackno (TCP_HLEN div 4)
                             (TCP_RST OR TCP_ACK) TCP_WND (net_mem n)) n;
         tcp_send_hdr E p local_addr remote_addr TCP_TTL 0 n
       }
     }"

definition tcp_keepalive :: "'h net_env \<Rightarrow> addr \<Rightarrow> 'h net \<Rightarrow> 'h net option" where
  "tcp_keepalive E a n =
     do {
       pcb \<leftarrow> tpcb n a;
       (n, p) \<leftarrow> tcp_output_alloc_header E a 0 0 (lwip_htonl (snd_nxt pcb - 1)) n;
       if p = NULL then Some n
       else tcp_send_hdr E p (t_local_ip pcb) (t_remote_ip pcb) (t_ttl pcb) 0 n
     }"

definition tcp_zero_window_probe :: "'h net_env \<Rightarrow> addr \<Rightarrow> 'h net \<Rightarrow> 'h net option" where
  "tcp_zero_window_probe E a n =
     do {
       pcb \<leftarrow> tpcb n a;
       case unacked pcb @ unsent pcb of
         [] \<Rightarrow> Some n
       | seg # _ \<Rightarrow> do {
           let is_fin = TCPH_FLAGS (net_mem n) (sg_tcphdr seg) AND TCP_FIN \<noteq> 0 \<and> sg_len seg = 0;
           let len = (if is_fin then 0 else 1);
           (n, p) \<leftarrow> tcp_output_alloc_header E a 0 len (load32 (net_mem n) (sg_tcphdr seg + th_seqno)) n;
           if p = NULL then Some n
           else do {
             pb \<leftarrow> pbufs (net_ps n) p;
             n \<leftarrow> (if is_fin then Some (set_dmem (TCPH_FLAGS_SET (net_mem n) (pb_payload pb) (TCP_ACK OR TCP_FIN)) n)
                   else do {
                     sb \<leftarrow> pbufs (net_ps n) (sg_p seg);
                     (ps, _) \<leftarrow> pbuf_copy_partial (net_ps n) (sg_p seg) (pb_payload pb + unat TCP_HLEN) 1
                                  (TCPH_HDRLEN (net_mem n) (pb_payload sb) * 4);
                     Some (set_ps ps n)
                   });
             tcp_send_hdr E p (t_local_ip pcb) (t_remote_ip pcb) (t_ttl pcb) 0 n
           }
         }
     }"

section \<open>Sending\<close>

text \<open>The checksum of a segment: header and pseudo header now, the data as added up before.\<close>

definition tcp_seg_chksum :: "buf list \<Rightarrow> ip_addr \<Rightarrow> ip_addr \<Rightarrow> u16 \<Rightarrow> u16 \<Rightarrow> u16 \<Rightarrow> u16" where
  "tcp_seg_chksum bufs local remote tot_len hdr_len chksum =
     (let acc = (ucast (inet_chksum_pseudo_partial LWIP_CHKSUM bufs local remote IP_PROTO_TCP tot_len hdr_len) :: u32);
          acc = acc + ucast (NOT chksum)
      in ucast (FOLD_U32T acc))"

text \<open>The segment comes back with its checksum in the byte order it was used in.\<close>

definition tcp_output_segment :: "'h net_env \<Rightarrow> tcp_seg \<Rightarrow> addr \<Rightarrow> 'h net \<Rightarrow> ('h net \<times> tcp_seg) option" where
  "tcp_output_segment E seg a n =
     do {
       pcb \<leftarrow> tpcb n a;
       let hdr = sg_tcphdr seg;
       let m = mem_write (net_mem n) (hdr + th_ackno) (le_bytes32 (lwip_htonl (rcv_nxt pcb)));
       let m = mem_write m (hdr + th_wnd) (le_bytes16 (lwip_htons (rcv_ann_wnd pcb)));
       let m = (if sg_flags seg AND TF_SEG_OPTS_MSS \<noteq> 0 then mem_write m (hdr + unat TCP_HLEN) TCP_BUILD_MSS_OPTION else m);
       let pcb = pcb\<lparr>rcv_ann_right_edge := rcv_nxt pcb + ucast (rcv_ann_wnd pcb), rtime := (if rtime pcb = - 1 then 0 else rtime pcb)\<rparr>;
       let n = set_tpcb a pcb (set_dmem m n);
       let route = ip_route (t_remote_ip pcb) n;
       if t_local_ip pcb = IPADDR_ANY \<and> route = None then Some (n, seg)
       else do {
         let pcb = (case route of
                      Some i \<Rightarrow> if t_local_ip pcb = IPADDR_ANY then pcb\<lparr>t_local_ip := netif_ip_addr (netif_list n ! i)\<rparr> else pcb
                    | None \<Rightarrow> pcb);
         let pcb = (if rttest pcb = 0 then pcb\<lparr>rttest := tcp_ticks (net_tcp n), rtseq := seg_seqno m seg\<rparr> else pcb);
         let n = set_tpcb a pcb n;
         pb \<leftarrow> pbufs (net_ps n) (sg_p seg);
         let len = (of_int (int hdr - int (pb_payload pb)) :: u16);
         let pb = pb\<lparr>pb_len := pb_len pb - len, pb_tot_len := pb_tot_len pb - len, pb_payload := hdr\<rparr>;
         let n = set_dmem (mem_write m (hdr + th_chksum) (le_bytes16 0)) (set_ps (set_pbuf (sg_p seg) pb (net_ps n)) n);
         bufs \<leftarrow> chain_bufs (pbufs (net_ps n)) (net_mem n) (sg_p seg);
         let chksum = (if sg_chksum_swapped seg then ucast (SWAP_BYTES_IN_WORD (ucast (sg_chksum seg))) else sg_chksum seg);
         let n = set_dmem (mem_write (net_mem n) (hdr + th_chksum)
                   (le_bytes16 (tcp_seg_chksum bufs (t_local_ip pcb) (t_remote_ip pcb) (pb_tot_len pb) (TCPH_HDRLEN (net_mem n) hdr * 4) chksum))) n;
         (n, _) \<leftarrow> ip_output E (sg_p seg) (t_local_ip pcb) (t_remote_ip pcb) (t_ttl pcb) (t_tos pcb) IP_PROTO_TCP n;
         Some (n, seg\<lparr>sg_chksum := chksum, sg_chksum_swapped := False\<rparr>)
       }
     }"

definition tcp_do_output_nagle :: "tcp_pcb \<Rightarrow> bool" where
  "tcp_do_output_nagle pcb \<longleftrightarrow> unacked pcb = [] \<or> t_flags pcb AND (TF_NODELAY OR TF_INFR) \<noteq> 0
     \<or> (case unsent pcb of [] \<Rightarrow> False | seg # rest \<Rightarrow> rest \<noteq> [] \<or> sg_len seg \<ge> t_mss pcb)"

text \<open>The end of the segment, relative to the last acknowledged octet.\<close>

definition seg_reach :: "bytes \<Rightarrow> tcp_pcb \<Rightarrow> tcp_seg \<Rightarrow> u32" where
  "seg_reach m pcb seg = seg_seqno m seg - lastack pcb + ucast (sg_len seg)"

text \<open>A segment that has been sent is put on the queue of unacknowledged segments, which is kept sorted.\<close>

definition queue_unacked :: "bytes \<Rightarrow> tcp_seg \<Rightarrow> tcp_seg list \<Rightarrow> tcp_seg list" where
  "queue_unacked m seg l =
     (if l \<noteq> [] \<and> TCP_SEQ_LT (seg_seqno m seg) (seg_seqno m (last l)) then insert_seg m seg l else l @ [seg])"

text \<open>One turn of the loop of \<^verbatim>\<open>tcp_output\<close>.\<close>

definition tcp_output_step :: "'h net_env \<Rightarrow> addr \<Rightarrow> tcp_seg \<Rightarrow> tcp_seg list \<Rightarrow> 'h net \<Rightarrow> 'h net option" where
  "tcp_output_step E a seg rest n =
     do {
       pcb \<leftarrow> tpcb n a;
       let pcb = pcb\<lparr>unsent := rest\<rparr>;
       let n = (if t_state pcb \<noteq> SYN_SENT
                then set_tpcb a (clear_flag (TF_ACK_DELAY OR TF_ACK_NOW) pcb) (set_dmem (TCPH_SET_FLAG (net_mem n) (sg_tcphdr seg) TCP_ACK) n)
                else set_tpcb a pcb n);
       (n, seg) \<leftarrow> tcp_output_segment E seg a n;
       pcb \<leftarrow> tpcb n a;
       let m = net_mem n;
       let nxt = seg_seqno m seg + TCP_TCPLEN m seg;
       let pcb = (if TCP_SEQ_LT (snd_nxt pcb) nxt then pcb\<lparr>snd_nxt := nxt\<rparr> else pcb);
       if TCP_TCPLEN m seg > 0 then Some (set_tpcb a (pcb\<lparr>unacked := queue_unacked m seg (unacked pcb)\<rparr>) n)
       else tcp_seg_free E seg (set_tpcb a pcb n)
     }"

partial_function (option) tcp_output_loop :: "'h net_env \<Rightarrow> addr \<Rightarrow> u32 \<Rightarrow> 'h net \<Rightarrow> 'h net option" where
  "tcp_output_loop E a wnd n =
     do {
       pcb \<leftarrow> tpcb n a;
       case unsent pcb of
         [] \<Rightarrow> Some n
       | seg # rest \<Rightarrow>
           if seg_reach (net_mem n) pcb seg \<le> wnd \<and> (tcp_do_output_nagle pcb \<or> t_flags pcb AND (TF_NAGLEMEMERR OR TF_FIN) \<noteq> 0)
           then do { n \<leftarrow> tcp_output_step E a seg rest n; tcp_output_loop E a wnd n }
           else Some n
     }"

definition tcp_output :: "'h net_env \<Rightarrow> addr \<Rightarrow> 'h net \<Rightarrow> ('h net \<times> err_t) option" where
  "tcp_output E a n =
     (if tcp_input_pcb (net_tcp n) = a then Some (n, ERR_OK)
      else do {
        pcb \<leftarrow> tpcb n a;
        let wnd = ucast (min (snd_wnd pcb) (cwnd pcb));
        if t_flags pcb AND TF_ACK_NOW \<noteq> 0 \<and> (case unsent pcb of [] \<Rightarrow> True | seg # _ \<Rightarrow> seg_reach (net_mem n) pcb seg > wnd)
        then tcp_send_empty_ack E a n
        else do {
          n \<leftarrow> tcp_output_loop E a wnd n;
          pcb \<leftarrow> tpcb n a;
          let pcb = (case unsent pcb of
                       [] \<Rightarrow> pcb
                     | seg # _ \<Rightarrow> if persist_backoff pcb = 0 \<and> seg_reach (net_mem n) pcb seg > ucast (snd_wnd pcb)
                                  then pcb\<lparr>persist_cnt := 0, persist_backoff := 1\<rparr> else pcb);
          Some (set_tpcb a (clear_flag TF_NAGLEMEMERR pcb) n, ERR_OK)
        }
      })"

section \<open>Queueing\<close>

definition queue_full :: "tcp_pcb \<Rightarrow> bool" where
  "queue_full pcb \<longleftrightarrow> snd_queuelen pcb \<ge> TCP_SND_QUEUELEN \<or> snd_queuelen pcb > TCP_SNDQUEUELEN_OVERFLOW"

definition tcp_enqueue_flags :: "'h net_env \<Rightarrow> addr \<Rightarrow> u8 \<Rightarrow> 'h net \<Rightarrow> ('h net \<times> err_t) option" where
  "tcp_enqueue_flags E a flags n =
     do {
       pcb \<leftarrow> tpcb n a;
       if queue_full pcb then Some (set_tpcb a (set_flag TF_NAGLEMEMERR pcb) n, ERR_MEM)
       else do {
         let optflags = (if flags AND TCP_SYN \<noteq> 0 then TF_SEG_OPTS_MSS else 0);
         if snd_buf pcb = 0 then Some (n, ERR_MEM)
         else do {
           (n, p) \<leftarrow> net_alloc E PBUF_TRANSPORT (LWIP_TCP_OPT_LENGTH optflags) PBUF_RAM n;
           if p = NULL then Some (set_tpcb a (set_flag TF_NAGLEMEMERR pcb) n, ERR_MEM)
           else do {
             (n, s) \<leftarrow> tcp_create_segment E a p flags (snd_lbb pcb) optflags n;
             case s of
               None \<Rightarrow> Some (set_tpcb a (set_flag TF_NAGLEMEMERR pcb) n, ERR_MEM)
             | Some seg \<Rightarrow> do {
                 let pcb = pcb\<lparr>unsent := unsent pcb @ [seg]\<rparr>;
                 let pcb = (if flags AND TCP_SYN \<noteq> 0 \<or> flags AND TCP_FIN \<noteq> 0
                            then pcb\<lparr>snd_lbb := snd_lbb pcb + 1, snd_buf := snd_buf pcb - 1\<rparr> else pcb);
                 let pcb = (if flags AND TCP_FIN \<noteq> 0 then set_flag TF_FIN pcb else pcb);
                 k \<leftarrow> pbuf_clen (net_ps n) (sg_p seg);
                 Some (set_tpcb a (pcb\<lparr>snd_queuelen := snd_queuelen pcb + ucast k\<rparr>) n, ERR_OK)
               }
           }
         }
       }
     }"

definition tcp_send_fin :: "'h net_env \<Rightarrow> addr \<Rightarrow> 'h net \<Rightarrow> ('h net \<times> err_t) option" where
  "tcp_send_fin E a n =
     do {
       pcb \<leftarrow> tpcb n a;
       if unsent pcb \<noteq> [] \<and> TCPH_FLAGS (net_mem n) (sg_tcphdr (last (unsent pcb))) AND (TCP_SYN OR TCP_FIN OR TCP_RST) = 0
       then Some (set_dmem (TCPH_SET_FLAG (net_mem n) (sg_tcphdr (last (unsent pcb))) TCP_FIN) n, ERR_OK)
       else tcp_enqueue_flags E a TCP_FIN n
     }"

section \<open>Retransmission\<close>

definition tcp_rexmit_rto :: "'h net_env \<Rightarrow> addr \<Rightarrow> 'h net \<Rightarrow> 'h net option" where
  "tcp_rexmit_rto E a n =
     do {
       pcb \<leftarrow> tpcb n a;
       if unacked pcb = [] then Some n
       else do {
         (n, _) \<leftarrow> tcp_output E a (set_tpcb a (pcb\<lparr>unsent := unacked pcb @ unsent pcb, unacked := [], nrtx := nrtx pcb + 1, rttest := 0\<rparr>) n);
         Some n
       }
     }"

definition tcp_rexmit :: "bytes \<Rightarrow> tcp_pcb \<Rightarrow> tcp_pcb" where
  "tcp_rexmit m pcb =
     (case unacked pcb of
        [] \<Rightarrow> pcb
      | seg # rest \<Rightarrow> pcb\<lparr>unacked := rest, unsent := insert_seg m seg (unsent pcb), nrtx := nrtx pcb + 1, rttest := 0\<rparr>)"

definition tcp_rexmit_fast :: "bytes \<Rightarrow> tcp_pcb \<Rightarrow> tcp_pcb" where
  "tcp_rexmit_fast m pcb =
     (if unacked pcb \<noteq> [] \<and> t_flags pcb AND TF_INFR = 0 then
        let pcb = tcp_rexmit m pcb;
            half = (if cwnd pcb > snd_wnd pcb then snd_wnd pcb div 2 else cwnd pcb div 2);
            thresh = (if unat half < 2 * unat (t_mss pcb) then 2 * t_mss pcb else half)
        in set_flag TF_INFR (pcb\<lparr>ssthresh := thresh, cwnd := thresh + 3 * t_mss pcb\<rparr>)
      else pcb)"


section \<open>Writing data\<close>

definition tcp_write_checks :: "tcp_pcb \<Rightarrow> u16 \<Rightarrow> tcp_pcb \<times> err_t" where
  "tcp_write_checks pcb len =
     (if t_state pcb \<noteq> ESTABLISHED \<and> t_state pcb \<noteq> CLOSE_WAIT \<and> t_state pcb \<noteq> SYN_SENT \<and> t_state pcb \<noteq> SYN_RCVD then (pcb, ERR_CONN)
      else if len = 0 then (pcb, ERR_OK)
      else if len > snd_buf pcb then (set_flag TF_NAGLEMEMERR pcb, ERR_MEM)
      else if queue_full pcb then (set_flag TF_NAGLEMEMERR pcb, ERR_MEM)
      else (pcb, ERR_OK))"

text \<open>\<^verbatim>\<open>TCP_DATA_COPY2\<close>: \<^verbatim>\<open>LWIP_CHKSUM_COPY\<close> copies and sums up the copy, the sum is added to the one of the segment.\<close>

definition TCP_DATA_COPY2 :: "addr \<Rightarrow> addr \<Rightarrow> u16 \<Rightarrow> bytes \<Rightarrow> bytes \<times> u16 \<times> bool" where
  "TCP_DATA_COPY2 dst src len m =
     (let (m, chksum) = lwip_chksum_copy LWIP_CHKSUM m dst src len in (m, tcp_seg_add_chksum chksum len (0, False)))"

text \<open>Phase 2: a buffer with the data that still fits into the last unsent segment, its address and its checksum.  The
  result None is the memory error.\<close>

definition tcp_write_concat :: "'h net_env \<Rightarrow> addr \<Rightarrow> u16 \<Rightarrow> u8 \<Rightarrow> 'h net \<Rightarrow> ('h net \<times> (addr \<times> u16 \<times> bool) option) option" where
  "tcp_write_concat E arg seglen apiflags n =
     (if apiflags AND TCP_WRITE_FLAG_COPY \<noteq> 0 then do {
        (n, p) \<leftarrow> net_alloc E PBUF_RAW seglen PBUF_RAM n;
        if p = NULL then Some (n, None)
        else do {
          pb \<leftarrow> pbufs (net_ps n) p;
          let (m, ck) = TCP_DATA_COPY2 (pb_payload pb) arg seglen (net_mem n);
          Some (set_dmem m n, Some (p, ck))
        }
      }
      else do {
        (n, p) \<leftarrow> net_alloc E PBUF_RAW seglen PBUF_ROM n;
        if p = NULL then Some (n, None)
        else do {
          pb \<leftarrow> pbufs (net_ps n) p;
          let ck = tcp_seg_add_chksum (NOT (inet_chksum LWIP_CHKSUM arg (mem_read (net_mem n) arg (unat seglen)))) seglen (0, False);
          Some (set_ps (set_pbuf p (pb\<lparr>pb_payload := arg\<rparr>) (net_ps n)) n, Some (p, ck))
        }
      })"

text \<open>The buffer of a new segment, with the header still to come.\<close>

definition tcp_write_buf :: "'h net_env \<Rightarrow> addr \<Rightarrow> u16 \<Rightarrow> u8 \<Rightarrow> 'h net \<Rightarrow> ('h net \<times> (addr \<times> u16 \<times> bool) option) option" where
  "tcp_write_buf E arg seglen apiflags n =
     (if apiflags AND TCP_WRITE_FLAG_COPY \<noteq> 0 then do {
        (n, p) \<leftarrow> net_alloc E PBUF_TRANSPORT seglen PBUF_RAM n;
        if p = NULL then Some (n, None)
        else do {
          pb \<leftarrow> pbufs (net_ps n) p;
          let (m, ck) = TCP_DATA_COPY2 (pb_payload pb) arg seglen (net_mem n);
          Some (set_dmem m n, Some (p, ck))
        }
      }
      else do {
        (n, p2) \<leftarrow> net_alloc E PBUF_TRANSPORT seglen PBUF_ROM n;
        if p2 = NULL then Some (n, None)
        else do {
          pb \<leftarrow> pbufs (net_ps n) p2;
          let ck = (NOT (inet_chksum LWIP_CHKSUM arg (mem_read (net_mem n) arg (unat seglen))), False);
          let n = set_ps (set_pbuf p2 (pb\<lparr>pb_payload := arg\<rparr>) (net_ps n)) n;
          (n, p) \<leftarrow> net_alloc E PBUF_TRANSPORT 0 PBUF_RAM n;
          if p = NULL then do { n \<leftarrow> net_free E p2 n; Some (n, None) }
          else do { ps \<leftarrow> pbuf_cat (net_ps n) p p2; Some (set_ps ps n, Some (p, ck)) }
        }
      })"

text \<open>One turn of the loop that makes new segments: the segment and the new length of the queue.\<close>

definition tcp_write_seg :: "'h net_env \<Rightarrow> addr \<Rightarrow> addr \<Rightarrow> u16 \<Rightarrow> u16 \<Rightarrow> u8 \<Rightarrow> u16 \<Rightarrow> 'h net \<Rightarrow> ('h net \<times> (tcp_seg \<times> u16) option) option" where
  "tcp_write_seg E a arg pos seglen apiflags queuelen n =
     do {
       pcb \<leftarrow> tpcb n a;
       (n, b) \<leftarrow> tcp_write_buf E (arg + unat pos) seglen apiflags n;
       case b of
         None \<Rightarrow> Some (n, None)
       | Some (p, chksum, chksum_swapped) \<Rightarrow> do {
           k \<leftarrow> pbuf_clen (net_ps n) p;
           let queuelen = queuelen + ucast k;
           if queuelen > TCP_SND_QUEUELEN \<or> queuelen > TCP_SNDQUEUELEN_OVERFLOW then do { n \<leftarrow> net_free E p n; Some (n, None) }
           else do {
             (n, s) \<leftarrow> tcp_create_segment E a p 0 (snd_lbb pcb + ucast pos) 0 n;
             case s of
               None \<Rightarrow> Some (n, None)
             | Some seg \<Rightarrow>
                 Some (n, Some (seg\<lparr>sg_chksum := chksum, sg_chksum_swapped := chksum_swapped, sg_flags := sg_flags seg OR TF_SEG_DATA_CHECKSUMMED\<rparr>,
                                queuelen))
           }
         }
     }"

text \<open>Phase 3: the segments made so far, and the length of the queue unless memory ran out.\<close>

partial_function (option) tcp_write_loop :: "'h net_env \<Rightarrow> addr \<Rightarrow> addr \<Rightarrow> u16 \<Rightarrow> u8 \<Rightarrow> u16 \<Rightarrow> u16 \<Rightarrow> tcp_seg list \<Rightarrow> 'h net \<Rightarrow>
    ('h net \<times> tcp_seg list \<times> u16 option) option" where
  "tcp_write_loop E a arg len apiflags pos queuelen queue n =
     (if pos < len then do {
        pcb \<leftarrow> tpcb n a;
        let seglen = min (len - pos) (t_mss pcb);
        (n, s) \<leftarrow> tcp_write_seg E a arg pos seglen apiflags queuelen n;
        case s of
          None \<Rightarrow> Some (n, queue, None)
        | Some (seg, queuelen) \<Rightarrow> tcp_write_loop E a arg len apiflags (pos + seglen) queuelen (queue @ [seg]) n
      }
      else Some (n, queue, Some queuelen))"

text \<open>The label \<^verbatim>\<open>memerr\<close>, and the commit: the buffer of phase 2 goes into the last unsent segment.\<close>

definition tcp_write_memerr :: "'h net_env \<Rightarrow> addr \<Rightarrow> addr \<Rightarrow> tcp_seg list \<Rightarrow> 'h net \<Rightarrow> ('h net \<times> err_t) option" where
  "tcp_write_memerr E a concat_p queue n =
     do {
       n \<leftarrow> upd_tpcb a (set_flag TF_NAGLEMEMERR) n;
       n \<leftarrow> (if concat_p \<noteq> NULL then net_free E concat_p n else Some n);
       n \<leftarrow> tcp_segs_free E queue n;
       Some (n, ERR_MEM)
     }"

definition tcp_concat_seg :: "addr \<Rightarrow> u16 \<times> bool \<Rightarrow> tcp_seg \<Rightarrow> 'h net \<Rightarrow> ('h net \<times> tcp_seg) option" where
  "tcp_concat_seg concat_p ck seg n =
     do {
       ps \<leftarrow> pbuf_cat (net_ps n) (sg_p seg) concat_p;
       pb \<leftarrow> pbufs ps concat_p;
       let chksum = (if snd ck then ucast (SWAP_BYTES_IN_WORD (ucast (fst ck))) else fst ck);
       let (c, sw) = tcp_seg_add_chksum chksum (pb_tot_len pb) (sg_chksum seg, sg_chksum_swapped seg);
       Some (set_ps ps n, seg\<lparr>sg_len := sg_len seg + pb_tot_len pb, sg_chksum := c, sg_chksum_swapped := sw,
                              sg_flags := sg_flags seg OR TF_SEG_DATA_CHECKSUMMED\<rparr>)
     }"

definition tcp_write :: "'h net_env \<Rightarrow> addr \<Rightarrow> addr \<Rightarrow> u16 \<Rightarrow> u8 \<Rightarrow> 'h net \<Rightarrow> ('h net \<times> err_t) option" where
  "tcp_write E a arg len apiflags n =
     (if arg = NULL then Some (n, ERR_ARG)
      else do {
        pcb \<leftarrow> tpcb n a;
        let (pcb, err) = tcp_write_checks pcb len;
        if err \<noteq> ERR_OK then Some (set_tpcb a pcb n, err)
        else do {
          let last_unsent = (if unsent pcb = [] then None else Some (last (unsent pcb)));
          let space = (case last_unsent of Some u \<Rightarrow> t_mss pcb - (sg_len u + LWIP_TCP_OPT_LENGTH (sg_flags u)) | None \<Rightarrow> 0);
          let cat = (case last_unsent of Some u \<Rightarrow> len > 0 \<and> space > 0 \<and> sg_len u > 0 | None \<Rightarrow> False);
          let seglen = min space len;
          (n, c) \<leftarrow> (if cat then tcp_write_concat E arg seglen apiflags n else Some (n, Some (NULL, 0, False)));
          case c of
            None \<Rightarrow> tcp_write_memerr E a NULL [] n
          | Some (concat_p, ck) \<Rightarrow> do {
              k \<leftarrow> (if cat then pbuf_clen (net_ps n) concat_p else Some 0);
              (n, queue, r) \<leftarrow> tcp_write_loop E a arg len apiflags (if cat then seglen else 0) (snd_queuelen pcb + ucast k) [] n;
              case r of
                None \<Rightarrow> tcp_write_memerr E a concat_p queue n
              | Some queuelen \<Rightarrow> do {
                  (n, front) \<leftarrow> (if cat then do { (n, u) \<leftarrow> tcp_concat_seg concat_p ck (last (unsent pcb)) n; Some (n, butlast (unsent pcb) @ [u]) }
                                 else Some (n, unsent pcb));
                  let pcb = pcb\<lparr>unsent := front @ queue, snd_lbb := snd_lbb pcb + ucast len, snd_buf := snd_buf pcb - len, snd_queuelen := queuelen\<rparr>;
                  let n = set_tpcb a pcb n;
                  let tampered = (cat \<or> queue \<noteq> []) \<and> sg_tcphdr (last (front @ queue)) \<noteq> NULL \<and> apiflags AND TCP_WRITE_FLAG_MORE = 0;
                  Some (if tampered then set_dmem (TCPH_SET_FLAG (net_mem n) (sg_tcphdr (last (front @ queue))) TCP_PSH) n else n, ERR_OK)
                }
            }
        }
      })"


end
