(* ===== verification/Tcp.thy ===== *)
theory Tcp
  imports Tcp_Out
begin

text \<open>
  The functions of \<^verbatim>\<open>core/tcp.c\<close>: opening and closing connections, the lists of control blocks, ports and initial sequence
  numbers, and the timers.  A freed control block is no longer in the map of blocks, so an access through a dangling pointer is
  \<open>None\<close>; so is the registration of a block that already is on a list, which would close the list to a cycle or share a tail.
  The macros \<^verbatim>\<open>TCP_REG\<close> and \<^verbatim>\<open>TCP_RMV\<close> are modelled without \<^verbatim>\<open>tcp_timer_needed\<close>.
\<close>

definition SOF_ACCEPTCONN :: u8 where "SOF_ACCEPTCONN = 0x02"
definition SOF_KEEPALIVE :: u8 where "SOF_KEEPALIVE = 0x08"
definition SIZEOF_TCP_PCB :: nat where "SIZEOF_TCP_PCB = 160"
definition SIZEOF_TCP_PCB_LISTEN :: nat where "SIZEOF_TCP_PCB_LISTEN = 32"
definition TCP_PRIO_NORMAL :: u8 where "TCP_PRIO_NORMAL = 64"
definition TCP_PRIO_MAX :: u8 where "TCP_PRIO_MAX = 127"
definition TCP_MAXRTX :: u8 where "TCP_MAXRTX = 12"
definition TCP_SYNMAXRTX :: u8 where "TCP_SYNMAXRTX = 6"
definition TCP_SLOW_INTERVAL :: u32 where "TCP_SLOW_INTERVAL = 500"
definition TCP_FIN_WAIT_TIMEOUT :: u32 where "TCP_FIN_WAIT_TIMEOUT = 20000"
definition TCP_SYN_RCVD_TIMEOUT :: u32 where "TCP_SYN_RCVD_TIMEOUT = 20000"
definition TCP_MSL :: u32 where "TCP_MSL = 60000"
definition TCP_KEEPIDLE_DEFAULT :: u32 where "TCP_KEEPIDLE_DEFAULT = 7200000"
definition TCP_KEEPINTVL_DEFAULT :: u32 where "TCP_KEEPINTVL_DEFAULT = 75000"
definition TCP_MAXIDLE :: u32 where "TCP_MAXIDLE = 9 * TCP_KEEPINTVL_DEFAULT"
definition TCP_WND_UPDATE_THRESHOLD :: u16 where "TCP_WND_UPDATE_THRESHOLD = TCP_WND div 4"
definition TCP_LOCAL_PORT_RANGE_START :: u16 where "TCP_LOCAL_PORT_RANGE_START = 0xc000"
definition TCP_LOCAL_PORT_RANGE_END :: u16 where "TCP_LOCAL_PORT_RANGE_END = 0xffff"

definition tcp_backoff :: "nat list" where "tcp_backoff = [1, 2, 3, 4, 5, 6, 7, 7, 7, 7, 7, 7, 7]"
definition tcp_persist_backoff :: "u32 list" where "tcp_persist_backoff = [3, 6, 12, 24, 48, 96, 120]"

section \<open>The lists of control blocks\<close>

datatype pcb_list = Listen_pcbs | Bound_pcbs | Active_pcbs | Tw_pcbs

fun pcbs_of :: "tcp \<Rightarrow> pcb_list \<Rightarrow> addr list" where
  "pcbs_of t Listen_pcbs = tcp_listen_pcbs t"
| "pcbs_of t Bound_pcbs = tcp_bound_pcbs t"
| "pcbs_of t Active_pcbs = tcp_active_pcbs t"
| "pcbs_of t Tw_pcbs = tcp_tw_pcbs t"

definition map_pcbs :: "(pcb_list \<Rightarrow> addr list \<Rightarrow> addr list) \<Rightarrow> tcp \<Rightarrow> tcp" where
  "map_pcbs f t = t\<lparr>tcp_listen_pcbs := f Listen_pcbs (tcp_listen_pcbs t), tcp_bound_pcbs := f Bound_pcbs (tcp_bound_pcbs t),
     tcp_active_pcbs := f Active_pcbs (tcp_active_pcbs t), tcp_tw_pcbs := f Tw_pcbs (tcp_tw_pcbs t)\<rparr>"

lemma pcbs_of_map_pcbs [simp]: "pcbs_of (map_pcbs f t) l = f l (pcbs_of t l)"
  by (cases l) (simp_all add: map_pcbs_def)

lemma map_pcbs_simps [simp]:
  "tcp_pcbs (map_pcbs f t) = tcp_pcbs t" "tcp_lpcbs (map_pcbs f t) = tcp_lpcbs t"
  by (simp_all add: map_pcbs_def)

text \<open>The array \<^verbatim>\<open>tcp_pcb_lists\<close>.\<close>

definition tcp_pcb_lists :: "tcp \<Rightarrow> addr list list" where
  "tcp_pcb_lists t = [tcp_listen_pcbs t, tcp_bound_pcbs t, tcp_active_pcbs t, tcp_tw_pcbs t]"

definition on_list :: "addr \<Rightarrow> tcp \<Rightarrow> bool" where
  "on_list a t \<longleftrightarrow> list_ex (\<lambda>l. a \<in> set l) (tcp_pcb_lists t)"

definition TCP_REG :: "pcb_list \<Rightarrow> addr \<Rightarrow> 'h net \<Rightarrow> 'h net option" where
  "TCP_REG l a n =
     (if on_list a (net_tcp n) then None
      else Some (n\<lparr>net_tcp := map_pcbs (\<lambda>k xs. if k = l then a # xs else xs) (net_tcp n)\<rparr>))"

text \<open>A list ends where \<^verbatim>\<open>next\<close> is set to NULL: that happens to another list if the block is on that one.\<close>

definition cut_after :: "addr \<Rightarrow> addr list \<Rightarrow> addr list" where
  "cut_after a xs = (if a \<in> set xs then takeWhile (\<lambda>b. b \<noteq> a) xs @ [a] else xs)"

definition TCP_RMV :: "pcb_list \<Rightarrow> addr \<Rightarrow> 'h net \<Rightarrow> 'h net" where
  "TCP_RMV l a n = n\<lparr>net_tcp := map_pcbs (\<lambda>k xs. if k = l then remove1 a xs else cut_after a xs) (net_tcp n)\<rparr>"

definition free_tpcb :: "'h net_env \<Rightarrow> addr \<Rightarrow> 'h net \<Rightarrow> 'h net" where
  "free_tpcb E a n = net_mfree E a (n\<lparr>net_tcp := (net_tcp n)\<lparr>tcp_pcbs := (tcp_pcbs (net_tcp n))(a := None)\<rparr>\<rparr>)"

definition free_lpcb :: "'h net_env \<Rightarrow> addr \<Rightarrow> 'h net \<Rightarrow> 'h net" where
  "free_lpcb E a n = net_mfree E a (n\<lparr>net_tcp := (net_tcp n)\<lparr>tcp_lpcbs := (tcp_lpcbs (net_tcp n))(a := None)\<rparr>\<rparr>)"

definition tcp_event_err :: "'h net_env \<Rightarrow> nat option \<Rightarrow> nat \<Rightarrow> err_t \<Rightarrow> 'h net \<Rightarrow> 'h net option" where
  "tcp_event_err E errf arg err n = (case errf of None \<Rightarrow> Some n | Some f \<Rightarrow> ne_tcp_err E f arg err n)"

definition tcp_pcb_purge :: "'h net_env \<Rightarrow> addr \<Rightarrow> 'h net \<Rightarrow> 'h net option" where
  "tcp_pcb_purge E a n =
     do {
       pcb \<leftarrow> tpcb n a;
       if t_state pcb \<noteq> CLOSED \<and> t_state pcb \<noteq> TIME_WAIT \<and> t_state pcb \<noteq> LISTEN then do {
         n \<leftarrow> (if refused_data pcb \<noteq> NULL then net_free E (refused_data pcb) n else Some n);
         n \<leftarrow> tcp_segs_free E (unsent pcb) n;
         n \<leftarrow> tcp_segs_free E (unacked pcb) n;
         Some (set_tpcb a (pcb\<lparr>refused_data := NULL, rtime := - 1, unsent := [], unacked := []\<rparr>) n)
       }
       else Some n
     }"

definition tcp_pcb_remove :: "'h net_env \<Rightarrow> pcb_list \<Rightarrow> addr \<Rightarrow> 'h net \<Rightarrow> 'h net option" where
  "tcp_pcb_remove E l a n =
     do {
       let n = TCP_RMV l a n;
       n \<leftarrow> tcp_pcb_purge E a n;
       pcb \<leftarrow> tpcb n a;
       n \<leftarrow> (if t_state pcb \<noteq> TIME_WAIT \<and> t_state pcb \<noteq> LISTEN \<and> t_flags pcb AND TF_ACK_DELAY \<noteq> 0 then do {
               (n, _) \<leftarrow> tcp_output E a (set_tpcb a (set_flag TF_ACK_NOW pcb) n);
               Some n
             }
             else Some n);
       upd_tpcb a (\<lambda>pcb. pcb\<lparr>t_state := CLOSED\<rparr>) n
     }"

section \<open>Aborting\<close>

definition tcp_abandon :: "'h net_env \<Rightarrow> addr \<Rightarrow> bool \<Rightarrow> 'h net \<Rightarrow> 'h net option" where
  "tcp_abandon E a reset n =
     do {
       pcb \<leftarrow> tpcb n a;
       if t_state pcb = TIME_WAIT then do { n \<leftarrow> tcp_pcb_remove E Tw_pcbs a n; Some (free_tpcb E a n) }
       else do {
         n \<leftarrow> tcp_pcb_remove E Active_pcbs a n;
         pcb' \<leftarrow> tpcb n a;
         n \<leftarrow> tcp_segs_free E (unacked pcb') n;
         n \<leftarrow> tcp_segs_free E (unsent pcb') n;
         let n = free_tpcb E a n;
         n \<leftarrow> tcp_event_err E (t_errf pcb) (t_callback_arg pcb) ERR_ABRT n;
         if reset then tcp_rst E (snd_nxt pcb) (rcv_nxt pcb) (t_local_ip pcb) (t_remote_ip pcb) (t_local_port pcb) (t_remote_port pcb) n
         else Some n
       }
     }"

definition tcp_abort :: "'h net_env \<Rightarrow> addr \<Rightarrow> 'h net \<Rightarrow> 'h net option" where
  "tcp_abort E a n = tcp_abandon E a True n"

section \<open>Closing\<close>

text \<open>The control block and state of \<^verbatim>\<open>switch\<close>: a listening block is of the smaller type.\<close>

definition tcp_close_fin :: "'h net_env \<Rightarrow> addr \<Rightarrow> tcp_state \<Rightarrow> 'h net \<Rightarrow> ('h net \<times> err_t) option" where
  "tcp_close_fin E a s n =
     do {
       (n, err) \<leftarrow> tcp_send_fin E a n;
       if err = ERR_OK then do {
         n \<leftarrow> upd_tpcb a (\<lambda>pcb. pcb\<lparr>t_state := s\<rparr>) n;
         (n, _) \<leftarrow> tcp_output E a n;
         Some (n, ERR_OK)
       }
       else Some (n, err)
     }"

definition tcp_to_timewait :: "addr \<Rightarrow> 'h net \<Rightarrow> 'h net option" where
  "tcp_to_timewait a n =
     do {
       n \<leftarrow> upd_tpcb a (\<lambda>pcb. pcb\<lparr>t_state := TIME_WAIT\<rparr>) (TCP_RMV Active_pcbs a n);
       TCP_REG Tw_pcbs a n
     }"

definition tcp_close_listen :: "'h net_env \<Rightarrow> addr \<Rightarrow> 'h net \<Rightarrow> ('h net \<times> err_t) option" where
  "tcp_close_listen E a n = Some (free_lpcb E a (TCP_RMV Listen_pcbs a n), ERR_OK)"

definition tcp_close_shutdown :: "'h net_env \<Rightarrow> addr \<Rightarrow> bool \<Rightarrow> 'h net \<Rightarrow> ('h net \<times> err_t) option" where
  "tcp_close_shutdown E a rst_on_unacked_data n =
     (if tcp_lpcbs (net_tcp n) a \<noteq> None then tcp_close_listen E a n
      else do {
        pcb \<leftarrow> tpcb n a;
        if rst_on_unacked_data \<and> (refused_data pcb \<noteq> NULL \<or> rcv_wnd pcb \<noteq> TCP_WND) then do {
          n \<leftarrow> tcp_rst E (snd_nxt pcb) (rcv_nxt pcb) (t_local_ip pcb) (t_remote_ip pcb) (t_local_port pcb) (t_remote_port pcb) n;
          n \<leftarrow> tcp_pcb_purge E a n;
          n \<leftarrow> tcp_to_timewait a n;
          Some (n, ERR_OK)
        }
        else case t_state pcb of
          CLOSED \<Rightarrow> Some (free_tpcb E a (if t_local_port pcb \<noteq> 0 then TCP_RMV Bound_pcbs a n else n), ERR_OK)
        | SYN_SENT \<Rightarrow> do { n \<leftarrow> tcp_pcb_remove E Active_pcbs a n; Some (free_tpcb E a n, ERR_OK) }
        | SYN_RCVD \<Rightarrow> tcp_close_fin E a FIN_WAIT_1 n
        | ESTABLISHED \<Rightarrow> tcp_close_fin E a FIN_WAIT_1 n
        | CLOSE_WAIT \<Rightarrow> tcp_close_fin E a LAST_ACK n
        | _ \<Rightarrow> Some (n, ERR_OK)
      })"

definition tcp_close :: "'h net_env \<Rightarrow> addr \<Rightarrow> 'h net \<Rightarrow> ('h net \<times> err_t) option" where
  "tcp_close E a n =
     do {
       n \<leftarrow> (if tcp_lpcbs (net_tcp n) a \<noteq> None then Some n else upd_tpcb a (set_flag TF_RXCLOSED) n);
       tcp_close_shutdown E a True n
     }"

definition tcp_shutdown :: "'h net_env \<Rightarrow> addr \<Rightarrow> bool \<Rightarrow> bool \<Rightarrow> 'h net \<Rightarrow> ('h net \<times> err_t) option" where
  "tcp_shutdown E a shut_rx shut_tx n =
     (if tcp_lpcbs (net_tcp n) a \<noteq> None then Some (n, ERR_CONN)
      else do {
        pcb \<leftarrow> tpcb n a;
        n \<leftarrow> (if shut_rx then do {
                n \<leftarrow> (if refused_data pcb \<noteq> NULL then net_free E (refused_data pcb) n else Some n);
                Some (set_tpcb a (set_flag TF_RXCLOSED (pcb\<lparr>refused_data := NULL\<rparr>)) n)
              }
              else Some n);
        if shut_tx \<and> t_state pcb \<in> {SYN_RCVD, ESTABLISHED, CLOSE_WAIT} then tcp_close_shutdown E a False n
        else Some (n, ERR_OK)
      })"


section \<open>Ports and addresses\<close>

text \<open>The local address and port of a block on any list; a listening block has them at the same offsets.\<close>

definition block_local :: "tcp \<Rightarrow> addr \<Rightarrow> (ip_addr \<times> u16) option" where
  "block_local t a =
     (case tcp_lpcbs t a of
        Some l \<Rightarrow> Some (l_local_ip l, l_local_port l)
      | None \<Rightarrow> map_option (\<lambda>pcb. (t_local_ip pcb, t_local_port pcb)) (tcp_pcbs t a))"

fun port_used :: "tcp \<Rightarrow> u16 \<Rightarrow> addr list \<Rightarrow> bool option" where
  "port_used t port [] = Some False"
| "port_used t port (a # as) =
     do { (_, lport) \<leftarrow> block_local t a; if lport = port then Some True else port_used t port as }"

definition next_port :: "u16 \<Rightarrow> u16" where
  "next_port port = (if port \<ge> TCP_LOCAL_PORT_RANGE_END then TCP_LOCAL_PORT_RANGE_START else port + 1)"

text \<open>The label \<^verbatim>\<open>again\<close> of \<^verbatim>\<open>tcp_new_port\<close>.\<close>

partial_function (option) tcp_new_port_loop :: "tcp \<Rightarrow> u16 \<Rightarrow> u16 option" where
  "tcp_new_port_loop t port =
     do {
       used \<leftarrow> port_used t (next_port port) (concat (tcp_pcb_lists t));
       if used then tcp_new_port_loop t (next_port port) else Some (next_port port)
     }"

definition tcp_new_port :: "'h net \<Rightarrow> ('h net \<times> u16) option" where
  "tcp_new_port n =
     do { port \<leftarrow> tcp_new_port_loop (net_tcp n) (tcp_port (net_tcp n)); Some (n\<lparr>net_tcp := (net_tcp n)\<lparr>tcp_port := port\<rparr>\<rparr>, port) }"

fun bind_conflict :: "tcp \<Rightarrow> ip_addr \<Rightarrow> u16 \<Rightarrow> addr list \<Rightarrow> bool option" where
  "bind_conflict t ipaddr port [] = Some False"
| "bind_conflict t ipaddr port (a # as) =
     do {
       (lip, lport) \<leftarrow> block_local t a;
       if lport = port \<and> (lip = IPADDR_ANY \<or> ipaddr = IPADDR_ANY \<or> lip = ipaddr) then Some True
       else bind_conflict t ipaddr port as
     }"

definition tcp_bind :: "addr \<Rightarrow> ip_addr \<Rightarrow> u16 \<Rightarrow> 'h net \<Rightarrow> ('h net \<times> err_t) option" where
  "tcp_bind a ipaddr port n =
     do {
       pcb \<leftarrow> tpcb n a;
       if t_state pcb \<noteq> CLOSED then Some (n, ERR_VAL)
       else do {
         (n, port) \<leftarrow> (if port = 0 then tcp_new_port n else Some (n, port));
         used \<leftarrow> bind_conflict (net_tcp n) ipaddr port (concat (tcp_pcb_lists (net_tcp n)));
         if used then Some (n, ERR_USE)
         else do {
           n \<leftarrow> TCP_REG Bound_pcbs a (set_tpcb a (pcb\<lparr>t_local_ip := (if ipaddr \<noteq> IPADDR_ANY then ipaddr else t_local_ip pcb), t_local_port := port\<rparr>) n);
           Some (n, ERR_OK)
         }
       }
     }"

text \<open>The test for a block that is already listening comes after the one for the state CLOSED.\<close>

definition tcp_listen_with_backlog :: "'h net_env \<Rightarrow> addr \<Rightarrow> u8 \<Rightarrow> 'h net \<Rightarrow> ('h net \<times> addr) option" where
  "tcp_listen_with_backlog E a backlog n =
     (if tcp_lpcbs (net_tcp n) a \<noteq> None then Some (n, NULL)
      else do {
        pcb \<leftarrow> tpcb n a;
        if t_state pcb \<noteq> CLOSED then Some (n, NULL)
        else do {
          let (n, l) = net_malloc E SIZEOF_TCP_PCB_LISTEN n;
          if l = NULL then Some (n, NULL)
          else do {
            let lpcb = \<lparr>l_local_ip = t_local_ip pcb, l_so_options = t_so_options pcb OR SOF_ACCEPTCONN, l_tos = t_tos pcb, l_ttl = t_ttl pcb,
                        l_prio = t_prio pcb, l_callback_arg = t_callback_arg pcb, l_accept = Some Tcp_accept_null,
                        l_local_port = t_local_port pcb\<rparr>;
            let n = free_tpcb E a (if t_local_port pcb \<noteq> 0 then TCP_RMV Bound_pcbs a n else n);
            n \<leftarrow> TCP_REG Listen_pcbs l (n\<lparr>net_tcp := (net_tcp n)\<lparr>tcp_lpcbs := (tcp_lpcbs (net_tcp n))(l \<mapsto> lpcb)\<rparr>\<rparr>);
            Some (n, l)
          }
        }
      })"

definition tcp_recved :: "'h net_env \<Rightarrow> addr \<Rightarrow> u16 \<Rightarrow> 'h net \<Rightarrow> 'h net option" where
  "tcp_recved E a len n =
     do {
       pcb \<leftarrow> tpcb n a;
       let wnd = rcv_wnd pcb + len;
       let pcb = pcb\<lparr>rcv_wnd := (if wnd > TCP_WND then TCP_WND else wnd)\<rparr>;
       let (pcb, wnd_inflation) = tcp_update_rcv_ann_wnd pcb;
       if sint wnd_inflation \<ge> int (unat TCP_WND_UPDATE_THRESHOLD) then do {
         (n, _) \<leftarrow> tcp_output E a (set_tpcb a (tcp_ack_now pcb) n);
         Some n
       }
       else Some (set_tpcb a pcb n)
     }"

definition tcp_next_iss :: "'h net \<Rightarrow> 'h net \<times> u32" where
  "tcp_next_iss n =
     (let iss = tcp_iss (net_tcp n) + tcp_ticks (net_tcp n)
      in (n\<lparr>net_tcp := (net_tcp n)\<lparr>tcp_iss := iss\<rparr>\<rparr>, iss))"

definition tcp_eff_send_mss :: "u16 \<Rightarrow> ip_addr \<Rightarrow> 'h net \<Rightarrow> u16" where
  "tcp_eff_send_mss sendmss dest n =
     (case ip_route dest n of
        Some i \<Rightarrow>
          let mtu = netif_mtu (netif_list n ! i)
          in if mtu \<noteq> 0 then min sendmss (mtu - IP_HLEN - TCP_HLEN) else sendmss
      | None \<Rightarrow> sendmss)"

definition initial_mss :: u16 where
  "initial_mss = (if TCP_MSS > 536 then 536 else TCP_MSS_u16)"

definition tcp_connect :: "'h net_env \<Rightarrow> addr \<Rightarrow> ip_addr option \<Rightarrow> u16 \<Rightarrow> nat option \<Rightarrow> 'h net \<Rightarrow> ('h net \<times> err_t) option" where
  "tcp_connect E a ipaddr port connected n =
     do {
       pcb \<leftarrow> tpcb n a;
       if t_state pcb \<noteq> CLOSED then Some (n, ERR_ISCONN)
       else case ipaddr of
         None \<Rightarrow> Some (n, ERR_VAL)
       | Some ip \<Rightarrow> do {
           let pcb = pcb\<lparr>t_remote_ip := ip, t_remote_port := port\<rparr>;
           let route = ip_route ip n;
           if t_local_ip pcb = IPADDR_ANY \<and> route = None then Some (set_tpcb a pcb n, ERR_RTE)
           else do {
             let pcb = (case route of
                          Some i \<Rightarrow> if t_local_ip pcb = IPADDR_ANY then pcb\<lparr>t_local_ip := netif_ip_addr (netif_list n ! i)\<rparr> else pcb
                        | None \<Rightarrow> pcb);
             let old_local_port = t_local_port pcb;
             (n, lport) \<leftarrow> (if t_local_port pcb = 0 then tcp_new_port (set_tpcb a pcb n) else Some (n, t_local_port pcb));
             let (n, iss) = tcp_next_iss n;
             let mss = tcp_eff_send_mss initial_mss ip n;
             let pcb = pcb\<lparr>t_local_port := lport, rcv_nxt := 0, snd_nxt := iss, lastack := iss - 1, snd_lbb := iss - 1, rcv_wnd := TCP_WND,
                           rcv_ann_wnd := TCP_WND, rcv_ann_right_edge := 0, snd_wnd := TCP_WND, t_mss := mss, cwnd := 1,
                           ssthresh := mss * 10, t_connected := connected\<rparr>;
             (n, ret) \<leftarrow> tcp_enqueue_flags E a TCP_SYN (set_tpcb a pcb n);
             if ret = ERR_OK then do {
               n \<leftarrow> upd_tpcb a (\<lambda>pcb. pcb\<lparr>t_state := SYN_SENT\<rparr>) n;
               n \<leftarrow> TCP_REG Active_pcbs a (if old_local_port \<noteq> 0 then TCP_RMV Bound_pcbs a n else n);
               (n, _) \<leftarrow> tcp_output E a n;
               Some (n, ERR_OK)
             }
             else Some (n, ret)
           }
         }
     }"

section \<open>Allocation\<close>

fun kill_prio_scan :: "tcp \<Rightarrow> u8 \<Rightarrow> addr list \<Rightarrow> u32 \<Rightarrow> u8 \<Rightarrow> addr \<Rightarrow> addr option" where
  "kill_prio_scan t prio [] inactivity mprio inactive = Some inactive"
| "kill_prio_scan t prio (a # as) inactivity mprio inactive =
     do {
       pcb \<leftarrow> tcp_pcbs t a;
       if t_prio pcb \<le> prio \<and> t_prio pcb \<le> mprio \<and> tcp_ticks t - t_tmr pcb \<ge> inactivity
       then kill_prio_scan t prio as (tcp_ticks t - t_tmr pcb) (t_prio pcb) a
       else kill_prio_scan t prio as inactivity mprio inactive
     }"

definition tcp_kill_prio :: "'h net_env \<Rightarrow> u8 \<Rightarrow> 'h net \<Rightarrow> 'h net option" where
  "tcp_kill_prio E prio n =
     do {
       inactive \<leftarrow> kill_prio_scan (net_tcp n) prio (tcp_active_pcbs (net_tcp n)) 0 TCP_PRIO_MAX NULL;
       if inactive \<noteq> NULL then tcp_abort E inactive n else Some n
     }"

fun kill_tw_scan :: "tcp \<Rightarrow> addr list \<Rightarrow> u32 \<Rightarrow> addr \<Rightarrow> addr option" where
  "kill_tw_scan t [] inactivity inactive = Some inactive"
| "kill_tw_scan t (a # as) inactivity inactive =
     do {
       pcb \<leftarrow> tcp_pcbs t a;
       if tcp_ticks t - t_tmr pcb \<ge> inactivity then kill_tw_scan t as (tcp_ticks t - t_tmr pcb) a
       else kill_tw_scan t as inactivity inactive
     }"

definition tcp_kill_timewait :: "'h net_env \<Rightarrow> 'h net \<Rightarrow> 'h net option" where
  "tcp_kill_timewait E n =
     do {
       inactive \<leftarrow> kill_tw_scan (net_tcp n) (tcp_tw_pcbs (net_tcp n)) 0 NULL;
       if inactive \<noteq> NULL then tcp_abort E inactive n else Some n
     }"

definition init_pcb :: "u8 \<Rightarrow> u32 \<Rightarrow> u32 \<Rightarrow> tcp_pcb" where
  "init_pcb prio iss ticks =
     blank_pcb\<lparr>t_prio := prio, snd_buf := TCP_SND_BUF, rcv_wnd := TCP_WND, rcv_ann_wnd := TCP_WND, t_ttl := TCP_TTL,
       t_mss := initial_mss, t_rto := 3000 div 500, t_sv := 3000 div 500, rtime := - 1, cwnd := 1, snd_wl2 := iss, snd_nxt := iss,
       lastack := iss, snd_lbb := iss, t_tmr := ticks, t_recv := Some Tcp_recv_null, keep_idle := TCP_KEEPIDLE_DEFAULT\<rparr>"

definition tcp_alloc :: "'h net_env \<Rightarrow> u8 \<Rightarrow> 'h net \<Rightarrow> ('h net \<times> addr) option" where
  "tcp_alloc E prio n =
     do {
       let (n, a) = net_malloc E SIZEOF_TCP_PCB n;
       (n, a) \<leftarrow> (if a \<noteq> NULL then Some (n, a)
                  else do {
                    n \<leftarrow> tcp_kill_timewait E n;
                    let (n, a) = net_malloc E SIZEOF_TCP_PCB n;
                    if a \<noteq> NULL then Some (n, a)
                    else do { n \<leftarrow> tcp_kill_prio E prio n; Some (net_malloc E SIZEOF_TCP_PCB n) }
                  });
       if a \<noteq> NULL then do {
         let (n, iss) = tcp_next_iss n;
         Some (set_tpcb a (init_pcb prio iss (tcp_ticks (net_tcp n))) n, a)
       }
       else Some (n, NULL)
     }"

definition tcp_new :: "'h net_env \<Rightarrow> 'h net \<Rightarrow> ('h net \<times> addr) option" where
  "tcp_new E n = tcp_alloc E TCP_PRIO_NORMAL n"

section \<open>Callbacks\<close>

text \<open>The functions that set fields of a block.  \<^verbatim>\<open>tcp_arg\<close> and \<^verbatim>\<open>tcp_accept\<close> are also used on listening blocks.\<close>

definition tcp_setprio :: "u8 \<Rightarrow> tcp_pcb \<Rightarrow> tcp_pcb" where "tcp_setprio prio pcb = pcb\<lparr>t_prio := prio\<rparr>"
definition tcp_recv :: "recv_fn option \<Rightarrow> tcp_pcb \<Rightarrow> tcp_pcb" where "tcp_recv f pcb = pcb\<lparr>t_recv := f\<rparr>"
definition tcp_sent :: "nat option \<Rightarrow> tcp_pcb \<Rightarrow> tcp_pcb" where "tcp_sent f pcb = pcb\<lparr>t_sent := f\<rparr>"
definition tcp_err :: "nat option \<Rightarrow> tcp_pcb \<Rightarrow> tcp_pcb" where "tcp_err f pcb = pcb\<lparr>t_errf := f\<rparr>"
definition tcp_poll :: "nat option \<Rightarrow> u8 \<Rightarrow> tcp_pcb \<Rightarrow> tcp_pcb" where "tcp_poll f interval pcb = pcb\<lparr>t_poll := f, pollinterval := interval\<rparr>"

definition upd_lpcb :: "addr \<Rightarrow> (tcp_pcb_listen \<Rightarrow> tcp_pcb_listen) \<Rightarrow> 'h net \<Rightarrow> 'h net option" where
  "upd_lpcb a f n =
     do { l \<leftarrow> tcp_lpcbs (net_tcp n) a; Some (n\<lparr>net_tcp := (net_tcp n)\<lparr>tcp_lpcbs := (tcp_lpcbs (net_tcp n))(a \<mapsto> f l)\<rparr>\<rparr>) }"

definition tcp_arg :: "addr \<Rightarrow> nat \<Rightarrow> 'h net \<Rightarrow> 'h net option" where
  "tcp_arg a arg n =
     (if tcp_lpcbs (net_tcp n) a \<noteq> None then upd_lpcb a (\<lambda>l. l\<lparr>l_callback_arg := arg\<rparr>) n
      else upd_tpcb a (\<lambda>pcb. pcb\<lparr>t_callback_arg := arg\<rparr>) n)"

definition tcp_accept :: "addr \<Rightarrow> accept_fn option \<Rightarrow> 'h net \<Rightarrow> 'h net option" where
  "tcp_accept a f n =
     (if tcp_lpcbs (net_tcp n) a \<noteq> None then upd_lpcb a (\<lambda>l. l\<lparr>l_accept := f\<rparr>) n
      else upd_tpcb a (\<lambda>pcb. pcb\<lparr>t_accept := f\<rparr>) n)"

definition tcp_recv_null :: "'h net_env \<Rightarrow> addr \<Rightarrow> addr \<Rightarrow> err_t \<Rightarrow> 'h net \<Rightarrow> ('h net \<times> err_t) option" where
  "tcp_recv_null E a p err n =
     (if p \<noteq> NULL then do {
        pb \<leftarrow> pbufs (net_ps n) p;
        n \<leftarrow> tcp_recved E a (pb_tot_len pb) n;
        n \<leftarrow> net_free E p n;
        Some (n, ERR_OK)
      }
      else if err = ERR_OK then tcp_close E a n
      else Some (n, ERR_OK))"

text \<open>\<^verbatim>\<open>TCP_EVENT_RECV\<close>, \<^verbatim>\<open>TCP_EVENT_CLOSED\<close>, and the events with an optional function.\<close>

definition tcp_event_recv :: "'h net_env \<Rightarrow> addr \<Rightarrow> addr \<Rightarrow> err_t \<Rightarrow> 'h net \<Rightarrow> ('h net \<times> err_t) option" where
  "tcp_event_recv E a p err n =
     do {
       pcb \<leftarrow> tpcb n a;
       case t_recv pcb of
         Some (Recv_app f) \<Rightarrow> ne_tcp_event E f (t_callback_arg pcb) a (Ev_recv p err) n
       | _ \<Rightarrow> tcp_recv_null E a p err n
     }"

definition tcp_event_closed :: "'h net_env \<Rightarrow> addr \<Rightarrow> 'h net \<Rightarrow> ('h net \<times> err_t) option" where
  "tcp_event_closed E a n =
     do {
       pcb \<leftarrow> tpcb n a;
       case t_recv pcb of
         Some (Recv_app f) \<Rightarrow> ne_tcp_event E f (t_callback_arg pcb) a (Ev_recv NULL ERR_OK) n
       | Some Tcp_recv_null \<Rightarrow> tcp_recv_null E a NULL ERR_OK n
       | None \<Rightarrow> Some (n, ERR_OK)
     }"

definition tcp_event :: "'h net_env \<Rightarrow> (tcp_pcb \<Rightarrow> nat option) \<Rightarrow> addr \<Rightarrow> tcp_event \<Rightarrow> 'h net \<Rightarrow> ('h net \<times> err_t) option" where
  "tcp_event E f a ev n =
     do {
       pcb \<leftarrow> tpcb n a;
       case f pcb of
         Some g \<Rightarrow> ne_tcp_event E g (t_callback_arg pcb) a ev n
       | None \<Rightarrow> Some (n, ERR_OK)
     }"


section \<open>Timers\<close>

text \<open>The retransmission part of \<^verbatim>\<open>tcp_slowtmr\<close> for one block; \<open>t_rto\<close>, \<open>rtime\<close>, \<open>t_sa\<close> and \<open>t_sv\<close> are signed.  An index outside a table
  is \<open>None\<close>.\<close>

definition table_at :: "'a list \<Rightarrow> nat \<Rightarrow> 'a option" where
  "table_at xs i = (if i < length xs then Some (xs ! i) else None)"

definition rto_backoff :: "tcp_pcb \<Rightarrow> tcp_pcb option" where
  "rto_backoff pcb =
     do {
       rto \<leftarrow> (if t_state pcb \<noteq> SYN_SENT
               then do { k \<leftarrow> table_at tcp_backoff (unat (nrtx pcb)); Some (push_bit k (signed_drop_bit 3 (t_sa pcb) + t_sv pcb)) }
               else Some (t_rto pcb));
       let eff_wnd = min (cwnd pcb) (snd_wnd pcb);
       let thresh = (if unat (drop_bit 1 eff_wnd) < 2 * unat (t_mss pcb) then push_bit 1 (t_mss pcb) else drop_bit 1 eff_wnd);
       Some (pcb\<lparr>t_rto := rto, rtime := 0, ssthresh := thresh, cwnd := t_mss pcb\<rparr>)
     }"

definition tcp_slow_rexmit :: "'h net_env \<Rightarrow> addr \<Rightarrow> 'h net \<Rightarrow> 'h net option" where
  "tcp_slow_rexmit E a n =
     do {
       pcb \<leftarrow> tpcb n a;
       if persist_backoff pcb > 0 then do {
         let cnt = persist_cnt pcb + 1;
         k \<leftarrow> table_at tcp_persist_backoff (unat (persist_backoff pcb) - 1);
         if cnt \<ge> k
         then tcp_zero_window_probe E a (set_tpcb a (pcb\<lparr>persist_cnt := 0,
                persist_backoff := (if unat (persist_backoff pcb) < length tcp_persist_backoff then persist_backoff pcb + 1 else persist_backoff pcb)\<rparr>) n)
         else Some (set_tpcb a (pcb\<lparr>persist_cnt := cnt\<rparr>) n)
       }
       else do {
         let pcb = (if sint (rtime pcb) \<ge> 0 then pcb\<lparr>rtime := rtime pcb + 1\<rparr> else pcb);
         if unacked pcb \<noteq> [] \<and> sint (rtime pcb) \<ge> sint (t_rto pcb)
         then do { pcb \<leftarrow> rto_backoff pcb; tcp_rexmit_rto E a (set_tpcb a pcb n) }
         else Some (set_tpcb a pcb n)
       }
     }"

text \<open>The keepalive part: with the flags whether to remove and to reset.\<close>

definition tcp_slow_keepalive :: "'h net_env \<Rightarrow> addr \<Rightarrow> 'h net \<Rightarrow> ('h net \<times> bool) option" where
  "tcp_slow_keepalive E a n =
     do {
       pcb \<leftarrow> tpcb n a;
       let idle = tcp_ticks (net_tcp n) - t_tmr pcb;
       if t_so_options pcb AND SOF_KEEPALIVE \<noteq> 0 \<and> (t_state pcb = ESTABLISHED \<or> t_state pcb = CLOSE_WAIT) then
         if idle > (keep_idle pcb + TCP_MAXIDLE) div TCP_SLOW_INTERVAL then Some (n, True)
         else if idle > (keep_idle pcb + ucast (keep_cnt_sent pcb) * TCP_KEEPINTVL_DEFAULT) div TCP_SLOW_INTERVAL
         then do {
           n \<leftarrow> tcp_keepalive E a n;
           n \<leftarrow> upd_tpcb a (\<lambda>pcb. pcb\<lparr>keep_cnt_sent := keep_cnt_sent pcb + 1\<rparr>) n;
           Some (n, False)
         }
         else Some (n, False)
       else Some (n, False)
     }"

definition rexmit_exhausted :: "tcp_pcb \<Rightarrow> bool" where
  "rexmit_exhausted pcb \<longleftrightarrow> (t_state pcb = SYN_SENT \<and> nrtx pcb = TCP_SYNMAXRTX) \<or> nrtx pcb = TCP_MAXRTX"

text \<open>Stuck too long in a state.\<close>

definition state_expired :: "u32 \<Rightarrow> tcp_pcb \<Rightarrow> bool" where
  "state_expired ticks pcb \<longleftrightarrow>
     (case t_state pcb of
        FIN_WAIT_2 \<Rightarrow> ticks - t_tmr pcb > TCP_FIN_WAIT_TIMEOUT div TCP_SLOW_INTERVAL
      | SYN_RCVD \<Rightarrow> ticks - t_tmr pcb > TCP_SYN_RCVD_TIMEOUT div TCP_SLOW_INTERVAL
      | LAST_ACK \<Rightarrow> ticks - t_tmr pcb > 2 * TCP_MSL div TCP_SLOW_INTERVAL
      | _ \<Rightarrow> False)"

definition tcp_slow_pcb :: "'h net_env \<Rightarrow> addr \<Rightarrow> 'h net \<Rightarrow> ('h net \<times> bool \<times> bool) option" where
  "tcp_slow_pcb E a n =
     do {
       pcb \<leftarrow> tpcb n a;
       n \<leftarrow> (if rexmit_exhausted pcb then Some n else tcp_slow_rexmit E a n);
       (n, reset) \<leftarrow> tcp_slow_keepalive E a n;
       pcb' \<leftarrow> tpcb n a;
       Some (n, rexmit_exhausted pcb \<or> state_expired (tcp_ticks (net_tcp n)) pcb' \<or> reset, reset)
     }"

text \<open>What follows an element of a list, and the list after \<^verbatim>\<open>prev->next = pcb->next\<close> or, without a predecessor, after
  \<^verbatim>\<open>list = pcb->next\<close>: what stood between is lost.  If \<^verbatim>\<open>pcb\<close> does not follow \<^verbatim>\<open>prev\<close> any more the links are broken.\<close>

fun after :: "addr \<Rightarrow> addr list \<Rightarrow> addr list" where
  "after a [] = []"
| "after a (b # xs) = (if b = a then xs else after a xs)"

definition next_of :: "addr \<Rightarrow> addr list \<Rightarrow> addr" where
  "next_of a xs = (case after a xs of [] \<Rightarrow> NULL | b # _ \<Rightarrow> b)"

definition unlink_after :: "addr \<Rightarrow> addr \<Rightarrow> addr list \<Rightarrow> addr list option" where
  "unlink_after prev a xs =
     (if prev = NULL then if a \<in> set xs then Some (after a xs) else None
      else if prev \<in> set xs \<and> a \<in> set (after prev xs) then Some (takeWhile (\<lambda>b. b \<noteq> prev) xs @ [prev] @ after a xs)
      else None)"

definition tcp_unlink :: "pcb_list \<Rightarrow> addr \<Rightarrow> addr \<Rightarrow> 'h net \<Rightarrow> 'h net option" where
  "tcp_unlink l prev a n =
     do {
       xs \<leftarrow> unlink_after prev a (pcbs_of (net_tcp n) l);
       Some (n\<lparr>net_tcp := map_pcbs (\<lambda>k ys. if k = l then xs else ys) (net_tcp n)\<rparr>)
     }"

text \<open>The block is removed; the error function must leave it alone.\<close>

definition tcp_slow_remove :: "'h net_env \<Rightarrow> addr \<Rightarrow> addr \<Rightarrow> bool \<Rightarrow> 'h net \<Rightarrow> 'h net option" where
  "tcp_slow_remove E prev a reset n =
     do {
       n \<leftarrow> tcp_pcb_purge E a n;
       n \<leftarrow> tcp_unlink Active_pcbs prev a n;
       pcb \<leftarrow> tpcb n a;
       n \<leftarrow> tcp_event_err E (t_errf pcb) (t_callback_arg pcb) ERR_ABRT n;
       pcb \<leftarrow> tpcb n a;
       if on_list a (net_tcp n) then None
       else do {
         n \<leftarrow> (if reset then tcp_rst E (snd_nxt pcb) (rcv_nxt pcb) (t_local_ip pcb) (t_remote_ip pcb) (t_local_port pcb) (t_remote_port pcb) n
               else Some n);
         Some (free_tpcb E a n)
       }
     }"

definition tcp_slow_poll :: "'h net_env \<Rightarrow> addr \<Rightarrow> 'h net \<Rightarrow> 'h net option" where
  "tcp_slow_poll E a n =
     do {
       pcb \<leftarrow> tpcb n a;
       if polltmr pcb + 1 \<ge> pollinterval pcb then do {
         (n, err) \<leftarrow> tcp_event E t_poll a Ev_poll (set_tpcb a (pcb\<lparr>polltmr := 0\<rparr>) n);
         if err = ERR_OK then do { (n, _) \<leftarrow> tcp_output E a n; Some n } else Some n
       }
       else Some (set_tpcb a (pcb\<lparr>polltmr := polltmr pcb + 1\<rparr>) n)
     }"

text \<open>The walk over the active blocks; a block that has left the list before the walk comes to it breaks it.\<close>

partial_function (option) tcp_slow_active :: "'h net_env \<Rightarrow> addr \<Rightarrow> addr \<Rightarrow> 'h net \<Rightarrow> 'h net option" where
  "tcp_slow_active E prev a n =
     (if a = NULL then Some n
      else if a \<notin> set (tcp_active_pcbs (net_tcp n)) then None
      else do {
        (n, remove, reset) \<leftarrow> tcp_slow_pcb E a n;
        let nxt = next_of a (tcp_active_pcbs (net_tcp n));
        if remove then do { n \<leftarrow> tcp_slow_remove E prev a reset n; tcp_slow_active E prev nxt n }
        else do { n \<leftarrow> tcp_slow_poll E a n; tcp_slow_active E a nxt n }
      })"

text \<open>The walk over the blocks in TIME-WAIT calls nothing that changes the list but the unlinking.\<close>

fun tcp_slow_tw :: "'h net_env \<Rightarrow> addr \<Rightarrow> addr list \<Rightarrow> 'h net \<Rightarrow> 'h net option" where
  "tcp_slow_tw E prev [] n = Some n"
| "tcp_slow_tw E prev (a # as) n =
     do {
       pcb \<leftarrow> tpcb n a;
       if tcp_ticks (net_tcp n) - t_tmr pcb > 2 * TCP_MSL div TCP_SLOW_INTERVAL then do {
         n \<leftarrow> tcp_pcb_purge E a n;
         n \<leftarrow> tcp_unlink Tw_pcbs prev a n;
         tcp_slow_tw E prev as (free_tpcb E a n)
       }
       else tcp_slow_tw E a as n
     }"

definition first_of :: "addr list \<Rightarrow> addr" where
  "first_of xs = (case xs of [] \<Rightarrow> NULL | a # _ \<Rightarrow> a)"

definition tcp_slowtmr :: "'h net_env \<Rightarrow> 'h net \<Rightarrow> 'h net option" where
  "tcp_slowtmr E n =
     do {
       let n = n\<lparr>net_tcp := (net_tcp n)\<lparr>tcp_ticks := tcp_ticks (net_tcp n) + 1\<rparr>\<rparr>;
       n \<leftarrow> tcp_slow_active E NULL (first_of (tcp_active_pcbs (net_tcp n))) n;
       tcp_slow_tw E NULL (tcp_tw_pcbs (net_tcp n)) n
     }"

text \<open>\<^verbatim>\<open>tcp_fasttmr\<close> for one block, and the walk.\<close>

definition tcp_fast_pcb :: "'h net_env \<Rightarrow> addr \<Rightarrow> 'h net \<Rightarrow> 'h net option" where
  "tcp_fast_pcb E a n =
     do {
       pcb \<leftarrow> tpcb n a;
       (n, live) \<leftarrow> (if refused_data pcb \<noteq> NULL then do {
                       (n, err) \<leftarrow> tcp_event_recv E a (refused_data pcb) ERR_OK n;
                       if err = ERR_OK then do { n \<leftarrow> upd_tpcb a (\<lambda>pcb. pcb\<lparr>refused_data := NULL\<rparr>) n; Some (n, True) }
                       else Some (n, err \<noteq> ERR_ABRT)
                     }
                     else Some (n, True));
       if live then do {
         pcb \<leftarrow> tpcb n a;
         if t_flags pcb AND TF_ACK_DELAY \<noteq> 0 then do {
           (n, _) \<leftarrow> tcp_output E a (set_tpcb a (tcp_ack_now pcb) n);
           upd_tpcb a (clear_flag (TF_ACK_DELAY OR TF_ACK_NOW)) n
         }
         else Some n
       }
       else Some n
     }"

partial_function (option) tcp_fast_active :: "'h net_env \<Rightarrow> addr \<Rightarrow> 'h net \<Rightarrow> 'h net option" where
  "tcp_fast_active E a n =
     (if a = NULL then Some n
      else if a \<notin> set (tcp_active_pcbs (net_tcp n)) then None
      else do {
        let nxt = next_of a (tcp_active_pcbs (net_tcp n));
        n \<leftarrow> tcp_fast_pcb E a n;
        tcp_fast_active E nxt n
      })"

definition tcp_fasttmr :: "'h net_env \<Rightarrow> 'h net \<Rightarrow> 'h net option" where
  "tcp_fasttmr E n = tcp_fast_active E (first_of (tcp_active_pcbs (net_tcp n))) n"

definition tcp_tmr :: "'h net_env \<Rightarrow> 'h net \<Rightarrow> 'h net option" where
  "tcp_tmr E n =
     do {
       n \<leftarrow> tcp_fasttmr E n;
       let c = tcp_timer (net_tcp n) + 1;
       let n = n\<lparr>net_tcp := (net_tcp n)\<lparr>tcp_timer := c\<rparr>\<rparr>;
       if c AND 1 \<noteq> 0 then tcp_slowtmr E n else Some n
     }"


end
