(* ===== verification/Tcp_In.thy ===== *)
theory Tcp_In
  imports Tcp
begin

text \<open>
  TCP input: \<^verbatim>\<open>core/tcp_in.c\<close>.  The static variables of the file that describe the segment being processed are the record
  \<open>tcp_in\<close>, which the functions pass on; \<^verbatim>\<open>tcp_input_pcb\<close> is a global and part of the state.  Out-of-sequence segments are
  not queued in this configuration.
\<close>

definition TF_RESET :: u8 where "TF_RESET = 0x08"
definition TF_CLOSED :: u8 where "TF_CLOSED = 0x10"
definition TF_GOT_FIN :: u8 where "TF_GOT_FIN = 0x20"
definition PBUF_FLAG_PUSH :: u8 where "PBUF_FLAG_PUSH = 0x01"
definition SOF_INHERITED :: u8 where "SOF_INHERITED = 0x04 OR 0x08 OR 0x80"

record tcp_in =
  inseg :: tcp_seg
  in_seqno :: u32
  in_ackno :: u32
  in_flags :: u8
  in_tcplen :: u16
  recv_flags :: u8
  recv_data :: addr

abbreviation in_hdr :: "tcp_in \<Rightarrow> addr" where "in_hdr i \<equiv> sg_tcphdr (inseg i)"
abbreviation has_flag :: "u8 \<Rightarrow> tcp_in \<Rightarrow> bool" where "has_flag f i \<equiv> in_flags i AND f \<noteq> 0"

text \<open>Fields of the header, which \<^verbatim>\<open>tcp_input\<close> has converted to host order.\<close>

abbreviation in_src :: "bytes \<Rightarrow> tcp_in \<Rightarrow> u16" where "in_src m i \<equiv> load16 m (in_hdr i + th_src)"
abbreviation in_dest :: "bytes \<Rightarrow> tcp_in \<Rightarrow> u16" where "in_dest m i \<equiv> load16 m (in_hdr i + th_dest)"
abbreviation in_wnd :: "bytes \<Rightarrow> tcp_in \<Rightarrow> u16" where "in_wnd m i \<equiv> load16 m (in_hdr i + th_wnd)"

text \<open>The reset that answers the segment, with the sequence number \<open>s\<close>.\<close>

definition tcp_in_rst :: "'h net_env \<Rightarrow> u32 \<Rightarrow> tcp_in \<Rightarrow> 'h net \<Rightarrow> 'h net option" where
  "tcp_in_rst E s i n =
     tcp_rst E s (in_seqno i + ucast (in_tcplen i)) (current_iphdr_dest n) (current_iphdr_src n) (in_dest (net_mem n) i) (in_src (net_mem n) i) n"

section \<open>Acknowledgements\<close>

definition recv_window :: "u32 \<Rightarrow> u32 \<Rightarrow> u16 \<Rightarrow> tcp_pcb \<Rightarrow> tcp_pcb" where
  "recv_window seqno ackno wnd pcb =
     (if TCP_SEQ_LT (snd_wl1 pcb) seqno \<or> (snd_wl1 pcb = seqno \<and> TCP_SEQ_LT (snd_wl2 pcb) ackno) \<or> (snd_wl2 pcb = ackno \<and> wnd > snd_wnd pcb)
      then pcb\<lparr>snd_wnd := wnd, snd_wl1 := seqno, snd_wl2 := ackno,
               persist_backoff := (if wnd > 0 \<and> persist_backoff pcb > 0 then 0 else persist_backoff pcb)\<rparr>
      else pcb)"

text \<open>An acknowledgement of nothing new.  The guard \<^verbatim>\<open>pcb->dupacks + 1 > pcb->dupacks\<close> is evaluated in \<^verbatim>\<open>int\<close> and always true.\<close>

definition recv_dupack :: "bytes \<Rightarrow> u32 \<Rightarrow> u32 \<Rightarrow> u16 \<Rightarrow> tcp_pcb \<Rightarrow> tcp_pcb" where
  "recv_dupack m right_wnd_edge ackno tcplen pcb =
     (let pcb = pcb\<lparr>t_acked := 0\<rparr>
      in if tcplen = 0 \<and> snd_wl2 pcb + ucast (snd_wnd pcb) = right_wnd_edge \<and> sint (rtime pcb) \<ge> 0 \<and> lastack pcb = ackno then
           let pcb = pcb\<lparr>dupacks := dupacks pcb + 1\<rparr>
           in if dupacks pcb > 3 then if cwnd pcb + t_mss pcb > cwnd pcb then pcb\<lparr>cwnd := cwnd pcb + t_mss pcb\<rparr> else pcb
              else if dupacks pcb = 3 then tcp_rexmit_fast m pcb
              else pcb
         else pcb\<lparr>dupacks := 0\<rparr>)"

text \<open>The congestion window after new data has been acknowledged; a division by zero is \<open>None\<close>.\<close>

definition recv_cwnd :: "tcp_pcb \<Rightarrow> u16 option" where
  "recv_cwnd pcb =
     (if t_state pcb \<ge> ESTABLISHED then
        if cwnd pcb < ssthresh pcb then Some (if cwnd pcb + t_mss pcb > cwnd pcb then cwnd pcb + t_mss pcb else cwnd pcb)
        else if cwnd pcb = 0 then None
        else let new_cwnd = of_nat (unat (cwnd pcb) + unat (t_mss pcb) * unat (t_mss pcb) div unat (cwnd pcb))
             in Some (if new_cwnd > cwnd pcb then new_cwnd else cwnd pcb)
      else Some (cwnd pcb))"

definition recv_new_ack :: "u32 \<Rightarrow> tcp_pcb \<Rightarrow> tcp_pcb option" where
  "recv_new_ack ackno pcb =
     do {
       let pcb = (if t_flags pcb AND TF_INFR \<noteq> 0 then clear_flag TF_INFR (pcb\<lparr>cwnd := ssthresh pcb\<rparr>) else pcb);
       let acked = ucast (ackno - lastack pcb);
       let pcb = pcb\<lparr>nrtx := 0, t_rto := signed_drop_bit 3 (t_sa pcb) + t_sv pcb, t_acked := acked, snd_buf := snd_buf pcb + acked,
                     dupacks := 0, lastack := ackno\<rparr>;
       c \<leftarrow> recv_cwnd pcb;
       Some (pcb\<lparr>cwnd := c\<rparr>)
     }"

text \<open>The two loops that free acknowledged segments: the rest of the queue, \<^verbatim>\<open>acked\<close> and \<^verbatim>\<open>snd_queuelen\<close>.\<close>

fun free_acked :: "'h net_env \<Rightarrow> (bytes \<Rightarrow> tcp_seg \<Rightarrow> bool) \<Rightarrow> tcp_seg list \<Rightarrow> u16 \<Rightarrow> u16 \<Rightarrow> 'h net \<Rightarrow>
    ('h net \<times> tcp_seg list \<times> u16 \<times> u16) option" where
  "free_acked E acks [] acked qlen n = Some (n, [], acked, qlen)"
| "free_acked E acks (seg # rest) acked qlen n =
     (if acks (net_mem n) seg then do {
        let acked = (if acked \<noteq> 0 \<and> TCPH_FLAGS (net_mem n) (sg_tcphdr seg) AND TCP_FIN \<noteq> 0 then acked - 1 else acked);
        k \<leftarrow> pbuf_clen (net_ps n) (sg_p seg);
        n \<leftarrow> tcp_seg_free E seg n;
        free_acked E acks rest acked (qlen - ucast k) n
      }
      else Some (n, seg # rest, acked, qlen))"

definition acks_seg :: "u32 \<Rightarrow> bytes \<Rightarrow> tcp_seg \<Rightarrow> bool" where
  "acks_seg ackno m seg \<longleftrightarrow> TCP_SEQ_LEQ (seg_seqno m seg + TCP_TCPLEN m seg) ackno"

definition acks_unsent :: "u32 \<Rightarrow> u32 \<Rightarrow> bytes \<Rightarrow> tcp_seg \<Rightarrow> bool" where
  "acks_unsent ackno nxt m seg \<longleftrightarrow> TCP_SEQ_BETWEEN ackno (seg_seqno m seg + TCP_TCPLEN m seg) nxt"

text \<open>The round-trip time, in 16-bit signed arithmetic.\<close>

definition recv_rtt :: "u32 \<Rightarrow> u32 \<Rightarrow> tcp_pcb \<Rightarrow> tcp_pcb" where
  "recv_rtt ticks ackno pcb =
     (if rttest pcb \<noteq> 0 \<and> TCP_SEQ_LT (rtseq pcb) ackno then
        let m = ucast (ticks - rttest pcb) - signed_drop_bit 3 (t_sa pcb);
            sa = t_sa pcb + m;
            m = (if sint m < 0 then - m else m) - signed_drop_bit 2 (t_sv pcb);
            sv = t_sv pcb + m
        in pcb\<lparr>t_sa := sa, t_sv := sv, t_rto := signed_drop_bit 3 sa + sv, rttest := 0\<rparr>
      else pcb)"

definition tcp_receive_ack :: "'h net_env \<Rightarrow> addr \<Rightarrow> tcp_in \<Rightarrow> 'h net \<Rightarrow> 'h net option" where
  "tcp_receive_ack E a i n =
     do {
       pcb \<leftarrow> tpcb n a;
       let ackno = in_ackno i;
       let right_wnd_edge = ucast (snd_wnd pcb) + snd_wl2 pcb;
       let pcb = recv_window (in_seqno i) ackno (in_wnd (net_mem n) i) pcb;
       (n, pcb) \<leftarrow>
         (if TCP_SEQ_LEQ ackno (lastack pcb) then Some (n, recv_dupack (net_mem n) right_wnd_edge ackno (in_tcplen i) pcb)
          else if TCP_SEQ_BETWEEN ackno (lastack pcb + 1) (snd_nxt pcb) then do {
            pcb \<leftarrow> recv_new_ack ackno pcb;
            (n, rest, acked, qlen) \<leftarrow> free_acked E (acks_seg ackno) (unacked pcb) (t_acked pcb) (snd_queuelen pcb) n;
            Some (n, pcb\<lparr>unacked := rest, t_acked := acked, snd_queuelen := qlen, rtime := (if rest = [] then - 1 else 0), polltmr := 0\<rparr>)
          }
          else Some (n, pcb\<lparr>t_acked := 0\<rparr>));
       (n, rest, acked, qlen) \<leftarrow> free_acked E (acks_unsent ackno (snd_nxt pcb)) (unsent pcb) (t_acked pcb) (snd_queuelen pcb) n;
       let pcb = pcb\<lparr>unsent := rest, t_acked := acked, snd_queuelen := qlen\<rparr>;
       Some (set_tpcb a (recv_rtt (tcp_ticks (net_tcp n)) ackno pcb) n)
     }"

section \<open>Data\<close>

text \<open>The front of the chain that has been received before is cut off: buffers that are skipped become empty.\<close>

partial_function (option) trim_front :: "'h pstate \<Rightarrow> addr \<Rightarrow> nat \<Rightarrow> u16 \<Rightarrow> ('h pstate \<times> addr \<times> nat) option" where
  "trim_front ps p off new_tot_len =
     do {
       pb \<leftarrow> pbufs ps p;
       if unat (pb_len pb) < off
       then trim_front (set_pbuf p (pb\<lparr>pb_tot_len := new_tot_len, pb_len := 0\<rparr>) ps) (pb_next pb) (off - unat (pb_len pb)) new_tot_len
       else Some (ps, p, off)
     }"

definition tcp_trim :: "u32 \<Rightarrow> tcp_in \<Rightarrow> 'h net \<Rightarrow> ('h net \<times> tcp_in) option" where
  "tcp_trim nxt i n =
     do {
       let off = unat (nxt - in_seqno i);
       let seg = inseg i;
       pb \<leftarrow> pbufs (net_ps n) (sg_p seg);
       (ps, p, off) \<leftarrow> trim_front (net_ps n) (sg_p seg) off (pb_tot_len pb - of_nat off);
       (n, _) \<leftarrow> net_header p (- of_nat off) (set_ps ps n);
       let n = set_dmem (mem_write (net_mem n) (sg_tcphdr seg + th_seqno) (le_bytes32 nxt)) n;
       Some (n, i\<lparr>inseg := seg\<lparr>sg_len := sg_len seg - ucast (nxt - in_seqno i)\<rparr>, in_seqno := nxt\<rparr>)
     }"

text \<open>A segment that reaches beyond the receive window is cut at its end; a FIN falls away.\<close>

definition tcp_cut :: "'h net_env \<Rightarrow> u16 \<Rightarrow> tcp_in \<Rightarrow> 'h net \<Rightarrow> ('h net \<times> tcp_in) option" where
  "tcp_cut E wnd i n =
     (let tcplen = ucast (TCP_TCPLEN (net_mem n) (inseg i))
      in if tcplen > wnd then do {
           let hdr = in_hdr i;
           let fl = TCPH_FLAGS (net_mem n) hdr;
           let n = (if fl AND TCP_FIN \<noteq> 0 then set_dmem (TCPH_FLAGS_SET (net_mem n) hdr (fl AND NOT TCP_FIN)) n else n);
           let len = (if TCPH_FLAGS (net_mem n) hdr AND TCP_SYN \<noteq> 0 then wnd - 1 else wnd);
           let seg = (inseg i)\<lparr>sg_len := len\<rparr>;
           ps \<leftarrow> pbuf_realloc (ne_alloc E) (net_ps n) (sg_p seg) len;
           Some (set_ps ps n, i\<lparr>inseg := seg, in_tcplen := ucast (TCP_TCPLEN (net_mem n) seg)\<rparr>)
         }
         else Some (n, i\<lparr>in_tcplen := tcplen\<rparr>))"

definition tcp_receive_insequence :: "'h net_env \<Rightarrow> addr \<Rightarrow> tcp_in \<Rightarrow> 'h net \<Rightarrow> ('h net \<times> tcp_in) option" where
  "tcp_receive_insequence E a i n =
     do {
       pcb \<leftarrow> tpcb n a;
       (n, i) \<leftarrow> tcp_cut E (rcv_wnd pcb) i n;
       let pcb = fst (tcp_update_rcv_ann_wnd (pcb\<lparr>rcv_nxt := in_seqno i + ucast (in_tcplen i), rcv_wnd := rcv_wnd pcb - in_tcplen i\<rparr>));
       pb \<leftarrow> pbufs (net_ps n) (sg_p (inseg i));
       let i = (if pb_tot_len pb > 0 then i\<lparr>recv_data := sg_p (inseg i), inseg := (inseg i)\<lparr>sg_p := NULL\<rparr>\<rparr> else i);
       let i = (if TCPH_FLAGS (net_mem n) (in_hdr i) AND TCP_FIN \<noteq> 0 then i\<lparr>recv_flags := recv_flags i OR TF_GOT_FIN\<rparr> else i);
       Some (set_tpcb a (tcp_ack pcb) n, i)
     }"

definition tcp_receive_data :: "'h net_env \<Rightarrow> addr \<Rightarrow> tcp_in \<Rightarrow> 'h net \<Rightarrow> ('h net \<times> tcp_in) option" where
  "tcp_receive_data E a i n =
     do {
       pcb \<leftarrow> tpcb n a;
       let nxt = rcv_nxt pcb;
       (n, i) \<leftarrow> (if TCP_SEQ_BETWEEN nxt (in_seqno i + 1) (in_seqno i + ucast (in_tcplen i) - 1) then tcp_trim nxt i n
                  else if TCP_SEQ_LT (in_seqno i) nxt then Some (set_tpcb a (tcp_ack_now pcb) n, i)
                  else Some (n, i));
       if TCP_SEQ_BETWEEN (in_seqno i) nxt (nxt + ucast (rcv_wnd pcb) - 1) \<and> nxt = in_seqno i
       then tcp_receive_insequence E a i n
       else do { (n, _) \<leftarrow> tcp_send_empty_ack E a n; Some (n, i) }
     }"

definition tcp_receive :: "'h net_env \<Rightarrow> addr \<Rightarrow> tcp_in \<Rightarrow> 'h net \<Rightarrow> ('h net \<times> tcp_in) option" where
  "tcp_receive E a i n =
     do {
       n \<leftarrow> (if has_flag TCP_ACK i then tcp_receive_ack E a i n else Some n);
       if in_tcplen i > 0 then tcp_receive_data E a i n
       else do {
         pcb \<leftarrow> tpcb n a;
         Some (if \<not> TCP_SEQ_BETWEEN (in_seqno i) (rcv_nxt pcb) (rcv_nxt pcb + ucast (rcv_wnd pcb) - 1) then set_tpcb a (tcp_ack_now pcb) n else n, i)
       }
     }"


section \<open>The state machine\<close>

definition tcp_event_accept :: "'h net_env \<Rightarrow> addr \<Rightarrow> err_t \<Rightarrow> 'h net \<Rightarrow> ('h net \<times> err_t) option" where
  "tcp_event_accept E a err n =
     do {
       pcb \<leftarrow> tpcb n a;
       case t_accept pcb of
         None \<Rightarrow> Some (n, ERR_ARG)
       | Some Tcp_accept_null \<Rightarrow> Some (n, ERR_ABRT)
       | Some (Accept_app f) \<Rightarrow> ne_tcp_event E f (t_callback_arg pcb) a (Ev_accept err) n
     }"

definition rst_acceptable :: "tcp_in \<Rightarrow> tcp_pcb \<Rightarrow> bool" where
  "rst_acceptable i pcb =
     (if t_state pcb = SYN_SENT then in_ackno i = snd_nxt pcb
      else TCP_SEQ_BETWEEN (in_seqno i) (rcv_nxt pcb) (rcv_nxt pcb + ucast (rcv_wnd pcb)))"

definition first_cwnd :: "u16 \<Rightarrow> u16 \<Rightarrow> u16" where
  "first_cwnd old mss = (if old = 1 then mss * 2 else mss)"

definition process_syn_sent :: "'h net_env \<Rightarrow> addr \<Rightarrow> tcp_in \<Rightarrow> 'h net \<Rightarrow> ('h net \<times> tcp_in \<times> err_t) option" where
  "process_syn_sent E a i n =
     do {
       pcb \<leftarrow> tpcb n a;
       if has_flag TCP_ACK i \<and> has_flag TCP_SYN i then
         case unacked pcb of
           [] \<Rightarrow> None
         | rseg # rest \<Rightarrow>
             if in_ackno i = seg_seqno (net_mem n) rseg + 1 then do {
               let mss = tcp_eff_send_mss (t_mss pcb) (t_remote_ip pcb) n;
               let pcb = pcb\<lparr>snd_buf := snd_buf pcb + 1, rcv_nxt := in_seqno i + 1, rcv_ann_right_edge := in_seqno i + 1, lastack := in_ackno i,
                             snd_wnd := in_wnd (net_mem n) i, snd_wl1 := in_seqno i - 1, t_state := ESTABLISHED, t_mss := mss,
                             ssthresh := mss * 10, cwnd := first_cwnd (cwnd pcb) mss, snd_queuelen := snd_queuelen pcb - 1, unacked := rest\<rparr>;
               let pcb = (if rest = [] then pcb\<lparr>rtime := - 1\<rparr> else pcb\<lparr>rtime := 0, nrtx := 0\<rparr>);
               n \<leftarrow> tcp_seg_free E rseg (set_tpcb a pcb n);
               (n, err) \<leftarrow> tcp_event E t_connected a (Ev_connected ERR_OK) n;
               if err = ERR_ABRT then Some (n, i, ERR_ABRT)
               else do { n \<leftarrow> upd_tpcb a tcp_ack_now n; Some (n, i, ERR_OK) }
             }
             else do { n \<leftarrow> tcp_in_rst E (in_ackno i) i n; Some (n, i, ERR_OK) }
       else if has_flag TCP_ACK i then do { n \<leftarrow> tcp_in_rst E (in_ackno i) i n; Some (n, i, ERR_OK) }
       else Some (n, i, ERR_OK)
     }"

text \<open>After \<^verbatim>\<open>tcp_receive\<close>: a FIN closes the other direction.\<close>

definition fin_close_wait :: "addr \<Rightarrow> tcp_in \<Rightarrow> 'h net \<Rightarrow> 'h net option" where
  "fin_close_wait a i n =
     (if recv_flags i AND TF_GOT_FIN \<noteq> 0 then upd_tpcb a (\<lambda>pcb. (tcp_ack_now pcb)\<lparr>t_state := CLOSE_WAIT\<rparr>) n else Some n)"

definition process_syn_rcvd :: "'h net_env \<Rightarrow> addr \<Rightarrow> tcp_in \<Rightarrow> 'h net \<Rightarrow> ('h net \<times> tcp_in \<times> err_t) option" where
  "process_syn_rcvd E a i n =
     do {
       pcb \<leftarrow> tpcb n a;
       if has_flag TCP_ACK i then
         if TCP_SEQ_BETWEEN (in_ackno i) (lastack pcb + 1) (snd_nxt pcb) then do {
           (n, err) \<leftarrow> tcp_event_accept E a ERR_OK (set_tpcb a (pcb\<lparr>t_state := ESTABLISHED\<rparr>) n);
           if err \<noteq> ERR_OK then do {
             n \<leftarrow> (if err \<noteq> ERR_ABRT then tcp_abort E a n else Some n);
             Some (n, i, ERR_ABRT)
           }
           else do {
             pcb \<leftarrow> tpcb n a;
             let old_cwnd = cwnd pcb;
             (n, i) \<leftarrow> tcp_receive E a i n;
             n \<leftarrow> upd_tpcb a (\<lambda>pcb. pcb\<lparr>t_acked := (if t_acked pcb \<noteq> 0 then t_acked pcb - 1 else t_acked pcb),
                                       cwnd := first_cwnd old_cwnd (t_mss pcb)\<rparr>) n;
             n \<leftarrow> fin_close_wait a i n;
             Some (n, i, ERR_OK)
           }
         }
         else do { n \<leftarrow> tcp_in_rst E (in_ackno i) i n; Some (n, i, ERR_OK) }
       else if has_flag TCP_SYN i \<and> in_seqno i = rcv_nxt pcb - 1
       then Some (set_tpcb a (tcp_rexmit (net_mem n) pcb) n, i, ERR_OK)
       else Some (n, i, ERR_OK)
     }"

definition enter_timewait :: "'h net_env \<Rightarrow> addr \<Rightarrow> 'h net \<Rightarrow> 'h net option" where
  "enter_timewait E a n = do { n \<leftarrow> tcp_pcb_purge E a n; tcp_to_timewait a n }"

text \<open>The states after the connection is established, once \<^verbatim>\<open>tcp_receive\<close> has returned.\<close>

definition process_synchronized :: "'h net_env \<Rightarrow> addr \<Rightarrow> tcp_in \<Rightarrow> 'h net \<Rightarrow> ('h net \<times> tcp_in) option" where
  "process_synchronized E a i n =
     do {
       pcb \<leftarrow> tpcb n a;
       let got_fin = (recv_flags i AND TF_GOT_FIN \<noteq> 0);
       let acks_all = (has_flag TCP_ACK i \<and> in_ackno i = snd_nxt pcb);
       case t_state pcb of
         FIN_WAIT_1 \<Rightarrow>
           if got_fin then
             if acks_all then do { n \<leftarrow> enter_timewait E a (set_tpcb a (tcp_ack_now pcb) n); Some (n, i) }
             else Some (set_tpcb a ((tcp_ack_now pcb)\<lparr>t_state := CLOSING\<rparr>) n, i)
           else if acks_all then Some (set_tpcb a (pcb\<lparr>t_state := FIN_WAIT_2\<rparr>) n, i)
           else Some (n, i)
       | FIN_WAIT_2 \<Rightarrow>
           if got_fin then do { n \<leftarrow> enter_timewait E a (set_tpcb a (tcp_ack_now pcb) n); Some (n, i) } else Some (n, i)
       | CLOSING \<Rightarrow> if acks_all then do { n \<leftarrow> enter_timewait E a n; Some (n, i) } else Some (n, i)
       | LAST_ACK \<Rightarrow> Some (n, if acks_all then i\<lparr>recv_flags := recv_flags i OR TF_CLOSED\<rparr> else i)
       | _ \<Rightarrow> do { n \<leftarrow> fin_close_wait a i n; Some (n, i) }
     }"

definition tcp_process :: "'h net_env \<Rightarrow> addr \<Rightarrow> tcp_in \<Rightarrow> 'h net \<Rightarrow> ('h net \<times> tcp_in \<times> err_t) option" where
  "tcp_process E a i n =
     do {
       pcb \<leftarrow> tpcb n a;
       if has_flag TCP_RST i then
         if rst_acceptable i pcb
         then Some (set_tpcb a (clear_flag TF_ACK_DELAY pcb) n, i\<lparr>recv_flags := recv_flags i OR TF_RESET\<rparr>, ERR_RST)
         else Some (n, i, ERR_OK)
       else if has_flag TCP_SYN i \<and> t_state pcb \<noteq> SYN_SENT \<and> t_state pcb \<noteq> SYN_RCVD
       then Some (set_tpcb a (tcp_ack_now pcb) n, i, ERR_OK)
       else do {
         let pcb = (if t_flags pcb AND TF_RXCLOSED = 0 then pcb\<lparr>t_tmr := tcp_ticks (net_tcp n)\<rparr> else pcb);
         let n = set_tpcb a (tcp_parseopt (net_mem n) (in_hdr i) (pcb\<lparr>keep_cnt_sent := 0\<rparr>)) n;
         case t_state pcb of
           SYN_SENT \<Rightarrow> process_syn_sent E a i n
         | SYN_RCVD \<Rightarrow> process_syn_rcvd E a i n
         | CLOSED \<Rightarrow> Some (n, i, ERR_OK)
         | LISTEN \<Rightarrow> Some (n, i, ERR_OK)
         | TIME_WAIT \<Rightarrow> Some (n, i, ERR_OK)
         | _ \<Rightarrow> do { (n, i) \<leftarrow> tcp_receive E a i n; (n, i) \<leftarrow> process_synchronized E a i n; Some (n, i, ERR_OK) }
       }
     }"

section \<open>Listening and closed connections\<close>

definition tcp_listen_input :: "'h net_env \<Rightarrow> addr \<Rightarrow> tcp_in \<Rightarrow> 'h net \<Rightarrow> ('h net \<times> err_t) option" where
  "tcp_listen_input E l i n =
     (if has_flag TCP_ACK i then do { n \<leftarrow> tcp_in_rst E (in_ackno i + 1) i n; Some (n, ERR_OK) }
      else if has_flag TCP_SYN i then do {
        lpcb \<leftarrow> tcp_lpcbs (net_tcp n) l;
        (n, a) \<leftarrow> tcp_alloc E (l_prio lpcb) n;
        if a = NULL then Some (n, ERR_MEM)
        else do {
          lpcb \<leftarrow> tcp_lpcbs (net_tcp n) l;
          n \<leftarrow> upd_tpcb a (\<lambda>npcb. npcb\<lparr>t_local_ip := current_iphdr_dest n, t_local_port := l_local_port lpcb, t_remote_ip := current_iphdr_src n,
                 t_remote_port := in_src (net_mem n) i, t_state := SYN_RCVD, rcv_nxt := in_seqno i + 1, rcv_ann_right_edge := in_seqno i + 1,
                 snd_wnd := in_wnd (net_mem n) i, ssthresh := in_wnd (net_mem n) i, snd_wl1 := in_seqno i - 1,
                 t_callback_arg := l_callback_arg lpcb, t_accept := l_accept lpcb, t_so_options := l_so_options lpcb AND SOF_INHERITED\<rparr>) n;
          n \<leftarrow> TCP_REG Active_pcbs a n;
          pcb \<leftarrow> tpcb n a;
          let pcb = tcp_parseopt (net_mem n) (in_hdr i) pcb;
          let n = set_tpcb a (pcb\<lparr>t_mss := tcp_eff_send_mss (t_mss pcb) (t_remote_ip pcb) n\<rparr>) n;
          (n, rc) \<leftarrow> tcp_enqueue_flags E a (TCP_SYN OR TCP_ACK) n;
          if rc \<noteq> ERR_OK then do { n \<leftarrow> tcp_abandon E a False n; Some (n, rc) }
          else tcp_output E a n
        }
      }
      else Some (n, ERR_OK))"

definition tcp_timewait_input :: "'h net_env \<Rightarrow> addr \<Rightarrow> tcp_in \<Rightarrow> 'h net \<Rightarrow> ('h net \<times> err_t) option" where
  "tcp_timewait_input E a i n =
     (if has_flag TCP_RST i then Some (n, ERR_OK)
      else do {
        pcb \<leftarrow> tpcb n a;
        if has_flag TCP_SYN i \<and> TCP_SEQ_BETWEEN (in_seqno i) (rcv_nxt pcb) (rcv_nxt pcb + ucast (rcv_wnd pcb))
        then do { n \<leftarrow> tcp_in_rst E (in_ackno i) i n; Some (n, ERR_OK) }
        else do {
          let pcb = (if \<not> has_flag TCP_SYN i \<and> has_flag TCP_FIN i then pcb\<lparr>t_tmr := tcp_ticks (net_tcp n)\<rparr> else pcb);
          if in_tcplen i > 0 then tcp_output E a (set_tpcb a (set_flag TF_ACK_NOW pcb) n)
          else Some (set_tpcb a pcb n, ERR_OK)
        }
      })"

section \<open>Input\<close>

text \<open>The search for a connection among the blocks of a list, and for a listening block.\<close>

fun find_conn :: "tcp \<Rightarrow> ip_addr \<Rightarrow> u16 \<Rightarrow> ip_addr \<Rightarrow> u16 \<Rightarrow> addr list \<Rightarrow> addr option option" where
  "find_conn t rip rport lip lport [] = Some None"
| "find_conn t rip rport lip lport (a # as) =
     do {
       pcb \<leftarrow> tcp_pcbs t a;
       if t_remote_port pcb = rport \<and> t_local_port pcb = lport \<and> t_remote_ip pcb = rip \<and> t_local_ip pcb = lip then Some (Some a)
       else find_conn t rip rport lip lport as
     }"

fun find_listen :: "tcp \<Rightarrow> ip_addr \<Rightarrow> u16 \<Rightarrow> addr list \<Rightarrow> addr option option" where
  "find_listen t lip lport [] = Some None"
| "find_listen t lip lport (a # as) =
     do {
       l \<leftarrow> tcp_lpcbs t a;
       if l_local_port l = lport \<and> (l_local_ip l = lip \<or> l_local_ip l = IPADDR_ANY) then Some (Some a)
       else find_listen t lip lport as
     }"

definition to_front :: "pcb_list \<Rightarrow> addr \<Rightarrow> 'h net \<Rightarrow> 'h net" where
  "to_front l a n = n\<lparr>net_tcp := map_pcbs (\<lambda>k xs. if k = l then a # remove1 a xs else xs) (net_tcp n)\<rparr>"

definition set_input_pcb :: "addr \<Rightarrow> 'h net \<Rightarrow> 'h net" where
  "set_input_pcb a n = n\<lparr>net_tcp := (net_tcp n)\<lparr>tcp_input_pcb := a\<rparr>\<rparr>"

text \<open>What the application is told after \<^verbatim>\<open>tcp_process\<close>; the flag says that a function of it has aborted the connection.\<close>

definition notify_sent :: "'h net_env \<Rightarrow> addr \<Rightarrow> 'h net \<Rightarrow> ('h net \<times> bool) option" where
  "notify_sent E a n =
     do {
       pcb \<leftarrow> tpcb n a;
       if t_acked pcb > 0 then do { (n, err) \<leftarrow> tcp_event E t_sent a (Ev_sent (t_acked pcb)) n; Some (n, err = ERR_ABRT) }
       else Some (n, False)
     }"

definition notify_recv :: "'h net_env \<Rightarrow> addr \<Rightarrow> tcp_in \<Rightarrow> 'h net \<Rightarrow> ('h net \<times> bool) option" where
  "notify_recv E a i n =
     (if recv_data i \<noteq> NULL then do {
        pcb \<leftarrow> tpcb n a;
        if t_flags pcb AND TF_RXCLOSED \<noteq> 0 then do { n \<leftarrow> net_free E (recv_data i) n; n \<leftarrow> tcp_abort E a n; Some (n, True) }
        else do {
          pb \<leftarrow> pbufs (net_ps n) (recv_data i);
          let n = (if has_flag TCP_PSH i then set_ps (set_pbuf (recv_data i) (pb\<lparr>pb_flags := pb_flags pb OR PBUF_FLAG_PUSH\<rparr>) (net_ps n)) n else n);
          (n, err) \<leftarrow> tcp_event_recv E a (recv_data i) ERR_OK n;
          if err = ERR_ABRT then Some (n, True)
          else if err \<noteq> ERR_OK then do { n \<leftarrow> upd_tpcb a (\<lambda>pcb. pcb\<lparr>refused_data := recv_data i\<rparr>) n; Some (n, False) }
          else Some (n, False)
        }
      }
      else Some (n, False))"

definition notify_fin :: "'h net_env \<Rightarrow> addr \<Rightarrow> tcp_in \<Rightarrow> 'h net \<Rightarrow> ('h net \<times> bool) option" where
  "notify_fin E a i n =
     (if recv_flags i AND TF_GOT_FIN \<noteq> 0 then do {
        n \<leftarrow> upd_tpcb a (\<lambda>pcb. if rcv_wnd pcb \<noteq> TCP_WND then pcb\<lparr>rcv_wnd := rcv_wnd pcb + 1\<rparr> else pcb) n;
        (n, err) \<leftarrow> tcp_event_closed E a n;
        Some (n, err = ERR_ABRT)
      }
      else Some (n, False))"

definition tcp_notify :: "'h net_env \<Rightarrow> addr \<Rightarrow> tcp_in \<Rightarrow> 'h net \<Rightarrow> 'h net option" where
  "tcp_notify E a i n =
     do {
       (n, aborted) \<leftarrow> notify_sent E a n;
       if aborted then Some n
       else do {
         (n, aborted) \<leftarrow> notify_recv E a i n;
         if aborted then Some n
         else do {
           (n, aborted) \<leftarrow> notify_fin E a i n;
           if aborted then Some n
           else do { (n, _) \<leftarrow> tcp_output E a (set_input_pcb NULL n); Some n }
         }
       }
     }"

definition tcp_after_process :: "'h net_env \<Rightarrow> addr \<Rightarrow> tcp_in \<Rightarrow> 'h net \<Rightarrow> 'h net option" where
  "tcp_after_process E a i n =
     (if recv_flags i AND TF_RESET \<noteq> 0 then do {
        pcb \<leftarrow> tpcb n a;
        n \<leftarrow> tcp_event_err E (t_errf pcb) (t_callback_arg pcb) ERR_RST n;
        n \<leftarrow> tcp_pcb_remove E Active_pcbs a n;
        Some (free_tpcb E a n)
      }
      else if recv_flags i AND TF_CLOSED \<noteq> 0 then do { n \<leftarrow> tcp_pcb_remove E Active_pcbs a n; Some (free_tpcb E a n) }
      else tcp_notify E a i n)"

text \<open>A segment for a connection: refused data is offered again first.\<close>

definition tcp_input_conn :: "'h net_env \<Rightarrow> addr \<Rightarrow> tcp_in \<Rightarrow> 'h net \<Rightarrow> 'h net option" where
  "tcp_input_conn E a i n =
     do {
       pcb \<leftarrow> tpcb n a;
       (n, dropped) \<leftarrow> (if refused_data pcb \<noteq> NULL then do {
                         (n, err) \<leftarrow> tcp_event_recv E a (refused_data pcb) ERR_OK n;
                         if err = ERR_OK then do { n \<leftarrow> upd_tpcb a (\<lambda>pcb. pcb\<lparr>refused_data := NULL\<rparr>) n; Some (n, False) }
                         else Some (n, err = ERR_ABRT \<or> in_tcplen i > 0)
                       }
                       else Some (n, False));
       if dropped then net_free E (sg_p (inseg i)) n
       else do {
         (n, i, err) \<leftarrow> tcp_process E a i (set_input_pcb a n);
         n \<leftarrow> (if err \<noteq> ERR_ABRT then tcp_after_process E a i n else Some n);
         let n = set_input_pcb NULL n;
         if sg_p (inseg i) \<noteq> NULL then net_free E (sg_p (inseg i)) n else Some n
       }
     }"

text \<open>The header is converted in place.\<close>

definition tcp_hdr_to_host :: "addr \<Rightarrow> bytes \<Rightarrow> bytes" where
  "tcp_hdr_to_host hdr m =
     (let m = mem_write m (hdr + th_src) (le_bytes16 (lwip_ntohs (load16 m (hdr + th_src))));
          m = mem_write m (hdr + th_dest) (le_bytes16 (lwip_ntohs (load16 m (hdr + th_dest))));
          m = mem_write m (hdr + th_seqno) (le_bytes32 (lwip_ntohl (load32 m (hdr + th_seqno))));
          m = mem_write m (hdr + th_ackno) (le_bytes32 (lwip_ntohl (load32 m (hdr + th_ackno))))
      in mem_write m (hdr + th_wnd) (le_bytes16 (lwip_ntohs (load16 m (hdr + th_wnd)))))"

definition tcp_demux :: "'h net_env \<Rightarrow> addr \<Rightarrow> tcp_in \<Rightarrow> 'h net \<Rightarrow> 'h net option" where
  "tcp_demux E p i n =
     do {
       let t = net_tcp n;
       let src = in_src (net_mem n) i;
       let dest = in_dest (net_mem n) i;
       active \<leftarrow> find_conn t (current_iphdr_src n) src (current_iphdr_dest n) dest (tcp_active_pcbs t);
       case active of
         Some a \<Rightarrow> tcp_input_conn E a i (to_front Active_pcbs a n)
       | None \<Rightarrow> do {
           tw \<leftarrow> find_conn t (current_iphdr_src n) src (current_iphdr_dest n) dest (tcp_tw_pcbs t);
           case tw of
             Some a \<Rightarrow> do { (n, _) \<leftarrow> tcp_timewait_input E a i n; net_free E p n }
           | None \<Rightarrow> do {
               listening \<leftarrow> find_listen t (current_iphdr_dest n) dest (tcp_listen_pcbs t);
               case listening of
                 Some a \<Rightarrow> do {
                   (n, _) \<leftarrow> tcp_listen_input E a i (to_front Listen_pcbs a n);
                   net_free E p n
                 }
               | None \<Rightarrow> do {
                   n \<leftarrow> (if TCPH_FLAGS (net_mem n) (in_hdr i) AND TCP_RST = 0 then tcp_in_rst E (in_ackno i) i n else Some n);
                   net_free E p n
                 }
             }
         }
     }"

definition tcp_input :: "'h net_env \<Rightarrow> addr \<Rightarrow> nat \<Rightarrow> 'h net \<Rightarrow> 'h net option" where
  "tcp_input E p inp n =
     do {
       pb \<leftarrow> pbufs (net_ps n) p;
       let hlen = IPH_HL (net_mem n) (pb_payload pb) * 4;
       let hdr = pb_payload pb + unat hlen;
       (n, fail) \<leftarrow> net_header p (- hlen) n;
       pb \<leftarrow> pbufs (net_ps n) p;
       if fail \<or> pb_tot_len pb < TCP_HLEN then net_free E p n
       else if ip4_addr_isbroadcast (current_iphdr_dest n) (netif_list n ! inp) \<or> ip_addr_ismulticast (current_iphdr_dest n) then net_free E p n
       else do {
         bufs \<leftarrow> chain_bufs (pbufs (net_ps n)) (net_mem n) p;
         if inet_chksum_pseudo LWIP_CHKSUM bufs (current_iphdr_src n) (current_iphdr_dest n) IP_PROTO_TCP (pb_tot_len pb) \<noteq> 0 then net_free E p n
         else do {
           (n, fail) \<leftarrow> net_header p (- (TCPH_HDRLEN (net_mem n) hdr * 4)) n;
           if fail then net_free E p n
           else do {
             pb \<leftarrow> pbufs (net_ps n) p;
             let n = set_dmem (tcp_hdr_to_host hdr (net_mem n)) n;
             let m = net_mem n;
             let fl = TCPH_FLAGS m hdr;
             let i = \<lparr>inseg = \<lparr>sg_addr = NULL, sg_p = p, sg_len = pb_tot_len pb, sg_chksum = 0, sg_chksum_swapped = False, sg_flags = 0, sg_tcphdr = hdr\<rparr>,
                      in_seqno = load32 m (hdr + th_seqno), in_ackno = load32 m (hdr + th_ackno), in_flags = fl,
                      in_tcplen = pb_tot_len pb + (if fl AND (TCP_FIN OR TCP_SYN) \<noteq> 0 then 1 else 0), recv_flags = 0, recv_data = NULL\<rparr>;
             tcp_demux E p i n
           }
         }
       }
     }"


end
