(* ===== verification/Ip_Input.thy ===== *)
theory Ip_Input
  imports Igmp Tcp_In
begin

text \<open>
  The input function of the Internet layer, \<^verbatim>\<open>ip_input\<close> of \<^verbatim>\<open>core/ipv4/ip.c\<close>, on top of UDP, TCP, ICMP, IGMP and raw sockets.  In this
  configuration there is no reassembly, no forwarding and no AutoIP, options are allowed, and packets to the
  DHCP client port are accepted whatever their address.
  Raw sockets are off on the board (\<^verbatim>\<open>LWIP_RAW\<close> is 0); the call of \<open>raw_input\<close> is in the model and changes nothing while
  there is no raw control block.
  The globals \<^verbatim>\<open>current_netif\<close> and \<^verbatim>\<open>current_header\<close> are left out: nothing in these files reads them.
\<close>

definition IP_FORWARD :: bool where "IP_FORWARD = False"

text \<open>One turn of the loop over the interfaces: up, configured, and the packet for its address or a broadcast.\<close>

definition ip_accept :: "ip_addr \<Rightarrow> netif \<Rightarrow> bool" where
  "ip_accept dest netif \<longleftrightarrow> netif_is_up netif \<and> netif_ip_addr netif \<noteq> IPADDR_ANY
     \<and> (dest = netif_ip_addr netif \<or> ip4_addr_isbroadcast dest netif)"

text \<open>The interface a packet is for; the one it came in on is tried first.\<close>

definition ip_input_netif :: "nat \<Rightarrow> 'h net \<Rightarrow> nat option option" where
  "ip_input_netif inp n =
     (let dest = current_iphdr_dest n
      in if ip_addr_ismulticast dest then
           if netif_flags (netif_list n ! inp) AND NETIF_FLAG_IGMP \<noteq> 0 then do {
             g \<leftarrow> igmp_lookfor_group inp dest n;
             Some (if g \<noteq> NULL then Some inp else None)
           }
           else Some None
         else Some (find (\<lambda>i. ip_accept dest (netif_list n ! i)) (inp # filter (\<lambda>i. i \<noteq> inp) [0..<length (netif_list n)])))"

text \<open>The switch over the protocol.\<close>

definition ip_deliver :: "'h net_env \<Rightarrow> addr \<Rightarrow> nat \<Rightarrow> addr \<Rightarrow> 'h net \<Rightarrow> 'h net option" where
  "ip_deliver E p inp iphdr n =
     (let proto = dmem (net_ps n) (iphdr + ih_proto)
      in if proto = IP_PROTO_UDP then udp_input E p inp n
         else if proto = IP_PROTO_TCP then tcp_input E p inp n
         else if proto = IP_PROTO_ICMP then icmp_input E p inp n
         else if proto = IP_PROTO_IGMP then igmp_input E p inp (current_iphdr_dest n) n
         else do {
           n \<leftarrow> (if \<not> ip4_addr_isbroadcast (current_iphdr_dest n) (netif_list n ! inp) \<and> \<not> ip_addr_ismulticast (current_iphdr_dest n)
                 then do {
                   pb \<leftarrow> pbufs (net_ps n) p;
                   icmp_dest_unreach E p ICMP_DUR_PROTO (set_ps (set_pbuf p (pb\<lparr>pb_payload := iphdr\<rparr>) (net_ps n)) n)
                 }
                 else Some n);
           net_free E p n
         })"

text \<open>The part after the header has been found good: addresses, fragments, delivery.\<close>

definition ip_dispatch :: "'h net_env \<Rightarrow> addr \<Rightarrow> nat \<Rightarrow> addr \<Rightarrow> u16 \<Rightarrow> 'h net \<Rightarrow> 'h net option" where
  "ip_dispatch E p inp iphdr iphdr_hlen n =
     do {
       let m = dmem (net_ps n);
       netif \<leftarrow> ip_input_netif inp n;
       let link = netif = None \<and> m (iphdr + ih_proto) = IP_PROTO_UDP
              \<and> load16 m (iphdr + unat iphdr_hlen + uh_dest) = lwip_ntohs DHCP_CLIENT_PORT;
       let netif = (if link then Some inp else netif);
       let src = current_iphdr_src n;
       if \<not> link \<and> src \<noteq> IPADDR_ANY
          \<and> (ip4_addr_isbroadcast src (netif_list n ! inp) \<or> ip_addr_ismulticast src)
       then net_free E p n
       else if netif = None then do {
         n \<leftarrow> (if IP_FORWARD \<and> \<not> ip4_addr_isbroadcast (current_iphdr_dest n) (netif_list n ! inp)
               then ip_forward E (\<lambda>p. icmp_time_exceeded E p ICMP_TE_TTL) p iphdr inp n else Some n);
         net_free E p n
       }
       else if load16 m (iphdr + ih_offset) AND lwip_htons (IP_OFFMASK OR IP_MF) \<noteq> 0 then net_free E p n
       else do {
         (n, eaten) \<leftarrow> raw_input E p inp n;
         n \<leftarrow> (if eaten then Some n else ip_deliver E p inp iphdr n);
         Some (n\<lparr>current_iphdr_src := IPADDR_ANY, current_iphdr_dest := IPADDR_ANY\<rparr>)
       }
     }"

definition ip_input :: "'h net_env \<Rightarrow> addr \<Rightarrow> nat \<Rightarrow> 'h net \<Rightarrow> ('h net \<times> err_t) option" where
  "ip_input E p inp n =
     do {
       pb \<leftarrow> pbufs (net_ps n) p;
       let iphdr = pb_payload pb;
       let m = dmem (net_ps n);
       n \<leftarrow> (if IPH_V m iphdr \<noteq> 4 then net_free E p n
             else do {
               let iphdr_hlen = IPH_HL m iphdr * 4;
               let iphdr_len = lwip_ntohs (load16 m (iphdr + ih_len));
               if iphdr_hlen > pb_len pb \<or> iphdr_len > pb_tot_len pb then net_free E p n
               else if inet_chksum LWIP_CHKSUM iphdr (mem_read m iphdr (unat iphdr_hlen)) \<noteq> 0 then net_free E p n
               else do {
                 ps \<leftarrow> pbuf_realloc (ne_alloc E) (net_ps n) p iphdr_len;
                 let n = (set_ps ps n)\<lparr>current_iphdr_dest := load32 (dmem ps) (iphdr + ih_dest),
                                        current_iphdr_src := load32 (dmem ps) (iphdr + ih_src)\<rparr>;
                 ip_dispatch E p inp iphdr iphdr_hlen n
               }
             });
       Some (n, ERR_OK)
     }"

end
