(* ===== verification/Datagram.thy ===== *)
theory Datagram
  imports Ip_Input
begin

text \<open>
  A UDP datagram from the sender's control block to the receiver's: the modules \<open>Udp\<close>, \<open>Ip\<close> and \<open>Ip_Input\<close>
  composed.  The link between the two machines is left open: what is assumed of it is that the octets
  handed to it are those that arrive.
\<close>

definition udp_header :: "u16 \<Rightarrow> u16 \<Rightarrow> u16 \<Rightarrow> u16 \<Rightarrow> u8 list" where
  "udp_header src dest len ck =
     le_bytes16 (lwip_htons src) @ le_bytes16 (lwip_htons dest) @ le_bytes16 (lwip_htons len) @ le_bytes16 ck"

lemmas uh_offsets = uh_src_def uh_dest_def uh_len_def uh_chksum_def

lemma length_udp_header [simp]: "length (udp_header src dest len ck) = 8"
  by (simp add: udp_header_def)

lemma set_pcb_net [simp]: "netif_list (set_ps ps n) = netif_list n" "netif_list (set_dmem m n) = netif_list n"
  "pcbs (set_dmem m n) = pcbs n"
  by (simp_all add: set_ps_def set_dmem_def)

section \<open>The sender\<close>

lemma udp_transmit_packet:
  assumes pb: "pbufs (net_ps n) q = Some qb" "q \<noteq> NULL" "pb_next qb = NULL" "pb_tot_len qb = pb_len qb" "8 \<le> unat (pb_len qb)"
    and hdr: "mem_read (dmem (net_ps n)) (pb_payload qb) 4 = le_bytes16 (lwip_htons sport) @ le_bytes16 (lwip_htons dport)"
      "mem_read (dmem (net_ps n)) (pb_payload qb + 6) 2 = [0, 0]"
  shows "\<exists>m ck. udp_transmit E pcb q src dst netif False 0 n = ip_output_if E q src (Some dst) (pcb_ttl pcb) (pcb_tos pcb) IP_PROTO_UDP netif (set_dmem m n) \<and>
    mem_read m (pb_payload qb) 8 = udp_header sport dport (pb_len qb) ck \<and>
    (\<forall>b. b < pb_payload qb \<or> pb_payload qb + 8 \<le> b \<longrightarrow> m b = dmem (net_ps n) b) \<and>
    (ck = 0 \<or> (\<forall>a. inet_chksum_pseudo LWIP_CHKSUM [(a, mem_read m (pb_payload qb) (unat (pb_len qb)))] src dst IP_PROTO_UDP (pb_len qb) = 0))"
proof -
  define u where "u = pb_payload qb"
  define len where "len = unat (pb_len qb)"
  define m1 where "m1 = mem_write (dmem (net_ps n)) (u + 4) (le_bytes16 (lwip_htons (pb_len qb)))"
  define ck where "ck = (if pcb_flags pcb AND UDP_FLAGS_NOCHKSUM = 0 then udp_chksum [(u, mem_read m1 u len)] src dst (pb_len qb) False 0 else 0)"
  define m where "m = mem_write m1 (u + 6) (le_bytes16 ck)"
  have "m1 (u + 6) = 0" "m1 (u + 7) = 0"
    using hdr(2) nth_mem_read [of 0 2 "dmem (net_ps n)" "u + 6"] nth_mem_read [of 1 2 "dmem (net_ps n)" "u + 6"]
    by (simp_all add: add.commute m1_def u_def mem_write_other del: mem_write.simps nth_mem_read)
  then have zero: "m = m1" if "ck = 0"
    using that by (auto simp: m_def le_bytes16_def fun_eq_iff numeral_eq_Suc)
  define xs ys where "xs = mem_read m1 u 6" and "ys = mem_read m1 (u + 8) (len - 8)"
  have split: "mem_read w u len = mem_read w u 6 @ mem_read w (u + 6) 2 @ mem_read w (u + 8) (len - 8)" for w
  proof -
    obtain k where "len = 6 + (2 + k)"
      using pb(5) le_Suc_ex [of 8 len] by (auto simp: len_def)
    then show ?thesis
      using mem_read_add [of w u 6 "2 + k"] mem_read_add [of w "u + 6" 2 k] by (simp add: add.commute del: add_2_eq_Suc add_2_eq_Suc')
  qed
  have m1: "mem_read m1 u len = xs @ [0, 0] @ ys" and m: "mem_read m u len = xs @ le_bytes16 ck @ ys"
    using hdr(2) by (simp_all add: split xs_def ys_def m_def mem_read_same mem_read_write_other del: mem_write.simps)
      (simp add: m1_def u_def mem_read_write_other del: mem_write.simps)
  have len: "len < 65536" "length (mem_read m1 u len) = len"
    using unat_u16_lt [of "pb_len qb"] by (simp_all add: len_def)
  have ok: "ck = 0 \<or> inet_chksum_pseudo LWIP_CHKSUM [(a, mem_read m u len)] src dst IP_PROTO_UDP (pb_len qb) = 0" for a
  proof (cases "pcb_flags pcb AND UDP_FLAGS_NOCHKSUM = 0")
    case True
    then have "ck \<noteq> 0 \<and> inet_chksum_pseudo LWIP_CHKSUM [(a, mem_read m u len)] src dst IP_PROTO_UDP (pb_len qb) = 0"
      using m m1 len by (intro udp_chksum_verifies [where q = "[(u, mem_read m1 u len)]" and xs = xs and ys = ys and have_chksum = False])
        (simp_all add: ck_def xs_def ys_def)
    then show ?thesis
      by blast
  qed (simp add: ck_def)
  have split8: "mem_read w u 8 = mem_read w u 4 @ mem_read w (u + 4) 2 @ mem_read w (u + 6) 2" for w
    using mem_read_add [of w u 4 4] mem_read_add [of w "u + 4" 2 2] by (simp add: add.commute)
  have "mem_read m u 8 = udp_header sport dport (pb_len qb) ck"
    unfolding split8 [of m] udp_header_def using hdr(1)
    by (simp add: m_def m1_def u_def mem_read_same mem_read_write_other del: mem_write.simps)
  moreover have "\<forall>b. b < u \<or> u + 8 \<le> b \<longrightarrow> m b = dmem (net_ps n) b"
    by (auto simp: m_def m1_def mem_write_other simp del: mem_write.simps)
  moreover have "udp_transmit E pcb q src dst netif False 0 n
      = ip_output_if E q src (Some dst) (pcb_ttl pcb) (pcb_tos pcb) IP_PROTO_UDP netif (set_dmem m n)"
    using pb chain_bufs_single [of "pbufs (net_ps n)" q qb m1] zero
    by (simp add: udp_transmit_def uh_offsets m1_def [symmetric] u_def [symmetric] len_def [symmetric] ck_def m_def del: mem_write.simps)
  moreover have "ck = 0 \<or> (\<forall>a. inet_chksum_pseudo LWIP_CHKSUM [(a, mem_read m u len)] src dst IP_PROTO_UDP (pb_len qb) = 0)"
    using ok by blast
  ultimately show ?thesis
    by (intro exI [of _ m] exI [of _ ck]) (simp add: u_def len_def)
qed

text \<open>The packet: header of IP, header of UDP, data.\<close>

lemma udp_sendto_packet:
  assumes pb: "pbufs (net_ps n) p = Some pb" "p \<noteq> NULL" "pb_type pb = PBUF_RAM \<or> pb_type pb = PBUF_POOL" "pb_next pb = NULL"
      "pb_tot_len pb = pb_len pb" "unat (pb_len pb) < 65508" "p + SIZEOF_STRUCT_PBUF + 28 \<le> pb_payload pb"
    and pcb: "pcbs n a = Some pcb" "local_port pcb \<noteq> 0" "local_ip pcb = IPADDR_ANY \<or> local_ip pcb = netif_ip_addr (netif_list n ! netif)"
    and dst: "\<not> ip4_addr_isbroadcast dst (netif_list n ! netif)" "\<not> ip_addr_ismulticast dst"
  defines "src \<equiv> netif_ip_addr (netif_list n ! netif)" and "len \<equiv> unat (pb_len pb)"
  shows "\<exists>n' pb' hck ck. udp_sendto_if E a p dst dport netif n = ip_send E p dst netif n' \<and> pbufs (net_ps n') p = Some pb' \<and>
    pb' = pb\<lparr>pb_payload := pb_payload pb - 28, pb_len := pb_len pb + 28, pb_tot_len := pb_len pb + 28\<rparr> \<and>
    mem_read (dmem (net_ps n')) (pb_payload pb') 20
      = ip_header (hdr_word 20 (pcb_tos pcb)) (pb_len pb + 28) (ip_id n) (pcb_ttl pcb) IP_PROTO_UDP hck src dst \<and>
    mem_read (dmem (net_ps n')) (pb_payload pb' + 20) (8 + len)
      = udp_header (local_port pcb) dport (pb_len pb + 8) ck @ mem_read (dmem (net_ps n)) (pb_payload pb) len \<and>
    (\<forall>x. inet_chksum LWIP_CHKSUM x (mem_read (dmem (net_ps n')) (pb_payload pb') 20) = 0) \<and>
    (ck = 0 \<or> (\<forall>x. inet_chksum_pseudo LWIP_CHKSUM [(x, mem_read (dmem (net_ps n')) (pb_payload pb' + 20) (8 + len))] src dst IP_PROTO_UDP (pb_len pb + 8) = 0))"
proof -
  define u where "u = pb_payload pb - 8"
  define qb where "qb = pb\<lparr>pb_payload := u, pb_len := pb_len pb + 8, pb_tot_len := pb_tot_len pb + 8\<rparr>"
  define n1 where "n1 = set_ps (set_pbuf p qb (net_ps n)) n"
  have room: "net_header p UDP_HLEN n = Some (n1, False)"
    using net_header_room [OF pb(1-3), of 8] pb(7) by (simp add: UDP_HLEN_def n1_def qb_def u_def)
  have u: "p + SIZEOF_STRUCT_PBUF + 20 \<le> u" "u + 8 = pb_payload pb"
    using pb(7) by (simp_all add: u_def)
  define m1 where "m1 = mem_write (mem_write (mem_write (dmem (net_ps n)) u (le_bytes16 (lwip_htons (local_port pcb))))
    (u + 2) (le_bytes16 (lwip_htons dport))) (u + 6) (le_bytes16 0)"
  define n2 where "n2 = set_dmem m1 n1"
  have n2: "pbufs (net_ps n2) p = Some qb" "dmem (net_ps n2) = m1" "netif_list n2 = netif_list n" "ip_id n2 = ip_id n"
    by (simp_all add: n2_def n1_def set_dmem_def set_ps_def)
  have qlen: "unat (pb_len qb) = 8 + len" "pb_len qb = pb_len pb + 8"
    using pb(6) by (simp_all add: qb_def len_def unat_word_ariths)
  have hdr: "mem_read m1 u 4 = le_bytes16 (lwip_htons (local_port pcb)) @ le_bytes16 (lwip_htons dport)" "mem_read m1 (u + 6) 2 = [0, 0]"
    using mem_read_add [of m1 u 2 2]
    by (simp_all add: m1_def mem_read_same mem_read_write_other le_bytes16_def [of 0] del: mem_write.simps add_2_eq_Suc add_2_eq_Suc')
  obtain m ck where m: "udp_transmit E pcb p src dst netif False 0 n2
        = ip_output_if E p src (Some dst) (pcb_ttl pcb) (pcb_tos pcb) IP_PROTO_UDP netif (set_dmem m n2)"
      "mem_read m u 8 = udp_header (local_port pcb) dport (pb_len qb) ck" "\<forall>b. b < u \<or> u + 8 \<le> b \<longrightarrow> m b = m1 b"
      "ck = 0 \<or> (\<forall>a. inet_chksum_pseudo LWIP_CHKSUM [(a, mem_read m u (8 + len))] src dst IP_PROTO_UDP (pb_len qb) = 0)"
    using udp_transmit_packet [OF n2(1) pb(2), of "local_port pcb" dport E pcb src dst netif] pb(4,5) qlen hdr n2
    by (auto simp: qb_def)
  have send: "udp_sendto_if E a p dst dport netif n = udp_transmit E pcb p src dst netif False 0 n2"
    using pcb dst room pb(2) n2(1)
    by (auto simp: udp_sendto_if_def udp_sendto_if_chksum_def udp_room_def n2_def n1_def m1_def src_def uh_offsets qb_def Let_def
        simp del: mem_write.simps)
  define n3 where "n3 = set_dmem m n2"
  have n3: "pbufs (net_ps n3) p = Some qb" "dmem (net_ps n3) = m" "netif_list n3 = netif_list n" "ip_id n3 = ip_id n"
    using n2 by (simp_all add: n3_def set_dmem_def set_ps_def)
  have room2: "pb_type qb = PBUF_RAM \<or> pb_type qb = PBUF_POOL" "length ([] :: u8 list) \<le> 40"
      "p + SIZEOF_STRUCT_PBUF + 20 + (length ([] :: u8 list) + 3) div 4 * 4 \<le> pb_payload qb"
    using pb(3) u(1) by (simp_all add: qb_def)
  have src': "(if src = IPADDR_ANY then netif_ip_addr (netif_list n3 ! netif) else src) = src"
    by (simp add: n3 src_def)
  have qpay: "pb_payload qb = u" and qtot: "pb_tot_len qb = pb_len qb"
    using pb(5) by (simp_all add: qb_def)
  obtain n' hck where n': "ip_output_if_opt E p src (Some dst) (pcb_ttl pcb) (pcb_tos pcb) IP_PROTO_UDP netif [] n3 = ip_send E p dst netif n'"
      "pbufs (net_ps n') p = Some (qb\<lparr>pb_payload := u - 20, pb_len := pb_len qb + 20, pb_tot_len := pb_tot_len qb + 20\<rparr>)"
      "mem_read (dmem (net_ps n')) (u - 20) 20
        = ip_header (hdr_word 20 (pcb_tos pcb)) (pb_len qb + 20) (ip_id n) (pcb_ttl pcb) IP_PROTO_UDP hck src dst"
      "inet_chksum LWIP_CHKSUM (u - 20) (mem_read (dmem (net_ps n')) (u - 20) 20) = 0"
      "\<forall>b. b < u - 20 \<or> u \<le> b \<longrightarrow> dmem (net_ps n') b = m b"
    using ip_output_header [OF n3(1) pb(2) room2, where E = E and src = src and dest = dst and ttl = "pcb_ttl pcb" and tos = "pcb_tos pcb"
        and proto = IP_PROTO_UDP and netif = netif, unfolded src' Let_def n3(2,4)]
    by (simp add: IP_HLEN_def qpay) (metis qtot)
  have "mem_read (dmem (net_ps n')) u (8 + len) = mem_read m u (8 + len)"
    using n'(5) by (intro mem_read_cong) simp
  moreover have "mem_read m (u + 8) len = mem_read (dmem (net_ps n)) (pb_payload pb) len"
    using m(3) u(2) by (intro nth_equalityI) (simp_all add: m1_def mem_write_other del: mem_write.simps)
  moreover have "u - 20 + 20 = u"
    using u(1) by simp
  moreover have "inet_chksum LWIP_CHKSUM x (mem_read (dmem (net_ps n')) (u - 20) 20) = 0" for x
    using n'(4) by (simp add: inet_chksum_zero_iff)
  ultimately show ?thesis
    using send m n' pb(4,5) qlen(2) u_def mem_read_add [of m u 8 len]
    by (intro exI [of _ n'] exI [of _ "qb\<lparr>pb_payload := u - 20, pb_len := pb_len qb + 20, pb_tot_len := pb_tot_len qb + 20\<rparr>"]
        exI [of _ hck] exI [of _ ck] conjI)
      (simp_all add: n3_def [symmetric] ip_output_if_def qb_def add.assoc)
qed

section \<open>The receiver\<close>

text \<open>The search for the receiver does not look at the packet.\<close>

lemma udp_find_set_ps:
  "udp_find inp bc src dest n = Some (n', a) \<Longrightarrow> udp_find inp bc src dest (set_ps ps n) = Some (set_ps ps n', a)"
  by (auto simp: udp_find_def set_ps_def split: bind_splits if_splits)

lemma udp_find_frame: "udp_find inp bc src dest n = Some (n', a) \<Longrightarrow> \<exists>l. n' = n\<lparr>udp_pcbs := l\<rparr>"
  by (auto simp: udp_find_def split: bind_splits if_splits intro: exI [of _ "udp_pcbs n"])

lemma udp_header_fields:
  assumes "mem_read m u (8 + k) = udp_header sport dport len ck @ bs"
  shows "load16 m (u + uh_src) = lwip_htons sport" "load16 m (u + uh_dest) = lwip_htons dport" "load16 m (u + uh_chksum) = ck"
    "mem_read m (u + 8) k = bs"
proof -
  have all: "mem_read m u 8 = udp_header sport dport len ck" "mem_read m (u + 8) k = bs"
    using assms by (auto simp: mem_read_add)
  then show "mem_read m (u + 8) k = bs"
    by simp
  have sub: "mem_read m (u + i) 2 = take 2 (drop i (udp_header sport dport len ck))" if "i + 2 \<le> 8" for i
    unfolding all(1) [symmetric] using that by (simp add: min_absorb1)
  show "load16 m (u + uh_src) = lwip_htons sport" "load16 m (u + uh_dest) = lwip_htons dport" "load16 m (u + uh_chksum) = ck"
    by (rule load16_read, simp add: uh_offsets sub [of 0, simplified] sub udp_header_def del: add_2_eq_Suc')+
qed

text \<open>\<open>udp_input\<close> on a datagram in one buffer with a good checksum, or none.\<close>

lemma udp_input_delivers:
  assumes qb: "pbufs (net_ps r) q = Some qb" "q \<noteq> NULL" "pb_type qb = PBUF_RAM \<or> pb_type qb = PBUF_POOL" "pb_next qb = NULL"
      "pb_tot_len qb = pb_len qb" "unat (pb_len qb) = 28 + k" "q + SIZEOF_STRUCT_PBUF \<le> pb_payload qb + 20"
    and hdr: "IPH_HL (dmem (net_ps r)) (pb_payload qb) = 5"
      "mem_read (dmem (net_ps r)) (pb_payload qb + 20) (8 + k) = udp_header sport dport len ck @ bs"
      "ck = 0 \<or> (\<forall>x. inet_chksum_pseudo LWIP_CHKSUM [(x, mem_read (dmem (net_ps r)) (pb_payload qb + 20) (8 + k))]
         (current_iphdr_src r) (current_iphdr_dest r) IP_PROTO_UDP (of_nat (8 + k)) = 0)"
    and find: "udp_find inp (ip4_addr_isbroadcast (current_iphdr_dest r) (netif_list r ! inp)) sport dport r = Some (r', b)"
      "b \<noteq> NULL"
  defines "qb' \<equiv> qb\<lparr>pb_payload := pb_payload qb + 28, pb_len := of_nat k, pb_tot_len := of_nat k\<rparr>"
  shows "udp_input E q inp r = udp_deliver E q (pb_payload qb) sport (ip4_addr_isbroadcast (current_iphdr_dest r) (netif_list r ! inp)) b
    (set_ps (set_pbuf q qb' (net_ps r)) r')"
proof -
  define h where "h = pb_payload qb"
  define m where "m = dmem (net_ps r)"
  define qb1 where "qb1 = qb\<lparr>pb_payload := h + 20, pb_len := of_nat (8 + k), pb_tot_len := of_nat (8 + k)\<rparr>"
  define r1 where "r1 = set_ps (set_pbuf q qb1 (net_ps r)) r"
  define r2 where "r2 = set_ps (set_pbuf q qb1 (net_ps r)) r'"
  have k: "k < 65508"
    using qb(6) unat_u16_lt [of "pb_len qb"] by linarith
  have len: "pb_len qb = of_nat (28 + k)"
    by (simp flip: qb(6))
  have hide1: "net_header q (- 20) r = Some (r1, False)"
    using net_header_hide [OF qb(1-3), of 20] qb(5-7) len by (simp add: r1_def qb1_def h_def)
  have f: "udp_find inp (ip4_addr_isbroadcast (current_iphdr_dest r) (netif_list r ! inp)) sport dport r1 = Some (r2, b)"
    unfolding r1_def r2_def by (rule udp_find_set_ps [OF find(1)])
  obtain l where r': "r' = r\<lparr>udp_pcbs := l\<rparr>"
    using udp_find_frame [OF find(1)] by blast
  have r2: "pbufs (net_ps r2) q = Some qb1" "dmem (net_ps r2) = m" "netif_list r2 = netif_list r" "current_iphdr_dest r2 = current_iphdr_dest r"
      "current_iphdr_src r2 = current_iphdr_src r" "pbufs (net_ps r1) q = Some qb1" "dmem (net_ps r1) = m"
      "netif_list r1 = netif_list r" "current_iphdr_dest r1 = current_iphdr_dest r"
    by (simp_all add: r2_def r1_def r' m_def set_ps_def)
  have len1: "unat (pb_len qb1) = 8 + k" "pb_tot_len qb1 = of_nat (8 + k)" "pb_payload qb1 = h + 20"
    using k by (simp_all add: qb1_def unat_of_nat unat_word_ariths)
  have hide2: "net_header q (- 8) r2 = Some (set_ps (set_pbuf q qb' (net_ps r)) r', False)"
    using net_header_hide [OF r2(1) qb(2), of 8] qb(3,7) len1 by (simp add: r2_def qb1_def qb'_def h_def add.commute)
  note fields = udp_header_fields [OF hdr(2), folded h_def m_def]
  have bufs: "chain_bufs (pbufs (net_ps r2)) m q = Some [(h + 20, mem_read m (h + 20) (8 + k))]"
    using chain_bufs_single [of "pbufs (net_ps r2)" q qb1 m] r2(1) qb(2,4) len1 by (simp add: qb1_def)
  have long: "\<not> unat (pb_tot_len qb) < 28"
    using qb(5,6) by simp
  have ok: "load16 m (h + 20 + uh_chksum) = 0
      \<or> inet_chksum_pseudo LWIP_CHKSUM [(h + 20, mem_read m (h + 20) (8 + k))] (current_iphdr_src r) (current_iphdr_dest r) IP_PROTO_UDP (of_nat (8 + k)) = 0"
    using hdr(3) fields(3) by (auto simp: m_def h_def)
  show ?thesis
    using qb(1) hdr(1) long hide1 hide2 f r2 len1 fields(1,2) bufs ok find(2)
    by (simp add: udp_input_def UDP_HLEN_def h_def [symmetric] m_def [symmetric] lwip_ntohs_def Let_def) blast
qed

text \<open>\<open>ip_input\<close> on such a packet: the addresses are noted, the datagram goes to the control block, and the
  addresses are forgotten again.\<close>

lemma ip_input_udp:
  assumes qb: "pbufs (net_ps r) q = Some qb" "q \<noteq> NULL" "pb_type qb = PBUF_RAM \<or> pb_type qb = PBUF_POOL" "pb_next qb = NULL"
      "pb_tot_len qb = pb_len qb" "unat (pb_len qb) = 28 + k" "q + SIZEOF_STRUCT_PBUF \<le> pb_payload qb + 20"
    and hdr: "mem_read (dmem (net_ps r)) (pb_payload qb) 20 = ip_header (hdr_word 20 tos) (pb_len qb) ident ttl IP_PROTO_UDP hck src dst"
      "inet_chksum LWIP_CHKSUM (pb_payload qb) (mem_read (dmem (net_ps r)) (pb_payload qb) 20) = 0"
      "mem_read (dmem (net_ps r)) (pb_payload qb + 20) (8 + k) = udp_header sport dport len ck @ bs"
      "ck = 0 \<or> (\<forall>x. inet_chksum_pseudo LWIP_CHKSUM [(x, mem_read (dmem (net_ps r)) (pb_payload qb + 20) (8 + k))] src dst IP_PROTO_UDP (of_nat (8 + k)) = 0)"
    and nif: "ip_accept dst (netif_list r ! inp)" "\<not> ip_addr_ismulticast dst"
      "src = IPADDR_ANY \<or> \<not> ip4_addr_isbroadcast src (netif_list r ! inp) \<and> \<not> ip_addr_ismulticast src"
    and raw: "no_raw IP_PROTO_UDP r"
    and find: "udp_find inp (ip4_addr_isbroadcast dst (netif_list r ! inp)) sport dport (r\<lparr>current_iphdr_src := src, current_iphdr_dest := dst\<rparr>) = Some (r', b)"
      "b \<noteq> NULL" "pcbs r b = Some pcb" "pcb_recv pcb = Some (f, arg)"
  defines "r3 \<equiv> set_ps (set_pbuf q (qb\<lparr>pb_payload := pb_payload qb + 28, pb_len := of_nat k, pb_tot_len := of_nat k\<rparr>) (net_ps r)) r'"
  shows "ip_input E q inp r = do { r4 \<leftarrow> ne_recv E f arg b q src sport r3;
     Some (r4\<lparr>current_iphdr_src := IPADDR_ANY, current_iphdr_dest := IPADDR_ANY\<rparr>, ERR_OK) }"
proof -
  define h where "h = pb_payload qb"
  define m where "m = dmem (net_ps r)"
  define r1 where "r1 = r\<lparr>current_iphdr_src := src, current_iphdr_dest := dst\<rparr>"
  have "(20 :: u16) div 4 < 16"
    by simp
  note fields = ip_header_fields [OF hdr(1) this, folded h_def m_def]
  obtain l where r': "r' = r1\<lparr>udp_pcbs := l\<rparr>"
    using udp_find_frame [OF find(1)] by (auto simp: r1_def)
  have r1: "pbufs (net_ps r1) q = Some qb" "dmem (net_ps r1) = m" "netif_list r1 = netif_list r" "net_ps r1 = net_ps r"
    "current_iphdr_dest r1 = dst" "current_iphdr_src r1 = src" "pcbs r1 = pcbs r"
    by (simp_all add: r1_def m_def qb(1))
  have udp: "udp_input E q inp r1 = ne_recv E f arg b q src sport r3"
    using udp_input_delivers [OF r1(1) qb(2-7), of sport dport len ck bs inp r' b E] fields(2) hdr(3,4) find r1
    by (simp add: m_def h_def udp_deliver_def r3_def r' r1_def [symmetric] set_ps_def)
  have "ip_input_netif inp r1 = Some (Some inp)"
    using nif r1 by (simp add: ip_input_netif_def)
  moreover have "raw_input E q inp r1 = Some (r1, False)"
  proof (rule raw_input_none [OF r1(1)])
    have "dmem (net_ps r1) (pb_payload qb + ih_proto) = IP_PROTO_UDP"
      using fields r1(2) by (simp add: h_def)
    then show "no_raw (dmem (net_ps r1) (pb_payload qb + ih_proto)) r1"
      using raw by (simp add: no_raw_def r1_def)
  qed
  ultimately have "ip_dispatch E q inp h 20 r1 = do { r4 \<leftarrow> ne_recv E f arg b q src sport r3;
     Some (r4\<lparr>current_iphdr_src := IPADDR_ANY, current_iphdr_dest := IPADDR_ANY\<rparr>) }"
    using nif(3) r1 fields udp by (auto simp: ip_dispatch_def ip_deliver_def)
  moreover have "pbuf_realloc (ne_alloc E) (net_ps r) q (pb_len qb) = Some (net_ps r)"
    using qb(1,5) by (simp add: pbuf_realloc_def)
  moreover have "\<not> pb_len qb < 20"
    using qb(6) by (simp add: word_less_nat_alt)
  moreover have "r\<lparr>current_iphdr_dest := dst, current_iphdr_src := src\<rparr> = r1"
    by (simp add: r1_def)
  ultimately show ?thesis
    using qb(1,5) fields hdr(2) by (simp add: ip_input_def h_def [symmetric] m_def [symmetric] lwip_ntohs_def Let_def)
qed


section \<open>From sender to receiver\<close>

definition one_pbuf :: "'h net \<Rightarrow> addr \<Rightarrow> pbuf \<Rightarrow> bool" where
  "one_pbuf n p pb \<longleftrightarrow> pbufs (net_ps n) p = Some pb \<and> p \<noteq> NULL \<and> (pb_type pb = PBUF_RAM \<or> pb_type pb = PBUF_POOL)
     \<and> pb_next pb = NULL \<and> pb_tot_len pb = pb_len pb \<and> p + SIZEOF_STRUCT_PBUF \<le> pb_payload pb"

text \<open>C1. A datagram arrives: what \<^verbatim>\<open>udp_sendto_if\<close> hands to the interface, for data in one packet buffer with room
  for the headers, is a packet that \<^verbatim>\<open>ip_input\<close> of a machine with the destination address accepts and passes to
  the receive function of the control block found for it, with the sender's address and port, and with a
  buffer that holds exactly the data that was sent.  This holds for every machine that gets the
  packet's octets unchanged in one buffer on an interface with this address, when no raw socket is open
  for UDP, and with the UDP checksum on or off.\<close>

theorem udp_datagram_arrives:
  assumes "one_pbuf n p pb" "unat (pb_len pb) < 65508" "p + SIZEOF_STRUCT_PBUF + 28 \<le> pb_payload pb"
    and "pcbs n a = Some pcb" "local_port pcb \<noteq> 0" "local_ip pcb = IPADDR_ANY \<or> local_ip pcb = netif_ip_addr (netif_list n ! netif)"
    and "\<not> ip4_addr_isbroadcast dst (netif_list n ! netif)" "\<not> ip_addr_ismulticast dst"
  defines "src \<equiv> netif_ip_addr (netif_list n ! netif)"
  shows "\<exists>n' pb'. udp_sendto_if E a p dst dport netif n = ip_send E p dst netif n' \<and> pbufs (net_ps n') p = Some pb' \<and>
    pb' = pb\<lparr>pb_payload := pb_payload pb - 28, pb_len := pb_len pb + 28, pb_tot_len := pb_len pb + 28\<rparr> \<and>
    (\<forall>(E' :: 'k net_env) r q qb inp r' b rpcb f arg.
       one_pbuf r q qb \<and>
       mem_read (dmem (net_ps r)) (pb_payload qb) (unat (pb_len qb)) = mem_read (dmem (net_ps n')) (pb_payload pb') (unat (pb_len pb')) \<and>
       ip_accept dst (netif_list r ! inp) \<and>
       (src = IPADDR_ANY \<or> \<not> ip4_addr_isbroadcast src (netif_list r ! inp) \<and> \<not> ip_addr_ismulticast src) \<and>
       no_raw IP_PROTO_UDP r \<and>
       udp_find inp (ip4_addr_isbroadcast dst (netif_list r ! inp)) (local_port pcb) dport
         (r\<lparr>current_iphdr_src := src, current_iphdr_dest := dst\<rparr>) = Some (r', b) \<and>
       b \<noteq> NULL \<and> pcbs r b = Some rpcb \<and> pcb_recv rpcb = Some (f, arg) \<longrightarrow>
       (\<exists>r3 qb'. ip_input E' q inp r = do { r4 \<leftarrow> ne_recv E' f arg b q src (local_port pcb) r3;
            Some (r4\<lparr>current_iphdr_src := IPADDR_ANY, current_iphdr_dest := IPADDR_ANY\<rparr>, ERR_OK) } \<and>
          pbufs (net_ps r3) q = Some qb' \<and> pb_tot_len qb' = pb_len qb' \<and>
          mem_read (dmem (net_ps r3)) (pb_payload qb') (unat (pb_len qb')) = mem_read (dmem (net_ps n)) (pb_payload pb) (unat (pb_len pb))))"
proof -
  define len where "len = unat (pb_len pb)"
  have pb: "pbufs (net_ps n) p = Some pb" "p \<noteq> NULL" "pb_type pb = PBUF_RAM \<or> pb_type pb = PBUF_POOL" "pb_next pb = NULL"
      "pb_tot_len pb = pb_len pb"
    using assms(1) by (simp_all add: one_pbuf_def)
  obtain n' pb' hck ck where s: "udp_sendto_if E a p dst dport netif n = ip_send E p dst netif n'" "pbufs (net_ps n') p = Some pb'"
    "pb' = pb\<lparr>pb_payload := pb_payload pb - 28, pb_len := pb_len pb + 28, pb_tot_len := pb_len pb + 28\<rparr>"
    "mem_read (dmem (net_ps n')) (pb_payload pb') 20
      = ip_header (hdr_word 20 (pcb_tos pcb)) (pb_len pb + 28) (ip_id n) (pcb_ttl pcb) IP_PROTO_UDP hck src dst"
    "mem_read (dmem (net_ps n')) (pb_payload pb' + 20) (8 + len)
      = udp_header (local_port pcb) dport (pb_len pb + 8) ck @ mem_read (dmem (net_ps n)) (pb_payload pb) len"
    "\<forall>x. inet_chksum LWIP_CHKSUM x (mem_read (dmem (net_ps n')) (pb_payload pb') 20) = 0"
    "ck = 0 \<or> (\<forall>x. inet_chksum_pseudo LWIP_CHKSUM [(x, mem_read (dmem (net_ps n')) (pb_payload pb' + 20) (8 + len))] src dst IP_PROTO_UDP (pb_len pb + 8) = 0)"
    using udp_sendto_packet [OF pb assms(2-8), of E dport] unfolding src_def [symmetric] len_def [symmetric] by blast
  have len: "unat (pb_len pb') = 20 + (8 + len)"
    using assms(2) by (simp add: s(3) len_def unat_word_ariths)
  show ?thesis
    using s(1-3)
  proof (intro exI [of _ n'] exI [of _ pb'] conjI allI impI; (elim conjE)?)
    fix E' :: "'k net_env" and r r' :: "'k net" and q qb inp b rpcb f arg
    assume r: "one_pbuf r q qb"
      and eq: "mem_read (dmem (net_ps r)) (pb_payload qb) (unat (pb_len qb)) = mem_read (dmem (net_ps n')) (pb_payload pb') (unat (pb_len pb'))"
      and nif: "ip_accept dst (netif_list r ! inp)"
        "src = IPADDR_ANY \<or> \<not> ip4_addr_isbroadcast src (netif_list r ! inp) \<and> \<not> ip_addr_ismulticast src"
      and raw: "no_raw IP_PROTO_UDP r"
      and find: "udp_find inp (ip4_addr_isbroadcast dst (netif_list r ! inp)) (local_port pcb) dport
         (r\<lparr>current_iphdr_src := src, current_iphdr_dest := dst\<rparr>) = Some (r', b)"
       "b \<noteq> NULL" "pcbs r b = Some rpcb" "pcb_recv rpcb = Some (f, arg)"
    have lq: "unat (pb_len qb) = 28 + len" "pb_len qb = pb_len pb + 28"
      using arg_cong [OF eq, of length] len by (simp_all add: s(3) word_unat_eq_iff)
    have "mem_read w x (20 + (8 + len)) = mem_read w x 20 @ mem_read w (x + 20) (8 + len)" for w x
      by (rule mem_read_add)
    then have same: "mem_read (dmem (net_ps r)) (pb_payload qb) 20 = mem_read (dmem (net_ps n')) (pb_payload pb') 20"
        "mem_read (dmem (net_ps r)) (pb_payload qb + 20) (8 + len) = mem_read (dmem (net_ps n')) (pb_payload pb' + 20) (8 + len)"
      using eq lq(1) len by simp_all
    have w: "pb_len pb + 8 = of_nat (8 + len)"
      by (simp add: len_def)
    have q: "pbufs (net_ps r) q = Some qb" "q \<noteq> NULL" "pb_type qb = PBUF_RAM \<or> pb_type qb = PBUF_POOL" "pb_next qb = NULL"
        "pb_tot_len qb = pb_len qb" "q + SIZEOF_STRUCT_PBUF \<le> pb_payload qb + 20"
      using r by (simp_all add: one_pbuf_def)
    define qb' where "qb' = qb\<lparr>pb_payload := pb_payload qb + 28, pb_len := of_nat len, pb_tot_len := of_nat len\<rparr>"
    have "ip_input E' q inp r = do { r4 \<leftarrow> ne_recv E' f arg b q src (local_port pcb) (set_ps (set_pbuf q qb' (net_ps r)) r');
        Some (r4\<lparr>current_iphdr_src := IPADDR_ANY, current_iphdr_dest := IPADDR_ANY\<rparr>, ERR_OK) }"
      unfolding qb'_def
      using s(4-7) lq(2) w
      by (intro ip_input_udp [OF q(1-5) lq(1) q(6) _ _ _ _ nif(1) assms(8) nif(2) raw find, where len = "pb_len pb + 8" and ck = ck and hck = hck])
        (simp_all only: same)
    moreover have "mem_read (dmem (net_ps r)) (pb_payload qb + 28) len = mem_read (dmem (net_ps n)) (pb_payload pb) len"
      using udp_header_fields(4) [OF s(5) [folded same(2)]] by (simp add: add.commute)
    moreover have "unat (of_nat len :: u16) = len"
      by (simp add: len_def)
    show "\<exists>r3 qb'. ip_input E' q inp r = do { r4 \<leftarrow> ne_recv E' f arg b q src (local_port pcb) r3;
            Some (r4\<lparr>current_iphdr_src := IPADDR_ANY, current_iphdr_dest := IPADDR_ANY\<rparr>, ERR_OK) } \<and>
          pbufs (net_ps r3) q = Some qb' \<and> pb_tot_len qb' = pb_len qb' \<and>
          mem_read (dmem (net_ps r3)) (pb_payload qb') (unat (pb_len qb')) = mem_read (dmem (net_ps n)) (pb_payload pb) (unat (pb_len pb))"
      using calculation by (intro exI [of _ "set_ps (set_pbuf q qb' (net_ps r)) r'"] exI [of _ qb']) (simp add: qb'_def len_def)
  qed
qed

text \<open>A sender with the address 192.168.0.1 and a receiver with the address 192.168.0.9, port 7.\<close>

definition demo_pcb :: "ip_addr \<Rightarrow> u16 \<Rightarrow> udp_pcb" where
  "demo_pcb ip port = \<lparr>local_ip = ip, remote_ip = 0, so_options = 0, pcb_tos = 0, pcb_ttl = UDP_TTL, pcb_flags = 0,
     local_port = port, remote_port = 0, multicast_ip = 0, pcb_recv = Some (1, 2)\<rparr>"

definition demo_sender :: "unit net" where
  "demo_sender = ip_demo\<lparr>netif_list := [demo_netif\<lparr>netif_flags := 0x63, netif_ip_addr := 0x0100a8c0, netif_netmask := 0x00ffffff\<rparr>],
     udp_pcbs := [5000], pcbs := [5000 \<mapsto> demo_pcb 0 1234]\<rparr>"

definition demo_receiver :: "pbuf \<Rightarrow> bytes \<Rightarrow> nat net" where
  "demo_receiver pb m = set_ps \<lparr>heap = 0, pbufs = [1000 \<mapsto> pb], dmem = m\<rparr>
     (udp_demo\<lparr>netif_list := [demo_netif\<lparr>netif_flags := 0x63, netif_ip_addr := 0x0900a8c0, netif_netmask := 0x00ffffff\<rparr>],
        udp_pcbs := [6000], pcbs := [6000 \<mapsto> demo_pcb 0 7]\<rparr>)"

theorem udp_datagram_arrives_witness:
  "\<forall>E :: unit net_env. \<exists>n' pb' r3 qb'. udp_sendto_if E 5000 1000 0x0900a8c0 7 0 demo_sender = ip_send E 1000 0x0900a8c0 0 n' \<and>
    pbufs (net_ps n') 1000 = Some pb' \<and>
    ip_input udp_demo_env 1000 0 (demo_receiver pb' (dmem (net_ps n'))) = do {
      r4 \<leftarrow> ne_recv udp_demo_env 1 2 6000 1000 0x0100a8c0 1234 r3;
      Some (r4\<lparr>current_iphdr_src := IPADDR_ANY, current_iphdr_dest := IPADDR_ANY\<rparr>, ERR_OK) } \<and>
    pbufs (net_ps r3) 1000 = Some qb' \<and>
    mem_read (dmem (net_ps r3)) (pb_payload qb') (unat (pb_len qb')) = mem_read (dmem (net_ps demo_sender)) 1100 4"
  (is "\<forall>E. ?P E")
proof
  fix E :: "unit net_env"
  define pb where "pb = \<lparr>pb_next = NULL, pb_payload = 1100, pb_tot_len = 4, pb_len = 4, pb_type = PBUF_POOL, pb_flags = 0, pb_ref = 1\<rparr>"
  have sz: "SIZEOF_STRUCT_PBUF = 16"
    by (simp add: SIZEOF_STRUCT_PBUF_def LWIP_MEM_ALIGN_SIZE_def MEM_ALIGNMENT_def)
  have addrs: "\<not> ip4_addr_isbroadcast 0x0900a8c0 (netif_list demo_sender ! 0)" "\<not> ip_addr_ismulticast 0x0900a8c0"
      "netif_ip_addr (netif_list demo_sender ! 0) = 0x0100a8c0" "\<not> ip_addr_ismulticast 0x0100a8c0"
    by code_simp+
  have snd: "one_pbuf demo_sender 1000 pb" "unat (pb_len pb) < 65508" "1000 + SIZEOF_STRUCT_PBUF + 28 \<le> pb_payload pb"
      "pcbs demo_sender 5000 = Some (demo_pcb 0 1234)" "local_port (demo_pcb 0 1234) \<noteq> 0"
      "local_ip (demo_pcb 0 1234) = IPADDR_ANY \<or> local_ip (demo_pcb 0 1234) = netif_ip_addr (netif_list demo_sender ! 0)"
    by (simp_all add: one_pbuf_def demo_sender_def ip_demo_def pb_def sz demo_pcb_def IPADDR_ANY_def)
  obtain n' pb' where n': "udp_sendto_if E 5000 1000 0x0900a8c0 7 0 demo_sender = ip_send E 1000 0x0900a8c0 0 n'"
      "pbufs (net_ps n') 1000 = Some pb'" "pb' = pb\<lparr>pb_payload := 1072, pb_len := 32, pb_tot_len := 32\<rparr>"
     and rcv: "\<And>(E' :: nat net_env) r q qb inp r' b rpcb f arg.
       one_pbuf r q qb \<and>
       mem_read (dmem (net_ps r)) (pb_payload qb) (unat (pb_len qb)) = mem_read (dmem (net_ps n')) (pb_payload pb') (unat (pb_len pb')) \<and>
       ip_accept 0x0900a8c0 (netif_list r ! inp) \<and>
       (0x0100a8c0 = IPADDR_ANY \<or> \<not> ip4_addr_isbroadcast 0x0100a8c0 (netif_list r ! inp) \<and> \<not> ip_addr_ismulticast 0x0100a8c0) \<and>
       no_raw IP_PROTO_UDP r \<and>
       udp_find inp (ip4_addr_isbroadcast 0x0900a8c0 (netif_list r ! inp)) 1234 7
         (r\<lparr>current_iphdr_src := 0x0100a8c0, current_iphdr_dest := 0x0900a8c0\<rparr>) = Some (r', b) \<and>
       b \<noteq> NULL \<and> pcbs r b = Some rpcb \<and> pcb_recv rpcb = Some (f, arg) \<Longrightarrow>
       (\<exists>r3 qb'. ip_input E' q inp r = do { r4 \<leftarrow> ne_recv E' f arg b q 0x0100a8c0 1234 r3;
            Some (r4\<lparr>current_iphdr_src := IPADDR_ANY, current_iphdr_dest := IPADDR_ANY\<rparr>, ERR_OK) } \<and>
          pbufs (net_ps r3) q = Some qb' \<and> pb_tot_len qb' = pb_len qb' \<and>
          mem_read (dmem (net_ps r3)) (pb_payload qb') (unat (pb_len qb')) = mem_read (dmem (net_ps demo_sender)) 1100 4)"
    using udp_datagram_arrives [where ?'k = nat, OF snd addrs(1,2), of E 7] unfolding addrs(3)
    by (simp add: pb_def demo_pcb_def) blast
  define r where "r = demo_receiver pb' (dmem (net_ps n'))"
  have nif: "ip_accept 0x0900a8c0 (netif_list r ! 0)" "\<not> ip4_addr_isbroadcast 0x0100a8c0 (netif_list r ! 0)"
      "\<not> ip4_addr_isbroadcast 0x0900a8c0 (netif_list r ! 0)"
    by (simp_all add: r_def demo_receiver_def) code_simp+
  have "\<exists>r'. udp_find 0 False 1234 7 (r\<lparr>current_iphdr_src := 0x0100a8c0, current_iphdr_dest := 0x0900a8c0\<rparr>) = Some (r', 6000)"
    by (simp add: udp_find_def r_def demo_receiver_def demo_pcb_def udp_local_match_def udp_remote_match_def IPADDR_ANY_def DHCP_CLIENT_PORT_def)
  then obtain r' where find: "udp_find 0 (ip4_addr_isbroadcast 0x0900a8c0 (netif_list r ! 0)) 1234 7
      (r\<lparr>current_iphdr_src := 0x0100a8c0, current_iphdr_dest := 0x0900a8c0\<rparr>) = Some (r', 6000)"
    using nif(3) by auto
  have "one_pbuf r 1000 pb'" "pcbs r 6000 = Some (demo_pcb 0 7)" "dmem (net_ps r) = dmem (net_ps n')" "no_raw IP_PROTO_UDP r"
    by (simp_all add: r_def demo_receiver_def one_pbuf_def n'(3) pb_def sz no_raw_def udp_demo_def set_ps_def)
  then show "?P E"
    using rcv [of r 1000 pb' 0 r' 6000 "demo_pcb 0 7" 1 2 udp_demo_env] n'(1,2) nif find addrs(4)
    by (auto simp: udp_demo_env_def demo_pcb_def r_def)
qed


end
