(* ===== verification/Tcp_View.thy ===== *)
theory Tcp_View
  imports Tcp_In
begin

text \<open>
  The view of the state of TCP: the four lists of control blocks, the state and local port of every block and the listening blocks.  What sends,
  writes or receives data keeps it; the lemmas of this theory show it function by function, for every link that meets \<open>net_link\<close>.
\<close>

section \<open>The view\<close>

definition tcp_view :: "'h net \<Rightarrow> addr list list \<times> (addr \<Rightarrow> (tcp_state \<times> u16) option) \<times> (addr \<Rightarrow> tcp_pcb_listen option)" where
  "tcp_view n = (tcp_pcb_lists (net_tcp n), \<lambda>a. map_option (\<lambda>pcb. (t_state pcb, t_local_port pcb)) (tpcb n a), tcp_lpcbs (net_tcp n))"

lemma tcp_view_keeps: "keeps_upper n n' \<Longrightarrow> tcp_view n' = tcp_view n"
  using keeps_upperD(8) [of n n'] by (simp add: tcp_view_def)

lemma tpcb_keeps: "keeps_upper n n' \<Longrightarrow> tpcb n' a = tpcb n a"
  using keeps_upperD(8) [of n n'] by simp

lemma tpcb_set [simp]: "tpcb (set_tpcb a pcb n) b = (if b = a then Some pcb else tpcb n b)"
  by (simp add: set_tpcb_def)

lemma net_tcp_set_ps [simp]: "net_tcp (set_ps ps n) = net_tcp n" "net_tcp (set_dmem m n) = net_tcp n"
  by (simp_all add: set_ps_def set_dmem_def)

lemma net_tcp_malloc [simp]: "net_tcp (fst (net_malloc E k n)) = net_tcp n" "net_malloc E k n = (n', p) \<Longrightarrow> net_tcp n' = net_tcp n"
  by (auto simp: net_malloc_def split: prod.splits)

lemma net_tcp_mfree [simp]: "net_tcp (net_mfree E p n) = net_tcp n"
  by (simp add: net_mfree_def)

lemma tcp_view_cong: "net_tcp n' = net_tcp n \<Longrightarrow> tcp_view n' = tcp_view n"
  by (simp add: tcp_view_def)

lemma tcp_view_low [simp]:
  "tcp_view (set_ps ps n) = tcp_view n" "tcp_view (set_dmem m n) = tcp_view n" "tcp_view (net_mfree E p n) = tcp_view n"
  "tcp_view (n\<lparr>net_arp := x\<rparr>) = tcp_view n"
  by (simp_all add: tcp_view_def)

lemma tcp_view_set:
  "tpcb n a = Some pcb \<Longrightarrow> t_state pcb' = t_state pcb \<Longrightarrow> t_local_port pcb' = t_local_port pcb \<Longrightarrow> tcp_view (set_tpcb a pcb' n) = tcp_view n"
  by (auto simp: tcp_view_def set_tpcb_def fun_eq_iff tcp_pcb_lists_def)

lemma upd_tpcb_view:
  "upd_tpcb a f n = Some n' \<Longrightarrow> (\<And>pcb. t_state (f pcb) = t_state pcb) \<Longrightarrow> (\<And>pcb. t_local_port (f pcb) = t_local_port pcb) \<Longrightarrow> tcp_view n' = tcp_view n"
  by (auto simp: upd_tpcb_def Option.bind_eq_Some_conv tcp_view_set)

lemma state_simps [simp]: "t_state (tcp_ack pcb) = t_state pcb" "t_state (tcp_ack_now pcb) = t_state pcb"
  "t_state (tcp_parseopt m hdr pcb) = t_state pcb" "t_state (fst (tcp_update_rcv_ann_wnd pcb)) = t_state pcb"
  "t_local_port (tcp_ack pcb) = t_local_port pcb" "t_local_port (tcp_ack_now pcb) = t_local_port pcb"
  "t_local_port (tcp_parseopt m hdr pcb) = t_local_port pcb" "t_local_port (fst (tcp_update_rcv_ann_wnd pcb)) = t_local_port pcb"
  by (simp_all add: tcp_ack_def tcp_ack_now_def tcp_parseopt_def tcp_update_rcv_ann_wnd_def Let_def)

context net_link
begin

lemma net_free_view: "net_free E p n = Some n' \<Longrightarrow> tcp_view n' = tcp_view n"
  by (blast dest: net_free_keeps tcp_view_keeps)

lemma tcp_seg_free_keeps: "tcp_seg_free E seg n = Some n' \<Longrightarrow> keeps_upper n n'"
  by (auto simp: tcp_seg_free_def net_mfree_def Option.bind_eq_Some_conv split: if_splits
      dest!: net_free_keeps intro: keeps_upper_trans)

lemma tcp_segs_free_keeps: "tcp_segs_free E xs n = Some n' \<Longrightarrow> keeps_upper n n'"
  by (induction xs arbitrary: n) (auto simp: Option.bind_eq_Some_conv dest!: tcp_seg_free_keeps intro: keeps_upper_trans)

lemma tcp_create_segment_keeps: "tcp_create_segment E a p fl s ofl n = Some (n', r) \<Longrightarrow> keeps_upper n n'"
proof -
  assume eq: "tcp_create_segment E a p fl s ofl n = Some (n', r)"
  obtain n1 q where m: "net_malloc E SIZEOF_TCP_SEG n = (n1, q)"
    by force
  have k: "keeps_upper n n1"
    using m by (auto simp: net_malloc_def split: prod.splits)
  have "keeps_upper n1 n'"
    using eq by (auto simp: tcp_create_segment_def m Let_def Option.bind_eq_Some_conv split: if_splits
        dest!: net_free_keeps net_header_keeps tcp_seg_free_keeps intro: keeps_upper_trans)
  then show ?thesis
    using k keeps_upper_trans by blast
qed

lemma ip_output_keeps: "ip_output E p src dest ttl tos proto n = Some (n', err) \<Longrightarrow> keeps_upper n n'"
  by (auto simp: ip_output_def ip_output_if_def split: option.splits dest: ip_output_if_opt_keeps)

lemma tcp_send_hdr_keeps: "tcp_send_hdr E p l r ttl tos n = Some n' \<Longrightarrow> keeps_upper n n'"
  by (auto simp: tcp_send_hdr_def Let_def Option.bind_eq_Some_conv dest!: net_free_keeps ip_output_keeps intro: keeps_upper_trans)

lemma tcp_rst_keeps: "tcp_rst E s k l r lp rp n = Some n' \<Longrightarrow> keeps_upper n n'"
  by (auto simp: tcp_rst_def Let_def Option.bind_eq_Some_conv split: if_splits dest!: net_alloc_keeps tcp_send_hdr_keeps intro: keeps_upper_trans)

end

context net_link
begin

lemma tcp_output_alloc_header_view:
  assumes "tcp_output_alloc_header E a ol dl s n = Some (n', p)"
  shows "tcp_view n' = tcp_view n"
proof -
  obtain n1 q where al: "net_alloc E PBUF_IP (TCP_HLEN + ol + dl) PBUF_RAM n = Some (n1, q)"
    using assms by (auto simp: tcp_output_alloc_header_def Option.bind_eq_Some_conv)
  note v = tcp_view_keeps [OF net_alloc_keeps [OF al]]
  show ?thesis
    using assms v by (auto simp: tcp_output_alloc_header_def al Let_def Option.bind_eq_Some_conv tcp_view_set split: if_splits)
qed

lemma tcp_send_empty_ack_view: "tcp_send_empty_ack E a n = Some (n', err) \<Longrightarrow> tcp_view n' = tcp_view n"
  by (auto simp: tcp_send_empty_ack_def Option.bind_eq_Some_conv split: if_splits
      dest!: tcp_output_alloc_header_view upd_tpcb_view tcp_view_keeps [OF tcp_send_hdr_keeps])

lemma tcp_keepalive_view: "tcp_keepalive E a n = Some n' \<Longrightarrow> tcp_view n' = tcp_view n"
  by (auto simp: tcp_keepalive_def Option.bind_eq_Some_conv split: if_splits
      dest!: tcp_output_alloc_header_view tcp_view_keeps [OF tcp_send_hdr_keeps])

lemma tcp_zero_window_probe_view:
  assumes "tcp_zero_window_probe E a n = Some n'"
  shows "tcp_view n' = tcp_view n"
proof -
  obtain pcb where pcb: "tpcb n a = Some pcb"
    using assms by (auto simp: tcp_zero_window_probe_def Option.bind_eq_Some_conv)
  show ?thesis
  proof (cases "unacked pcb @ unsent pcb")
    case Nil
    then show ?thesis
      using assms pcb by (simp add: tcp_zero_window_probe_def)
  next
    case (Cons seg rest)
    define fin where "fin = (TCPH_FLAGS (net_mem n) (sg_tcphdr seg) AND TCP_FIN \<noteq> 0 \<and> sg_len seg = 0)"
    have "tcp_zero_window_probe E a n =
      do {
        (n, p) \<leftarrow> tcp_output_alloc_header E a 0 (if fin then 0 else 1) (load32 (net_mem n) (sg_tcphdr seg + th_seqno)) n;
        if p = NULL then Some n
        else do {
          pb \<leftarrow> pbufs (net_ps n) p;
          n \<leftarrow> (if fin then Some (set_dmem (TCPH_FLAGS_SET (net_mem n) (pb_payload pb) (TCP_ACK OR TCP_FIN)) n)
                else do {
                  sb \<leftarrow> pbufs (net_ps n) (sg_p seg);
                  (ps, _) \<leftarrow> pbuf_copy_partial (net_ps n) (sg_p seg) (pb_payload pb + unat TCP_HLEN) 1
                               (TCPH_HDRLEN (net_mem n) (pb_payload sb) * 4);
                  Some (set_ps ps n)
                });
          tcp_send_hdr E p (t_local_ip pcb) (t_remote_ip pcb) (t_ttl pcb) 0 n
        }
      }"
      by (simp only: tcp_zero_window_probe_def pcb Cons fin_def Let_def Option.bind.simps list.case)
    with assms show ?thesis
      by (auto simp: Option.bind_eq_Some_conv split: if_split_asm
          dest!: tcp_output_alloc_header_view tcp_view_keeps [OF tcp_send_hdr_keeps])
  qed
qed

lemma tcp_output_segment_view:
  assumes "tcp_output_segment E seg a n = Some (n', seg')"
  shows "tcp_view n' = tcp_view n"
proof -
  obtain pcb where pcb: "tpcb n a = Some pcb"
    using assms by (auto simp: tcp_output_segment_def Option.bind_eq_Some_conv)
  define m where "m = (let m = mem_write (net_mem n) (sg_tcphdr seg + th_ackno) (le_bytes32 (lwip_htonl (rcv_nxt pcb)));
       m = mem_write m (sg_tcphdr seg + th_wnd) (le_bytes16 (lwip_htons (rcv_ann_wnd pcb)))
     in if sg_flags seg AND TF_SEG_OPTS_MSS \<noteq> 0 then mem_write m (sg_tcphdr seg + unat TCP_HLEN) TCP_BUILD_MSS_OPTION else m)"
  define pcb1 where "pcb1 = pcb\<lparr>rcv_ann_right_edge := rcv_nxt pcb + ucast (rcv_ann_wnd pcb), rtime := (if rtime pcb = - 1 then 0 else rtime pcb)\<rparr>"
  define n1 where "n1 = set_tpcb a pcb1 (set_dmem m n)"
  define route where "route = ip_route (t_remote_ip pcb1) n1"
  define pcb2 where "pcb2 = (case route of
       Some i \<Rightarrow> if t_local_ip pcb1 = IPADDR_ANY then pcb1\<lparr>t_local_ip := netif_ip_addr (netif_list n1 ! i)\<rparr> else pcb1
     | None \<Rightarrow> pcb1)"
  define pcb3 where "pcb3 = (if rttest pcb2 = 0 then pcb2\<lparr>rttest := tcp_ticks (net_tcp n1), rtseq := seg_seqno m seg\<rparr> else pcb2)"
  have "t_state pcb3 = t_state pcb" "t_state pcb1 = t_state pcb" "t_local_port pcb3 = t_local_port pcb" "t_local_port pcb1 = t_local_port pcb"
    by (simp_all add: pcb3_def pcb2_def pcb1_def split: option.split)
  then have v: "tcp_view n1 = tcp_view n" "tcp_view (set_tpcb a pcb3 n1) = tcp_view n"
    using tcp_view_set [of "set_dmem m n" a pcb pcb1] tcp_view_set [of n1 a pcb1 pcb3] pcb by (simp_all add: n1_def)
  have "n' = n1 \<or> keeps_upper (set_tpcb a pcb3 n1) n'"
  proof (cases "t_local_ip pcb1 = IPADDR_ANY \<and> route = None")
    case True
    then show ?thesis
      using assms
      unfolding tcp_output_segment_def pcb Option.bind.simps Let_def m_def [unfolded Let_def, symmetric] pcb1_def [symmetric] n1_def [symmetric]
        route_def [symmetric] if_P [OF True] by simp
  next
    case False
    then have "\<exists>m1 m2 ps err. ip_output E (sg_p seg) (t_local_ip pcb3) (t_remote_ip pcb3) (t_ttl pcb3) (t_tos pcb3) IP_PROTO_TCP
        (set_dmem m1 (set_dmem m2 (set_ps ps (set_tpcb a pcb3 n1)))) = Some (n', err)"
      using assms
      unfolding tcp_output_segment_def pcb Option.bind.simps Let_def m_def [unfolded Let_def, symmetric] pcb1_def [symmetric] n1_def [symmetric]
        route_def [symmetric] pcb2_def [symmetric] pcb3_def [symmetric] if_not_P [OF False]
      by (simp only: Option.bind_eq_Some_conv split_paired_Ex prod.case option.inject prod.inject) (elim exE conjE, hypsubst, intro exI, assumption)
    then show ?thesis
      by (auto dest!: ip_output_keeps)
  qed
  then show ?thesis
    using v tcp_view_keeps by metis
qed

lemma tcp_output_step_view:
  assumes "tcp_output_step E a seg rest n = Some n'"
  shows "tcp_view n' = tcp_view n"
  using assms by (auto simp: tcp_output_step_def Let_def Option.bind_eq_Some_conv tcp_view_set split: if_splits
      dest!: tcp_output_segment_view tcp_view_keeps [OF tcp_seg_free_keeps])

lemma tcp_output_loop_view:
  assumes "tcp_output_loop E a wnd n = Some n'"
  shows "tcp_view n' = tcp_view n"
proof -
  have "E' = E \<longrightarrow> tcp_view n2 = tcp_view n1" if "tcp_output_loop E' b w n1 = Some n2" for E' b w n1 n2
    using that
  proof (induction rule: tcp_output_loop.raw_induct [of "\<lambda>E' _ _ n n'. E' = E \<longrightarrow> tcp_view n' = tcp_view n", rotated, consumes 1, case_names step])
    case (step loop E' a wnd n n')
    then obtain pcb where pcb: "tpcb n a = Some pcb"
      by (auto simp: Option.bind_eq_Some_conv)
    show ?case
    proof (cases "unsent pcb")
      case Nil
      then show ?thesis
        using step pcb by simp
    next
      case (Cons seg rest)
      then show ?thesis
        using step pcb by (auto simp: Option.bind_eq_Some_conv split: if_split_asm dest!: tcp_output_step_view)
    qed
  qed
  then show ?thesis
    using assms by blast
qed

end


lemma tcp_view_set_low:
  "net_tcp n1 = net_tcp n \<Longrightarrow> tpcb n a = Some pcb \<Longrightarrow> t_state q = t_state pcb \<Longrightarrow> t_local_port q = t_local_port pcb \<Longrightarrow> tcp_view (set_tpcb a q n1) = tcp_view n"
  by (metis tcp_view_cong tcp_view_set)

lemma t_state_persist [simp]:
  "t_state (case us of [] \<Rightarrow> q | seg # x \<Rightarrow> if f seg then q\<lparr>persist_cnt := 0, persist_backoff := 1\<rparr> else q) = t_state q"
  "t_local_port (case us of [] \<Rightarrow> q | seg # x \<Rightarrow> if f seg then q\<lparr>persist_cnt := 0, persist_backoff := 1\<rparr> else q) = t_local_port q"
  by (simp_all split: list.split)

context net_link
begin

lemmas keeps_tcp = net_free_keeps [THEN keeps_upperD(8)] net_alloc_keeps [THEN keeps_upperD(8)] net_header_keeps [THEN keeps_upperD(8)]
  tcp_seg_free_keeps [THEN keeps_upperD(8)] tcp_segs_free_keeps [THEN keeps_upperD(8)] tcp_create_segment_keeps [THEN keeps_upperD(8)]
  tcp_send_hdr_keeps [THEN keeps_upperD(8)] tcp_rst_keeps [THEN keeps_upperD(8)]

lemma tcp_output_view:
  assumes "tcp_output E a n = Some (n', err)"
  shows "tcp_view n' = tcp_view n"
  using assms by (auto simp: tcp_output_def Let_def tcp_view_set Option.bind_eq_Some_conv simp del: list.case split: if_split_asm
      dest!: tcp_send_empty_ack_view tcp_output_loop_view)

lemma tcp_enqueue_flags_view:
  assumes "tcp_enqueue_flags E a fl n = Some (n', err)"
  shows "tcp_view n' = tcp_view n"
proof -
  obtain pcb where pcb: "tpcb n a = Some pcb"
    using assms by (auto simp: tcp_enqueue_flags_def Option.bind_eq_Some_conv)
  define ofl where "ofl = (if fl AND TCP_SYN \<noteq> 0 then TF_SEG_OPTS_MSS else 0)"
  note eq = assms [unfolded tcp_enqueue_flags_def pcb Option.bind.simps Let_def, folded ofl_def]
  show ?thesis
  proof (cases "queue_full pcb \<or> snd_buf pcb = 0")
    case True
    then show ?thesis
      using eq pcb by (auto simp: tcp_view_set split: if_split_asm)
  next
    case False
    then obtain n1 p where al: "net_alloc E PBUF_TRANSPORT (LWIP_TCP_OPT_LENGTH ofl) PBUF_RAM n = Some (n1, p)"
      using eq by (auto simp: Option.bind_eq_Some_conv)
    show ?thesis
    proof (cases "p = NULL")
      case True
      then show ?thesis
        using eq False al by (auto dest!: keeps_tcp intro!: tcp_view_set_low [OF _ pcb])
    next
      case p: False
      then obtain n2 s where cs: "tcp_create_segment E a p fl (snd_lbb pcb) ofl n1 = Some (n2, s)"
        using eq False al by (auto simp: Option.bind_eq_Some_conv)
      have "net_tcp n2 = net_tcp n"
        using keeps_tcp(6) [OF cs] keeps_tcp(2) [OF al] by simp
      then show ?thesis
        using eq False al p cs by (cases s) (auto simp: Option.bind_eq_Some_conv intro!: tcp_view_set_low [OF _ pcb])
    qed
  qed
qed

lemma tcp_send_fin_view: "tcp_send_fin E a n = Some (n', err) \<Longrightarrow> tcp_view n' = tcp_view n"
  by (auto simp: tcp_send_fin_def Option.bind_eq_Some_conv split: if_split_asm dest: tcp_enqueue_flags_view)

lemma tcp_rexmit_rto_view: "tcp_rexmit_rto E a n = Some n' \<Longrightarrow> tcp_view n' = tcp_view n"
  by (auto simp: tcp_rexmit_rto_def Option.bind_eq_Some_conv tcp_view_set split: if_split_asm dest!: tcp_output_view)

lemma tcp_recved_view: "tcp_recved E a len n = Some n' \<Longrightarrow> tcp_view n' = tcp_view n"
  by (auto simp: tcp_recved_def Let_def Option.bind_eq_Some_conv tcp_view_set case_prod_beta split: if_split_asm dest!: tcp_output_view)

lemma tcp_pcb_purge_view: "tcp_pcb_purge E a n = Some n' \<Longrightarrow> tcp_view n' = tcp_view n"
  by (auto simp: tcp_pcb_purge_def Option.bind_eq_Some_conv split: if_split_asm dest!: keeps_tcp intro!: tcp_view_set_low)

end


section \<open>Receiving\<close>

lemma t_state_rexmit [simp]:
  "t_state (tcp_rexmit m pcb) = t_state pcb" "t_local_port (tcp_rexmit m pcb) = t_local_port pcb"
  by (simp_all add: tcp_rexmit_def split: list.split)

lemma t_state_recv [simp]:
  "t_state (recv_window s k w pcb) = t_state pcb" "t_state (recv_rtt t k pcb) = t_state pcb"
  "t_state (tcp_rexmit_fast m pcb) = t_state pcb" "t_state (recv_dupack m e k l pcb) = t_state pcb"
  "t_local_port (recv_window s k w pcb) = t_local_port pcb" "t_local_port (recv_rtt t k pcb) = t_local_port pcb"
  "t_local_port (tcp_rexmit_fast m pcb) = t_local_port pcb" "t_local_port (recv_dupack m e k l pcb) = t_local_port pcb"
  by (simp_all add: recv_window_def recv_rtt_def tcp_rexmit_fast_def recv_dupack_def Let_def)

lemma t_state_recv_new_ack: "recv_new_ack k pcb = Some pcb' \<Longrightarrow> t_state pcb' = t_state pcb \<and> t_local_port pcb' = t_local_port pcb"
  by (auto simp: recv_new_ack_def Let_def Option.bind_eq_Some_conv)

context net_link
begin

lemma free_acked_tcp: "free_acked E acks xs k q n = Some (n', r) \<Longrightarrow> net_tcp n' = net_tcp n"
  by (induction xs arbitrary: k q n) (auto simp: Let_def Option.bind_eq_Some_conv split: if_split_asm dest!: keeps_tcp)

lemma tcp_receive_ack_view:
  assumes "tcp_receive_ack E a i n = Some n'"
  shows "tcp_view n' = tcp_view n"
proof -
  obtain pcb where pcb: "tpcb n a = Some pcb"
    using assms by (auto simp: tcp_receive_ack_def Option.bind_eq_Some_conv)
  define q where "q = recv_window (in_seqno i) (in_ackno i) (in_wnd (net_mem n) i) pcb"
  define r where "r = (if TCP_SEQ_LEQ (in_ackno i) (lastack q)
      then Some (n, recv_dupack (net_mem n) (ucast (snd_wnd pcb) + snd_wl2 pcb) (in_ackno i) (in_tcplen i) q)
      else if TCP_SEQ_BETWEEN (in_ackno i) (lastack q + 1) (snd_nxt q) then do {
        pcb \<leftarrow> recv_new_ack (in_ackno i) q;
        (n, rest, acked, qlen) \<leftarrow> free_acked E (acks_seg (in_ackno i)) (unacked pcb) (t_acked pcb) (snd_queuelen pcb) n;
        Some (n, pcb\<lparr>unacked := rest, t_acked := acked, snd_queuelen := qlen, rtime := (if rest = [] then - 1 else 0), polltmr := 0\<rparr>)
      }
      else Some (n, q\<lparr>t_acked := 0\<rparr>))"
  have r: "net_tcp n1 = net_tcp n \<and> t_state q1 = t_state pcb \<and> t_local_port q1 = t_local_port pcb" if "r = Some (n1, q1)" for n1 q1
  proof -
    have tq: "t_state q = t_state pcb" "t_local_port q = t_local_port pcb"
      by (simp_all add: q_def)
    consider "TCP_SEQ_LEQ (in_ackno i) (lastack q)" | "\<not> TCP_SEQ_LEQ (in_ackno i) (lastack q)" "TCP_SEQ_BETWEEN (in_ackno i) (lastack q + 1) (snd_nxt q)"
      | "\<not> TCP_SEQ_LEQ (in_ackno i) (lastack q)" "\<not> TCP_SEQ_BETWEEN (in_ackno i) (lastack q + 1) (snd_nxt q)"
      by blast
    then show ?thesis
    proof cases
      case 2
      then show ?thesis
        using that tq unfolding r_def
        by (auto simp: Option.bind_eq_Some_conv simp del: if_split dest!: free_acked_tcp t_state_recv_new_ack)
    qed (use that tq in \<open>auto simp: r_def\<close>)
  qed
  note eq = assms [unfolded tcp_receive_ack_def pcb Option.bind.simps Let_def, folded q_def, folded r_def]
  then show ?thesis
    by (auto simp: Option.bind_eq_Some_conv dest!: r free_acked_tcp intro!: tcp_view_set_low [OF _ pcb])
qed

lemma tcp_receive_insequence_view:
  assumes "tcp_receive_insequence E a i n = Some (n', i')"
  shows "tcp_view n' = tcp_view n"
proof -
  obtain pcb where pcb: "tpcb n a = Some pcb"
    using assms by (auto simp: tcp_receive_insequence_def Option.bind_eq_Some_conv)
  have cut: "net_tcp n1 = net_tcp n" if "tcp_cut E w i n = Some (n1, i1)" for w n1 i1
    using that by (auto simp: tcp_cut_def Let_def Option.bind_eq_Some_conv split: if_split_asm)
  show ?thesis
    using assms [unfolded tcp_receive_insequence_def pcb Option.bind.simps Let_def]
    by (auto simp: Option.bind_eq_Some_conv dest!: cut intro!: tcp_view_set_low [OF _ pcb])
qed

lemma tcp_receive_data_view:
  assumes "tcp_receive_data E a i n = Some (n', i')"
  shows "tcp_view n' = tcp_view n"
proof -
  have trim: "net_tcp n1 = net_tcp n" if "tcp_trim nx i n = Some (n1, i1)" for nx n1 i1
    using that by (auto simp: tcp_trim_def Let_def Option.bind_eq_Some_conv dest!: keeps_tcp)
  show ?thesis
    using assms by (auto simp: tcp_receive_data_def Let_def Option.bind_eq_Some_conv tcp_view_set split: if_split_asm
        dest!: trim [THEN tcp_view_cong] tcp_receive_insequence_view tcp_send_empty_ack_view)
qed

lemma tcp_receive_view: "tcp_receive E a i n = Some (n', i') \<Longrightarrow> tcp_view n' = tcp_view n"
  by (auto simp: tcp_receive_def Let_def Option.bind_eq_Some_conv tcp_view_set split: if_split_asm
      dest!: tcp_receive_ack_view tcp_receive_data_view)

end

end
