(* ===== verification/Tcp_Lists.thy ===== *)
theory Tcp_Lists
  imports Tcp_View
begin

text \<open>
  The lists of TCP control blocks.  The comment on the lists in \<^verbatim>\<open>tcp_impl.h\<close> is stated as an invariant of the view, and the operations
  of the application (opening, binding, listening, connecting, closing, aborting) are shown to preserve it.  The locale \<open>tcp_app\<close> adds
  to \<open>net_link\<close> that the error callback leaves the lists alone.
\<close>

section \<open>The invariant\<close>

text \<open>The axioms of \<^verbatim>\<open>tcp_impl.h\<close> on the lists, the states of the blocks and the listening blocks: a block is on one list at most, once; every
  block that is not CLOSED is on a list; the lists hold live blocks in the states they are for.\<close>

definition active_state :: "tcp_state \<Rightarrow> bool" where
  "active_state s \<longleftrightarrow> s \<noteq> CLOSED \<and> s \<noteq> LISTEN \<and> s \<noteq> TIME_WAIT"

definition lists_ok :: "(pcb_list \<Rightarrow> addr list) \<Rightarrow> (addr \<Rightarrow> tcp_state option) \<Rightarrow> (addr \<Rightarrow> tcp_pcb_listen option) \<Rightarrow> bool" where
  "lists_ok L st lp \<longleftrightarrow>
     (\<forall>k. distinct (L k)) \<and> (\<forall>k k'. k \<noteq> k' \<longrightarrow> set (L k) \<inter> set (L k') = {}) \<and>
     (\<forall>a s. st a = Some s \<longrightarrow> s \<noteq> CLOSED \<longrightarrow> a \<in> set (L Active_pcbs) \<union> set (L Tw_pcbs)) \<and>
     (\<forall>a. lp a \<noteq> None \<longleftrightarrow> a \<in> set (L Listen_pcbs)) \<and>
     (\<forall>a \<in> set (L Listen_pcbs). st a = None) \<and> (\<forall>a \<in> set (L Bound_pcbs). st a = Some CLOSED) \<and>
     (\<forall>a \<in> set (L Active_pcbs). \<exists>s. st a = Some s \<and> active_state s) \<and> (\<forall>a \<in> set (L Tw_pcbs). st a = Some TIME_WAIT)"

abbreviation states :: "'h net \<Rightarrow> addr \<Rightarrow> tcp_state option" where
  "states n \<equiv> \<lambda>a. map_option t_state (tpcb n a)"

abbreviation lports :: "'h net \<Rightarrow> addr \<Rightarrow> u16 option" where
  "lports n \<equiv> \<lambda>a. map_option t_local_port (tpcb n a)"

definition tcp_lists_ok :: "'h net \<Rightarrow> bool" where
  "tcp_lists_ok n \<longleftrightarrow> lists_ok (pcbs_of (net_tcp n)) (states n) (tcp_lpcbs (net_tcp n))"

lemma tcp_view_iff:
  "tcp_view n' = tcp_view n \<longleftrightarrow>
     pcbs_of (net_tcp n') = pcbs_of (net_tcp n) \<and> states n' = states n \<and> lports n' = lports n \<and> tcp_lpcbs (net_tcp n') = tcp_lpcbs (net_tcp n)"
proof -
  have "tcp_pcb_lists t' = tcp_pcb_lists t \<longleftrightarrow> pcbs_of t' = pcbs_of t" for t t'
  proof
    assume "tcp_pcb_lists t' = tcp_pcb_lists t"
    then show "pcbs_of t' = pcbs_of t"
      by (intro ext) (case_tac x; simp add: tcp_pcb_lists_def)
  next
    assume "pcbs_of t' = pcbs_of t"
    then have "pcbs_of t' k = pcbs_of t k" for k
      by simp
    from this [of Listen_pcbs] this [of Bound_pcbs] this [of Active_pcbs] this [of Tw_pcbs]
    show "tcp_pcb_lists t' = tcp_pcb_lists t"
      by (simp add: tcp_pcb_lists_def)
  qed
  moreover have "map_option (\<lambda>pcb. (t_state pcb, t_local_port pcb)) x = map_option (\<lambda>pcb. (t_state pcb, t_local_port pcb)) y \<longleftrightarrow>
      map_option t_state x = map_option t_state y \<and> map_option t_local_port x = map_option t_local_port y" for x y
    by (cases x; cases y) auto
  then have "(\<lambda>a. map_option (\<lambda>pcb. (t_state pcb, t_local_port pcb)) (tpcb n' a)) = (\<lambda>a. map_option (\<lambda>pcb. (t_state pcb, t_local_port pcb)) (tpcb n a)) \<longleftrightarrow>
      states n' = states n \<and> lports n' = lports n"
    unfolding fun_eq_iff by blast
  ultimately show ?thesis
    by (simp add: tcp_view_def)
qed

lemma tcp_lists_ok_view: "tcp_view n' = tcp_view n \<Longrightarrow> tcp_lists_ok n' \<longleftrightarrow> tcp_lists_ok n"
  by (simp add: tcp_view_iff tcp_lists_ok_def)

lemma on_list_iff: "on_list a t \<longleftrightarrow> (\<exists>k. a \<in> set (pcbs_of t k))"
proof
  assume "on_list a t"
  then show "\<exists>k. a \<in> set (pcbs_of t k)"
    by (auto simp: on_list_def tcp_pcb_lists_def intro: exI [of _ Listen_pcbs] exI [of _ Bound_pcbs] exI [of _ Active_pcbs] exI [of _ Tw_pcbs])
next
  assume "\<exists>k. a \<in> set (pcbs_of t k)"
  then obtain k where "a \<in> set (pcbs_of t k)" ..
  then show "on_list a t"
    by (cases k) (simp_all add: on_list_def tcp_pcb_lists_def)
qed

text \<open>The steps on the abstract state.\<close>

lemma lists_ok_remove:
  assumes "lists_ok L st lp" "a \<in> set (L k)" "k \<noteq> Listen_pcbs"
  shows "lists_ok (L(k := remove1 a (L k))) (st(a := None)) lp"
  using assms unfolding lists_ok_def by (cases k) (auto simp: set_remove1_eq disjoint_iff)

lemma lists_ok_timewait:
  assumes "lists_ok L st lp" "a \<in> set (L Active_pcbs)"
  shows "lists_ok (L(Active_pcbs := remove1 a (L Active_pcbs), Tw_pcbs := a # L Tw_pcbs)) (st(a \<mapsto> TIME_WAIT)) lp"
  using assms unfolding lists_ok_def by (auto simp: set_remove1_eq disjoint_iff)

lemma lists_ok_state:
  assumes "lists_ok L st lp" "a \<in> set (L Active_pcbs)" "active_state s"
  shows "lists_ok L (st(a \<mapsto> s)) lp"
  using assms unfolding lists_ok_def by (auto simp: disjoint_iff active_state_def)

lemma lists_ok_bind:
  assumes "lists_ok L st lp" "st a = Some CLOSED" "\<And>k. a \<notin> set (L k)"
  shows "lists_ok (L(Bound_pcbs := a # L Bound_pcbs)) st lp"
  using assms unfolding lists_ok_def by (auto simp: disjoint_iff)

lemma lists_ok_connect:
  assumes "lists_ok L st lp" "st a = Some CLOSED" "\<And>k. k \<noteq> Bound_pcbs \<Longrightarrow> a \<notin> set (L k)"
  shows "lists_ok (L(Bound_pcbs := remove1 a (L Bound_pcbs), Active_pcbs := a # L Active_pcbs)) (st(a \<mapsto> SYN_SENT)) lp"
  using assms unfolding lists_ok_def by (auto simp: set_remove1_eq disjoint_iff active_state_def)

lemma lists_ok_closed:
  assumes "lists_ok L st lp" "st a = Some CLOSED" "k \<noteq> Bound_pcbs"
  shows "a \<notin> set (L k)"
  using assms unfolding lists_ok_def by (cases k) (auto simp: active_state_def)

lemma lists_ok_free_closed:
  assumes "lists_ok L st lp" "st a = Some CLOSED"
  shows "lists_ok (L(Bound_pcbs := remove1 a (L Bound_pcbs))) (st(a := None)) lp"
  using assms unfolding lists_ok_def by (auto simp: set_remove1_eq disjoint_iff active_state_def)

lemma lists_ok_listen:
  assumes "lists_ok L st lp" "st l = None" "\<And>k. l \<notin> set (L k)"
  shows "lists_ok (L(Listen_pcbs := l # L Listen_pcbs)) st (lp(l \<mapsto> x))"
  using assms unfolding lists_ok_def by (auto simp: disjoint_iff)

lemma lists_ok_close_listen:
  assumes "lists_ok L st lp"
  shows "lists_ok (L(Listen_pcbs := remove1 a (L Listen_pcbs))) st (lp(a := None))"
  using assms unfolding lists_ok_def by (auto simp: set_remove1_eq disjoint_iff)

lemma lists_ok_new:
  assumes "lists_ok L st lp" "st a = None" "\<And>k. a \<notin> set (L k)"
  shows "lists_ok L (st(a \<mapsto> CLOSED)) lp"
  using assms unfolding lists_ok_def by (auto simp: disjoint_iff)


section \<open>The operations keep the invariant\<close>

declare pcbs_of.simps [simp del]

lemma lists_ok_timewait_new:
  assumes "lists_ok L st lp" "\<And>k. a \<notin> set (L k)"
  shows "lists_ok (L(Tw_pcbs := a # L Tw_pcbs)) (st(a \<mapsto> TIME_WAIT)) lp"
  using assms unfolding lists_ok_def by (auto simp: disjoint_iff)

lemma cut_after_idem [simp]: "a \<notin> set xs \<Longrightarrow> cut_after a xs = xs" "a \<in> set (cut_after a xs) \<longleftrightarrow> a \<in> set xs"
  by (simp_all add: cut_after_def)

lemma lists_ok_one:
  assumes "lists_ok L st lp" "a \<in> set (L k)" "k' \<noteq> k"
  shows "a \<notin> set (L k')"
  using assms unfolding lists_ok_def by (auto simp: disjoint_iff)

lemma pcbs_of_RMV: "pcbs_of (net_tcp (TCP_RMV l a n)) = (\<lambda>k. if k = l then remove1 a (pcbs_of (net_tcp n) k) else cut_after a (pcbs_of (net_tcp n) k))"
  by (simp add: TCP_RMV_def fun_eq_iff)

lemma pcbs_of_RMV_on:
  assumes "tcp_lists_ok n" "\<And>k. k \<noteq> l \<Longrightarrow> a \<notin> set (pcbs_of (net_tcp n) k)"
  shows "pcbs_of (net_tcp (TCP_RMV l a n)) = (pcbs_of (net_tcp n))(l := remove1 a (pcbs_of (net_tcp n) l))"
  using assms(2) by (auto simp: pcbs_of_RMV fun_eq_iff)

lemma RMV_simps [simp]:
  "tpcb (TCP_RMV l a n) b = tpcb n b" "tcp_lpcbs (net_tcp (TCP_RMV l a n)) = tcp_lpcbs (net_tcp n)"
  by (simp_all add: TCP_RMV_def)

lemma REG_SomeE:
  assumes "TCP_REG l a n = Some n'"
  shows "\<And>k. a \<notin> set (pcbs_of (net_tcp n) k)" "pcbs_of (net_tcp n') = (pcbs_of (net_tcp n))(l := a # pcbs_of (net_tcp n) l)"
    "tcp_pcbs (net_tcp n') = tcp_pcbs (net_tcp n)" "tcp_lpcbs (net_tcp n') = tcp_lpcbs (net_tcp n)"
  using assms by (auto simp: TCP_REG_def on_list_iff fun_eq_iff split: if_split_asm)

lemma free_tpcb_simps [simp]:
  "pcbs_of (net_tcp (free_tpcb E a n)) = pcbs_of (net_tcp n)" "tpcb (free_tpcb E a n) b = (if b = a then None else tpcb n b)"
  "tcp_lpcbs (net_tcp (free_tpcb E a n)) = tcp_lpcbs (net_tcp n)"
proof -
  show "pcbs_of (net_tcp (free_tpcb E a n)) = pcbs_of (net_tcp n)"
    by (intro ext) (case_tac x; simp add: free_tpcb_def pcbs_of.simps)
qed (simp_all add: free_tpcb_def)

lemma set_tpcb_simps [simp]:
  "pcbs_of (net_tcp (set_tpcb a pcb n)) = pcbs_of (net_tcp n)" "tcp_lpcbs (net_tcp (set_tpcb a pcb n)) = tcp_lpcbs (net_tcp n)"
  "states (set_tpcb a pcb n) = (states n)(a \<mapsto> t_state pcb)"
proof -
  show "pcbs_of (net_tcp (set_tpcb a pcb n)) = pcbs_of (net_tcp n)"
    by (intro ext) (case_tac x; simp add: set_tpcb_def pcbs_of.simps)
qed (auto simp: set_tpcb_def fun_eq_iff)

lemma ok_active:
  assumes "tcp_lists_ok n" "tpcb n a = Some pcb" "active_state (t_state pcb)"
  shows "a \<in> set (pcbs_of (net_tcp n) Active_pcbs)"
proof -
  have "a \<in> set (pcbs_of (net_tcp n) Active_pcbs) \<union> set (pcbs_of (net_tcp n) Tw_pcbs)"
    using assms unfolding tcp_lists_ok_def lists_ok_def active_state_def by (metis option.simps(9))
  moreover have "a \<notin> set (pcbs_of (net_tcp n) Tw_pcbs)"
    using assms unfolding tcp_lists_ok_def lists_ok_def active_state_def by force
  ultimately show ?thesis
    by blast
qed

lemma ok_timewait:
  assumes "tcp_lists_ok n" "tpcb n a = Some pcb" "t_state pcb = TIME_WAIT"
  shows "a \<in> set (pcbs_of (net_tcp n) Tw_pcbs)"
proof -
  have "a \<in> set (pcbs_of (net_tcp n) Active_pcbs) \<union> set (pcbs_of (net_tcp n) Tw_pcbs)"
    using assms unfolding tcp_lists_ok_def lists_ok_def by (metis option.simps(9) tcp_state.distinct(20))
  moreover have "a \<notin> set (pcbs_of (net_tcp n) Active_pcbs)"
    using assms unfolding tcp_lists_ok_def lists_ok_def active_state_def by force
  ultimately show ?thesis
    by blast
qed

lemma tcp_to_timewait_ok:
  assumes "tcp_lists_ok n" "tcp_to_timewait a n = Some n'"
  shows "tcp_lists_ok n'" "states n' = (states n)(a \<mapsto> TIME_WAIT)"
proof -
  obtain pcb n1 where s: "tpcb n a = Some pcb" "n1 = set_tpcb a (pcb\<lparr>t_state := TIME_WAIT\<rparr>) (TCP_RMV Active_pcbs a n)"
    "TCP_REG Tw_pcbs a n1 = Some n'"
    using assms(2) by (auto simp: tcp_to_timewait_def upd_tpcb_def Option.bind_eq_Some_conv)
  note R = REG_SomeE [OF s(3)]
  let ?L = "pcbs_of (net_tcp n)"
  have other: "a \<notin> set (?L k)" if "k \<noteq> Active_pcbs" for k
    using R(1) [of k] that by (simp add: s(2) pcbs_of_RMV)
  have L': "pcbs_of (net_tcp n') = ?L(Active_pcbs := remove1 a (?L Active_pcbs), Tw_pcbs := a # ?L Tw_pcbs)"
    using R(2) other by (simp add: s(2) pcbs_of_RMV_on [OF assms(1)])
  have st: "states n' = (states n)(a \<mapsto> TIME_WAIT)"
    using R(3) by (auto simp: s(2) fun_eq_iff)
  then show "states n' = (states n)(a \<mapsto> TIME_WAIT)" .
  have lp: "tcp_lpcbs (net_tcp n') = tcp_lpcbs (net_tcp n)"
    using R(4) by (simp add: s(2))
  note ok = assms(1) [unfolded tcp_lists_ok_def]
  show "tcp_lists_ok n'"
  proof (cases "a \<in> set (?L Active_pcbs)")
    case True
    show ?thesis
      unfolding tcp_lists_ok_def L' st lp by (rule lists_ok_timewait [OF ok True])
  next
    case False
    then have "?L(Active_pcbs := remove1 a (?L Active_pcbs)) = ?L"
      by (simp add: remove1_idem)
    then show ?thesis
      unfolding tcp_lists_ok_def L' st lp using lists_ok_timewait_new [OF ok, of a] other False by (metis pcb_list.exhaust)
  qed
qed

context net_link
begin

lemma tcp_pcb_remove_free_ok:
  assumes "tcp_lists_ok n" "a \<in> set (pcbs_of (net_tcp n) l)" "l \<noteq> Listen_pcbs" "tcp_pcb_remove E l a n = Some n'"
  shows "tcp_lists_ok (free_tpcb E a n')"
proof -
  have other: "a \<notin> set (pcbs_of (net_tcp n) k)" if "k \<noteq> l" for k
    using lists_ok_one [OF assms(1) [unfolded tcp_lists_ok_def] assms(2) that] .
  obtain n1 where n1: "tcp_view n1 = tcp_view (TCP_RMV l a n)" "upd_tpcb a (\<lambda>pcb. pcb\<lparr>t_state := CLOSED\<rparr>) n1 = Some n'"
    using assms(4) by (auto simp: tcp_pcb_remove_def Let_def Option.bind_eq_Some_conv tcp_view_set split: if_split_asm
        dest!: tcp_pcb_purge_view tcp_output_view)
  obtain q where q: "n' = set_tpcb a q n1"
    using n1(2) by (auto simp: upd_tpcb_def Option.bind_eq_Some_conv)
  note v = n1(1) [unfolded tcp_view_iff]
  have "pcbs_of (net_tcp (free_tpcb E a n')) = (pcbs_of (net_tcp n))(l := remove1 a (pcbs_of (net_tcp n) l))"
    using v other by (simp add: q pcbs_of_RMV_on [OF assms(1)])
  moreover have "states (free_tpcb E a n') = (states n)(a := None)"
    using v by (auto simp: q fun_eq_iff)
  moreover have "tcp_lpcbs (net_tcp (free_tpcb E a n')) = tcp_lpcbs (net_tcp n)"
    using v by (simp add: q)
  ultimately show ?thesis
    using lists_ok_remove [OF assms(1) [unfolded tcp_lists_ok_def] assms(2,3)] unfolding tcp_lists_ok_def by simp
qed

lemma tcp_close_fin_ok:
  assumes "tcp_lists_ok n" "tcp_close_fin E a s n = Some (n', err)" "tpcb n a = Some pcb" "active_state (t_state pcb)" "active_state s"
  shows "tcp_lists_ok n'"
proof -
  obtain n1 e where fin: "tcp_send_fin E a n = Some (n1, e)"
    using assms(2) by (auto simp: tcp_close_fin_def Option.bind_eq_Some_conv)
  note v = tcp_send_fin_view [OF fin]
  have ok1: "tcp_lists_ok n1"
    using tcp_lists_ok_view [OF v] assms(1) by blast
  have act: "a \<in> set (pcbs_of (net_tcp n1) Active_pcbs)"
    using v [unfolded tcp_view_iff] ok_active [OF assms(1,3,4)] by metis
  have upd: "tcp_lists_ok n2" if "upd_tpcb a (\<lambda>pcb. pcb\<lparr>t_state := s\<rparr>) n1 = Some n2" for n2
    using that lists_ok_state [OF ok1 [unfolded tcp_lists_ok_def] act assms(5)]
    by (auto simp: upd_tpcb_def Option.bind_eq_Some_conv tcp_lists_ok_def simp del: tpcb_set)
  show ?thesis
  proof (cases "e = ERR_OK")
    case True
    then obtain n2 r where "upd_tpcb a (\<lambda>pcb. pcb\<lparr>t_state := s\<rparr>) n1 = Some n2" "tcp_output E a n2 = Some (n', r)"
      using assms(2) fin by (auto simp: tcp_close_fin_def Option.bind_eq_Some_conv)
    then show ?thesis
      using upd tcp_output_view tcp_lists_ok_view by blast
  next
    case False
    then show ?thesis
      using assms(2) fin ok1 by (simp add: tcp_close_fin_def)
  qed
qed

end


lemma tcp_close_listen_ok:
  assumes "tcp_lists_ok n" "tcp_lpcbs (net_tcp n) a \<noteq> None" "tcp_close_listen E a n = Some (n', err)"
  shows "tcp_lists_ok n'"
proof -
  have a: "a \<in> set (pcbs_of (net_tcp n) Listen_pcbs)"
    using assms(1,2) by (simp add: tcp_lists_ok_def lists_ok_def)
  have other: "a \<notin> set (pcbs_of (net_tcp n) k)" if "k \<noteq> Listen_pcbs" for k
    using lists_ok_one [OF assms(1) [unfolded tcp_lists_ok_def] a that] .
  have n': "n' = free_lpcb E a (TCP_RMV Listen_pcbs a n)"
    using assms(3) by (simp add: tcp_close_listen_def)
  have "pcbs_of (net_tcp n') = pcbs_of (net_tcp (TCP_RMV Listen_pcbs a n))"
    by (intro ext) (case_tac x; simp add: n' free_lpcb_def pcbs_of.simps)
  moreover have "tcp_pcbs (net_tcp n') = tcp_pcbs (net_tcp n)" "tcp_lpcbs (net_tcp n') = (tcp_lpcbs (net_tcp n))(a := None)"
    by (auto simp: n' free_lpcb_def fun_eq_iff)
  ultimately show ?thesis
    using lists_ok_close_listen [OF assms(1) [unfolded tcp_lists_ok_def], of a] other
    by (simp add: tcp_lists_ok_def pcbs_of_RMV_on [OF assms(1)])
qed

lemma free_closed_ok:
  assumes "tcp_lists_ok n" "tpcb n a = Some pcb" "t_state pcb = CLOSED"
  shows "tcp_lists_ok (free_tpcb E a (TCP_RMV Bound_pcbs a n))" "\<not> on_list a (net_tcp n) \<Longrightarrow> tcp_lists_ok (free_tpcb E a n)"
proof -
  note ok = assms(1) [unfolded tcp_lists_ok_def]
  have cl: "states n a = Some CLOSED"
    using assms(2,3) by simp
  have other: "a \<notin> set (pcbs_of (net_tcp n) k)" if "k \<noteq> Bound_pcbs" for k
    using lists_ok_closed [OF ok cl that] .
  have st: "states (free_tpcb E a n2) = (states n2)(a := None)" for n2
    by (simp add: fun_eq_iff)
  show "tcp_lists_ok (free_tpcb E a (TCP_RMV Bound_pcbs a n))"
    using lists_ok_free_closed [OF ok cl] other unfolding tcp_lists_ok_def st by (simp add: pcbs_of_RMV_on [OF assms(1)])
  assume "\<not> on_list a (net_tcp n)"
  then have "(pcbs_of (net_tcp n))(Bound_pcbs := remove1 a (pcbs_of (net_tcp n) Bound_pcbs)) = pcbs_of (net_tcp n)"
    by (simp add: on_list_iff remove1_idem)
  then show "tcp_lists_ok (free_tpcb E a n)"
    using lists_ok_free_closed [OF ok cl] unfolding tcp_lists_ok_def st by simp
qed

text \<open>A bound block has a local port: without it \<^verbatim>\<open>tcp_close\<close> would leave the freed block on the list.\<close>

definition bound_ports_ok :: "'h net \<Rightarrow> bool" where
  "bound_ports_ok n \<longleftrightarrow> (\<forall>a \<in> set (pcbs_of (net_tcp n) Bound_pcbs). lports n a \<noteq> Some 0)"

lemma bound_ports_ok_view: "tcp_view n' = tcp_view n \<Longrightarrow> bound_ports_ok n' \<longleftrightarrow> bound_ports_ok n"
  by (simp add: tcp_view_iff bound_ports_ok_def fun_eq_iff)

context net_link
begin

lemma tcp_close_shutdown_ok:
  assumes "tcp_lists_ok n" "bound_ports_ok n" "tcp_close_shutdown E a r n = Some (n', err)"
  shows "tcp_lists_ok n'"
proof (cases "tcp_lpcbs (net_tcp n) a")
  case (Some l)
  then show ?thesis
    using assms(3) tcp_close_listen_ok [OF assms(1), of a E n' err] by (simp add: tcp_close_shutdown_def)
next
  case None
  then obtain pcb where pcb: "tpcb n a = Some pcb"
    using assms(3) by (auto simp: tcp_close_shutdown_def Option.bind_eq_Some_conv)
  note eq = assms(3) [unfolded tcp_close_shutdown_def None pcb Option.bind.simps]
  show ?thesis
  proof (cases "r \<and> (refused_data pcb \<noteq> NULL \<or> rcv_wnd pcb \<noteq> TCP_WND)")
    case True
    then obtain n1 n2 where s: "tcp_rst E (snd_nxt pcb) (rcv_nxt pcb) (t_local_ip pcb) (t_remote_ip pcb) (t_local_port pcb) (t_remote_port pcb) n = Some n1"
      "tcp_pcb_purge E a n1 = Some n2" "tcp_to_timewait a n2 = Some n'"
      using eq by (auto simp: Option.bind_eq_Some_conv)
    have "tcp_view n2 = tcp_view n"
      using tcp_view_keeps [OF tcp_rst_keeps [OF s(1)]] tcp_pcb_purge_view [OF s(2)] by simp
    then show ?thesis
      using tcp_to_timewait_ok(1) [OF _ s(3)] assms(1) tcp_lists_ok_view by blast
  next
    case False
    note eq = eq [unfolded if_not_P [OF False]]
    show ?thesis
    proof (cases "t_state pcb")
      case CLOSED
      have "\<not> on_list a (net_tcp n)" if "t_local_port pcb = 0"
      proof -
        have "a \<notin> set (pcbs_of (net_tcp n) Bound_pcbs)"
          using assms(2) pcb that by (auto simp: bound_ports_ok_def)
        moreover have "a \<notin> set (pcbs_of (net_tcp n) k)" if "k \<noteq> Bound_pcbs" for k
          using lists_ok_closed [OF assms(1) [unfolded tcp_lists_ok_def] _ that] pcb CLOSED by simp
        ultimately show ?thesis
          unfolding on_list_iff by metis
      qed
      then show ?thesis
        using eq CLOSED free_closed_ok [OF assms(1) pcb CLOSED] by (auto split: if_split_asm)
    next
      case SYN_SENT
      then have "a \<in> set (pcbs_of (net_tcp n) Active_pcbs)"
        using ok_active [OF assms(1) pcb] by (simp add: active_state_def)
      then show ?thesis
        using eq SYN_SENT tcp_pcb_remove_free_ok [OF assms(1)] by (auto simp: Option.bind_eq_Some_conv)
    qed (use eq assms(1) tcp_close_fin_ok [OF assms(1) _ pcb] in \<open>simp_all add: active_state_def\<close>)
  qed
qed

end


text \<open>Everything but \<^verbatim>\<open>tcp_bind\<close> at most shortens the list of bound blocks and keeps their ports.\<close>

definition bound_le :: "'h net \<Rightarrow> 'h net \<Rightarrow> bool" where
  "bound_le n n' \<longleftrightarrow> (\<forall>a \<in> set (pcbs_of (net_tcp n') Bound_pcbs). a \<in> set (pcbs_of (net_tcp n) Bound_pcbs) \<and> (lports n' a = lports n a \<or> lports n' a = None))"

lemma bound_le_refl [simp]: "bound_le n n"
  by (simp add: bound_le_def)

lemma bound_le_trans: "bound_le n n' \<Longrightarrow> bound_le n' n'' \<Longrightarrow> bound_le n n''"
  unfolding bound_le_def by metis

lemma bound_le_ok: "bound_le n n' \<Longrightarrow> bound_ports_ok n \<Longrightarrow> bound_ports_ok n'"
  unfolding bound_le_def bound_ports_ok_def by (metis option.distinct(1))

lemma bound_le_view: "tcp_view n' = tcp_view n \<Longrightarrow> bound_le n n'"
  by (simp add: tcp_view_iff bound_le_def fun_eq_iff)

lemma set_cut_after: "set (cut_after a xs) \<subseteq> set xs"
  by (auto simp: cut_after_def dest: set_takeWhileD)

lemma bound_le_RMV: "bound_le n (TCP_RMV l a n)"
  unfolding bound_le_def by (auto simp: pcbs_of_RMV dest: subsetD [OF set_cut_after] subsetD [OF set_remove1_subset])

lemma bound_le_free: "bound_le n (free_tpcb E a n)"
  by (auto simp: bound_le_def)

lemma bound_le_REG: "TCP_REG l a n = Some n' \<Longrightarrow> l \<noteq> Bound_pcbs \<Longrightarrow> bound_le n n'"
  using REG_SomeE [of l a n n'] by (simp add: bound_le_def)

lemma bound_le_set: "tpcb n a = Some pcb \<Longrightarrow> t_local_port pcb' = t_local_port pcb \<Longrightarrow> bound_le n (set_tpcb a pcb' n)"
  by (auto simp: bound_le_def)

lemma bound_le_upd: "upd_tpcb a f n = Some n' \<Longrightarrow> (\<And>pcb. t_local_port (f pcb) = t_local_port pcb) \<Longrightarrow> bound_le n n'"
  by (auto simp: upd_tpcb_def Option.bind_eq_Some_conv intro: bound_le_set)

lemma bound_le_timewait: "tcp_to_timewait a n = Some n' \<Longrightarrow> bound_le n n'"
  by (auto simp: tcp_to_timewait_def Option.bind_eq_Some_conv dest!: bound_le_upd bound_le_REG intro: bound_le_trans bound_le_RMV)

lemma bound_le_close_listen:
  assumes "tcp_close_listen E a n = Some (n', err)"
  shows "bound_le n n'"
proof -
  have "bound_le (TCP_RMV Listen_pcbs a n) n'"
    using assms by (auto simp: tcp_close_listen_def free_lpcb_def bound_le_def pcbs_of.simps)
  then show ?thesis
    using bound_le_RMV bound_le_trans by blast
qed

context net_link
begin

lemma tcp_pcb_remove_le:
  assumes "tcp_pcb_remove E l a n = Some n'"
  shows "bound_le n (free_tpcb E a n')"
proof -
  obtain n1 where n1: "tcp_view n1 = tcp_view (TCP_RMV l a n)" "upd_tpcb a (\<lambda>pcb. pcb\<lparr>t_state := CLOSED\<rparr>) n1 = Some n'"
    using assms by (auto simp: tcp_pcb_remove_def Let_def Option.bind_eq_Some_conv tcp_view_set split: if_split_asm
        dest!: tcp_pcb_purge_view tcp_output_view)
  have "bound_le n1 n'"
    using bound_le_upd [OF n1(2)] by simp
  then show ?thesis
    using bound_le_trans [OF bound_le_RMV bound_le_trans [OF bound_le_view [OF n1(1)] bound_le_trans [OF _ bound_le_free]]] by blast
qed

lemma tcp_close_fin_le: "tcp_close_fin E a s n = Some (n', err) \<Longrightarrow> bound_le n n'"
  by (auto simp: tcp_close_fin_def Option.bind_eq_Some_conv split: if_split_asm
      dest!: tcp_send_fin_view tcp_output_view bound_le_view bound_le_upd intro: bound_le_trans)

lemma tcp_close_shutdown_le:
  assumes "tcp_close_shutdown E a r n = Some (n', err)"
  shows "bound_le n n'"
proof (cases "tcp_lpcbs (net_tcp n) a")
  case (Some l)
  then show ?thesis
    using assms bound_le_close_listen by (simp add: tcp_close_shutdown_def)
next
  case None
  then obtain pcb where pcb: "tpcb n a = Some pcb"
    using assms by (auto simp: tcp_close_shutdown_def Option.bind_eq_Some_conv)
  note eq = assms [unfolded tcp_close_shutdown_def None pcb Option.bind.simps]
  show ?thesis
  proof (cases "r \<and> (refused_data pcb \<noteq> NULL \<or> rcv_wnd pcb \<noteq> TCP_WND)")
    case True
    then show ?thesis
      using eq by (auto simp: Option.bind_eq_Some_conv dest!: tcp_rst_keeps tcp_view_keeps tcp_pcb_purge_view bound_le_view bound_le_timewait
          intro: bound_le_trans)
  next
    case False
    note eq = eq [unfolded if_not_P [OF False]]
    show ?thesis
    proof (cases "t_state pcb")
      case CLOSED
      then show ?thesis
        using eq by (auto split: if_split_asm intro: bound_le_trans [OF bound_le_RMV bound_le_free] bound_le_free)
    next
      case SYN_SENT
      then show ?thesis
        using eq by (auto simp: Option.bind_eq_Some_conv dest: tcp_pcb_remove_le)
    qed (use eq tcp_close_fin_le in simp_all)
  qed
qed

end

definition tcp_inv :: "'h net \<Rightarrow> bool" where
  "tcp_inv n \<longleftrightarrow> tcp_lists_ok n \<and> bound_ports_ok n"

lemma tcp_inv_view: "tcp_inv n \<Longrightarrow> tcp_view n' = tcp_view n \<Longrightarrow> tcp_inv n'"
  using tcp_lists_ok_view bound_ports_ok_view by (auto simp: tcp_inv_def)

context net_link
begin

lemma tcp_close_shutdown_inv: "tcp_inv n \<Longrightarrow> tcp_close_shutdown E a r n = Some (n', err) \<Longrightarrow> tcp_inv n'"
  unfolding tcp_inv_def using tcp_close_shutdown_ok tcp_close_shutdown_le bound_le_ok by blast

lemma tcp_close_inv:
  assumes "tcp_inv n" "tcp_close E a n = Some (n', err)"
  shows "tcp_inv n'"
proof -
  obtain n1 where n1: "(if tcp_lpcbs (net_tcp n) a \<noteq> None then Some n else upd_tpcb a (set_flag TF_RXCLOSED) n) = Some n1"
    "tcp_close_shutdown E a True n1 = Some (n', err)"
    using assms(2) by (auto simp: tcp_close_def Option.bind_eq_Some_conv)
  have "tcp_view n1 = tcp_view n"
    using n1(1) by (auto split: if_split_asm dest: upd_tpcb_view)
  then show ?thesis
    using tcp_close_shutdown_inv [OF tcp_inv_view [OF assms(1)] n1(2)] by blast
qed

lemma tcp_shutdown_inv:
  assumes "tcp_inv n" "tcp_shutdown E a rx tx n = Some (n', err)"
  shows "tcp_inv n'"
proof (cases "tcp_lpcbs (net_tcp n) a = None")
  case True
  then obtain pcb n1 where s: "tpcb n a = Some pcb"
    "(if rx then do {
        n \<leftarrow> (if refused_data pcb \<noteq> NULL then net_free E (refused_data pcb) n else Some n);
        Some (set_tpcb a (set_flag TF_RXCLOSED (pcb\<lparr>refused_data := NULL\<rparr>)) n) } else Some n) = Some n1"
    "(if tx \<and> t_state pcb \<in> {SYN_RCVD, ESTABLISHED, CLOSE_WAIT} then tcp_close_shutdown E a False n1 else Some (n1, ERR_OK)) = Some (n', err)"
    using assms(2) by (auto simp: tcp_shutdown_def Option.bind_eq_Some_conv)
  have "tcp_view n1 = tcp_view n"
    using s(2) by (auto simp: Option.bind_eq_Some_conv split: if_split_asm dest!: keeps_tcp intro!: tcp_view_set_low [OF _ s(1)])
  then have "tcp_inv n1"
    using assms(1) tcp_inv_view by blast
  then show ?thesis
    using s(3) tcp_close_shutdown_inv by (auto split: if_split_asm)
qed (use assms in \<open>simp add: tcp_shutdown_def\<close>)

end


section \<open>Opening\<close>

lemma next_port_pos: "next_port p \<noteq> 0"
proof (cases "p \<ge> TCP_LOCAL_PORT_RANGE_END")
  case False
  then have "unat (p + 1) = unat p + 1"
    by (simp add: TCP_LOCAL_PORT_RANGE_END_def word_le_nat_alt unat_word_ariths)
  then show ?thesis
    using False by (metis add_is_0 next_port_def one_neq_zero unat_0)
qed (simp add: next_port_def TCP_LOCAL_PORT_RANGE_START_def)

lemma tcp_new_port_loop_pos: "tcp_new_port_loop t p = Some q \<Longrightarrow> q \<noteq> 0"
  by (induction rule: tcp_new_port_loop.raw_induct [of "\<lambda>_ _ q. q \<noteq> 0", rotated, consumes 1, case_names step])
    (auto simp: Option.bind_eq_Some_conv next_port_pos split: if_split_asm)

lemma tcp_new_port_view: "tcp_new_port n = Some (n', p) \<Longrightarrow> tcp_view n' = tcp_view n \<and> p \<noteq> 0 \<and> tcp_pcbs (net_tcp n') = tcp_pcbs (net_tcp n)"
  by (auto simp: tcp_new_port_def Option.bind_eq_Some_conv tcp_view_def tcp_pcb_lists_def dest: tcp_new_port_loop_pos)

lemma tcp_bind_inv:
  assumes "tcp_inv n" "tcp_bind a ip port n = Some (n', err)"
  shows "tcp_inv n'"
proof -
  obtain pcb where pcb: "tpcb n a = Some pcb"
    using assms(2) by (auto simp: tcp_bind_def Option.bind_eq_Some_conv)
  show ?thesis
  proof (cases "t_state pcb = CLOSED")
    case False
    then show ?thesis
      using assms pcb by (simp add: tcp_bind_def)
  next
    case True
    then obtain n1 pt used where s: "(if port = 0 then tcp_new_port n else Some (n, port)) = Some (n1, pt)"
      "(if used then Some (n1, ERR_USE) else do {
          n \<leftarrow> TCP_REG Bound_pcbs a (set_tpcb a (pcb\<lparr>t_local_ip := (if ip \<noteq> IPADDR_ANY then ip else t_local_ip pcb), t_local_port := pt\<rparr>) n1);
          Some (n, ERR_OK) }) = Some (n', err)"
      using assms(2) pcb by (auto simp: tcp_bind_def Option.bind_eq_Some_conv)
    have v: "tcp_view n1 = tcp_view n" "pt \<noteq> 0" "tcp_pcbs (net_tcp n1) = tcp_pcbs (net_tcp n)"
      using s(1) tcp_new_port_view by (auto split: if_split_asm)
    have inv1: "tcp_inv n1"
      using tcp_inv_view [OF assms(1) v(1)] .
    show ?thesis
    proof (cases used)
      case False
      define q where "q = pcb\<lparr>t_local_ip := (if ip \<noteq> IPADDR_ANY then ip else t_local_ip pcb), t_local_port := pt\<rparr>"
      have reg: "TCP_REG Bound_pcbs a (set_tpcb a q n1) = Some n'"
        using s(2) False unfolding q_def [symmetric] by (auto simp: Option.bind_eq_Some_conv)
      note R = REG_SomeE [OF reg, simplified]
      have st: "states n1 a = Some CLOSED"
        using v(3) pcb True by simp
      have "states n' = states n1"
        using R(3) st by (auto simp: fun_eq_iff set_tpcb_def q_def True)
      moreover have "lists_ok ((pcbs_of (net_tcp n1))(Bound_pcbs := a # pcbs_of (net_tcp n1) Bound_pcbs)) (states n1) (tcp_lpcbs (net_tcp n1))"
        using lists_ok_bind [OF inv1 [unfolded tcp_inv_def tcp_lists_ok_def, THEN conjunct1] st R(1)] .
      ultimately have "tcp_lists_ok n'"
        using R(2,4) by (simp add: tcp_lists_ok_def)
      moreover have "bound_ports_ok n'"
        using inv1 R(1,2,3) v(2) by (auto simp: tcp_inv_def bound_ports_ok_def set_tpcb_def q_def)
      ultimately show ?thesis
        by (simp add: tcp_inv_def)
    qed (use s(2) inv1 in simp)
  qed
qed

lemma tcp_register_connect:
  assumes "tcp_inv n" "tpcb n a = Some pcb" "t_state pcb = CLOSED" "t_state q = SYN_SENT"
    "TCP_REG Active_pcbs a (if old \<noteq> 0 then TCP_RMV Bound_pcbs a (set_tpcb a q n) else set_tpcb a q n) = Some n'"
  shows "tcp_inv n'"
proof -
  let ?L = "pcbs_of (net_tcp n)"
  note ok = assms(1) [unfolded tcp_inv_def tcp_lists_ok_def, THEN conjunct1]
  have cl: "states n a = Some CLOSED"
    using assms(2,3) by simp
  have other: "a \<notin> set (?L k)" if "k \<noteq> Bound_pcbs" for k
    using lists_ok_closed [OF ok cl that] .
  note R = REG_SomeE [OF assms(5)]
  have L': "pcbs_of (net_tcp n') = ?L(Bound_pcbs := remove1 a (?L Bound_pcbs), Active_pcbs := a # ?L Active_pcbs)"
  proof (cases "old = 0")
    case True
    then have "a \<notin> set (?L Bound_pcbs)"
      using R(1) [of Bound_pcbs] by simp
    then have "?L = ?L(Bound_pcbs := remove1 a (?L Bound_pcbs))"
      by (simp add: remove1_idem)
    then show ?thesis
      using R(2) True by simp
  next
    case False
    have "pcbs_of (net_tcp (TCP_RMV Bound_pcbs a (set_tpcb a q n))) = ?L(Bound_pcbs := remove1 a (?L Bound_pcbs))"
      using other by (auto simp: pcbs_of_RMV fun_eq_iff)
    then show ?thesis
      using R(2) False by simp
  qed
  have p': "tpcb n' b = (if b = a then Some q else tpcb n b)" for b
    using R(3) by simp
  then have st: "states n' = (states n)(a \<mapsto> SYN_SENT)"
    using assms(4) by (auto simp: fun_eq_iff)
  have lp: "tcp_lpcbs (net_tcp n') = tcp_lpcbs (net_tcp n)"
    using R(4) by simp
  have "tcp_lists_ok n'"
    unfolding tcp_lists_ok_def L' st lp by (rule lists_ok_connect [OF ok cl other])
  moreover have "bound_ports_ok n'"
  proof -
    have "distinct (?L Bound_pcbs)"
      using ok by (simp add: lists_ok_def)
    then show ?thesis
      using assms(1) L' p' by (auto simp: tcp_inv_def bound_ports_ok_def)
  qed
  ultimately show ?thesis
    by (simp add: tcp_inv_def)
qed


lemma tcp_inv_set:
  assumes "tcp_inv n" "tpcb n a = Some pcb" "t_state q = t_state pcb" "t_local_port q \<noteq> 0 \<or> t_local_port q = t_local_port pcb"
  shows "tcp_inv (set_tpcb a q n)"
proof -
  have "states (set_tpcb a q n) = states n"
    using assms(2,3) by (auto simp: fun_eq_iff)
  then have "tcp_lists_ok (set_tpcb a q n)"
    using assms(1) unfolding tcp_inv_def tcp_lists_ok_def by (simp only: set_tpcb_simps(1,2))
  then show ?thesis
    using assms by (auto simp: tcp_inv_def bound_ports_ok_def)
qed

lemma tcp_next_iss_simps [simp]:
  "tcp_view (fst (tcp_next_iss n)) = tcp_view n" "tpcb (fst (tcp_next_iss n)) a = tpcb n a"
  by (simp_all add: tcp_next_iss_def Let_def tcp_view_def tcp_pcb_lists_def)

lemma tcp_view_state:
  assumes "tcp_view n' = tcp_view n" "tpcb n a = Some pcb" "tpcb n' a = Some pcb'"
  shows "t_state pcb' = t_state pcb"
  using assms by (auto simp: tcp_view_iff fun_eq_iff elim!: allE [of _ a])

context net_link
begin

text \<open>The second half of \<^verbatim>\<open>tcp_connect\<close>, after the addresses are set.\<close>

lemma connect_tail_inv:
  assumes "tcp_inv n" "tpcb n a = Some pcb" "t_state pcb = CLOSED"
    "do {
       (n, ret) \<leftarrow> tcp_enqueue_flags E a TCP_SYN n;
       if ret = ERR_OK then do {
         n \<leftarrow> upd_tpcb a (\<lambda>pcb. pcb\<lparr>t_state := SYN_SENT\<rparr>) n;
         n \<leftarrow> TCP_REG Active_pcbs a (if old \<noteq> 0 then TCP_RMV Bound_pcbs a n else n);
         (n, _) \<leftarrow> tcp_output E a n;
         Some (n, ERR_OK)
       }
       else Some (n, ret)
     } = Some (n', err)"
  shows "tcp_inv n'"
proof -
  obtain n1 ret where enq: "tcp_enqueue_flags E a TCP_SYN n = Some (n1, ret)"
    using assms(4) by (auto simp: Option.bind_eq_Some_conv)
  note inv1 = tcp_inv_view [OF assms(1) tcp_enqueue_flags_view [OF enq]]
  show ?thesis
  proof (cases "ret = ERR_OK")
    case False
    then show ?thesis
      using assms(4) enq inv1 by simp
  next
    case True
    then obtain n2 n3 e where s: "upd_tpcb a (\<lambda>pcb. pcb\<lparr>t_state := SYN_SENT\<rparr>) n1 = Some n2"
      "TCP_REG Active_pcbs a (if old \<noteq> 0 then TCP_RMV Bound_pcbs a n2 else n2) = Some n3" "tcp_output E a n3 = Some (n', e)"
      using assms(4) enq by (auto simp: Option.bind_eq_Some_conv)
    obtain q where q: "tpcb n1 a = Some q" "n2 = set_tpcb a (q\<lparr>t_state := SYN_SENT\<rparr>) n1"
      using s(1) by (auto simp: upd_tpcb_def Option.bind_eq_Some_conv)
    have "t_state q = CLOSED"
      using tcp_view_state [OF tcp_enqueue_flags_view [OF enq] assms(2) q(1)] assms(3) by simp
    then have "tcp_inv n3"
      using tcp_register_connect [OF inv1 q(1) _ _ s(2) [unfolded q(2)]] by simp
    then show ?thesis
      using tcp_inv_view tcp_output_view [OF s(3)] by blast
  qed
qed

lemma tcp_connect_inv:
  assumes "tcp_inv n" "tcp_connect E a ipaddr port connected n = Some (n', err)"
  shows "tcp_inv n'"
proof -
  obtain pcb where pcb: "tpcb n a = Some pcb"
    using assms(2) by (auto simp: tcp_connect_def Option.bind_eq_Some_conv)
  show ?thesis
  proof (cases "t_state pcb = CLOSED \<and> ipaddr \<noteq> None")
    case False
    then show ?thesis
      using assms pcb by (cases "t_state pcb = CLOSED") (auto simp: tcp_connect_def)
  next
    case True
    then obtain ip where ip: "ipaddr = Some ip" "t_state pcb = CLOSED"
      by blast
    define pcb1 where "pcb1 = pcb\<lparr>t_remote_ip := ip, t_remote_port := port\<rparr>"
    define route where "route = ip_route ip n"
    define pcb2 where "pcb2 = (case route of
       Some i \<Rightarrow> if t_local_ip pcb1 = IPADDR_ANY then pcb1\<lparr>t_local_ip := netif_ip_addr (netif_list n ! i)\<rparr> else pcb1 | None \<Rightarrow> pcb1)"
    have t: "t_state pcb1 = CLOSED" "t_local_port pcb1 = t_local_port pcb" "t_state pcb2 = CLOSED" "t_local_port pcb2 = t_local_port pcb"
      using ip(2) by (auto simp: pcb1_def pcb2_def split: option.split)
    note eq = assms(2) [unfolded tcp_connect_def pcb Option.bind.simps ip(1) option.case Let_def, folded pcb1_def, folded route_def, folded pcb2_def]
    show ?thesis
    proof (cases "t_local_ip pcb1 = IPADDR_ANY \<and> route = None")
      case True
      then show ?thesis
        using eq ip(2) tcp_inv_set [OF assms(1) pcb, of pcb1] t by auto
    next
      case False
      obtain n1 lport where np: "(if t_local_port pcb2 = 0 then tcp_new_port (set_tpcb a pcb2 n) else Some (n, t_local_port pcb2)) = Some (n1, lport)"
        using eq ip(2) unfolding if_not_P [OF False] by (auto simp: Option.bind_eq_Some_conv)
      obtain n2 iss where iss: "tcp_next_iss n1 = (n2, iss)"
        by force
      note rest = eq [unfolded if_not_P [OF False] np Option.bind.simps prod.case iss]
      have n1: "tcp_inv n1" "\<exists>r. tpcb n1 a = Some r \<and> t_state r = CLOSED" "lport \<noteq> 0"
        using np tcp_new_port_view [of "set_tpcb a pcb2 n" n1 lport] tcp_inv_view [OF tcp_inv_set [OF assms(1) pcb, of pcb2]] assms(1) pcb ip(2) t
        by (auto split: if_split_asm)
      have n2: "tcp_inv n2" "\<exists>r. tpcb n2 a = Some r \<and> t_state r = CLOSED"
        using tcp_inv_view [OF n1(1)] tcp_next_iss_simps [of n1] n1(2) by (auto simp: iss)
      obtain r where r: "tpcb n2 a = Some r" "t_state r = CLOSED"
        using n2(2) by blast
      define q where "q = pcb2\<lparr>t_local_port := lport, rcv_nxt := 0, snd_nxt := iss, lastack := iss - 1, snd_lbb := iss - 1, rcv_wnd := TCP_WND,
           rcv_ann_wnd := TCP_WND, rcv_ann_right_edge := 0, snd_wnd := TCP_WND, t_mss := tcp_eff_send_mss initial_mss ip n2, cwnd := 1,
           ssthresh := tcp_eff_send_mss initial_mss ip n2 * 10, t_connected := connected\<rparr>"
      have q: "t_state q = CLOSED" "t_local_port q = lport"
        using t by (simp_all add: q_def)
      have "tcp_inv (set_tpcb a q n2)"
        using tcp_inv_set [OF n2(1) r(1), of q] r(2) q n1(3) by simp
      then show ?thesis
        using rest ip(2) connect_tail_inv [of "set_tpcb a q n2" a q] q(1) unfolding q_def [symmetric] by (simp add: q_def)
    qed
  qed
qed

end


text \<open>Listening: the new block must be fresh memory.\<close>

lemma pcbs_of_lpcbs [simp]: "pcbs_of (t\<lparr>tcp_lpcbs := x\<rparr>) = pcbs_of t"
  by (intro ext) (case_tac xa; simp add: pcbs_of.simps)

lemma tcp_listen_inv:
  assumes "tcp_inv n" "tcp_listen_with_backlog E a bl n = Some (n', l)" "l \<noteq> NULL \<Longrightarrow> tpcb n l = None"
  shows "tcp_inv n'"
proof -
  obtain n0 l0 where m: "net_malloc E SIZEOF_TCP_PCB_LISTEN n = (n0, l0)"
    by force
  have n0: "net_tcp n0 = net_tcp n"
    using m by simp
  then have inv0: "tcp_inv n0"
    using tcp_inv_view [OF assms(1) tcp_view_cong] by blast
  show ?thesis
  proof (cases "tcp_lpcbs (net_tcp n) a")
    case (Some x)
    then show ?thesis
      using assms by (simp add: tcp_listen_with_backlog_def)
  next
    case None
    then obtain pcb where pcb: "tpcb n a = Some pcb"
      using assms(2) by (auto simp: tcp_listen_with_backlog_def Option.bind_eq_Some_conv)
    note eq = assms(2) [unfolded tcp_listen_with_backlog_def None pcb m Option.bind.simps Let_def prod.case]
    show ?thesis
    proof (cases "t_state pcb = CLOSED \<and> l0 \<noteq> NULL")
      case False
      then show ?thesis
        using eq assms(1) inv0 by (auto split: if_split_asm)
    next
      case True
      define n1 where "n1 = free_tpcb E a (if t_local_port pcb \<noteq> 0 then TCP_RMV Bound_pcbs a n0 else n0)"
      define x where "x = \<lparr>l_local_ip = t_local_ip pcb, l_so_options = t_so_options pcb OR SOF_ACCEPTCONN, l_tos = t_tos pcb, l_ttl = t_ttl pcb,
          l_prio = t_prio pcb, l_callback_arg = t_callback_arg pcb, l_accept = Some Tcp_accept_null, l_local_port = t_local_port pcb\<rparr>"
      define n2 where "n2 = n1\<lparr>net_tcp := (net_tcp n1)\<lparr>tcp_lpcbs := (tcp_lpcbs (net_tcp n1))(l0 \<mapsto> x)\<rparr>\<rparr>"
      have "do { n \<leftarrow> TCP_REG Listen_pcbs l0 n2; Some (n, l0) } = Some (n', l)"
        using eq True unfolding n1_def [symmetric] x_def [symmetric] n2_def [symmetric] by simp
      then have reg: "TCP_REG Listen_pcbs l0 n2 = Some n'" "l = l0"
        by (auto simp: Option.bind_eq_Some_conv)
      note R = REG_SomeE [OF reg(1), unfolded n2_def, simplified]
      have "\<not> on_list a (net_tcp n0)" if "t_local_port pcb = 0"
      proof -
        have "a \<notin> set (pcbs_of (net_tcp n0) Bound_pcbs)"
          using inv0 pcb n0 that by (auto simp: bound_ports_ok_def tcp_inv_def)
        moreover have "a \<notin> set (pcbs_of (net_tcp n0) k)" if "k \<noteq> Bound_pcbs" for k
          using lists_ok_closed [OF inv0 [unfolded tcp_inv_def tcp_lists_ok_def, THEN conjunct1] _ that] pcb n0 True by simp
        ultimately show ?thesis
          unfolding on_list_iff by metis
      qed
      then have ok1: "tcp_lists_ok n1"
        using free_closed_ok [of n0 a pcb E] inv0 pcb n0 True by (auto simp: n1_def tcp_inv_def)
      have le: "bound_le n0 n1"
        using bound_le_trans [OF bound_le_RMV bound_le_free] bound_le_free by (auto simp: n1_def)
      have fresh: "states n1 l0 = None"
        using assms(3) reg(2) True n0 by (simp add: n1_def)
      have "tcp_lists_ok n'"
        using lists_ok_listen [OF ok1 [unfolded tcp_lists_ok_def] fresh R(1)] R(2-4) by (simp add: tcp_lists_ok_def)
      moreover have "bound_ports_ok n'"
        using bound_le_ok [OF le] inv0 R(2,3) by (simp add: tcp_inv_def bound_ports_ok_def)
      ultimately show ?thesis
        by (simp add: tcp_inv_def)
    qed
  qed
qed

section \<open>Aborting and allocation\<close>

text \<open>The application's error functions are called after the block is gone; they are assumed not to change the lists.\<close>

locale tcp_app = net_link +
  assumes err_law: "ne_tcp_err E f arg err n = Some n' \<Longrightarrow> tcp_view n' = tcp_view n"
begin

lemma tcp_event_err_view: "tcp_event_err E f arg err n = Some n' \<Longrightarrow> tcp_view n' = tcp_view n"
  by (auto simp: tcp_event_err_def split: option.splits dest: err_law)

lemma tcp_pcb_remove_inv:
  assumes "tcp_inv n" "a \<in> set (pcbs_of (net_tcp n) l)" "l \<noteq> Listen_pcbs" "tcp_pcb_remove E l a n = Some n'"
  shows "tcp_inv (free_tpcb E a n')"
  using assms tcp_pcb_remove_free_ok tcp_pcb_remove_le bound_le_ok unfolding tcp_inv_def by blast

lemma free_tpcb_low:
  assumes "net_tcp n1 = net_tcp n"
  shows "tcp_view (free_tpcb E a n1) = tcp_view (free_tpcb E a n)"
  using assms by (simp add: free_tpcb_def tcp_view_def tcp_pcb_lists_def)

lemma tcp_abandon_inv:
  assumes "tcp_inv n" "tpcb n a = Some pcb" "t_state pcb \<noteq> CLOSED" "t_state pcb \<noteq> LISTEN" "tcp_abandon E a reset n = Some n'"
  shows "tcp_inv n'"
proof (cases "t_state pcb = TIME_WAIT")
  case True
  then show ?thesis
    using assms(2,5) tcp_pcb_remove_inv [OF assms(1) ok_timewait [OF assms(1) [unfolded tcp_inv_def, THEN conjunct1] assms(2)]]
    by (auto simp: tcp_abandon_def Option.bind_eq_Some_conv)
next
  case False
  then obtain n1 q n2 n3 n4 where s: "tcp_pcb_remove E Active_pcbs a n = Some n1" "tpcb n1 a = Some q" "tcp_segs_free E (unacked q) n1 = Some n2"
    "tcp_segs_free E (unsent q) n2 = Some n3" "tcp_event_err E (t_errf pcb) (t_callback_arg pcb) ERR_ABRT (free_tpcb E a n3) = Some n4"
    "(if reset then tcp_rst E (snd_nxt pcb) (rcv_nxt pcb) (t_local_ip pcb) (t_remote_ip pcb) (t_local_port pcb) (t_remote_port pcb) n4
      else Some n4) = Some n'"
    using assms(2,5) by (simp add: tcp_abandon_def Let_def Option.bind_eq_Some_conv split del: if_split) (elim exE conjE, rule that, assumption+)
  have "a \<in> set (pcbs_of (net_tcp n) Active_pcbs)"
    using ok_active [OF _ assms(2)] assms(1,3,4) False by (auto simp: tcp_inv_def active_state_def)
  then have inv: "tcp_inv (free_tpcb E a n1)"
    using tcp_pcb_remove_inv [OF assms(1) _ _ s(1)] by blast
  have "net_tcp n3 = net_tcp n1"
    using keeps_tcp(5) [OF s(3)] keeps_tcp(5) [OF s(4)] by simp
  then have "tcp_view n4 = tcp_view (free_tpcb E a n1)"
    using tcp_event_err_view [OF s(5)] free_tpcb_low by metis
  moreover have "tcp_view n' = tcp_view n4"
    using s(6) by (auto split: if_split_asm dest!: tcp_rst_keeps tcp_view_keeps)
  ultimately show ?thesis
    using tcp_inv_view [OF inv] by simp
qed

end


lemma kill_prio_scan_in: "kill_prio_scan t prio xs ia mp x = Some y \<Longrightarrow> y = x \<or> y \<in> set xs"
  by (induction xs arbitrary: ia mp x) (fastforce simp: Option.bind_eq_Some_conv split: if_split_asm)+

lemma kill_tw_scan_in: "kill_tw_scan t xs ia x = Some y \<Longrightarrow> y = x \<or> y \<in> set xs"
  by (induction xs arbitrary: ia x) (fastforce simp: Option.bind_eq_Some_conv split: if_split_asm)+

lemma ok_on_list_state:
  assumes "tcp_inv n" "a \<in> set (pcbs_of (net_tcp n) k)" "k = Active_pcbs \<or> k = Tw_pcbs"
  obtains pcb where "tpcb n a = Some pcb" "t_state pcb \<noteq> CLOSED" "t_state pcb \<noteq> LISTEN"
proof -
  have "\<exists>s. states n a = Some s \<and> s \<noteq> CLOSED \<and> s \<noteq> LISTEN"
    using assms unfolding tcp_inv_def tcp_lists_ok_def lists_ok_def active_state_def by (metis tcp_state.distinct(19) tcp_state.distinct(37))
  then show thesis
    using that by auto
qed

context tcp_app
begin

lemma tcp_kill_timewait_inv: "tcp_inv n \<Longrightarrow> tcp_kill_timewait E n = Some n' \<Longrightarrow> tcp_inv n'"
  using tcp_abandon_inv ok_on_list_state [of n _ Tw_pcbs]
  by (auto simp: tcp_kill_timewait_def tcp_abort_def Option.bind_eq_Some_conv pcbs_of.simps split: if_split_asm dest!: kill_tw_scan_in) metis

lemma tcp_kill_prio_inv: "tcp_inv n \<Longrightarrow> tcp_kill_prio E prio n = Some n' \<Longrightarrow> tcp_inv n'"
  using tcp_abandon_inv ok_on_list_state [of n _ Active_pcbs]
  by (auto simp: tcp_kill_prio_def tcp_abort_def Option.bind_eq_Some_conv pcbs_of.simps split: if_split_asm dest!: kill_prio_scan_in) metis

end


lemma tcp_inv_malloc: "tcp_inv n \<Longrightarrow> net_malloc E k n = (n', a) \<Longrightarrow> tcp_inv n'"
  using tcp_inv_view tcp_view_cong net_tcp_malloc(2) by metis

text \<open>A new block, fresh memory as it is, belongs to no list.\<close>

lemma tcp_inv_new:
  assumes "tcp_inv n" "tpcb n a = None" "\<not> on_list a (net_tcp n)" "t_state q = CLOSED"
  shows "tcp_inv (set_tpcb a q n)"
proof -
  have off: "a \<notin> set (pcbs_of (net_tcp n) k)" for k
    using assms(3) by (auto simp: on_list_iff)
  have "lists_ok (pcbs_of (net_tcp n)) ((states n)(a \<mapsto> CLOSED)) (tcp_lpcbs (net_tcp n))"
    using lists_ok_new [OF assms(1) [unfolded tcp_inv_def tcp_lists_ok_def, THEN conjunct1] _ off] assms(2) by simp
  then have "tcp_lists_ok (set_tpcb a q n)"
    unfolding tcp_lists_ok_def set_tpcb_simps assms(4) .
  moreover have "bound_ports_ok (set_tpcb a q n)"
    using assms(1) off [of Bound_pcbs] by (auto simp: tcp_inv_def bound_ports_ok_def)
  ultimately show ?thesis
    by (simp add: tcp_inv_def)
qed

context tcp_app
begin

lemma tcp_alloc_inv:
  assumes "tcp_inv n" "tcp_alloc E prio n = Some (n', a)"
  obtains "a = NULL" "tcp_inv n'"
  | n0 iss where "a \<noteq> NULL" "tcp_inv n0" "n' = set_tpcb a (init_pcb prio iss (tcp_ticks (net_tcp n0))) n0"
proof -
  obtain n0 a0 where m0: "net_malloc E SIZEOF_TCP_PCB n = (n0, a0)"
    by force
  define r where "r = (if a0 \<noteq> NULL then Some (n0, a0)
       else do {
         n \<leftarrow> tcp_kill_timewait E n0;
         let (n, a) = net_malloc E SIZEOF_TCP_PCB n;
         if a \<noteq> NULL then Some (n, a)
         else do { n \<leftarrow> tcp_kill_prio E prio n; Some (net_malloc E SIZEOF_TCP_PCB n) }
       })"
  have al: "do { (n, a) \<leftarrow> r; if a \<noteq> NULL then let (n, iss) = tcp_next_iss n in Some (set_tpcb a (init_pcb prio iss (tcp_ticks (net_tcp n))) n, a)
      else Some (n, NULL) } = Some (n', a)"
    using assms(2) by (simp only: tcp_alloc_def m0 r_def Let_def prod.case)
  then obtain n1 a1 where r: "r = Some (n1, a1)"
    by (auto simp: Option.bind_eq_Some_conv)
  have eq: "(if a1 \<noteq> NULL then let (n, iss) = tcp_next_iss n1 in Some (set_tpcb a1 (init_pcb prio iss (tcp_ticks (net_tcp n))) n, a1) else Some (n1, NULL)) = Some (n', a)"
    using al r by simp
  then have a1: "a1 = a"
    by (auto split: if_split_asm prod.split_asm)
  have "tcp_inv n0"
    using tcp_inv_malloc [OF assms(1) m0] .
  have inv: "tcp_inv n1"
  proof (cases "a0 = NULL")
    case False
    then show ?thesis
      using r \<open>tcp_inv n0\<close> by (simp add: r_def)
  next
    case True
    then obtain n2 where n2: "tcp_kill_timewait E n0 = Some n2"
      using r by (auto simp: r_def Option.bind_eq_Some_conv)
    obtain n3 a3 where m3: "net_malloc E SIZEOF_TCP_PCB n2 = (n3, a3)"
      by force
    have inv3: "tcp_inv n3"
      using tcp_inv_malloc [OF tcp_kill_timewait_inv [OF \<open>tcp_inv n0\<close> n2] m3] .
    show ?thesis
      using r True n2 m3 inv3 by (auto simp: r_def Option.bind_eq_Some_conv split: if_split_asm dest!: tcp_kill_prio_inv [OF inv3] intro: tcp_inv_malloc)
  qed
  show thesis
  proof (cases "a = NULL")
    case True
    then show thesis
      using that(1) eq inv a1 by simp
  next
    case False
    obtain n2 iss where iss: "tcp_next_iss n1 = (n2, iss)"
      by force
    then have "tcp_inv n2"
      using tcp_inv_view [OF inv] tcp_next_iss_simps(1) [of n1] by simp
    then show thesis
      using that(2) [of n2 iss] False eq iss a1 by simp
  qed
qed

end

end
