(* ===== verification/Tcp_Runs.thy ===== *)
theory Tcp_Runs
  imports Tcp_Lists
begin

text \<open>
  The processing of segments by established connections, the TIME-WAIT timer, and sequences of operations: the state diagram as the relation
  \<open>segment_transition\<close>, the steps of the program as \<open>tcp_step\<close>, and the invariant of the lists in every state that is reached.
  The locale \<open>tcp_board\<close> is what the invariant needs of the program around TCP; it is interpreted on an application that ignores errors.
\<close>

section \<open>Processing of segments\<close>

definition synchronized_state :: "tcp_state \<Rightarrow> bool" where
  "synchronized_state s \<longleftrightarrow> active_state s \<and> s \<noteq> SYN_SENT \<and> s \<noteq> SYN_RCVD"

text \<open>The transitions of a connection that is established, when a segment arrives (RFC 793).\<close>

inductive segment_transition :: "tcp_state \<Rightarrow> tcp_state \<Rightarrow> bool" where
  stay: "segment_transition s s"
| passive_close: "segment_transition ESTABLISHED CLOSE_WAIT"
| fin_acked: "segment_transition FIN_WAIT_1 FIN_WAIT_2"
| simultaneous: "segment_transition FIN_WAIT_1 CLOSING"
| fin_and_ack: "segment_transition FIN_WAIT_1 TIME_WAIT"
| fin: "segment_transition FIN_WAIT_2 TIME_WAIT"
| closing_acked: "segment_transition CLOSING TIME_WAIT"

context net_link
begin

lemma enter_timewait_inv:
  assumes "tcp_inv n" "enter_timewait E a n = Some n'"
  shows "tcp_inv n' \<and> states n' = (states n)(a \<mapsto> TIME_WAIT)"
proof -
  obtain n1 where n1: "tcp_pcb_purge E a n = Some n1" "tcp_to_timewait a n1 = Some n'"
    using assms(2) by (auto simp: enter_timewait_def Option.bind_eq_Some_conv)
  have v: "tcp_view n1 = tcp_view n"
    using tcp_pcb_purge_view [OF n1(1)] .
  have "tcp_inv n1"
    using tcp_inv_view [OF assms(1) v] .
  then show ?thesis
    using tcp_to_timewait_ok [OF _ n1(2)] bound_le_ok [OF bound_le_timewait [OF n1(2)]] v by (auto simp: tcp_inv_def tcp_view_iff)
qed

lemma state_change_inv:
  assumes "tcp_inv n" "tpcb n a = Some pcb" "active_state (t_state pcb)" "active_state (t_state q)" "t_local_port q = t_local_port pcb"
  shows "tcp_inv (set_tpcb a q n)"
proof -
  have "tcp_lists_ok (set_tpcb a q n)"
    using lists_ok_state [OF assms(1) [unfolded tcp_inv_def tcp_lists_ok_def, THEN conjunct1]] ok_active [OF _ assms(2,3)] assms(1,4)
    unfolding tcp_lists_ok_def set_tpcb_simps by (simp add: tcp_inv_def tcp_lists_ok_def)
  then show ?thesis
    using bound_le_ok [OF bound_le_set [OF assms(2,5)]] assms(1) by (simp add: tcp_inv_def)
qed

end


text \<open>The state of the block after a step, if it is there.\<close>

context net_link
begin

lemma fin_close_wait_inv:
  assumes "tcp_inv n" "tpcb n a = Some pcb" "t_state pcb = ESTABLISHED \<or> t_state pcb = CLOSE_WAIT" "fin_close_wait a i n = Some n'"
  shows "tcp_inv n' \<and> (\<exists>s. states n' = (states n)(a \<mapsto> s) \<and> segment_transition (t_state pcb) s)"
proof (cases "recv_flags i AND TF_GOT_FIN \<noteq> 0")
  case True
  define q where "q = (tcp_ack_now pcb)\<lparr>t_state := CLOSE_WAIT\<rparr>"
  have n': "n' = set_tpcb a q n"
    using assms(2,4) True by (simp add: fin_close_wait_def upd_tpcb_def q_def)
  have "tcp_inv n'"
    using state_change_inv [OF assms(1,2), of q] assms(3) by (auto simp: n' q_def active_state_def tcp_ack_now_def)
  moreover have "states n' = (states n)(a \<mapsto> CLOSE_WAIT)"
    unfolding n' set_tpcb_simps by (simp add: q_def)
  ultimately show ?thesis
    using assms(3) segment_transition.intros by metis
next
  case False
  then have "n' = n"
    using assms(4) by (simp add: fin_close_wait_def)
  moreover have "states n = (states n)(a \<mapsto> t_state pcb)"
    using assms(2) by auto
  ultimately show ?thesis
    using assms(1) stay by metis
qed

lemma process_synchronized_inv:
  assumes "tcp_inv n" "tpcb n a = Some pcb" "synchronized_state (t_state pcb)" "process_synchronized E a i n = Some (n', i')"
  shows "tcp_inv n' \<and> (\<exists>s. states n' = (states n)(a \<mapsto> s) \<and> segment_transition (t_state pcb) s)"
proof -
  have keep: "tcp_inv n \<and> (\<exists>s. states n = (states n)(a \<mapsto> s) \<and> segment_transition (t_state pcb) s)"
    using assms(1,2) stay by (metis fun_upd_triv option.simps(9))
  have act: "active_state (t_state pcb)"
    using assms(3) by (simp add: synchronized_state_def)
  have set: "tcp_inv (set_tpcb a q n) \<and> (\<exists>s. states (set_tpcb a q n) = (states n)(a \<mapsto> s) \<and> segment_transition (t_state pcb) s)"
    if "active_state (t_state q)" "t_local_port q = t_local_port pcb" "segment_transition (t_state pcb) (t_state q)" for q
    using state_change_inv [OF assms(1,2) act that(1,2)] that(3) unfolding set_tpcb_simps by blast
  have tw: "tcp_inv n2 \<and> (\<exists>s. states n2 = (states n)(a \<mapsto> s) \<and> segment_transition (t_state pcb) s)"
    if "enter_timewait E a (set_tpcb a q n) = Some n2" "t_state q = t_state pcb" "t_local_port q = t_local_port pcb" "segment_transition (t_state pcb) TIME_WAIT" for q n2
  proof -
    have "tcp_inv (set_tpcb a q n)" "states (set_tpcb a q n) = states n"
      using tcp_inv_set [OF assms(1,2) that(2)] that(2,3) assms(2) by (auto simp: fun_eq_iff)
    then show ?thesis
      using enter_timewait_inv [OF _ that(1)] that(4) by metis
  qed
  have same: "set_tpcb a pcb n = n"
    using assms(2) by (simp add: set_tpcb_def fun_upd_idem_iff)
  note eq = assms(4) [unfolded process_synchronized_def assms(2) Option.bind.simps Let_def]
  show ?thesis
  proof (cases "t_state pcb")
    case FIN_WAIT_1
    then show ?thesis
      using eq keep tw set segment_transition.intros
      by (auto simp: Option.bind_eq_Some_conv active_state_def tcp_ack_now_def split: if_split_asm)
  next
    case FIN_WAIT_2
    then show ?thesis
      using eq keep tw segment_transition.intros by (auto simp: Option.bind_eq_Some_conv tcp_ack_now_def split: if_split_asm)
  next
    case CLOSING
    then show ?thesis
      using eq keep tw [of pcb] same segment_transition.intros by (auto simp: Option.bind_eq_Some_conv split: if_split_asm)
  next
    case LAST_ACK
    then show ?thesis
      using eq keep by simp
  next
    case ESTABLISHED
    then show ?thesis
      using eq fin_close_wait_inv [OF assms(1,2)] by (auto simp: Option.bind_eq_Some_conv)
  next
    case CLOSE_WAIT
    then show ?thesis
      using eq fin_close_wait_inv [OF assms(1,2)] by (auto simp: Option.bind_eq_Some_conv)
  qed (use assms(3) in \<open>simp_all add: synchronized_state_def active_state_def\<close>)
qed

lemma tcp_process_inv:
  assumes "tcp_inv n" "tpcb n a = Some pcb" "synchronized_state (t_state pcb)" "tcp_process E a i n = Some (n', i', err)"
  shows "tcp_inv n' \<and> (\<exists>s. states n' = (states n)(a \<mapsto> s) \<and> segment_transition (t_state pcb) s)"
proof -
  have view: "tcp_inv n2 \<and> (\<exists>s. states n2 = (states n)(a \<mapsto> s) \<and> segment_transition (t_state pcb) s)" if "tcp_view n2 = tcp_view n" for n2
  proof -
    have "states n2 = states n"
      using that unfolding tcp_view_iff by (elim conjE)
    moreover have "states n = (states n)(a \<mapsto> t_state pcb)"
      using assms(2) by auto
    ultimately have "states n2 = (states n)(a \<mapsto> t_state pcb)"
      by (rule trans)
    then show ?thesis
      using tcp_inv_view [OF assms(1) that] stay [of "t_state pcb"] by blast
  qed
  have s: "t_state pcb \<noteq> SYN_SENT" "t_state pcb \<noteq> SYN_RCVD"
    using assms(3) by (auto simp: synchronized_state_def)
  note eq = assms(4) [unfolded tcp_process_def assms(2) Option.bind.simps]
  show ?thesis
  proof (cases "has_flag TCP_RST i \<or> has_flag TCP_SYN i")
    case True
    have "n' = n \<or> n' = set_tpcb a (clear_flag TF_ACK_DELAY pcb) n \<or> n' = set_tpcb a (tcp_ack_now pcb) n"
    proof (cases "has_flag TCP_RST i")
      case True
      then show ?thesis
        using eq unfolding if_P [OF True] by (auto split: if_split_asm)
    next
      case False
      then have "has_flag TCP_SYN i \<and> t_state pcb \<noteq> SYN_SENT \<and> t_state pcb \<noteq> SYN_RCVD"
        using True s by blast
      then show ?thesis
        using eq unfolding if_not_P [OF False] by (simp only: if_True simp_thms) simp
    qed
    then have "tcp_view n' = tcp_view n"
      using tcp_view_set [OF assms(2)] by auto
    then show ?thesis
      by (rule view)
  next
    case False
    define pcb1 where "pcb1 = (if t_flags pcb AND TF_RXCLOSED = 0 then pcb\<lparr>t_tmr := tcp_ticks (net_tcp n)\<rparr> else pcb)"
    define q where "q = tcp_parseopt (net_mem n) (in_hdr i) (pcb1\<lparr>keep_cnt_sent := 0\<rparr>)"
    define n1 where "n1 = set_tpcb a q n"
    have q: "t_state pcb1 = t_state pcb" "t_state q = t_state pcb" "t_local_port q = t_local_port pcb"
      by (simp_all add: q_def pcb1_def)
    have v1: "tcp_view n1 = tcp_view n"
      using tcp_view_set [OF assms(2) q(2,3)] by (simp add: n1_def)
    obtain n2 i2 where r: "tcp_receive E a i n1 = Some (n2, i2)" "process_synchronized E a i2 n2 = Some (n', i')"
    proof -
      have "do { (n, i) \<leftarrow> tcp_receive E a i n1; (n, i) \<leftarrow> process_synchronized E a i n; Some (n, i, ERR_OK) } = Some (n', i', err)"
        using eq False assms(3) unfolding pcb1_def [symmetric] q_def [symmetric] n1_def [symmetric] Let_def
        by (cases "t_state pcb") (simp_all add: q(1) synchronized_state_def active_state_def pcb1_def [symmetric] q_def [symmetric] n1_def [symmetric])
      then show thesis
        using that by (auto simp: Option.bind_eq_Some_conv)
    qed
    have v2: "tcp_view n2 = tcp_view n"
      using tcp_receive_view [OF r(1)] v1 by simp
    then have st2: "states n2 = states n"
      unfolding tcp_view_iff by (elim conjE)
    then have "states n2 a = states n a"
      by (rule fun_cong)
    then obtain p2 where p2: "tpcb n2 a = Some p2" "t_state p2 = t_state pcb"
      using assms(2) by auto
    show ?thesis
      using process_synchronized_inv [OF tcp_inv_view [OF assms(1) v2] p2(1) _ r(2)] p2(2) assms(3) st2 by metis
  qed
qed

end


section \<open>The TIME-WAIT timer\<close>

lemma after_append: "a \<notin> set xs \<Longrightarrow> after a (xs @ a # ys) = ys"
  by (induction xs) auto

lemma unlink_after_last:
  assumes "distinct (front @ a # rest)" "NULL \<notin> set front" "prev = (if front = [] then NULL else last front)"
  shows "unlink_after prev a (front @ a # rest) = Some (front @ rest)"
proof (cases "front = []")
  case True
  then show ?thesis
    using assms by (simp add: unlink_after_def)
next
  case False
  then have p: "prev = last front" "prev \<in> set front" "prev \<noteq> NULL"
    using assms(3) last_in_set [OF False] False by (simp, simp, metis assms(2,3))
  have split: "front = butlast front @ [prev]"
    using False p(1) by simp
  have nb: "prev \<notin> set (butlast front)"
    using assms(1) split by (metis distinct_append distinct_butlast distinct.simps(2) not_distinct_conv_prefix append_self_conv2)
  have f: "front @ a # rest = butlast front @ prev # a # rest"
    using split by (metis append.assoc append_Cons append_Nil)
  have "takeWhile (\<lambda>b. b \<noteq> prev) (front @ a # rest) = butlast front" "after prev (front @ a # rest) = a # rest"
    unfolding f using nb by (auto simp: after_append) (subst takeWhile_append2, auto)
  moreover have "after a (front @ a # rest) = rest"
    using assms(1) by (simp add: after_append)
  ultimately show ?thesis
    using p split by (simp add: unlink_after_def)
qed

text \<open>The time since the block entered the state, in slow ticks, is still within two maximum segment lifetimes.\<close>

definition tw_alive :: "'h net \<Rightarrow> addr \<Rightarrow> bool" where
  "tw_alive n a \<longleftrightarrow> (case tpcb n a of Some pcb \<Rightarrow> tcp_ticks (net_tcp n) - t_tmr pcb \<le> 2 * TCP_MSL div TCP_SLOW_INTERVAL | None \<Rightarrow> False)"

lemma tcp_slow_tw_result:
  assumes "tcp_inv n" "pcbs_of (net_tcp n) Tw_pcbs = front @ as" "NULL \<notin> set (front @ as)" "prev = (if front = [] then NULL else last front)"
  shows "\<exists>n'. tcp_slow_tw E prev as n = Some n' \<and> tcp_inv n' \<and> pcbs_of (net_tcp n') Tw_pcbs = front @ filter (tw_alive n) as \<and>
    (\<forall>k. k \<noteq> Tw_pcbs \<longrightarrow> pcbs_of (net_tcp n') k = pcbs_of (net_tcp n) k) \<and>
    (\<forall>b. tpcb n' b = (if b \<in> set as \<and> \<not> tw_alive n b then None else tpcb n b))"
  using assms
proof (induction as arbitrary: n front prev)
  case Nil
  then show ?case
    by simp
next
  case (Cons a as)
  note ok = Cons.prems(1) [unfolded tcp_inv_def tcp_lists_ok_def, THEN conjunct1]
  have "states n a = Some TIME_WAIT"
    using ok Cons.prems(2) unfolding lists_ok_def by auto
  then obtain pcb where pcb: "tpcb n a = Some pcb" "t_state pcb = TIME_WAIT"
    by auto
  have d: "distinct (front @ a # as)"
    using ok Cons.prems(2) unfolding lists_ok_def by metis
  show ?case
  proof (cases "tw_alive n a")
    case True
    then have "tcp_slow_tw E prev (a # as) n = tcp_slow_tw E a as n"
      using pcb by (auto simp: tw_alive_def not_less [symmetric])
    moreover have "a = (if front @ [a] = [] then NULL else last (front @ [a]))"
      by simp
    ultimately show ?thesis
      using Cons.IH [OF Cons.prems(1), of "front @ [a]" a] Cons.prems(2,3) True by auto
  next
    case False
    define n1 where "n1 = n\<lparr>net_tcp := map_pcbs (\<lambda>k ys. if k = Tw_pcbs then front @ as else ys) (net_tcp n)\<rparr>"
    define n2 where "n2 = free_tpcb E a n1"
    have eq: "tcp_slow_tw E prev (a # as) n = tcp_slow_tw E prev as n2"
      using pcb False unlink_after_last [OF d _ Cons.prems(4)] Cons.prems(2,3)
      by (simp add: tw_alive_def not_le tcp_pcb_purge_def tcp_unlink_def n1_def n2_def)
    have L2: "pcbs_of (net_tcp n2) = (pcbs_of (net_tcp n))(Tw_pcbs := front @ as)"
      by (simp add: n1_def n2_def fun_eq_iff)
    have t2: "tpcb n2 b = (if b = a then None else tpcb n b)" for b
      by (simp add: n1_def n2_def)
    have tk: "tcp_ticks (net_tcp n2) = tcp_ticks (net_tcp n)"
      by (simp add: n1_def n2_def free_tpcb_def map_pcbs_def)
    have rm: "remove1 a (pcbs_of (net_tcp n) Tw_pcbs) = front @ as"
      using d Cons.prems(2) by (simp add: remove1_append)
    have "lists_ok ((pcbs_of (net_tcp n))(Tw_pcbs := front @ as)) ((states n)(a := None)) (tcp_lpcbs (net_tcp n))"
      using lists_ok_remove [OF ok, of a Tw_pcbs] Cons.prems(2) rm by simp
    moreover have "states n2 = (states n)(a := None)" "tcp_lpcbs (net_tcp n2) = tcp_lpcbs (net_tcp n)"
      by (auto simp: t2 fun_eq_iff) (simp add: n1_def n2_def)
    ultimately have "tcp_lists_ok n2"
      unfolding tcp_lists_ok_def L2 by (simp only:)
    moreover have "bound_ports_ok n2"
      using Cons.prems(1) by (auto simp: tcp_inv_def bound_ports_ok_def L2 t2)
    ultimately have "tcp_inv n2"
      by (simp add: tcp_inv_def)
    then obtain n' where n': "tcp_slow_tw E prev as n2 = Some n'" "tcp_inv n'" "pcbs_of (net_tcp n') Tw_pcbs = front @ filter (tw_alive n2) as"
      "\<forall>k. k \<noteq> Tw_pcbs \<longrightarrow> pcbs_of (net_tcp n') k = pcbs_of (net_tcp n2) k"
      "\<forall>b. tpcb n' b = (if b \<in> set as \<and> \<not> tw_alive n2 b then None else tpcb n2 b)"
      using Cons.IH [of n2 front prev] Cons.prems(3,4) L2 by auto
    have al: "tw_alive n2 b = tw_alive n b" if "b \<noteq> a" for b
      using that by (simp add: tw_alive_def t2 tk split: option.split)
    have "filter (tw_alive n2) as = filter (tw_alive n) (a # as)"
    proof -
      have "tw_alive n2 x = tw_alive n x" if "x \<in> set as" for x
        using d that al by fastforce
      then have "filter (tw_alive n2) as = filter (tw_alive n) as"
        by (rule filter_cong [OF refl])
      then show ?thesis
        using False by simp
    qed
    moreover have "tpcb n' b = (if b \<in> set (a # as) \<and> \<not> tw_alive n b then None else tpcb n b)" for b
      using n'(5) al [of b] t2 False by (cases "b = a") auto
    ultimately show ?thesis
      using eq n' L2 by auto
  qed
qed


section \<open>Writing and timers\<close>

context net_link
begin

lemma tcp_write_buf_tcp: "tcp_write_buf E arg len fl n = Some (n', r) \<Longrightarrow> net_tcp n' = net_tcp n"
  by (auto simp: tcp_write_buf_def Let_def Option.bind_eq_Some_conv case_prod_beta split: if_split_asm dest!: keeps_tcp)

lemma tcp_write_concat_tcp: "tcp_write_concat E arg len fl n = Some (n', r) \<Longrightarrow> net_tcp n' = net_tcp n"
  by (auto simp: tcp_write_concat_def Let_def Option.bind_eq_Some_conv case_prod_beta split: if_split_asm dest!: keeps_tcp)

lemma tcp_write_seg_tcp:
  assumes "tcp_write_seg E a arg pos len fl ql n = Some (n', r)"
  shows "net_tcp n' = net_tcp n"
proof -
  obtain pcb n1 b where b: "tpcb n a = Some pcb" "tcp_write_buf E (arg + unat pos) len fl n = Some (n1, b)"
    using assms by (auto simp: tcp_write_seg_def Option.bind_eq_Some_conv)
  note n1 = tcp_write_buf_tcp [OF b(2)]
  show ?thesis
  proof (cases b)
    case None
    then show ?thesis
      using assms b n1 by (simp add: tcp_write_seg_def)
  next
    case (Some x)
    obtain p ck sw where x: "x = (p, ck, sw)"
      by (cases x)
    obtain k where k: "pbuf_clen (net_ps n1) p = Some k"
      using assms b Some x by (auto simp: tcp_write_seg_def Option.bind_eq_Some_conv)
    show ?thesis
    proof (cases "ql + ucast k > TCP_SND_QUEUELEN \<or> ql + ucast k > TCP_SNDQUEUELEN_OVERFLOW")
      case True
      then show ?thesis
        using assms b Some x k n1 by (auto simp: tcp_write_seg_def Option.bind_eq_Some_conv dest!: keeps_tcp)
    next
      case False
      then obtain n2 s where c: "tcp_create_segment E a p 0 (snd_lbb pcb + ucast pos) 0 n1 = Some (n2, s)"
        using assms b Some x k by (auto simp: tcp_write_seg_def Let_def Option.bind_eq_Some_conv)
      then show ?thesis
        using assms b Some x k n1 False keeps_tcp(6) [OF c] by (cases s) (auto simp: tcp_write_seg_def Let_def)
    qed
  qed
qed

lemma tcp_write_loop_tcp:
  assumes "tcp_write_loop E a arg len fl pos ql queue n = Some (n', r)"
  shows "net_tcp n' = net_tcp n"
proof -
  have "E' = E \<longrightarrow> net_tcp (fst y) = net_tcp n1" if "tcp_write_loop E' a arg len fl pos ql queue n1 = Some y" for E' a arg len fl pos ql queue n1 y
    using that
  proof (induction rule: tcp_write_loop.raw_induct [of "\<lambda>E' _ _ _ _ _ _ _ n y. E' = E \<longrightarrow> net_tcp (fst y) = net_tcp n", rotated, consumes 1, case_names step])
    case (step loop E' a arg len fl pos ql queue n y)
    show ?case
    proof (cases "pos < len")
      case False
      then show ?thesis
        using step(2) by auto
    next
      case True
      then obtain pcb n1 s where "tpcb n a = Some pcb" and s: "tcp_write_seg E' a arg pos (min (len - pos) (t_mss pcb)) fl ql n = Some (n1, s)"
        "(case s of None \<Rightarrow> Some (n1, queue, None)
          | Some (seg, ql) \<Rightarrow> loop E' a arg len fl (pos + min (len - pos) (t_mss pcb)) ql (queue @ [seg]) n1) = Some y"
        using step(2) by (simp only: if_True Let_def Option.bind_eq_Some_conv split_paired_Ex prod.case) blast
      show ?thesis
      proof
        assume E: "E' = E"
        note n1 = tcp_write_seg_tcp [OF s(1) [unfolded E]]
        show "net_tcp (fst y) = net_tcp n"
        proof (cases s)
          case None
          then show ?thesis
            using s(2) n1 by auto
        next
          case (Some x)
          obtain seg q where x: "x = (seg, q)"
            by (cases x)
          have "loop E' a arg len fl (pos + min (len - pos) (t_mss pcb)) q (queue @ [seg]) n1 = Some y"
            using s(2) Some x by simp
          from step(1) [OF this] show ?thesis
            using E n1 by simp
        qed
      qed
    qed
  qed
  then show ?thesis
    using assms by fastforce
qed

lemma tcp_concat_seg_tcp: "tcp_concat_seg cp ck u n = Some (n', u') \<Longrightarrow> net_tcp n' = net_tcp n"
  by (auto simp: tcp_concat_seg_def Let_def Option.bind_eq_Some_conv case_prod_beta)

lemma tcp_write_memerr_view: "tcp_write_memerr E a cp queue n = Some (n', err) \<Longrightarrow> tcp_view n' = tcp_view n"
  by (auto simp: tcp_write_memerr_def Option.bind_eq_Some_conv split: if_split_asm
      dest!: upd_tpcb_view keeps_tcp [THEN tcp_view_cong])

lemma tcp_write_view:
  assumes "tcp_write E a arg len fl n = Some (n', err)"
  shows "tcp_view n' = tcp_view n"
proof (cases "arg = NULL")
  case True
  then show ?thesis
    using assms by (simp add: tcp_write_def)
next
  case arg: False
  then obtain p0 where p0: "tpcb n a = Some p0"
    using assms by (auto simp: tcp_write_def Option.bind_eq_Some_conv)
  obtain pcb e where ck: "tcp_write_checks p0 len = (pcb, e)"
    by force
  have st: "t_state pcb = t_state p0" "t_local_port pcb = t_local_port p0"
    using ck by (auto simp: tcp_write_checks_def split: if_split_asm)
  show ?thesis
  proof (cases "e = ERR_OK")
    case False
    then show ?thesis
      using assms arg p0 ck tcp_view_set [OF p0 st] by (simp add: tcp_write_def)
  next
    case True
    define lu where "lu = (if unsent pcb = [] then None else Some (last (unsent pcb)))"
    define space where "space = (case lu of Some u \<Rightarrow> t_mss pcb - (sg_len u + LWIP_TCP_OPT_LENGTH (sg_flags u)) | None \<Rightarrow> 0)"
    define cat where "cat = (case lu of Some u \<Rightarrow> len > 0 \<and> space > 0 \<and> sg_len u > 0 | None \<Rightarrow> False)"
    define sl where "sl = min space len"
    note eq = assms [unfolded tcp_write_def if_not_P [OF arg] p0 Option.bind.simps ck prod.case Let_def, folded lu_def, folded space_def,
      folded cat_def, folded sl_def, unfolded True]
    obtain n1 c where c: "(if cat then tcp_write_concat E arg sl fl n else Some (n, Some (NULL, 0, False))) = Some (n1, c)"
      using eq by (auto simp: Option.bind_eq_Some_conv split del: if_split)
    have n1: "net_tcp n1 = net_tcp n"
      using c by (auto split: if_split_asm dest: tcp_write_concat_tcp)
    show ?thesis
    proof (cases c)
      case None
      then show ?thesis
        using eq c tcp_write_memerr_view tcp_view_cong [OF n1] by auto
    next
      case (Some x)
      obtain cp ck where x: "x = (cp, ck)"
        by (cases x)
      obtain k n2 queue r where l: "(if cat then pbuf_clen (net_ps n1) cp else Some 0) = Some k"
        "tcp_write_loop E a arg len fl (if cat then sl else 0) (snd_queuelen pcb + ucast k) [] n1 = Some (n2, queue, r)"
        using eq c Some x by (auto simp: Option.bind_eq_Some_conv split del: if_split)
      have n2: "net_tcp n2 = net_tcp n"
        using tcp_write_loop_tcp [OF l(2)] n1 by simp
      show ?thesis
      proof (cases r)
        case None
        then show ?thesis
          using eq c Some x l tcp_write_memerr_view tcp_view_cong [OF n2] by auto
      next
        case (Some ql)
        obtain n3 front where f: "(if cat then do { (n, u) \<leftarrow> tcp_concat_seg cp ck (last (unsent pcb)) n2; Some (n, butlast (unsent pcb) @ [u]) }
              else Some (n2, unsent pcb)) = Some (n3, front)"
          using eq c \<open>c = Some x\<close> x l Some by (auto simp: Option.bind_eq_Some_conv split del: if_split)
        have n3: "net_tcp n3 = net_tcp n"
          using f n2 by (auto simp: Option.bind_eq_Some_conv split: if_split_asm dest!: tcp_concat_seg_tcp)
        define q where "q = pcb\<lparr>unsent := front @ queue, snd_lbb := snd_lbb pcb + ucast len, snd_buf := snd_buf pcb - len, snd_queuelen := ql\<rparr>"
        have "tcp_view n' = tcp_view (set_tpcb a q n3)"
          using eq c \<open>c = Some x\<close> x l Some f by (auto simp: q_def split: if_split_asm)
        then show ?thesis
          using tcp_view_set_low [OF n3 p0, of q] st by (simp add: q_def)
      qed
    qed
  qed
qed

end


section \<open>Sequences of operations\<close>

text \<open>The operations of the application, the processing of a segment of an established connection, and the TIME-WAIT timer.  A new block
  is memory that is on no list, a new listening block memory that is no block.\<close>

inductive tcp_step :: "'h net_env \<Rightarrow> 'h net \<Rightarrow> 'h net \<Rightarrow> bool" for E where
  step_new: "tcp_new E n = Some (n', a) \<Longrightarrow> a = NULL \<or> \<not> on_list a (net_tcp n') \<Longrightarrow> tcp_step E n n'"
| step_bind: "tcp_bind a ipaddr port n = Some (n', err) \<Longrightarrow> tcp_step E n n'"
| step_listen: "tcp_listen_with_backlog E a backlog n = Some (n', l) \<Longrightarrow> l = NULL \<or> tpcb n l = None \<Longrightarrow> tcp_step E n n'"
| step_connect: "tcp_connect E a dest port connected n = Some (n', err) \<Longrightarrow> tcp_step E n n'"
| step_close: "tcp_close E a n = Some (n', err) \<Longrightarrow> tcp_step E n n'"
| step_shutdown: "tcp_shutdown E a rx tx n = Some (n', err) \<Longrightarrow> tcp_step E n n'"
| step_abort: "tpcb n a = Some pcb \<Longrightarrow> t_state pcb \<noteq> CLOSED \<Longrightarrow> tcp_abort E a n = Some n' \<Longrightarrow> tcp_step E n n'"
| step_recved: "tcp_recved E a len n = Some n' \<Longrightarrow> tcp_step E n n'"
| step_write: "tcp_write E a arg len flags n = Some (n', err) \<Longrightarrow> tcp_step E n n'"
| step_output: "tcp_output E a n = Some (n', err) \<Longrightarrow> tcp_step E n n'"
| step_segment: "tpcb n a = Some pcb \<Longrightarrow> synchronized_state (t_state pcb) \<Longrightarrow> tcp_process E a i n = Some (n', i', err) \<Longrightarrow> tcp_step E n n'"
| step_timewait: "NULL \<notin> set (tcp_tw_pcbs (net_tcp n)) \<Longrightarrow> tcp_slow_tw E NULL (tcp_tw_pcbs (net_tcp n)) n = Some n' \<Longrightarrow> tcp_step E n n'"

lemma tcp_inv_not_listen: "tcp_inv n \<Longrightarrow> tpcb n a = Some pcb \<Longrightarrow> t_state pcb \<noteq> LISTEN"
proof
  assume n: "tcp_inv n" "tpcb n a = Some pcb" and l: "t_state pcb = LISTEN"
  then have st: "states n a = Some LISTEN"
    by simp
  then show False
    using n(1) unfolding tcp_inv_def tcp_lists_ok_def lists_ok_def active_state_def by fastforce
qed

lemma tcp_inv_renew:
  assumes "tcp_inv n" "\<not> on_list a (net_tcp n)" "t_state q = CLOSED"
  shows "tcp_inv (set_tpcb a q n)"
proof (cases "tpcb n a")
  case None
  then show ?thesis
    using tcp_inv_new assms by blast
next
  case (Some pcb)
  have "t_state pcb = CLOSED"
    using ok_active [OF _ Some] ok_timewait [OF _ Some] tcp_inv_not_listen [OF assms(1) Some] assms(1,2)
    by (auto simp: tcp_inv_def on_list_iff active_state_def)
  moreover have "bound_ports_ok (set_tpcb a q n)"
    using assms(1,2) by (auto simp: tcp_inv_def bound_ports_ok_def on_list_iff)
  moreover have "states (set_tpcb a q n) = states n" if "t_state pcb = CLOSED"
    using Some assms(3) that by (auto simp: fun_eq_iff)
  ultimately show ?thesis
    using assms(1) unfolding tcp_inv_def tcp_lists_ok_def by (simp only: set_tpcb_simps(1,2))
qed

context tcp_app
begin

lemma tcp_step_inv:
  assumes "tcp_step E n n'" "tcp_inv n"
  shows "tcp_inv n'"
  using assms
proof cases
  case (step_new a)
  from tcp_alloc_inv [OF assms(2) step_new(1) [unfolded tcp_new_def]] show ?thesis
  proof cases
    case (2 n0 iss)
    have "on_list a (net_tcp n') \<longleftrightarrow> on_list a (net_tcp n0)"
      unfolding on_list_iff 2(3) by simp
    then show ?thesis
      using tcp_inv_renew [OF 2(2), of a] step_new(2) 2 by (simp add: init_pcb_def blank_pcb_def)
  qed
next
  case step_timewait
  then show ?thesis
    using tcp_slow_tw_result [OF assms(2), of "[]" "tcp_tw_pcbs (net_tcp n)" NULL E] by (auto simp: pcbs_of.simps)
next
  case step_bind
  then show ?thesis
    using tcp_bind_inv [OF assms(2)] by blast
next
  case step_listen
  then show ?thesis
    using tcp_listen_inv [OF assms(2)] by blast
next
  case step_connect
  then show ?thesis
    using tcp_connect_inv [OF assms(2)] by blast
next
  case step_close
  then show ?thesis
    using tcp_close_inv [OF assms(2)] by blast
next
  case step_shutdown
  then show ?thesis
    using tcp_shutdown_inv [OF assms(2)] by blast
next
  case (step_abort a pcb)
  then show ?thesis
    using tcp_abandon_inv [OF assms(2) step_abort(1,2)] tcp_inv_not_listen [OF assms(2) step_abort(1)] by (simp add: tcp_abort_def)
next
  case (step_segment a pcb)
  then show ?thesis
    using tcp_process_inv [OF assms(2) step_segment(1,2)] by blast
qed (use tcp_inv_view [OF assms(2)] tcp_recved_view tcp_write_view tcp_output_view in blast)+

lemma tcp_steps_inv: "(tcp_step E)\<^sup>*\<^sup>* n n' \<Longrightarrow> tcp_inv n \<Longrightarrow> tcp_inv n'"
  by (induction rule: rtranclp_induct) (auto intro: tcp_step_inv)

end

text \<open>The board with an application whose error functions leave the lists alone.\<close>

locale tcp_board = fragmentation frag for frag :: "addr \<Rightarrow> nat \<Rightarrow> ip_addr \<Rightarrow> 'h net \<Rightarrow> ('h net \<times> err_t) option" +
  fixes errf :: "nat \<Rightarrow> nat \<Rightarrow> err_t \<Rightarrow> 'h net \<Rightarrow> 'h net option"
  assumes errf_keeps: "errf f arg e n = Some n' \<Longrightarrow> tcp_view n' = tcp_view n"

sublocale tcp_board \<subseteq> app: tcp_app "board_env A frag recv rrecv ev errf rnd" for A recv rrecv ev rnd
  by (intro tcp_app.intro tcp_app_axioms.intro board.net_link_axioms) (simp add: board_env_def errf_keeps)

definition errf_ignore :: "nat \<Rightarrow> nat \<Rightarrow> err_t \<Rightarrow> 'h net \<Rightarrow> 'h net option" where
  "errf_ignore f arg e n = Some n"

interpretation ignoring: tcp_board frag_no_memory errf_ignore
  by unfold_locales (simp add: errf_ignore_def)


section \<open>Properties\<close>

lemma blank_tcp_inv: "net_tcp n = blank_tcp \<Longrightarrow> tcp_inv n"
proof -
  assume n: "net_tcp n = blank_tcp"
  have "pcbs_of blank_tcp k = []" for k
    by (cases k) (simp_all add: blank_tcp_def pcbs_of.simps)
  then show ?thesis
    using n by (simp add: tcp_inv_def tcp_lists_ok_def lists_ok_def bound_ports_ok_def) (simp add: blank_tcp_def)
qed

lemma find_conn_live: "(\<And>a. a \<in> set xs \<Longrightarrow> tcp_pcbs t a \<noteq> None) \<Longrightarrow> find_conn t rip rport lip lport xs \<noteq> None"
proof (induction xs)
  case (Cons a xs)
  then obtain pcb where "tcp_pcbs t a = Some pcb"
    by (metis list.set_intros(1) not_None_eq)
  then show ?case
    using Cons by auto
qed simp

lemma tcp_inv_walk: "tcp_inv n \<Longrightarrow> k = Active_pcbs \<or> k = Tw_pcbs \<Longrightarrow> find_conn (net_tcp n) rip rport lip lport (pcbs_of (net_tcp n) k) \<noteq> None"
  by (rule find_conn_live) (auto elim!: ok_on_list_state)



text \<open>C39. The TIME-WAIT part of the slow timer always ends, and removes from the list and frees exactly the blocks that have been there for more
  than two maximum segment lifetimes; the other blocks keep their order, and the lists stay in order.\<close>

theorem tcp_timewait_expiry:
  assumes "tcp_inv n" "NULL \<notin> set (tcp_tw_pcbs (net_tcp n))"
  shows "\<exists>n'. tcp_slow_tw E NULL (tcp_tw_pcbs (net_tcp n)) n = Some n' \<and> tcp_inv n' \<and>
    tcp_tw_pcbs (net_tcp n') = filter (tw_alive n) (tcp_tw_pcbs (net_tcp n)) \<and> tcp_active_pcbs (net_tcp n') = tcp_active_pcbs (net_tcp n) \<and>
    (\<forall>b. tcp_pcbs (net_tcp n') b = (if b \<in> set (tcp_tw_pcbs (net_tcp n)) \<and> \<not> tw_alive n b then None else tcp_pcbs (net_tcp n) b))"
proof -
  obtain n' where n': "tcp_slow_tw E NULL (tcp_tw_pcbs (net_tcp n)) n = Some n'" "tcp_inv n'"
    "pcbs_of (net_tcp n') Tw_pcbs = filter (tw_alive n) (tcp_tw_pcbs (net_tcp n))"
    "pcbs_of (net_tcp n') Active_pcbs = pcbs_of (net_tcp n) Active_pcbs"
    "\<forall>b. tpcb n' b = (if b \<in> set (tcp_tw_pcbs (net_tcp n)) \<and> \<not> tw_alive n b then None else tpcb n b)"
    using tcp_slow_tw_result [OF assms(1), of "[]" "tcp_tw_pcbs (net_tcp n)" NULL E] assms(2) by (auto simp: pcbs_of.simps)
  show ?thesis
    by (rule exI [of _ n']) (use n' in \<open>auto simp: pcbs_of.simps\<close>)
qed


lemma udp_demo_tcp_app: "tcp_app udp_demo_env"
  by unfold_locales (auto simp: udp_demo_env_def)


text \<open>An established connection in the state FIN-WAIT-1 waits for its FIN to be acknowledged; another one is in TIME-WAIT.\<close>

definition tcp_demo :: "nat net" where
  "tcp_demo = udp_demo\<lparr>net_tcp := blank_tcp\<lparr>tcp_pcbs := [500 \<mapsto> blank_pcb\<lparr>t_state := FIN_WAIT_1, snd_nxt := 5, rcv_wnd := 100, cwnd := 1, ssthresh := 10\<rparr>,
       700 \<mapsto> blank_pcb\<lparr>t_state := TIME_WAIT, t_tmr := 9\<rparr>, 800 \<mapsto> blank_pcb\<lparr>t_state := TIME_WAIT, t_tmr := 200\<rparr>],
     tcp_active_pcbs := [500], tcp_tw_pcbs := [700, 800], tcp_ticks := 300\<rparr>\<rparr>"

lemma tcp_demo_inv: "tcp_inv tcp_demo"
proof -
  have L: "pcbs_of (net_tcp tcp_demo) = (\<lambda>k. case k of Active_pcbs \<Rightarrow> [500] | Tw_pcbs \<Rightarrow> [700, 800] | _ \<Rightarrow> [])"
    by (rule ext, rename_tac k, case_tac k; simp add: tcp_demo_def blank_tcp_def pcbs_of.simps)
  have st: "states tcp_demo = [500 \<mapsto> FIN_WAIT_1, 700 \<mapsto> TIME_WAIT, 800 \<mapsto> TIME_WAIT]"
    by (simp add: tcp_demo_def fun_eq_iff)
  have "lists_ok (\<lambda>k. case k of Active_pcbs \<Rightarrow> [500] | Tw_pcbs \<Rightarrow> [700, 800] | _ \<Rightarrow> []) [500 \<mapsto> FIN_WAIT_1, 700 \<mapsto> TIME_WAIT, 800 \<mapsto> TIME_WAIT] Map.empty"
    unfolding lists_ok_def active_state_def by (auto split: pcb_list.split if_split_asm)
  then show ?thesis
    unfolding tcp_inv_def tcp_lists_ok_def bound_ports_ok_def L st by (simp add: tcp_demo_def blank_tcp_def)
qed

theorem tcp_timewait_expiry_witness:
  "\<exists>n'. tcp_slow_tw udp_demo_env NULL [700, 800] tcp_demo = Some n' \<and> tcp_tw_pcbs (net_tcp n') = [800] \<and> tcp_pcbs (net_tcp n') 700 = None"
proof -
  have tw: "tcp_tw_pcbs (net_tcp tcp_demo) = [700, 800]"
    by (simp add: tcp_demo_def)
  moreover have "\<not> tw_alive tcp_demo 700" "tw_alive tcp_demo 800"
    by (simp_all add: tw_alive_def tcp_demo_def TCP_MSL_def TCP_SLOW_INTERVAL_def)
  ultimately show ?thesis
    using tcp_timewait_expiry [OF tcp_demo_inv, of udp_demo_env] by force
qed

text \<open>An acknowledgement of everything sent, without data.\<close>

definition tcp_demo_ack :: tcp_in where
  "tcp_demo_ack = \<lparr>inseg = \<lparr>sg_addr = NULL, sg_p = 100, sg_len = 0, sg_chksum = 0, sg_chksum_swapped = False, sg_flags = 0, sg_tcphdr = 900\<rparr>,
     in_seqno = 0, in_ackno = 5, in_flags = TCP_ACK, in_tcplen = 0, recv_flags = 0, recv_data = NULL\<rparr>"



end
