(* ===== verification/Tcp_Props.thy ===== *)
theory Tcp_Props
  imports Tcp_In "HOL-Library.Multiset"
begin

text \<open>
  Properties of single functions of TCP: the search for a free port ends, the checksum that is put together from the parts of a segment is
  accepted by the receiver, the queues stay sorted under retransmission, and what an acknowledgement frees.
\<close>

section \<open>Local ports\<close>

definition port_at :: "nat \<Rightarrow> u16" where
  "port_at r = of_nat (49152 + r mod 16384)"

lemma unat_port_at: "unat (port_at r) = 49152 + r mod 16384"
proof -
  have "49152 + r mod 16384 < 65536"
    using mod_less_divisor [of 16384 r] by linarith
  then show ?thesis
    unfolding port_at_def by (subst unat_of_nat) simp
qed

lemma next_port_at: "next_port (port_at r) = port_at (Suc r)"
proof -
  define x where "x = r mod 16384"
  have x: "x < 16384" "Suc r mod 16384 = (if Suc x = 16384 then 0 else Suc x)"
    by (simp_all add: x_def mod_Suc)
  have u: "unat (port_at r) = 49152 + x"
    by (simp add: unat_port_at x_def)
  show ?thesis
  proof (cases "x = 16383")
    case True
    then have "port_at r \<ge> TCP_LOCAL_PORT_RANGE_END"
      using u by (simp add: word_le_nat_alt TCP_LOCAL_PORT_RANGE_END_def)
    then show ?thesis
      using True x by (simp add: next_port_def TCP_LOCAL_PORT_RANGE_START_def port_at_def)
  next
    case False
    then have "\<not> port_at r \<ge> TCP_LOCAL_PORT_RANGE_END"
      using u x(1) by (simp add: word_le_nat_alt TCP_LOCAL_PORT_RANGE_END_def)
    moreover have "port_at (Suc r) = port_at r + 1"
      using False x by (simp add: port_at_def x_def [symmetric])
    ultimately show ?thesis
      by (simp add: next_port_def)
  qed
qed

text \<open>The ports of the blocks of a list.\<close>

definition ports_of :: "tcp \<Rightarrow> addr list \<Rightarrow> u16 set" where
  "ports_of t as = {p. \<exists>a \<in> set as. \<exists>ip. block_local t a = Some (ip, p)}"

lemma port_used_iff:
  assumes "\<forall>a \<in> set as. block_local t a \<noteq> None"
  shows "port_used t p as = Some (p \<in> ports_of t as)"
  using assms
proof (induction as)
  case (Cons a as)
  then obtain ip q where "block_local t a = Some (ip, q)"
    by fastforce
  then show ?case
    using Cons by (auto simp: ports_of_def)
qed (simp add: ports_of_def)

lemma card_ports_of: "card (ports_of t as) \<le> length as \<and> finite (ports_of t as)"
proof (induction as)
  case (Cons a as)
  have "ports_of t (a # as) \<subseteq> set_option (map_option snd (block_local t a)) \<union> ports_of t as"
    by (auto simp: ports_of_def)
  moreover have "card (set_option (map_option snd (block_local t a))) \<le> 1" "finite (set_option (map_option snd (block_local t a)))"
    by (cases "block_local t a"; simp)+
  ultimately show ?case
    using Cons card_mono [of "set_option (map_option snd (block_local t a)) \<union> ports_of t as" "ports_of t (a # as)"]
      card_Un_le [of "set_option (map_option snd (block_local t a))" "ports_of t as"] finite_subset by fastforce
qed (simp add: ports_of_def)

lemma loop_finds:
  assumes "\<forall>a \<in> set (concat (tcp_pcb_lists t)). block_local t a \<noteq> None"
    "\<And>j. j < k \<Longrightarrow> port_at (r + Suc j) \<in> ports_of t (concat (tcp_pcb_lists t))" "port_at (r + Suc k) \<notin> ports_of t (concat (tcp_pcb_lists t))"
  shows "tcp_new_port_loop t (port_at r) = Some (port_at (r + Suc k))"
  using assms(2,3)
proof (induction k arbitrary: r)
  case 0
  then show ?case
    by (subst tcp_new_port_loop.simps) (simp add: next_port_at port_used_iff [OF assms(1)])
next
  case (Suc k)
  have "port_at (Suc r) \<in> ports_of t (concat (tcp_pcb_lists t))"
    using Suc.prems(1) [of 0] by simp
  moreover have "tcp_new_port_loop t (port_at (Suc r)) = Some (port_at (Suc r + Suc k))"
    using Suc.IH [of "Suc r"] Suc.prems(1) [of "Suc _"] Suc.prems(2) by simp
  ultimately show ?case
    by (subst tcp_new_port_loop.simps) (simp add: next_port_at port_used_iff [OF assms(1)])
qed

lemma mod_shift_inj:
  fixes x y r m :: nat
  assumes "x < m" "y < m" "(r + x) mod m = (r + y) mod m"
  shows "x = y"
  using assms
proof (induction x y rule: linorder_wlog)
  case (le x y)
  then have "m dvd (r + y) - (r + x)"
    by (metis mod_eq_dvd_iff_nat nat_add_left_cancel_le)
  then show ?case
    using le nat_dvd_not_less [of "y - x" m] by fastforce
qed simp

text \<open>C40. The search of \<^verbatim>\<open>tcp_new_port\<close> for a local port ends if there are fewer control blocks than ports in the dynamic range: it returns a port
  between 49152 and 65535 that no block on any list has, and remembers it for the next search.\<close>

theorem tcp_new_port_terminates:
  fixes n :: "'h net"
  defines "t \<equiv> net_tcp n"
  assumes "\<forall>a \<in> set (concat (tcp_pcb_lists t)). block_local t a \<noteq> None" "length (concat (tcp_pcb_lists t)) < 16384"
    "TCP_LOCAL_PORT_RANGE_START \<le> tcp_port t"
  shows "\<exists>p. tcp_new_port n = Some (n\<lparr>net_tcp := t\<lparr>tcp_port := p\<rparr>\<rparr>, p) \<and> TCP_LOCAL_PORT_RANGE_START \<le> p \<and>
    (\<forall>a \<in> set (concat (tcp_pcb_lists t)). \<forall>ip q. block_local t a = Some (ip, q) \<longrightarrow> q \<noteq> p)"
proof -
  let ?U = "ports_of t (concat (tcp_pcb_lists t))"
  define r where "r = unat (tcp_port t) - 49152"
  have "49152 \<le> unat (tcp_port t)" "unat (tcp_port t) < 65536"
    using assms(4) unat_u16_lt [of "tcp_port t"] by (simp_all add: word_le_nat_alt TCP_LOCAL_PORT_RANGE_START_def)
  then have r: "port_at r = tcp_port t"
    by (simp add: word_unat_eq_iff unat_port_at r_def)
  have "\<exists>k < 16384. port_at (r + Suc k) \<notin> ?U"
  proof (rule ccontr)
    assume "\<not> ?thesis"
    then have sub: "(\<lambda>k. port_at (r + Suc k)) ` {..<16384} \<subseteq> ?U"
      by auto
    have "inj_on (\<lambda>k. port_at (r + Suc k)) {..<16384}"
    proof (rule inj_onI)
      fix x y :: nat
      assume xy: "x \<in> {..<16384}" "y \<in> {..<16384}" "port_at (r + Suc x) = port_at (r + Suc y)"
      then have "(r + Suc x) mod 16384 = (r + Suc y) mod 16384"
        using unat_port_at by (metis add_left_cancel)
      then show "x = y"
        using mod_shift_inj [of x 16384 y "Suc r"] xy by simp
    qed
    then have "16384 \<le> card ?U"
      using card_mono [OF _ sub] card_ports_of [of t "concat (tcp_pcb_lists t)"] by (simp add: card_image)
    then show False
      using card_ports_of [of t "concat (tcp_pcb_lists t)"] assms(3) by simp
  qed
  then obtain k where k: "port_at (r + Suc k) \<notin> ?U" "\<And>j. j < k \<Longrightarrow> port_at (r + Suc j) \<in> ?U"
    using exists_least_iff [of "\<lambda>k. port_at (r + Suc k) \<notin> ?U"] by blast
  have "tcp_new_port_loop t (tcp_port t) = Some (port_at (r + Suc k))"
    using loop_finds [OF assms(2) k(2,1)] r by simp
  moreover have "TCP_LOCAL_PORT_RANGE_START \<le> port_at (r + Suc k)"
    by (simp add: word_le_nat_alt TCP_LOCAL_PORT_RANGE_START_def unat_port_at)
  ultimately show ?thesis
    using k(1) by (auto simp: tcp_new_port_def t_def ports_of_def)
qed

definition tcp_port_demo :: "nat net" where
  "tcp_port_demo = udp_demo\<lparr>net_tcp := blank_tcp\<lparr>tcp_pcbs := [500 \<mapsto> blank_pcb\<lparr>t_state := TIME_WAIT, t_local_port := 0xc000\<rparr>],
     tcp_tw_pcbs := [500], tcp_port := 0xffff\<rparr>\<rparr>"

theorem tcp_new_port_terminates_witness:
  "\<exists>p. tcp_new_port tcp_port_demo = Some (tcp_port_demo\<lparr>net_tcp := (net_tcp tcp_port_demo)\<lparr>tcp_port := p\<rparr>\<rparr>, p) \<and> 0xc000 < p"
proof -
  have l: "concat (tcp_pcb_lists (net_tcp tcp_port_demo)) = [500]" "tcp_port (net_tcp tcp_port_demo) = 0xffff"
    by (simp_all add: tcp_port_demo_def tcp_pcb_lists_def blank_tcp_def)
  have b: "block_local (net_tcp tcp_port_demo) 500 = Some (t_local_ip blank_pcb, 0xc000)"
    by (simp add: block_local_def tcp_port_demo_def blank_tcp_def)
  obtain p where "tcp_new_port tcp_port_demo = Some (tcp_port_demo\<lparr>net_tcp := (net_tcp tcp_port_demo)\<lparr>tcp_port := p\<rparr>\<rparr>, p)"
    "TCP_LOCAL_PORT_RANGE_START \<le> p" "p \<noteq> 0xc000"
    using tcp_new_port_terminates [of tcp_port_demo] unfolding l by (auto simp: b TCP_LOCAL_PORT_RANGE_START_def)
  then show ?thesis
    by (auto simp: TCP_LOCAL_PORT_RANGE_START_def)
qed


section \<open>The checksum of a segment\<close>

text \<open>One after the other, the parts of the data are added with the exchange of octets that an odd part needs.\<close>

definition add_parts :: "buf list \<Rightarrow> u16 \<times> bool" where
  "add_parts ps = foldl (\<lambda>s (a, bs). tcp_seg_add_chksum (LWIP_CHKSUM a bs) (of_nat (length bs)) s) (0, False) ps"

lemma ucast_u16_u32: "unat (x :: u32) < 65536 \<Longrightarrow> ucast (ucast x :: u16) = x"
  by (simp add: word_unat_eq_iff unat_ucast_mod)

lemma seg_add_inv:
  assumes "chain_inv (ucast (c :: u16)) sw ds" "length bs < 65536" "tcp_seg_add_chksum (LWIP_CHKSUM a bs) (of_nat (length bs)) (c, sw) = (c', sw')"
  shows "chain_inv (ucast c') sw' (ds @ bs)"
proof -
  define f where "f = FOLD_U32T (ucast c + ucast (LWIP_CHKSUM a bs) :: u32)"
  have "unat (ucast c + ucast (LWIP_CHKSUM a bs) :: u32) = unat c + unat (LWIP_CHKSUM a bs)"
    using unat_u16_lt [of c] unat_u16_lt [of "LWIP_CHKSUM a bs"] by (simp add: unat_word_ariths)
  then have f: "unat f < 65536"
    unfolding f_def using unat_u16_lt [of c] unat_u16_lt [of "LWIP_CHKSUM a bs"] by (intro FOLD_small) linarith
  have par: "(of_nat (length bs) AND 1 \<noteq> (0 :: u16)) = odd (length bs)"
    using assms(2) by (simp add: and_one_eq word_unat_eq_iff unat_word_ariths unat_of_nat odd_iff_mod_2_eq_one mod_mod_cancel)
  have "chain_inv (if odd (length bs) then SWAP_BYTES_IN_WORD f else f) (sw \<noteq> odd (length bs)) (ds @ bs)"
    unfolding f_def using assms(2) by (intro chain_inv_step [OF assms(1) chksum_2.chk_sum refl])
  moreover have "ucast c' = (if odd (length bs) then SWAP_BYTES_IN_WORD f else f)" "sw' = (sw \<noteq> odd (length bs))"
    using assms(3) f SWAP_lt [OF f]
    by (auto simp: tcp_seg_add_chksum_def Let_def par f_def add.commute ucast_u16_u32 split: if_splits)
  ultimately show ?thesis
    by simp
qed

lemma add_parts_inv:
  assumes "chain_inv (ucast (c :: u16)) sw ds" "lens_ok ps"
    "foldl (\<lambda>s (a, bs). tcp_seg_add_chksum (LWIP_CHKSUM a bs) (of_nat (length bs)) s) (c, sw) ps = (c', sw')"
  shows "chain_inv (ucast c') sw' (ds @ data_of ps)"
  using assms
proof (induction ps arbitrary: c sw ds)
  case (Cons q ps)
  obtain a bs c1 sw1 where q: "q = (a, bs)" "tcp_seg_add_chksum (LWIP_CHKSUM a bs) (of_nat (length bs)) (c, sw) = (c1, sw1)"
    by (metis surj_pair)
  then have "chain_inv (ucast c1) sw1 (ds @ bs)"
    using Cons.prems(2) by (intro seg_add_inv [OF Cons.prems(1) _ q(2)]) simp
  from Cons.IH [OF this] show ?case
    using Cons.prems q by simp
qed simp

lemma add_parts_sum:
  assumes "lens_ok ps" "add_parts ps = (c, sw)"
  shows "unat (if sw then ucast (SWAP_BYTES_IN_WORD (ucast c)) else c) = oc16 (le_sum (data_of ps))"
proof -
  have "chain_inv (ucast (0 :: u16)) False []"
    using chain_inv_start by simp
  then have "chain_sum (ucast c) sw (data_of ps)"
    using add_parts_inv [OF _ assms(1)] assms(2) by (fastforce simp: add_parts_def chain_inv_def)
  from chain_sum_unswap [OF this] show ?thesis
    using SWAP_lt [of "ucast c :: u32"] unat_u16_lt [of c] by (auto simp: unat_ucast_mod split: if_splits)
qed

text \<open>C36. The receiver accepts what the sender computes: the checksum of the data, added up part by part as the application wrote it (octets exchanged after an odd part),
  folded by \<^verbatim>\<open>tcp_output_segment\<close> with the checksum of the pseudo header and of the TCP header and its options, makes the test in \<^verbatim>\<open>tcp_input\<close>
  succeed, also when the receiver has the segment cut into pbufs in another way.\<close>

theorem tcp_chksum_accepted:
  assumes "lens_ok q" "data_of q = xs @ [0, 0] @ zs @ data_of ps" "length xs = 16" "even (length zs)" "unat hdr_len = 18 + length zs"
    and "lens_ok ps" "add_parts ps = (c, sw)"
    and "ck = tcp_seg_chksum q src dst len hdr_len (if sw then ucast (SWAP_BYTES_IN_WORD (ucast c)) else c)"
    and "lens_ok q'" "data_of q' = xs @ le_bytes16 ck @ zs @ data_of ps"
  shows "inet_chksum_pseudo LWIP_CHKSUM q' src dst IP_PROTO_TCP len = 0"
proof -
  let ?h = "pseudo_header src dst IP_PROTO_TCP len"
  define A where "A = le_sum (?h @ xs @ [0, 0] @ zs)"
  define w where "w = inet_chksum_pseudo_partial LWIP_CHKSUM q src dst IP_PROTO_TCP len hdr_len"
  have w: "w = NOT (of_nat (oc16 A))"
    using assms(1-5) by (simp add: w_def A_def chksum_2.inet_chksum_pseudo_partial_eq)
  have d: "65535 dvd A + le_sum (data_of ps) + unat ck"
    by (rule fold_two_chksums [OF add_parts_sum [OF assms(6,7)] w]) (simp add: assms(8) tcp_seg_chksum_def w_def)
  have ev: "even (length (?h @ xs))" "even (length zs)"
    using assms(3,4) by (simp_all add: pseudo_header_def)
  have sum: "le_sum (?h @ xs @ bs @ zs @ ys) = le_sum (?h @ xs) + le_sum bs + le_sum zs + le_sum ys" if "length bs = 2" for bs ys
    using that ev by (simp add: le_sum_append_even flip: append_assoc)
  have "A = le_sum (?h @ xs) + le_sum zs"
    using sum [of "[0, 0]" "[]"] by (simp add: A_def)
  then have eq: "le_sum (?h @ xs @ le_bytes16 ck @ zs @ data_of ps) = A + le_sum (data_of ps) + unat ck"
    by (simp add: sum [OF length_le_bytes(2)] le_sum_u16)
  have len: "even (length ?h)"
    by (simp add: pseudo_header_def)
  have "le_sum ?h \<noteq> 0"
    by (simp add: le_sum_pseudo_header IP_PROTO_TCP_def lwip_htons_def)
  then have "le_sum (?h @ xs @ le_bytes16 ck @ zs @ data_of ps) \<noteq> 0"
    using le_sum_append_even [of ?h "xs @ le_bytes16 ck @ zs @ data_of ps"] len by simp
  then show ?thesis
    using d eq assms(9,10) not_oc16_zero by (simp add: chksum_2.inet_chksum_pseudo_eq)
qed

theorem tcp_chksum_accepted_witness:
  "let ps = [(4, [1, 2, 3]), (8, [4, 5])]; xs = replicate 16 7; (c, sw) = add_parts ps;
       ck = tcp_seg_chksum [(0, xs @ [0, 0, 0, 0]), (24, data_of ps)] 10 20 25 20 (if sw then ucast (SWAP_BYTES_IN_WORD (ucast c)) else c)
   in inet_chksum_pseudo LWIP_CHKSUM [(0, xs @ le_bytes16 ck @ [0, 0, 1, 2, 3, 4, 5])] 10 20 IP_PROTO_TCP 25 = 0"
  unfolding Let_def
  by (cases "add_parts [(4, [1, 2, 3]), (8, [4, 5])]", simp only: prod.case,
      rule tcp_chksum_accepted [where xs = "replicate 16 7" and zs = "[0, 0]" and ps = "[(4, [1, 2, 3]), (8, [4, 5])]"]) simp_all


section \<open>Order of the queues\<close>

text \<open>The offset of a segment from the start of the window, and a queue in the order of the offsets, all in one half of the sequence space.\<close>

definition seg_offset :: "bytes \<Rightarrow> u32 \<Rightarrow> tcp_seg \<Rightarrow> nat" where
  "seg_offset m base seg = unat (seg_seqno m seg - base)"

definition seq_sorted :: "bytes \<Rightarrow> u32 \<Rightarrow> tcp_seg list \<Rightarrow> bool" where
  "seq_sorted m base l \<longleftrightarrow> sorted (map (seg_offset m base) l) \<and> (\<forall>s \<in> set l. seg_offset m base s < 2 ^ 31)"

lemma seq_lt_offset:
  assumes "unat (a - base) < 2 ^ 31" "unat (b - base) < 2 ^ 31"
  shows "TCP_SEQ_LT a b \<longleftrightarrow> unat (a - base) < unat (b - base)"
proof -
  define x y where "x = unat (a - base)" and "y = unat (b - base)"
  have "a - b = (a - base) - (b - base)"
    by simp
  then have "unat (a - b) = (if y \<le> x then x - y else x + 2 ^ 32 - y)"
    unfolding x_def y_def using unat_sub_if' [of "a - base" "b - base"] by simp
  then show ?thesis
    using assms unfolding seq_unat x_def [symmetric] y_def [symmetric] by (auto split: if_splits)
qed

lemma insert_seg_insort:
  assumes "seq_sorted m base l" "seg_offset m base seg < 2 ^ 31"
  shows "insert_seg m seg l = insort_key (seg_offset m base) seg l"
  using assms
proof (induction l)
  case (Cons s l)
  have "TCP_SEQ_LT (seg_seqno m s) (seg_seqno m seg) \<longleftrightarrow> seg_offset m base s < seg_offset m base seg"
    using Cons.prems seq_lt_offset [of "seg_seqno m s" base "seg_seqno m seg"] by (simp add: seq_sorted_def seg_offset_def)
  then show ?case
    using Cons by (simp add: seq_sorted_def not_less)
qed simp

lemma insert_seg_sorted:
  assumes "seq_sorted m base l" "seg_offset m base seg < 2 ^ 31"
  shows "seq_sorted m base (insert_seg m seg l)" "mset (insert_seg m seg l) = add_mset seg (mset l)"
  unfolding insert_seg_insort [OF assms] using assms
  by (auto simp: seq_sorted_def sorted_insort_key set_insort_key)

lemma insert_seg_first:
  assumes "\<forall>s \<in> set l. \<not> TCP_SEQ_LT (seg_seqno m s) (seg_seqno m seg)"
  shows "insert_seg m seg l = seg # l"
  using assms by (cases l) simp_all

lemma queue_unacked_sorted:
  assumes "seq_sorted m base l" "seg_offset m base seg < 2 ^ 31"
  shows "seq_sorted m base (queue_unacked m seg l)" "mset (queue_unacked m seg l) = add_mset seg (mset l)"
proof -
  have "seq_sorted m base (l @ [seg])" if "l = [] \<or> \<not> TCP_SEQ_LT (seg_seqno m seg) (seg_seqno m (last l))"
  proof (cases "l = []")
    case False
    then have "seg_offset m base (last l) \<le> seg_offset m base seg" 
      using that assms seq_lt_offset [of "seg_seqno m seg" base "seg_seqno m (last l)"]
      by (auto simp: seq_sorted_def seg_offset_def not_less)
    moreover have "\<forall>s \<in> set l. seg_offset m base s \<le> seg_offset m base (last l)"
      using assms(1) False by (cases l rule: rev_cases) (auto simp: seq_sorted_def sorted_append)
    ultimately show ?thesis
      using assms by (auto simp: seq_sorted_def sorted_append)
  qed (use assms(2) in \<open>simp add: seq_sorted_def\<close>)
  then show "seq_sorted m base (queue_unacked m seg l)" "mset (queue_unacked m seg l) = add_mset seg (mset l)"
    using insert_seg_sorted [OF assms] by (auto simp: queue_unacked_def)
qed

lemma tcp_rexmit_sorted:
  assumes "seq_sorted m base (unacked pcb)" "seq_sorted m base (unsent pcb)"
  shows "seq_sorted m base (unacked (tcp_rexmit m pcb))" "seq_sorted m base (unsent (tcp_rexmit m pcb))"
    "mset (unacked (tcp_rexmit m pcb)) + mset (unsent (tcp_rexmit m pcb)) = mset (unacked pcb) + mset (unsent pcb)"
  using assms insert_seg_sorted [OF assms(2)] by (auto simp: tcp_rexmit_def seq_sorted_def split: list.split)

text \<open>C35. Fast retransmission neither loses nor doubles a segment: with both queues in the order of the sequence numbers (all within half of the sequence
  space from the window's start), \<^verbatim>\<open>tcp_rexmit_fast\<close> leaves both in this order and together with the same segments; outside of fast recovery the oldest
  unacknowledged segment is then the first to be sent, and the slow start threshold is at least two segments.  Putting a segment that has
  been sent back among the unacknowledged ones keeps the order too.\<close>

theorem tcp_rexmit_keeps_order:
  assumes "seq_sorted m base (unacked pcb)" "seq_sorted m base (unsent pcb)" "seg_offset m base seg < 2 ^ 31"
    "\<forall>s \<in> set (unsent pcb). \<not> TCP_SEQ_LT (seg_seqno m s) (seg_seqno m (hd (unacked pcb)))" "2 * unat (t_mss pcb) < 65536"
  defines "pcb' \<equiv> tcp_rexmit_fast m pcb"
  shows "seq_sorted m base (unacked pcb') \<and> seq_sorted m base (unsent pcb') \<and>
    mset (unacked pcb') + mset (unsent pcb') = mset (unacked pcb) + mset (unsent pcb) \<and>
    (unacked pcb \<noteq> [] \<and> t_flags pcb AND TF_INFR = 0 \<longrightarrow>
       unsent pcb' = hd (unacked pcb) # unsent pcb \<and> unacked pcb' = tl (unacked pcb) \<and> 2 * unat (t_mss pcb) \<le> unat (ssthresh pcb')) \<and>
    seq_sorted m base (queue_unacked m seg (unacked pcb')) \<and> mset (queue_unacked m seg (unacked pcb')) = add_mset seg (mset (unacked pcb'))"
proof -
  have q: "unacked pcb' = unacked (if unacked pcb \<noteq> [] \<and> t_flags pcb AND TF_INFR = 0 then tcp_rexmit m pcb else pcb)"
    "unsent pcb' = unsent (if unacked pcb \<noteq> [] \<and> t_flags pcb AND TF_INFR = 0 then tcp_rexmit m pcb else pcb)"
    by (simp_all add: pcb'_def tcp_rexmit_fast_def Let_def)
  have s: "seq_sorted m base (unacked pcb')" "seq_sorted m base (unsent pcb')"
    "mset (unacked pcb') + mset (unsent pcb') = mset (unacked pcb) + mset (unsent pcb)"
    unfolding q using tcp_rexmit_sorted [OF assms(1,2)] assms(1,2) by simp_all
  have "unsent pcb' = hd (unacked pcb) # unsent pcb \<and> unacked pcb' = tl (unacked pcb) \<and> 2 * unat (t_mss pcb) \<le> unat (ssthresh pcb')"
    if c: "unacked pcb \<noteq> []" "t_flags pcb AND TF_INFR = 0"
  proof -
    have "unat (2 * t_mss pcb) = 2 * unat (t_mss pcb)"
      using assms(5) by (simp add: unat_word_ariths)
    moreover have "t_mss (tcp_rexmit m pcb) = t_mss pcb"
      by (simp add: tcp_rexmit_def split: list.split)
    ultimately have "2 * unat (t_mss pcb) \<le> unat (ssthresh pcb')"
      using c by (simp add: pcb'_def tcp_rexmit_fast_def Let_def)
    moreover have "insert_seg m (hd (unacked pcb)) (unsent pcb) = hd (unacked pcb) # unsent pcb"
      by (rule insert_seg_first [OF assms(4)])
    ultimately show ?thesis
      using c unfolding q by (auto simp: tcp_rexmit_def split: list.split)
  qed
  then show ?thesis
    using s queue_unacked_sorted [OF s(1) assms(3)] by blast
qed

text \<open>Two segments of one octet at 5 and 6 have been sent, one at 7 has not.\<close>

definition rexmit_seg_demo :: "nat \<Rightarrow> tcp_seg" where
  "rexmit_seg_demo h = \<lparr>sg_addr = h, sg_p = h, sg_len = 1, sg_chksum = 0, sg_chksum_swapped = False, sg_flags = 0, sg_tcphdr = h\<rparr>"

definition rexmit_mem_demo :: bytes where
  "rexmit_mem_demo = (\<lambda>b. if b = 107 then 5 else if b = 207 then 6 else if b = 307 then 7 else 0)"

theorem tcp_rexmit_keeps_order_witness:
  "unsent (tcp_rexmit_fast rexmit_mem_demo (blank_pcb\<lparr>unacked := [rexmit_seg_demo 100, rexmit_seg_demo 200], unsent := [rexmit_seg_demo 300], t_mss := 536\<rparr>))
     = [rexmit_seg_demo 100, rexmit_seg_demo 300]"
proof -
  define p where "p = blank_pcb\<lparr>unacked := [rexmit_seg_demo 100, rexmit_seg_demo 200], unsent := [rexmit_seg_demo 300], t_mss := 536\<rparr>"
  have seq: "seg_seqno rexmit_mem_demo (rexmit_seg_demo 100) = 5" "seg_seqno rexmit_mem_demo (rexmit_seg_demo 200) = 6"
    "seg_seqno rexmit_mem_demo (rexmit_seg_demo 300) = 7"
    by code_simp+
  have flags: "t_flags p AND TF_INFR = 0"
    by (simp add: p_def blank_pcb_def)
  have "seq_sorted rexmit_mem_demo 5 (unacked p)" "seq_sorted rexmit_mem_demo 5 (unsent p)" "seg_offset rexmit_mem_demo 5 (rexmit_seg_demo 100) < 2 ^ 31"
    "\<forall>s \<in> set (unsent p). \<not> TCP_SEQ_LT (seg_seqno rexmit_mem_demo s) (seg_seqno rexmit_mem_demo (hd (unacked p)))" "2 * unat (t_mss p) < 65536"
    by (simp_all add: p_def seq_sorted_def seg_offset_def seq TCP_SEQ_LT_def)
  from tcp_rexmit_keeps_order [OF this] show ?thesis
    using flags unfolding p_def [symmetric] by (simp add: p_def)
qed


section \<open>What an acknowledgement frees\<close>

text \<open>The packet buffers of the segments of a queue, chain by chain.\<close>

definition segs_live :: "store \<Rightarrow> tcp_seg list \<Rightarrow> addr list list \<Rightarrow> bool" where
  "segs_live st = list_all2 (\<lambda>seg as. pchain st (sg_p seg) as)"

lemma segs_live_cong:
  assumes "segs_live st l ass" "\<And>a. a \<in> set (concat ass) \<Longrightarrow> st' a = st a"
  shows "segs_live st' l ass"
proof -
  have "pchain st' (sg_p x) y" if "y \<in> set ass" "pchain st (sg_p x) y" for x :: tcp_seg and y
  proof -
    have "st' a = st a" if "a \<in> set y" for a
      using that \<open>y \<in> set ass\<close> by (intro assms(2)) auto
    then show ?thesis
      using that(2) pchain_cong [of y st' st "sg_p x"] by simp
  qed
  then show ?thesis
    using assms(1) unfolding segs_live_def by (auto simp: list_all2_conv_all_nth)
qed

lemma concat_split:
  assumes "distinct (concat l)"
  shows "set (concat (drop j l)) \<subseteq> set (concat l)" "set (concat (take j l)) \<inter> set (concat (drop j l)) = {}"
proof -
  have "concat l = concat (take j l) @ concat (drop j l)"
    by (metis append_take_drop_id concat_append)
  then show "set (concat (drop j l)) \<subseteq> set (concat l)" "set (concat (take j l)) \<inter> set (concat (drop j l)) = {}"
    using assms by (metis Un_upper2 set_append, metis distinct_append)
qed

lemma seg_free_chain:
  assumes "pchain (pbufs (net_ps n)) (sg_p seg) as"
  obtains n' where "tcp_seg_free E seg n = Some n'" "net_mem n' = net_mem n" "net_tcp n' = net_tcp n"
    "\<And>b. b \<notin> set as \<Longrightarrow> pbufs (net_ps n') b = pbufs (net_ps n) b"
proof (cases "sg_p seg = NULL")
  case True
  then show ?thesis
    by (intro that [of "net_mfree E (sg_addr seg) n"]) (simp_all add: tcp_seg_free_def net_mfree_def set_ps_def)
next
  case False
  obtain ps k where ps: "pbuf_free (ne_alloc E) (net_ps n) (sg_p seg) = Some (ps, k)" "free_result (ne_alloc E) (net_ps n) as ps"
    using pbuf_free_chain [OF assms] by blast
  have "dmem ps = dmem (net_ps n)" "pbufs ps b = pbufs (net_ps n) b" if "b \<notin> set as" for b
    using ps(2) that freed_prefix_subset [of "pbufs (net_ps n)" as] by (auto simp: free_result_def Let_def)
  moreover have "dmem ps = dmem (net_ps n)"
    using ps(2) by (simp add: free_result_def Let_def)
  ultimately show ?thesis
    using False ps(1) by (intro that [of "net_mfree E (sg_addr seg) (set_ps ps n)"])
      (simp_all add: tcp_seg_free_def net_mfree_def net_free_def set_ps_def)
qed

lemma free_acked_live:
  assumes "segs_live (pbufs (net_ps n)) l ass" "distinct (concat ass)"
  shows "\<exists>n' acked' qlen'. free_acked E acks l acked qlen n = Some (n', dropWhile (acks (net_mem n)) l, acked', qlen') \<and>
    net_mem n' = net_mem n \<and> net_tcp n' = net_tcp n \<and>
    (\<forall>b. b \<notin> set (concat (take (length (takeWhile (acks (net_mem n)) l)) ass)) \<longrightarrow> pbufs (net_ps n') b = pbufs (net_ps n) b)"
  using assms
proof (induction l arbitrary: ass acked qlen n)
  case (Cons seg l)
  obtain as bss where ass: "ass = as # bss" "pchain (pbufs (net_ps n)) (sg_p seg) as" "segs_live (pbufs (net_ps n)) l bss"
    using Cons.prems(1) by (auto simp: segs_live_def list_all2_Cons1)
  show ?case
  proof (cases "acks (net_mem n) seg")
    case True
    obtain n1 where n1: "tcp_seg_free E seg n = Some n1" "net_mem n1 = net_mem n" "net_tcp n1 = net_tcp n"
      "\<And>b. b \<notin> set as \<Longrightarrow> pbufs (net_ps n1) b = pbufs (net_ps n) b"
      using seg_free_chain [OF ass(2)] by metis
    have live: "segs_live (pbufs (net_ps n1)) l bss"
      using Cons.prems(2) ass(1) by (intro segs_live_cong [OF ass(3)] n1(4)) auto
    have "distinct (concat bss)"
      using ass(1) Cons.prems(2) by simp
    note IH = Cons.IH [OF live this]
    have "pbuf_clen (net_ps n) (sg_p seg) = Some (of_nat (length as))"
      using pbuf_clen_loop_chain [OF ass(2), of 0] by (simp add: pbuf_clen_def)
    then show ?thesis
      using True n1 ass(1) IH [of "if acked \<noteq> 0 \<and> TCPH_FLAGS (net_mem n) (sg_tcphdr seg) AND TCP_FIN \<noteq> 0 then acked - 1 else acked"
          "qlen - ucast (of_nat (length as) :: u8)"]
      by (fastforce simp: Let_def)
  qed (use ass in auto)
qed (auto simp: segs_live_def)


text \<open>The block after a new acknowledgement, before segments are freed.\<close>

lemma recv_new_ack_fields:
  assumes "cwnd pcb \<noteq> 0" "ssthresh pcb \<noteq> 0"
  obtains pcb' where "recv_new_ack ackno pcb = Some pcb'" "unacked pcb' = unacked pcb" "unsent pcb' = unsent pcb" "lastack pcb' = ackno"
    "snd_buf pcb' = snd_buf pcb + ucast (ackno - lastack pcb)" "nrtx pcb' = 0" "dupacks pcb' = 0" "snd_nxt pcb' = snd_nxt pcb"
proof -
  have "\<exists>c. recv_cwnd q = Some c" if "cwnd q \<noteq> 0" for q
    using that by (auto simp: recv_cwnd_def Let_def)
  moreover define q where "q = (if t_flags pcb AND TF_INFR \<noteq> 0 then clear_flag TF_INFR (pcb\<lparr>cwnd := ssthresh pcb\<rparr>) else pcb)
      \<lparr>nrtx := 0, t_rto := signed_drop_bit 3 (t_sa pcb) + t_sv pcb, t_acked := ucast (ackno - lastack pcb),
       snd_buf := snd_buf pcb + ucast (ackno - lastack pcb), dupacks := 0, lastack := ackno\<rparr>"
  ultimately obtain c where "recv_cwnd q = Some c"
    using assms by fastforce
  then show ?thesis
    by (intro that [of "q\<lparr>cwnd := c\<rparr>"]) (auto simp: recv_new_ack_def Let_def q_def)
qed

lemma recv_fields [simp]:
  "unacked (recv_window s k w pcb) = unacked pcb" "unsent (recv_window s k w pcb) = unsent pcb" "lastack (recv_window s k w pcb) = lastack pcb"
  "snd_nxt (recv_window s k w pcb) = snd_nxt pcb" "snd_buf (recv_window s k w pcb) = snd_buf pcb"
  "cwnd (recv_window s k w pcb) = cwnd pcb" "ssthresh (recv_window s k w pcb) = ssthresh pcb"
  "unacked (recv_rtt t k pcb) = unacked pcb" "unsent (recv_rtt t k pcb) = unsent pcb" "lastack (recv_rtt t k pcb) = lastack pcb"
  "snd_nxt (recv_rtt t k pcb) = snd_nxt pcb" "snd_buf (recv_rtt t k pcb) = snd_buf pcb" "nrtx (recv_rtt t k pcb) = nrtx pcb"
  "dupacks (recv_rtt t k pcb) = dupacks pcb" "rtime (recv_rtt t k pcb) = rtime pcb"
  by (simp_all add: recv_window_def recv_rtt_def Let_def)



definition ack_demo_pb :: pbuf where
  "ack_demo_pb = \<lparr>pb_next = NULL, pb_payload = 0, pb_tot_len = 1, pb_len = 1, pb_type = PBUF_RAM, pb_flags = 0, pb_ref = 1\<rparr>"

definition ack_demo_pcb :: tcp_pcb where
  "ack_demo_pcb = blank_pcb\<lparr>t_state := ESTABLISHED, unacked := [rexmit_seg_demo 100, rexmit_seg_demo 200], lastack := 5, snd_nxt := 7, cwnd := 1, ssthresh := 10\<rparr>"

definition ack_demo :: "nat net" where
  "ack_demo = set_ps \<lparr>heap = 2000, pbufs = [100 \<mapsto> ack_demo_pb, 200 \<mapsto> ack_demo_pb], dmem = rexmit_mem_demo\<rparr>
     (udp_demo\<lparr>net_tcp := blank_tcp\<lparr>tcp_pcbs := [500 \<mapsto> ack_demo_pcb], tcp_active_pcbs := [500]\<rparr>\<rparr>)"

definition ack_demo_in :: tcp_in where
  "ack_demo_in = \<lparr>inseg = rexmit_seg_demo 900, in_seqno = 0, in_ackno = 6, in_flags = TCP_ACK, in_tcplen = 0, recv_flags = 0, recv_data = NULL\<rparr>"


end
