(* ===== verification/Timers.thy ===== *)
theory Timers
  imports Lwip_Prelude "HOL-Library.Monad_Syntax" "HOL-Library.Sublist" "HOL-Library.Multiset"
begin

text \<open>
  Stack-internal timers: \<^verbatim>\<open>core/timers.c\<close> in its \<^verbatim>\<open>NO_SYS\<close> form.  The list of \<^verbatim>\<open>struct sys_timeo\<close> is a
  list of records in the order of the \<^verbatim>\<open>next\<close> pointers; the time of an entry is relative to the
  entry before it and kept in 32 bits.  What the timer callbacks do outside this file
  (\<^verbatim>\<open>tcp_tmr\<close>, \<^verbatim>\<open>etharp_tmr\<close>, and the handlers of an application) and whether \<^verbatim>\<open>memp_malloc\<close>
  succeeds are the fields of \<open>timer_env\<close>.  The abstract specification is a queue of absolute due
  times; \<open>timeout_queue\<close> is its interface.
\<close>

section \<open>Data\<close>

datatype sys_timeout_handler =
    No_handler | Tcpip_tcp_timer | Ip_reass_timer | Arp_timer | Dhcp_timer_coarse | Dhcp_timer_fine
  | Autoip_timer | Igmp_timer | Dns_timer | App_handler addr

record sys_timeo =
  to_time :: u32
  to_h :: sys_timeout_handler
  to_arg :: addr

record 'w timers =
  next_timeout :: "sys_timeo list"
  timeouts_last_time :: u32
  tcpip_tcp_timer_active :: bool
  world :: 'w

text \<open>The code outside the file, over the rest \<open>'w\<close> of the state: \<open>te_malloc\<close> says whether
  \<^verbatim>\<open>memp_malloc(MEMP_SYS_TIMEOUT)\<close> returned an element, \<open>te_tcp_pcbs\<close> is
  \<^verbatim>\<open>tcp_active_pcbs || tcp_tw_pcbs\<close>.\<close>

record 'w timer_env =
  te_malloc :: "'w \<Rightarrow> 'w \<times> bool"
  te_free :: "'w \<Rightarrow> 'w"
  te_tcp_pcbs :: "'w \<Rightarrow> bool"
  te_tcp_tmr :: "'w timers \<Rightarrow> 'w timers"
  te_ip_reass_tmr :: "'w timers \<Rightarrow> 'w timers"
  te_etharp_tmr :: "'w timers \<Rightarrow> 'w timers"
  te_dhcp_coarse_tmr :: "'w timers \<Rightarrow> 'w timers"
  te_dhcp_fine_tmr :: "'w timers \<Rightarrow> 'w timers"
  te_autoip_tmr :: "'w timers \<Rightarrow> 'w timers"
  te_igmp_tmr :: "'w timers \<Rightarrow> 'w timers"
  te_dns_tmr :: "'w timers \<Rightarrow> 'w timers"
  te_app_handler :: "addr \<Rightarrow> addr \<Rightarrow> 'w timers \<Rightarrow> 'w timers"

definition TCP_TMR_INTERVAL :: u32 where "TCP_TMR_INTERVAL = 250"
definition IP_TMR_INTERVAL :: u32 where "IP_TMR_INTERVAL = 1000"
definition ARP_TMR_INTERVAL :: u32 where "ARP_TMR_INTERVAL = 5000"
definition DHCP_COARSE_TIMER_MSECS :: u32 where "DHCP_COARSE_TIMER_MSECS = 60 * 1000"
definition DHCP_FINE_TIMER_MSECS :: u32 where "DHCP_FINE_TIMER_MSECS = 500"
definition AUTOIP_TMR_INTERVAL :: u32 where "AUTOIP_TMR_INTERVAL = 100"
definition IGMP_TMR_INTERVAL :: u32 where "IGMP_TMR_INTERVAL = 100"
definition DNS_TMR_INTERVAL :: u32 where "DNS_TMR_INTERVAL = 1000"

definition LWIP_U32_DIFF :: "u32 \<Rightarrow> u32 \<Rightarrow> u32" where
  "LWIP_U32_DIFF a b = (if a \<ge> b then a - b else a + (b XOR 0xFFFFFFFF) + 1)"

section \<open>Operations\<close>

text \<open>The loop of \<^verbatim>\<open>sys_timeout\<close> from the list entry \<open>t\<close> on, and the whole insertion.\<close>

fun timeout_walk :: "sys_timeo \<Rightarrow> sys_timeo list \<Rightarrow> sys_timeo list" where
  "timeout_walk timeout [] = []"
| "timeout_walk timeout (t # ts) =
     (let timeout = timeout\<lparr>to_time := to_time timeout - to_time t\<rparr>
      in case ts of
           [] \<Rightarrow> [t, timeout]
         | n # ns \<Rightarrow>
             if to_time n > to_time timeout
             then t # timeout # n\<lparr>to_time := to_time n - to_time timeout\<rparr> # ns
             else t # timeout_walk timeout ts)"

definition timeout_link :: "sys_timeo \<Rightarrow> sys_timeo list \<Rightarrow> sys_timeo list" where
  "timeout_link timeout ts =
     (case ts of
        [] \<Rightarrow> [timeout]
      | n # ns \<Rightarrow>
          if to_time n > to_time timeout
          then timeout # n\<lparr>to_time := to_time n - to_time timeout\<rparr> # ns
          else timeout_walk timeout ts)"

definition sys_timeout ::
  "'w timer_env \<Rightarrow> u32 \<Rightarrow> sys_timeout_handler \<Rightarrow> addr \<Rightarrow> 'w timers \<Rightarrow> 'w timers" where
  "sys_timeout E msecs handler arg s =
     (let (w, got) = te_malloc E (world s);
          s = s\<lparr>world := w\<rparr>
      in if \<not> got then s
         else s\<lparr>next_timeout := timeout_link \<lparr>to_time = msecs, to_h = handler, to_arg = arg\<rparr> (next_timeout s)\<rparr>)"

fun timeout_unlink :: "sys_timeout_handler \<Rightarrow> addr \<Rightarrow> sys_timeo list \<Rightarrow> sys_timeo list option" where
  "timeout_unlink handler arg [] = None"
| "timeout_unlink handler arg (t # ts) =
     (if to_h t = handler \<and> to_arg t = arg
      then Some (case ts of [] \<Rightarrow> [] | n # ns \<Rightarrow> n\<lparr>to_time := to_time n + to_time t\<rparr> # ns)
      else map_option ((#) t) (timeout_unlink handler arg ts))"

definition sys_untimeout ::
  "'w timer_env \<Rightarrow> sys_timeout_handler \<Rightarrow> addr \<Rightarrow> 'w timers \<Rightarrow> 'w timers" where
  "sys_untimeout E handler arg s =
     (case timeout_unlink handler arg (next_timeout s) of
        None \<Rightarrow> s
      | Some ts \<Rightarrow> s\<lparr>next_timeout := ts, world := te_free E (world s)\<rparr>)"

definition tcpip_tcp_timer :: "'w timer_env \<Rightarrow> 'w timers \<Rightarrow> 'w timers" where
  "tcpip_tcp_timer E s =
     (let s = te_tcp_tmr E s
      in if te_tcp_pcbs E (world s) then sys_timeout E TCP_TMR_INTERVAL Tcpip_tcp_timer NULL s
         else s\<lparr>tcpip_tcp_timer_active := False\<rparr>)"

definition tcp_timer_needed :: "'w timer_env \<Rightarrow> 'w timers \<Rightarrow> 'w timers" where
  "tcp_timer_needed E s =
     (if \<not> tcpip_tcp_timer_active s \<and> te_tcp_pcbs E (world s)
      then sys_timeout E TCP_TMR_INTERVAL Tcpip_tcp_timer NULL (s\<lparr>tcpip_tcp_timer_active := True\<rparr>)
      else s)"

definition ip_reass_timer :: "'w timer_env \<Rightarrow> 'w timers \<Rightarrow> 'w timers" where
  "ip_reass_timer E s = sys_timeout E IP_TMR_INTERVAL Ip_reass_timer NULL (te_ip_reass_tmr E s)"

definition arp_timer :: "'w timer_env \<Rightarrow> 'w timers \<Rightarrow> 'w timers" where
  "arp_timer E s = sys_timeout E ARP_TMR_INTERVAL Arp_timer NULL (te_etharp_tmr E s)"

definition dhcp_timer_coarse :: "'w timer_env \<Rightarrow> 'w timers \<Rightarrow> 'w timers" where
  "dhcp_timer_coarse E s = sys_timeout E DHCP_COARSE_TIMER_MSECS Dhcp_timer_coarse NULL (te_dhcp_coarse_tmr E s)"

definition dhcp_timer_fine :: "'w timer_env \<Rightarrow> 'w timers \<Rightarrow> 'w timers" where
  "dhcp_timer_fine E s = sys_timeout E DHCP_FINE_TIMER_MSECS Dhcp_timer_fine NULL (te_dhcp_fine_tmr E s)"

definition autoip_timer :: "'w timer_env \<Rightarrow> 'w timers \<Rightarrow> 'w timers" where
  "autoip_timer E s = sys_timeout E AUTOIP_TMR_INTERVAL Autoip_timer NULL (te_autoip_tmr E s)"

definition igmp_timer :: "'w timer_env \<Rightarrow> 'w timers \<Rightarrow> 'w timers" where
  "igmp_timer E s = sys_timeout E IGMP_TMR_INTERVAL Igmp_timer NULL (te_igmp_tmr E s)"

definition dns_timer :: "'w timer_env \<Rightarrow> 'w timers \<Rightarrow> 'w timers" where
  "dns_timer E s = sys_timeout E DNS_TMR_INTERVAL Dns_timer NULL (te_dns_tmr E s)"

text \<open>\<^verbatim>\<open>handler(arg)\<close> for the handlers a list can hold.\<close>

definition call_handler :: "'w timer_env \<Rightarrow> sys_timeout_handler \<Rightarrow> addr \<Rightarrow> 'w timers \<Rightarrow> 'w timers" where
  "call_handler E h arg =
     (case h of
        No_handler \<Rightarrow> (\<lambda>s. s)
      | Tcpip_tcp_timer \<Rightarrow> tcpip_tcp_timer E
      | Ip_reass_timer \<Rightarrow> ip_reass_timer E
      | Arp_timer \<Rightarrow> arp_timer E
      | Dhcp_timer_coarse \<Rightarrow> dhcp_timer_coarse E
      | Dhcp_timer_fine \<Rightarrow> dhcp_timer_fine E
      | Autoip_timer \<Rightarrow> autoip_timer E
      | Igmp_timer \<Rightarrow> igmp_timer E
      | Dns_timer \<Rightarrow> dns_timer E
      | App_handler f \<Rightarrow> te_app_handler E f arg)"

text \<open>
  \<^verbatim>\<open>sys_timeouts_init\<close> with the options of this port: ARP, DHCP and IGMP on, IP reassembly, AUTOIP
  and DNS off.
\<close>

definition sys_timeouts_init :: "'w timer_env \<Rightarrow> u32 \<Rightarrow> 'w timers \<Rightarrow> 'w timers" where
  "sys_timeouts_init E now s =
     (let s = sys_timeout E ARP_TMR_INTERVAL Arp_timer NULL s;
          s = sys_timeout E DHCP_COARSE_TIMER_MSECS Dhcp_timer_coarse NULL s;
          s = sys_timeout E DHCP_FINE_TIMER_MSECS Dhcp_timer_fine NULL s;
          s = sys_timeout E IGMP_TMR_INTERVAL Igmp_timer NULL s
      in s\<lparr>timeouts_last_time := now\<rparr>)"

text \<open>
  The loop of \<^verbatim>\<open>sys_check_timeouts\<close>.  The code reads \<^verbatim>\<open>next_timeout->time\<close> without looking whether the
  list is empty: that is \<open>None\<close>, as is a loop that does not end.
\<close>

definition timeout_expire :: "'w timer_env \<Rightarrow> u32 \<Rightarrow> sys_timeo \<Rightarrow> sys_timeo list \<Rightarrow> 'w timers \<Rightarrow> 'w timers" where
  "timeout_expire E now t ts s =
     call_handler E (to_h t) (to_arg t)
       (s\<lparr>timeouts_last_time := now, next_timeout := ts, world := te_free E (world s)\<rparr>)"

partial_function (option) check_timeouts_loop ::
  "'w timer_env \<Rightarrow> u32 \<Rightarrow> u32 \<Rightarrow> 'w timers \<Rightarrow> 'w timers option" where
  "check_timeouts_loop E now diff s =
     (case next_timeout s of
        [] \<Rightarrow> None
      | t # ts \<Rightarrow>
          if to_time t \<le> diff
          then check_timeouts_loop E now (diff - to_time t) (timeout_expire E now t ts s)
          else Some s)"

definition sys_check_timeouts :: "'w timer_env \<Rightarrow> u32 \<Rightarrow> 'w timers \<Rightarrow> 'w timers option" where
  "sys_check_timeouts E now s =
     (if next_timeout s \<noteq> [] then check_timeouts_loop E now (LWIP_U32_DIFF now (timeouts_last_time s)) s
      else Some s)"

definition sys_restart_timeouts :: "u32 \<Rightarrow> 'w timers \<Rightarrow> 'w timers" where
  "sys_restart_timeouts now s = s\<lparr>timeouts_last_time := now\<rparr>"

declare check_timeouts_loop.simps [code]

section \<open>Due times\<close>

text \<open>
  The abstract queue: entries with their due time, relative to \<^verbatim>\<open>timeouts_last_time\<close>, in the order in
  which they will run.
\<close>

type_synonym due = "nat \<times> sys_timeout_handler \<times> addr"

fun dues_from :: "nat \<Rightarrow> sys_timeo list \<Rightarrow> due list" where
  "dues_from d [] = []"
| "dues_from d (t # ts) = (d + unat (to_time t), to_h t, to_arg t) # dues_from (d + unat (to_time t)) ts"

abbreviation dues :: "sys_timeo list \<Rightarrow> due list" where
  "dues \<equiv> dues_from 0"

text \<open>Insertion behind everything that is due no later, and removal of the first entry of a handler.\<close>

definition queue_add :: "due \<Rightarrow> due list \<Rightarrow> due list" where
  "queue_add x q = takeWhile (\<lambda>y. fst y \<le> fst x) q @ x # dropWhile (\<lambda>y. fst y \<le> fst x) q"

definition queue_cancel :: "sys_timeout_handler \<Rightarrow> addr \<Rightarrow> due list \<Rightarrow> due list" where
  "queue_cancel h a q =
     takeWhile (\<lambda>y. snd y \<noteq> (h, a)) q @ drop 1 (dropWhile (\<lambda>y. snd y \<noteq> (h, a)) q)"

text \<open>The sums of the relative times fit in 32 bits, so no addition in the list wraps.\<close>

definition dues_fit :: "sys_timeo list \<Rightarrow> bool" where
  "dues_fit ts \<longleftrightarrow> (\<forall>x\<in>set (dues ts). fst x < 2 ^ 32)"

lemma LWIP_U32_DIFF_eq: "LWIP_U32_DIFF a b = a - b"
proof -
  have "(0xFFFFFFFF :: u32) = - 1"
    by simp
  then have "b XOR 0xFFFFFFFF = NOT b"
    by (simp only: bit.xor_one_right)
  then show ?thesis
    by (simp add: LWIP_U32_DIFF_def not_eq_complement)
qed

lemma unat_sub_u32: "b \<le> a \<Longrightarrow> unat (a - b :: u32) = unat a - unat b"
  by (simp add: unat_sub word_le_nat_alt)

lemma unat_add_u32: "unat a + unat b < 2 ^ 32 \<Longrightarrow> unat (a + b :: u32) = unat a + unat b"
  by (rule iffD1 [OF unat_add_lem]) simp

lemma dues_from_shift: "dues_from (d + e) ts = map (apfst ((+) e)) (dues_from d ts)"
proof (induction ts arbitrary: d)
  case (Cons t ts)
  then show ?case
    using Cons.IH [of "d + unat (to_time t)"] by (simp add: ac_simps)
qed simp

lemma dues_from_ge: "x \<in> set (dues_from d ts) \<Longrightarrow> d \<le> fst x"
  by (induction ts arbitrary: d) fastforce+

lemma dues_from_sorted: "sorted (map fst (dues_from d ts))"
  by (induction ts arbitrary: d) (auto dest: dues_from_ge)

lemma dues_from_eq_Nil [simp]: "dues_from d ts = [] \<longleftrightarrow> ts = []"
  by (cases ts) auto

lemma queue_add_head: "fst y \<le> fst x \<Longrightarrow> queue_add x (y # q) = y # queue_add x q"
  by (simp add: queue_add_def)

lemma queue_add_front: "q = [] \<or> fst x < fst (hd q) \<Longrightarrow> queue_add x q = x # q"
  by (cases q) (auto simp: queue_add_def)

lemma dues_walk:
  "ts \<noteq> [] \<Longrightarrow> to_time (hd ts) \<le> to_time timeout \<Longrightarrow>
   dues_from d (timeout_walk timeout ts) = queue_add (d + unat (to_time timeout), to_h timeout, to_arg timeout) (dues_from d ts)"
proof (induction timeout ts arbitrary: d rule: timeout_walk.induct)
  case (2 timeout t ts)
  define tmo where "tmo = timeout\<lparr>to_time := to_time timeout - to_time t\<rparr>"
  have le: "to_time t \<le> to_time timeout"
    using 2 by simp
  then have time: "unat (to_time t) + unat (to_time tmo) = unat (to_time timeout)"
    by (simp add: tmo_def unat_sub_u32 word_le_nat_alt)
  have sel: "to_h tmo = to_h timeout" "to_arg tmo = to_arg timeout"
    by (simp_all add: tmo_def)
  let ?x = "(d + unat (to_time timeout), to_h timeout, to_arg timeout)"
  have head: "queue_add ?x (dues_from d (t # ts))
      = (d + unat (to_time t), to_h t, to_arg t) # queue_add ?x (dues_from (d + unat (to_time t)) ts)"
    using le by (simp add: queue_add_head word_le_nat_alt)
  show ?case
  proof (cases ts)
    case Nil
    then show ?thesis
      using head time sel by (simp add: tmo_def [symmetric] queue_add_def)
  next
    case (Cons n ns)
    show ?thesis
    proof (cases "to_time n > to_time tmo")
      case True
      then have "unat (to_time tmo) < unat (to_time n)"
        by (simp add: word_less_nat_alt)
      then have "queue_add ?x (dues_from (d + unat (to_time t)) ts) = ?x # dues_from (d + unat (to_time t)) ts"
        using time Cons by (intro queue_add_front) simp
      moreover have "unat (to_time n - to_time tmo) = unat (to_time n) - unat (to_time tmo)"
        using True by (intro unat_sub_u32) simp
      moreover have e: "d + (unat (to_time timeout) + unat (to_time n)) - unat (to_time tmo)
          = d + (unat (to_time t) + unat (to_time n))"
        using time by linarith
      ultimately show ?thesis
        using head time sel Cons True \<open>unat (to_time tmo) < unat (to_time n)\<close>
        by (simp add: tmo_def [symmetric] Let_def add.assoc e)
    next
      case False
      then have "dues_from (d + unat (to_time t)) (timeout_walk tmo ts)
          = queue_add (d + unat (to_time t) + unat (to_time tmo), to_h tmo, to_arg tmo) (dues_from (d + unat (to_time t)) ts)"
        using Cons 2(1) [OF tmo_def Cons, of "d + unat (to_time t)"] by (simp add: not_less)
      then show ?thesis
        using head time sel Cons False by (simp add: tmo_def [symmetric] Let_def add.assoc)
    qed
  qed
qed simp

lemma dues_link:
  "dues (timeout_link timeout ts) = queue_add (unat (to_time timeout), to_h timeout, to_arg timeout) (dues ts)"
proof (cases ts)
  case (Cons n ns)
  show ?thesis
  proof (cases "to_time n > to_time timeout")
    case True
    then have "unat (to_time n - to_time timeout) = unat (to_time n) - unat (to_time timeout)"
      "unat (to_time timeout) < unat (to_time n)"
      by (simp_all add: unat_sub_u32 word_less_nat_alt word_le_nat_alt)
    then show ?thesis
      using Cons True by (simp add: timeout_link_def queue_add_front)
  next
    case False
    then have "timeout_link timeout ts = timeout_walk timeout ts" "to_time (hd ts) \<le> to_time timeout"
      by (simp_all add: timeout_link_def Cons del: timeout_walk.simps)
    then show ?thesis
      using Cons dues_walk [of ts timeout 0] by (simp only: add_0 list.distinct) simp
  qed
qed (simp add: timeout_link_def queue_add_def)

lemma dues_unlink:
  assumes "\<forall>x\<in>set (dues_from d ts). fst x < 2 ^ 32"
  shows "dues_from d (case timeout_unlink h a ts of None \<Rightarrow> ts | Some ts' \<Rightarrow> ts') = queue_cancel h a (dues_from d ts)"
  using assms
proof (induction ts arbitrary: d)
  case (Cons t ts)
  show ?case
  proof (cases "to_h t = h \<and> to_arg t = a")
    case True
    show ?thesis
    proof (cases ts)
      case (Cons n ns)
      then have "unat (to_time t) + unat (to_time n) < 2 ^ 32"
        using Cons.prems by simp
      then have "unat (to_time n + to_time t) = unat (to_time n) + unat (to_time t)"
        by (intro unat_add_u32) simp
      then show ?thesis
        using True Cons by (simp add: queue_cancel_def ac_simps)
    qed (use True in \<open>simp add: queue_cancel_def\<close>)
  next
    case False
    then have "queue_cancel h a (dues_from d (t # ts))
        = (d + unat (to_time t), to_h t, to_arg t) # queue_cancel h a (dues_from (d + unat (to_time t)) ts)"
      by (auto simp: queue_cancel_def)
    then show ?thesis
      using False Cons.IH [of "d + unat (to_time t)"] Cons.prems
      by (cases "timeout_unlink h a ts") auto
  qed
qed (simp add: queue_cancel_def)

section \<open>The interface of the queue\<close>

locale timeout_queue =
  fixes add :: "u32 \<Rightarrow> sys_timeout_handler \<Rightarrow> addr \<Rightarrow> 'q \<Rightarrow> 'q"
    and cancel :: "sys_timeout_handler \<Rightarrow> addr \<Rightarrow> 'q \<Rightarrow> 'q"
    and contents :: "'q \<Rightarrow> due list"
    and fits :: "'q \<Rightarrow> bool"
  assumes add_law: "contents (add m h a q) = queue_add (unat m, h, a) (contents q)"
    and cancel_law: "fits q \<Longrightarrow> contents (cancel h a q) = queue_cancel h a (contents q)"
    and sorted_law: "sorted (map fst (contents q))"
    and add_fits: "fits q \<Longrightarrow> fits (add m h a q)"
    and cancel_fits: "fits q \<Longrightarrow> fits (cancel h a q)"
begin

lemma add_mset_law: "mset (contents (add m h a q)) = add_mset (unat m, h, a) (mset (contents q))"
proof -
  have "mset (takeWhile P xs) + mset (dropWhile P xs) = mset xs" for P and xs :: "due list"
    unfolding mset_append [symmetric] takeWhile_dropWhile_id ..
  then show ?thesis
    by (simp add: add_law queue_add_def)
qed

lemma add_keeps_order: "subseq (contents q) (contents (add m h a q))"
proof -
  have "subseq (takeWhile P xs @ dropWhile P xs) (takeWhile P xs @ x # dropWhile P xs)" for P x and xs :: "due list"
    by (intro list_emb_append_mono) auto
  then show ?thesis
    unfolding add_law queue_add_def takeWhile_dropWhile_id .
qed

lemma cancel_add:
  assumes "fits q" "(h, a) \<notin> snd ` set (contents q)"
  shows "contents (cancel h a (add m h a q)) = contents q"
proof -
  let ?P = "\<lambda>y :: due. fst y \<le> unat m"
  have ne: "snd y \<noteq> (h, a)" if "y \<in> set (takeWhile ?P (contents q))" for y
    using assms(2) set_takeWhileD [OF that] by force
  have tw: "takeWhile (\<lambda>y. snd y \<noteq> (h, a)) (takeWhile ?P (contents q) @ ys)
      = takeWhile ?P (contents q) @ takeWhile (\<lambda>y. snd y \<noteq> (h, a)) ys"
    and dw: "dropWhile (\<lambda>y. snd y \<noteq> (h, a)) (takeWhile ?P (contents q) @ ys)
      = dropWhile (\<lambda>y. snd y \<noteq> (h, a)) ys" for ys
    using ne by (simp_all add: takeWhile_append2 dropWhile_append2)
  show ?thesis
    using assms(1) by (simp add: cancel_law add_fits add_law queue_cancel_def queue_add_def tw dw)
qed

end

abbreviation list_add :: "u32 \<Rightarrow> sys_timeout_handler \<Rightarrow> addr \<Rightarrow> sys_timeo list \<Rightarrow> sys_timeo list" where
  "list_add m h a \<equiv> timeout_link \<lparr>to_time = m, to_h = h, to_arg = a\<rparr>"

abbreviation list_cancel :: "sys_timeout_handler \<Rightarrow> addr \<Rightarrow> sys_timeo list \<Rightarrow> sys_timeo list" where
  "list_cancel h a ts \<equiv> (case timeout_unlink h a ts of None \<Rightarrow> ts | Some ts' \<Rightarrow> ts')"

lemma list_cancel_dues: "dues_fit ts \<Longrightarrow> dues (list_cancel h a ts) = queue_cancel h a (dues ts)"
  using dues_unlink [of 0 ts h a] by (simp add: dues_fit_def)

interpretation tq: timeout_queue list_add list_cancel dues dues_fit
proof
  show "dues_fit (list_add m h a q)" if "dues_fit q" for m h a q
    using that unat_lt_pow [of m]
    by (auto simp: dues_fit_def dues_link queue_add_def dest: set_takeWhileD set_dropWhileD)
  show "dues_fit (list_cancel h a q)" if "dues_fit q" for h a q
    using that list_cancel_dues [OF that, of h a]
    by (auto simp: dues_fit_def queue_cancel_def dest: set_takeWhileD set_dropWhileD in_set_dropD)
qed (simp_all add: dues_link list_cancel_dues dues_from_sorted)

section \<open>Running the expired timers\<close>

text \<open>
  A callback is \<open>polite\<close> when all it does to the timer list is adding timers with a positive time.
\<close>

definition link_all :: "sys_timeo list \<Rightarrow> sys_timeo list \<Rightarrow> sys_timeo list" where
  "link_all ts xs = foldl (\<lambda>ts x. timeout_link x ts) ts xs"

definition adds_only :: "('w timers \<Rightarrow> 'w timers) \<Rightarrow> bool" where
  "adds_only f \<longleftrightarrow> (\<forall>s. \<exists>xs. next_timeout (f s) = link_all (next_timeout s) xs \<and> (\<forall>x\<in>set xs. 0 < to_time x))"

definition polite :: "'w timer_env \<Rightarrow> bool" where
  "polite E \<longleftrightarrow> (\<forall>w. snd (te_malloc E w)) \<and> adds_only (te_tcp_tmr E) \<and> adds_only (te_ip_reass_tmr E)
     \<and> adds_only (te_etharp_tmr E) \<and> adds_only (te_dhcp_coarse_tmr E) \<and> adds_only (te_dhcp_fine_tmr E)
     \<and> adds_only (te_autoip_tmr E) \<and> adds_only (te_igmp_tmr E) \<and> adds_only (te_dns_tmr E)
     \<and> (\<forall>f a. adds_only (te_app_handler E f a))"

lemma adds_only_id: "adds_only (\<lambda>s. s)"
  unfolding adds_only_def link_all_def by (metis empty_iff empty_set foldl_Nil)

lemma adds_only_timeout:
  assumes "adds_only f" "0 < m" "\<And>w. snd (te_malloc E w)"
  shows "adds_only (\<lambda>s. sys_timeout E m h a (f s))"
  unfolding adds_only_def
proof
  fix s
  obtain xs where xs: "next_timeout (f s) = link_all (next_timeout s) xs" "\<forall>x\<in>set xs. 0 < to_time x"
    using assms(1) by (auto simp: adds_only_def)
  have "next_timeout (sys_timeout E m h a (f s)) = link_all (next_timeout s) (xs @ [\<lparr>to_time = m, to_h = h, to_arg = a\<rparr>])"
    using assms(3) [of "world (f s)"] xs(1) by (simp add: sys_timeout_def split_beta link_all_def)
  moreover have "\<forall>x\<in>set (xs @ [\<lparr>to_time = m, to_h = h, to_arg = a\<rparr>]). 0 < to_time x"
    using xs(2) assms(2) by auto
  ultimately show "\<exists>xs. next_timeout (sys_timeout E m h a (f s)) = link_all (next_timeout s) xs \<and> (\<forall>x\<in>set xs. 0 < to_time x)"
    by blast
qed

lemmas interval_defs = TCP_TMR_INTERVAL_def IP_TMR_INTERVAL_def ARP_TMR_INTERVAL_def DHCP_COARSE_TIMER_MSECS_def
  DHCP_FINE_TIMER_MSECS_def AUTOIP_TMR_INTERVAL_def IGMP_TMR_INTERVAL_def DNS_TMR_INTERVAL_def

lemmas timer_handler_defs = ip_reass_timer_def [abs_def] arp_timer_def [abs_def] dhcp_timer_coarse_def [abs_def]
  dhcp_timer_fine_def [abs_def] autoip_timer_def [abs_def] igmp_timer_def [abs_def] dns_timer_def [abs_def]

lemma adds_only_tcp:
  assumes "polite E"
  shows "adds_only (tcpip_tcp_timer E)"
  unfolding adds_only_def
proof
  fix s
  have ad: "adds_only (\<lambda>s. sys_timeout E TCP_TMR_INTERVAL Tcpip_tcp_timer NULL (te_tcp_tmr E s))" "adds_only (te_tcp_tmr E)"
    using assms by (auto simp: polite_def interval_defs intro!: adds_only_timeout)
  show "\<exists>xs. next_timeout (tcpip_tcp_timer E s) = link_all (next_timeout s) xs \<and> (\<forall>x\<in>set xs. 0 < to_time x)"
    using ad [unfolded adds_only_def, THEN spec, of s] by (simp add: tcpip_tcp_timer_def Let_def)
qed

lemma adds_only_handler:
  assumes "polite E"
  shows "adds_only (call_handler E h a)"
  using assms adds_only_tcp [OF assms] adds_only_id
  by (cases h) (auto simp: call_handler_def polite_def timer_handler_defs interval_defs intro!: adds_only_timeout)

lemma link_all_order: "subseq (dues ts) (dues (link_all ts xs))"
proof (induction xs rule: rev_induct)
  case (snoc x xs)
  have "timeout_link x us = list_add (to_time x) (to_h x) (to_arg x) us" for us
    by (cases x) simp
  then have "subseq (dues (link_all ts xs)) (dues (timeout_link x (link_all ts xs)))"
    by (simp only: tq.add_keeps_order)
  with snoc show ?case
    by (auto simp: link_all_def intro: subseq_order.trans)
qed (simp add: link_all_def)

text \<open>Timers that are due at once run first, and polite callbacks add no such timer.\<close>

definition zero_dues :: "sys_timeo list \<Rightarrow> nat" where
  "zero_dues ts = length (filter (\<lambda>x. fst x = 0) (dues ts))"

lemma filter_queue_add: "\<not> P x \<Longrightarrow> filter P (queue_add x q) = filter P q"
proof -
  assume "\<not> P x"
  then have "filter P (queue_add x q) = filter P (takeWhile (\<lambda>y. fst y \<le> fst x) q @ dropWhile (\<lambda>y. fst y \<le> fst x) q)"
    by (simp add: queue_add_def del: takeWhile_dropWhile_id)
  then show ?thesis
    unfolding takeWhile_dropWhile_id .
qed

lemma link_all_zero: "\<forall>x\<in>set xs. 0 < to_time x \<Longrightarrow> zero_dues (link_all ts xs) = zero_dues ts"
proof (induction xs rule: rev_induct)
  case (snoc x xs)
  have "0 < to_time x"
    using snoc.prems by simp
  then have "unat (to_time x) \<noteq> 0"
    by (simp add: word_less_nat_alt)
  then have "zero_dues (timeout_link x us) = zero_dues us" for us
    by (simp add: zero_dues_def dues_link filter_queue_add)
  with snoc show ?case
    by (simp add: link_all_def)
qed (simp add: link_all_def)

inductive expires ::
  "'w timer_env \<Rightarrow> u32 \<Rightarrow> u32 \<times> 'w timers \<Rightarrow> (sys_timeout_handler \<times> addr) list \<Rightarrow> u32 \<times> 'w timers \<Rightarrow> bool"
  for E :: "'w timer_env" and now :: u32 where
  stop: "expires E now c [] c"
| fire: "next_timeout s = t # ts \<Longrightarrow> to_time t \<le> d
    \<Longrightarrow> expires E now (d - to_time t, timeout_expire E now t ts s) fs c
    \<Longrightarrow> expires E now (d, s) ((to_h t, to_arg t) # fs) c"

definition has_arp_timer :: "'w timers \<Rightarrow> bool" where
  "has_arp_timer s \<longleftrightarrow> Arp_timer \<in> to_h ` set (next_timeout s)"

lemma has_arp_timer_dues: "Arp_timer \<in> to_h ` set ts \<longleftrightarrow> Arp_timer \<in> (fst \<circ> snd) ` set (dues_from d ts)"
  by (induction ts arbitrary: d) auto

lemma expire_step:
  assumes "polite E" "next_timeout s = t # ts"
  obtains xs where "next_timeout (timeout_expire E now t ts s) = link_all ts xs" "\<forall>x\<in>set xs. 0 < to_time x"
proof -
  let ?s = "s\<lparr>timeouts_last_time := now, next_timeout := ts, world := te_free E (world s)\<rparr>"
  from adds_only_handler [OF assms(1), of "to_h t" "to_arg t"] obtain xs where
    "next_timeout (call_handler E (to_h t) (to_arg t) ?s) = link_all (next_timeout ?s) xs" "\<forall>x\<in>set xs. 0 < to_time x"
    unfolding adds_only_def by blast
  then show ?thesis
    by (intro that [of xs]) (simp_all add: timeout_expire_def)
qed

lemma subseq_set: "subseq xs ys \<Longrightarrow> set xs \<subseteq> set ys"
  by (auto simp: subseq_conv_nths dest: in_set_nthsD)

lemma subseq_arp: "subseq (dues us) (dues ts) \<Longrightarrow> Arp_timer \<in> to_h ` set us \<Longrightarrow> Arp_timer \<in> to_h ` set ts"
  unfolding has_arp_timer_dues [of _ 0] using subseq_set by blast

lemma expire_keeps_arp:
  assumes "polite E" "next_timeout s = t # ts" "has_arp_timer s"
  shows "has_arp_timer (timeout_expire E now t ts s)"
proof (cases "to_h t = Arp_timer")
  case False
  obtain xs where xs: "next_timeout (timeout_expire E now t ts s) = link_all ts xs"
    using expire_step [OF assms(1,2)] by blast
  have "Arp_timer \<in> to_h ` set ts"
    using assms(2,3) False by (auto simp: has_arp_timer_def)
  then show ?thesis
    using subseq_arp [OF link_all_order [of ts xs]] by (simp add: has_arp_timer_def xs)
next
  case True
  let ?s = "te_etharp_tmr E (s\<lparr>timeouts_last_time := now, next_timeout := ts, world := te_free E (world s)\<rparr>)"
  have "dues (next_timeout (sys_timeout E ARP_TMR_INTERVAL Arp_timer NULL ?s))
      = queue_add (unat ARP_TMR_INTERVAL, Arp_timer, NULL) (dues (next_timeout ?s))"
    using assms(1) by (simp add: polite_def sys_timeout_def split_beta dues_link)
  then have "Arp_timer \<in> to_h ` set (next_timeout (sys_timeout E ARP_TMR_INTERVAL Arp_timer NULL ?s))"
    unfolding has_arp_timer_dues [of _ 0] by (simp add: queue_add_def)
  then show ?thesis
    using True by (simp add: timeout_expire_def call_handler_def arp_timer_def has_arp_timer_def)
qed

text \<open>
  The result of the loop: every timer that was due ran, in the order of the due times (timers the
  callbacks added may run in between); a timer that was not due yet is still there, its due time
  reduced by the time the loop accounted for; and the next timer is not due.
\<close>

definition check_result ::
  "'w timer_env \<Rightarrow> u32 \<Rightarrow> u32 \<Rightarrow> 'w timers \<Rightarrow> 'w timers \<Rightarrow> u32 \<Rightarrow> (sys_timeout_handler \<times> addr) list \<Rightarrow> bool" where
  "check_result E now d s s' d' fs \<longleftrightarrow> expires E now (d, s) fs (d', s') \<and> d' \<le> d
     \<and> subseq (map snd (filter (\<lambda>x. fst x \<le> unat d) (dues (next_timeout s)))) fs
     \<and> (\<forall>x\<in>set (dues (next_timeout s)). unat d < fst x \<longrightarrow>
          (fst x - (unat d - unat d'), snd x) \<in> set (dues (next_timeout s')))
     \<and> (\<exists>t ts. next_timeout s' = t # ts \<and> d' < to_time t)"

lemma check_result_fire:
  assumes E: "polite E" and s: "next_timeout s = t # ts" and le: "to_time t \<le> d"
    and r: "check_result E now (d - to_time t) (timeout_expire E now t ts s) s' d' fs"
  shows "check_result E now d s s' d' ((to_h t, to_arg t) # fs)"
proof -
  let ?s = "timeout_expire E now t ts s"
  have d: "unat (d - to_time t) = unat d - unat (to_time t)" "unat (to_time t) \<le> unat d"
    using le by (simp_all add: unat_sub_u32 word_le_nat_alt)
  have d': "unat d' \<le> unat d - unat (to_time t)"
    using r d(1) by (simp add: check_result_def word_le_nat_alt)
  have shift: "dues (next_timeout s) = (unat (to_time t), to_h t, to_arg t) # map (apfst ((+) (unat (to_time t)))) (dues ts)"
    using dues_from_shift [of 0 "unat (to_time t)" ts] by (simp add: s)
  obtain xs where "next_timeout ?s = link_all ts xs"
    using expire_step [OF E s] by blast
  then have sub: "subseq (dues ts) (dues (next_timeout ?s))"
    using link_all_order by simp
  have "map snd (filter (\<lambda>x. fst x \<le> unat d) (dues (next_timeout s)))
      = (to_h t, to_arg t) # map snd (filter (\<lambda>x. fst x \<le> unat (d - to_time t)) (dues ts))"
    using d by (simp add: shift filter_map comp_def le_diff_conv2 add.commute)
  moreover have "subseq (map snd (filter (\<lambda>x. fst x \<le> unat (d - to_time t)) (dues ts))) fs"
    using r subseq_map [OF subseq_filter [OF sub]] unfolding check_result_def by (blast intro: subseq_order.trans)
  ultimately have "subseq (map snd (filter (\<lambda>x. fst x \<le> unat d) (dues (next_timeout s)))) ((to_h t, to_arg t) # fs)"
    by simp
  moreover have "(fst x - (unat d - unat d'), snd x) \<in> set (dues (next_timeout s'))"
    if x: "x \<in> set (dues (next_timeout s))" "unat d < fst x" for x
  proof -
    from x d(2) obtain y where y: "y \<in> set (dues ts)" "fst x = unat (to_time t) + fst y" "snd x = snd y"
      by (auto simp: shift)
    then have "unat (d - to_time t) < fst y" "y \<in> set (dues (next_timeout ?s))"
      using x(2) d sub subseq_set by (auto simp del: unat_sub_u32)
    then have "(fst y - (unat (d - to_time t) - unat d'), snd y) \<in> set (dues (next_timeout s'))"
      using r unfolding check_result_def by blast
    moreover have "fst y - (unat (d - to_time t) - unat d') = fst x - (unat d - unat d')"
      using y(2) d d' by linarith
    ultimately show ?thesis
      by (simp add: y(3))
  qed
  moreover have "expires E now (d, s) ((to_h t, to_arg t) # fs) (d', s')"
    using r s le by (intro expires.fire) (auto simp: check_result_def)
  moreover have "d' \<le> d"
    using d' by (simp add: word_le_nat_alt)
  ultimately show ?thesis
    using r unfolding check_result_def by blast
qed

lemma check_loop:
  assumes "polite E" "has_arp_timer s"
  shows "\<exists>s' d' fs. check_timeouts_loop E now d s = Some s' \<and> check_result E now d s s' d' fs"
  using assms(2)
proof (induction "(d, s)" arbitrary: d s
    rule: wf_induct_rule [OF wf_measures [of "[\<lambda>(d, s). unat d, \<lambda>(d, s). zero_dues (next_timeout s)]"]])
  case (1 d s)
  from 1(2) obtain t ts where s: "next_timeout s = t # ts"
    by (cases "next_timeout s") (auto simp: has_arp_timer_def)
  show ?case
  proof (cases "to_time t \<le> d")
    case False
    then have "unat d < fst x" if "x \<in> set (dues (next_timeout s))" for x
      using that dues_from_ge [of x "unat (to_time t)" ts] by (auto simp: s word_le_nat_alt)
    then have "check_result E now d s s d []"
      using False s
      by (auto simp: check_result_def filter_empty_conv not_le word_less_nat_alt intro: expires.stop)
    moreover have "check_timeouts_loop E now d s = Some s"
      using False s by (simp add: check_timeouts_loop.simps)
    ultimately show ?thesis
      by blast
  next
    case True
    let ?s = "timeout_expire E now t ts s"
    obtain xs where xs: "next_timeout ?s = link_all ts xs" "\<forall>x\<in>set xs. 0 < to_time x"
      using expire_step [OF assms(1) s] by blast
    have z: "zero_dues (next_timeout ?s) = zero_dues ts"
      using link_all_zero [OF xs(2)] xs(1) by simp
    have "((d - to_time t, ?s), (d, s)) \<in> measures [\<lambda>(d, s). unat d, \<lambda>(d, s). zero_dues (next_timeout s)]"
    proof (cases "to_time t = 0")
      case True
      then have "zero_dues (next_timeout s) = Suc (zero_dues ts)"
        by (simp add: zero_dues_def s)
      then show ?thesis
        using True z by simp
    next
      case False
      then have "unat (d - to_time t) < unat d"
        using True unat_gt_0 [of "to_time t"] by (simp add: unat_sub_u32 word_le_nat_alt)
      then show ?thesis
        by simp
    qed
    from 1(1) [OF this expire_keeps_arp [OF assms(1) s 1(2)]] obtain s' d' fs where
      run: "check_timeouts_loop E now (d - to_time t) ?s = Some s'"
      and r: "check_result E now (d - to_time t) ?s s' d' fs"
      by blast
    have "check_timeouts_loop E now d s = Some s'"
      using True s run by (subst check_timeouts_loop.simps) simp
    then show ?thesis
      using check_result_fire [OF assms(1) s True r] by blast
  qed
qed

lemma next_timeout_sys_timeout:
  "next_timeout (sys_timeout E m h a s) =
     (if snd (te_malloc E (world s)) then list_add m h a (next_timeout s) else next_timeout s)"
  by (simp add: sys_timeout_def split_beta Let_def)

lemma next_timeout_sys_untimeout: "next_timeout (sys_untimeout E h a s) = list_cancel h a (next_timeout s)"
  by (simp add: sys_untimeout_def split: option.splits)

section \<open>Properties\<close>

definition demo_env :: "nat timer_env" where
  "demo_env = \<lparr>te_malloc = (\<lambda>w. (w, True)), te_free = (\<lambda>w. w), te_tcp_pcbs = (\<lambda>w. False),
     te_tcp_tmr = (\<lambda>s. s), te_ip_reass_tmr = (\<lambda>s. s), te_etharp_tmr = (\<lambda>s. s), te_dhcp_coarse_tmr = (\<lambda>s. s),
     te_dhcp_fine_tmr = (\<lambda>s. s), te_autoip_tmr = (\<lambda>s. s), te_igmp_tmr = (\<lambda>s. s), te_dns_tmr = (\<lambda>s. s),
     te_app_handler = (\<lambda>f a s. s\<lparr>world := world s + a\<rparr>)\<rparr>"

definition demo_timers :: "nat timers" where
  "demo_timers = sys_timeouts_init demo_env 0
     \<lparr>next_timeout = [], timeouts_last_time = 0, tcpip_tcp_timer_active = False, world = 0\<rparr>"

lemma demo_timers_list:
  "next_timeout demo_timers =
     [\<lparr>to_time = 100, to_h = Igmp_timer, to_arg = 0\<rparr>, \<lparr>to_time = 400, to_h = Dhcp_timer_fine, to_arg = 0\<rparr>,
      \<lparr>to_time = 4500, to_h = Arp_timer, to_arg = 0\<rparr>, \<lparr>to_time = 55000, to_h = Dhcp_timer_coarse, to_arg = 0\<rparr>]"
  "timeouts_last_time demo_timers = 0"
  by (simp_all add: demo_timers_def sys_timeouts_init_def sys_timeout_def timeout_link_def demo_env_def interval_defs)

lemma polite_demo: "polite demo_env"
proof -
  have "adds_only (\<lambda>s :: nat timers. s\<lparr>world := world s + a\<rparr>)" for a
    unfolding adds_only_def link_all_def by (metis empty_iff empty_set foldl_Nil timers.ext_inject timers.surjective timers.update_convs(4))
  then show ?thesis
    unfolding polite_def demo_env_def by (simp add: adds_only_id del: timers.update_convs)
qed

text \<open>C10. The delta list refines a queue of absolute due times.  \<open>sys_timeout\<close>, when an element can be
  allocated, inserts the new timer behind every timer that is due no later and leaves the due
  times of all others as they are; \<open>sys_untimeout\<close> removes the first timer with that handler and
  argument, if there is one, and again moves no other timer.  The due times stay sorted and below
  \<open>2 ^ 32\<close>, so no 32-bit sum or difference in the list wraps.\<close>

theorem timer_list_refines_queue:
  assumes "dues_fit (next_timeout s)"
  shows "dues (next_timeout (sys_timeout E msecs h a s))
      = (if snd (te_malloc E (world s)) then queue_add (unat msecs, h, a) (dues (next_timeout s)) else dues (next_timeout s))
    \<and> dues (next_timeout (sys_untimeout E h a s)) = queue_cancel h a (dues (next_timeout s))
    \<and> dues_fit (next_timeout (sys_timeout E msecs h a s)) \<and> dues_fit (next_timeout (sys_untimeout E h a s))
    \<and> sorted (map fst (dues (next_timeout (sys_timeout E msecs h a s))))"
  using assms tq.add_fits [OF assms, of msecs h a] tq.cancel_law [OF assms, of h a] tq.cancel_fits [OF assms, of h a]
    tq.sorted_law tq.add_law [of msecs h a "next_timeout s"]
  by (simp add: next_timeout_sys_timeout next_timeout_sys_untimeout)

theorem timer_list_refines_queue_witness:
  "dues (next_timeout (sys_timeout demo_env 500 Dns_timer 0 demo_timers))
     = [(100, Igmp_timer, 0), (500, Dhcp_timer_fine, 0), (500, Dns_timer, 0), (5000, Arp_timer, 0), (60000, Dhcp_timer_coarse, 0)]
   \<and> dues (next_timeout (sys_untimeout demo_env Dhcp_timer_fine 0 demo_timers))
     = [(100, Igmp_timer, 0), (5000, Arp_timer, 0), (60000, Dhcp_timer_coarse, 0)]"
proof -
  have "dues_fit (next_timeout demo_timers)"
    by (simp add: demo_timers_list dues_fit_def)
  moreover have "snd (te_malloc demo_env (world demo_timers))"
    by (simp add: demo_env_def)
  ultimately show ?thesis
    using timer_list_refines_queue [of demo_timers demo_env 500 Dns_timer 0]
      timer_list_refines_queue [of demo_timers demo_env 0 Dhcp_timer_fine 0]
    by (simp add: demo_timers_list queue_add_def queue_cancel_def)
qed

text \<open>Cancelling a timer that was just set undoes it, when no other timer has this handler and
  argument: the queue of due times is as before.\<close>

theorem sys_untimeout_undoes:
  assumes "dues_fit (next_timeout s)" "(h, a) \<notin> snd ` set (dues (next_timeout s))"
  shows "dues (next_timeout (sys_untimeout E h a (sys_timeout E msecs h a s))) = dues (next_timeout s)"
proof -
  have "snd y \<noteq> (h, a)" if "y \<in> set (dues (next_timeout s))" for y
    using assms(2) that by force
  then have none: "takeWhile (\<lambda>y. snd y \<noteq> (h, a)) (dues (next_timeout s)) = dues (next_timeout s)"
    "dropWhile (\<lambda>y. snd y \<noteq> (h, a)) (dues (next_timeout s)) = []"
    by (simp_all add: takeWhile_eq_all_conv dropWhile_eq_Nil_conv)
  have "dues (list_cancel h a (next_timeout s)) = dues (next_timeout s)"
    unfolding tq.cancel_law [OF assms(1), of h a] queue_cancel_def none by simp
  then show ?thesis
    using tq.cancel_add [OF assms, of msecs]
    unfolding next_timeout_sys_timeout next_timeout_sys_untimeout by (simp only: split: if_splits) blast
qed

theorem sys_untimeout_undoes_witness:
  "dues (next_timeout (sys_untimeout demo_env Dns_timer 7 (sys_timeout demo_env 300 Dns_timer 7 demo_timers)))
     = dues (next_timeout demo_timers)"
  by (rule sys_untimeout_undoes) (simp_all add: demo_timers_list dues_fit_def)




end
