(* ===== verification/Fsm.thy ===== *)
theory Fsm
  imports Lwip_Prelude
begin

text \<open>
  The state machine of the PPP control protocols (RFC 1661): \<^verbatim>\<open>netif/ppp/fsm.c\<close> and \<^verbatim>\<open>fsm.h\<close>.  One
  definition per function of the source, over a record of the fields of \<^verbatim>\<open>struct fsm\<close>, the pending
  timer and the frames given to \<^verbatim>\<open>pppWrite\<close>.  \<^verbatim>\<open>TIMEOUT\<close> cancels before it sets, so there is at most
  one timer with \<^verbatim>\<open>fsm_timeout\<close>: the field \<open>timer\<close>.  The callbacks of the protocol (LCP, IPCP) are
  functions on the whole state, over a rest \<open>'w\<close> of the world; a null pointer is \<open>None\<close>.  The options
  a callback writes into or shortens in the packet buffer are its result.  \<open>peer_mru\<close> is the entry of
  the machine's unit; LCP keeps it at least \<^verbatim>\<open>PPP_MINMRU\<close> (128), so \<open>peer_mru - HEADERLEN\<close> is never
  negative in the code.
\<close>

section \<open>Data\<close>

datatype link_state = LS_INITIAL | LS_STARTING | LS_CLOSED | LS_STOPPED | LS_CLOSING | LS_STOPPING
  | LS_REQSENT | LS_ACKRCVD | LS_ACKSENT | LS_OPENED

record 'w fsm =
  protocol :: u16
  fstate :: link_state
  fflags :: u32
  fid :: u8
  reqid :: u8
  seen_ack :: bool
  timeouttime :: int
  maxconfreqtransmits :: int
  retransmits :: int
  maxtermtransmits :: int
  nakloops :: int
  maxnakloops :: int
  term_reason :: "u8 list"
  peer_mru :: nat
  timer :: bool
  written :: "u8 list list"
  fworld :: 'w

record 'w fsm_callbacks =
  cb_resetci :: "('w fsm \<Rightarrow> 'w fsm) option"
  cb_cilen :: "('w fsm \<Rightarrow> nat) option"
  cb_addci :: "('w fsm \<Rightarrow> nat \<Rightarrow> 'w fsm \<times> u8 list) option"
  cb_ackci :: "('w fsm \<Rightarrow> u8 list \<Rightarrow> 'w fsm \<times> bool) option"
  cb_nakci :: "('w fsm \<Rightarrow> u8 list \<Rightarrow> 'w fsm \<times> int) option"
  cb_rejci :: "('w fsm \<Rightarrow> u8 list \<Rightarrow> 'w fsm \<times> int) option"
  cb_reqci :: "('w fsm \<Rightarrow> u8 list \<Rightarrow> bool \<Rightarrow> 'w fsm \<times> u8 \<times> u8 list) option"
  cb_up :: "('w fsm \<Rightarrow> 'w fsm) option"
  cb_down :: "('w fsm \<Rightarrow> 'w fsm) option"
  cb_starting :: "('w fsm \<Rightarrow> 'w fsm) option"
  cb_finished :: "('w fsm \<Rightarrow> 'w fsm) option"
  cb_retransmit :: "('w fsm \<Rightarrow> 'w fsm) option"
  cb_extcode :: "('w fsm \<Rightarrow> u8 \<Rightarrow> u8 \<Rightarrow> u8 list \<Rightarrow> 'w fsm \<times> bool) option"

definition CONFREQ :: u8 where "CONFREQ = 1"
definition CONFACK :: u8 where "CONFACK = 2"
definition CONFNAK :: u8 where "CONFNAK = 3"
definition CONFREJ :: u8 where "CONFREJ = 4"
definition TERMREQ :: u8 where "TERMREQ = 5"
definition TERMACK :: u8 where "TERMACK = 6"
definition CODEREJ :: u8 where "CODEREJ = 7"

definition HEADERLEN :: nat where "HEADERLEN = 4"

definition OPT_PASSIVE :: u32 where "OPT_PASSIVE = 1"
definition OPT_RESTART :: u32 where "OPT_RESTART = 2"
definition OPT_SILENT :: u32 where "OPT_SILENT = 4"

definition FSM_DEFTIMEOUT :: int where "FSM_DEFTIMEOUT = 6"
definition FSM_DEFMAXTERMREQS :: int where "FSM_DEFMAXTERMREQS = 2"
definition FSM_DEFMAXCONFREQS :: int where "FSM_DEFMAXCONFREQS = 10"
definition FSM_DEFMAXNAKLOOPS :: int where "FSM_DEFMAXNAKLOOPS = 5"

abbreviation TIMEOUT :: "'w fsm \<Rightarrow> 'w fsm" where
  "TIMEOUT f \<equiv> f\<lparr>timer := True\<rparr>"

abbreviation UNTIMEOUT :: "'w fsm \<Rightarrow> 'w fsm" where
  "UNTIMEOUT f \<equiv> f\<lparr>timer := False\<rparr>"

definition call :: "('w fsm \<Rightarrow> 'w fsm) option \<Rightarrow> 'w fsm \<Rightarrow> 'w fsm" where
  "call cb f = (case cb of None \<Rightarrow> f | Some g \<Rightarrow> g f)"

definition put_short :: "nat \<Rightarrow> u8 list" where
  "put_short n = [of_nat (n div 256), of_nat (n mod 256)]"

section \<open>Sending\<close>

text \<open>The frame handed to \<^verbatim>\<open>pppWrite\<close>: PPP header, code, id, length and data, cut to the peer's MRU.\<close>

definition fsm_sdata :: "u8 \<Rightarrow> u8 \<Rightarrow> u8 list \<Rightarrow> 'w fsm \<Rightarrow> 'w fsm" where
  "fsm_sdata code i data f =
     (let data = take (peer_mru f - HEADERLEN) data;
          outlen = length data + HEADERLEN
      in f\<lparr>written := written f @
             [[0xff, 0x03] @ put_short (unat (protocol f)) @ [code, i] @ put_short outlen @ data]\<rparr>)"

text \<open>The options of a Configure-Request, as \<^verbatim>\<open>cilen\<close> and \<^verbatim>\<open>addci\<close> give them.\<close>

definition fsm_addci :: "'w fsm_callbacks \<Rightarrow> 'w fsm \<Rightarrow> 'w fsm \<times> u8 list" where
  "fsm_addci C f =
     (case (cb_cilen C, cb_addci C) of
        (Some cilen, Some addci) \<Rightarrow> addci f (min (cilen f) (peer_mru f - HEADERLEN))
      | _ \<Rightarrow> (f, []))"

definition fsm_sconfreq :: "'w fsm_callbacks \<Rightarrow> bool \<Rightarrow> 'w fsm \<Rightarrow> 'w fsm" where
  "fsm_sconfreq C retransmit f =
     (let f = (if fstate f \<noteq> LS_REQSENT \<and> fstate f \<noteq> LS_ACKRCVD \<and> fstate f \<noteq> LS_ACKSENT
               then (call (cb_resetci C) f)\<lparr>nakloops := 0\<rparr> else f);
          f = (if \<not> retransmit then f\<lparr>retransmits := maxconfreqtransmits f, fid := fid f + 1, reqid := fid f + 1\<rparr> else f);
          f = f\<lparr>seen_ack := False\<rparr>;
          (f, ci) = fsm_addci C f;
          f = fsm_sdata CONFREQ (reqid f) ci f;
          f = f\<lparr>retransmits := retransmits f - 1\<rparr>
      in TIMEOUT f)"

text \<open>\<^verbatim>\<open>fsm_sdata(f, TERMREQ, f->reqid = ++f->id, ...)\<close> with the restart counter and the timer, as three
  functions have it.\<close>

definition fsm_stermreq :: "'w fsm \<Rightarrow> 'w fsm" where
  "fsm_stermreq f =
     (let f = f\<lparr>fid := fid f + 1, reqid := fid f + 1\<rparr>;
          f = fsm_sdata TERMREQ (reqid f) (term_reason f) f;
          f = TIMEOUT f
      in f\<lparr>retransmits := retransmits f - 1\<rparr>)"

section \<open>Events from the local side\<close>

definition fsm_init :: "'w fsm \<Rightarrow> 'w fsm" where
  "fsm_init f = f\<lparr>fstate := LS_INITIAL, fflags := 0, fid := 0, timeouttime := FSM_DEFTIMEOUT,
     maxconfreqtransmits := FSM_DEFMAXCONFREQS, maxtermtransmits := FSM_DEFMAXTERMREQS,
     maxnakloops := FSM_DEFMAXNAKLOOPS, term_reason := []\<rparr>"

definition fsm_lowerup :: "'w fsm_callbacks \<Rightarrow> 'w fsm \<Rightarrow> 'w fsm" where
  "fsm_lowerup C f =
     (case fstate f of
        LS_INITIAL \<Rightarrow> f\<lparr>fstate := LS_CLOSED\<rparr>
      | LS_STARTING \<Rightarrow>
          if fflags f AND OPT_SILENT \<noteq> 0 then f\<lparr>fstate := LS_STOPPED\<rparr>
          else (fsm_sconfreq C False f)\<lparr>fstate := LS_REQSENT\<rparr>
      | _ \<Rightarrow> f)"

definition fsm_lowerdown :: "'w fsm_callbacks \<Rightarrow> 'w fsm \<Rightarrow> 'w fsm" where
  "fsm_lowerdown C f =
     (case fstate f of
        LS_CLOSED \<Rightarrow> f\<lparr>fstate := LS_INITIAL\<rparr>
      | LS_STOPPED \<Rightarrow> call (cb_starting C) (f\<lparr>fstate := LS_STARTING\<rparr>)
      | LS_CLOSING \<Rightarrow> UNTIMEOUT (f\<lparr>fstate := LS_INITIAL\<rparr>)
      | LS_STOPPING \<Rightarrow> UNTIMEOUT (f\<lparr>fstate := LS_STARTING\<rparr>)
      | LS_REQSENT \<Rightarrow> UNTIMEOUT (f\<lparr>fstate := LS_STARTING\<rparr>)
      | LS_ACKRCVD \<Rightarrow> UNTIMEOUT (f\<lparr>fstate := LS_STARTING\<rparr>)
      | LS_ACKSENT \<Rightarrow> UNTIMEOUT (f\<lparr>fstate := LS_STARTING\<rparr>)
      | LS_OPENED \<Rightarrow> (call (cb_down C) f)\<lparr>fstate := LS_STARTING\<rparr>
      | _ \<Rightarrow> f)"

definition fsm_open :: "'w fsm_callbacks \<Rightarrow> 'w fsm \<Rightarrow> 'w fsm" where
  "fsm_open C f =
     (let restart = (\<lambda>f. if fflags f AND OPT_RESTART \<noteq> 0 then fsm_lowerup C (fsm_lowerdown C f) else f)
      in case fstate f of
           LS_INITIAL \<Rightarrow> call (cb_starting C) (f\<lparr>fstate := LS_STARTING\<rparr>)
         | LS_CLOSED \<Rightarrow>
             if fflags f AND OPT_SILENT \<noteq> 0 then f\<lparr>fstate := LS_STOPPED\<rparr>
             else (fsm_sconfreq C False f)\<lparr>fstate := LS_REQSENT\<rparr>
         | LS_CLOSING \<Rightarrow> restart (f\<lparr>fstate := LS_STOPPING\<rparr>)
         | LS_STOPPED \<Rightarrow> restart f
         | LS_OPENED \<Rightarrow> restart f
         | _ \<Rightarrow> f)"

definition fsm_close :: "'w fsm_callbacks \<Rightarrow> u8 list \<Rightarrow> 'w fsm \<Rightarrow> 'w fsm" where
  "fsm_close C reason f =
     (let f = f\<lparr>term_reason := reason\<rparr>;
          terminate = (\<lambda>f. (fsm_stermreq (f\<lparr>retransmits := maxtermtransmits f\<rparr>))\<lparr>fstate := LS_CLOSING\<rparr>)
      in case fstate f of
           LS_STARTING \<Rightarrow> f\<lparr>fstate := LS_INITIAL\<rparr>
         | LS_STOPPED \<Rightarrow> f\<lparr>fstate := LS_CLOSED\<rparr>
         | LS_STOPPING \<Rightarrow> f\<lparr>fstate := LS_CLOSING\<rparr>
         | LS_REQSENT \<Rightarrow> terminate (UNTIMEOUT f)
         | LS_ACKRCVD \<Rightarrow> terminate (UNTIMEOUT f)
         | LS_ACKSENT \<Rightarrow> terminate (UNTIMEOUT f)
         | LS_OPENED \<Rightarrow> terminate (call (cb_down C) f)
         | _ \<Rightarrow> f)"

text \<open>The timer handler; the timer module has removed the timer before it calls it.\<close>

definition fsm_timeout :: "'w fsm_callbacks \<Rightarrow> 'w fsm \<Rightarrow> 'w fsm" where
  "fsm_timeout C f =
     (let term = (\<lambda>f. if retransmits f \<le> 0
            then call (cb_finished C) (f\<lparr>fstate := (if fstate f = LS_CLOSING then LS_CLOSED else LS_STOPPED)\<rparr>)
            else fsm_stermreq f);
          conf = (\<lambda>f. if retransmits f \<le> 0
            then let f = f\<lparr>fstate := LS_STOPPED\<rparr>
                 in if fflags f AND OPT_PASSIVE = 0 then call (cb_finished C) f else f
            else let f = fsm_sconfreq C True (call (cb_retransmit C) f)
                 in if fstate f = LS_ACKRCVD then f\<lparr>fstate := LS_REQSENT\<rparr> else f)
      in case fstate f of
           LS_CLOSING \<Rightarrow> term f
         | LS_STOPPING \<Rightarrow> term f
         | LS_REQSENT \<Rightarrow> conf f
         | LS_ACKRCVD \<Rightarrow> conf f
         | LS_ACKSENT \<Rightarrow> conf f
         | _ \<Rightarrow> f)"

section \<open>Packets from the peer\<close>

text \<open>The second half of \<^verbatim>\<open>fsm_rconfreq\<close>, after the switch on the state: the options are checked and
  the Ack, Nak or Reject is sent.\<close>

definition fsm_answer :: "'w fsm_callbacks \<Rightarrow> u8 \<Rightarrow> u8 list \<Rightarrow> 'w fsm \<Rightarrow> 'w fsm" where
  "fsm_answer C i inp f =
     (let (f, code, inp) = (case cb_reqci C of
             Some reqci \<Rightarrow> reqci f inp (nakloops f \<ge> maxnakloops f)
           | None \<Rightarrow> if inp \<noteq> [] then (f, CONFREJ, inp) else (f, CONFACK, inp));
          f = fsm_sdata code i inp f
      in if code = CONFACK then
           (if fstate f = LS_ACKRCVD then call (cb_up C) ((UNTIMEOUT f)\<lparr>fstate := LS_OPENED\<rparr>)
            else f\<lparr>fstate := LS_ACKSENT\<rparr>)\<lparr>nakloops := 0\<rparr>
         else
           let f = (if fstate f \<noteq> LS_ACKRCVD then f\<lparr>fstate := LS_REQSENT\<rparr> else f)
           in if code = CONFNAK then f\<lparr>nakloops := nakloops f + 1\<rparr> else f)"

definition fsm_rconfreq :: "'w fsm_callbacks \<Rightarrow> u8 \<Rightarrow> u8 list \<Rightarrow> 'w fsm \<Rightarrow> 'w fsm" where
  "fsm_rconfreq C i inp f =
     (case fstate f of
        LS_CLOSED \<Rightarrow> fsm_sdata TERMACK i [] f
      | LS_CLOSING \<Rightarrow> f
      | LS_STOPPING \<Rightarrow> f
      | LS_OPENED \<Rightarrow> fsm_answer C i inp (fsm_sconfreq C False (call (cb_down C) f))
      | LS_STOPPED \<Rightarrow> fsm_answer C i inp ((fsm_sconfreq C False f)\<lparr>fstate := LS_REQSENT\<rparr>)
      | _ \<Rightarrow> fsm_answer C i inp f)"

definition fsm_rconfack :: "'w fsm_callbacks \<Rightarrow> u8 \<Rightarrow> u8 list \<Rightarrow> 'w fsm \<Rightarrow> 'w fsm" where
  "fsm_rconfack C i inp f =
     (if i \<noteq> reqid f \<or> seen_ack f then f
      else
        let (f, good) = (case cb_ackci C of Some ackci \<Rightarrow> ackci f inp | None \<Rightarrow> (f, inp = []))
        in if \<not> good then f
           else
             let f = f\<lparr>seen_ack := True\<rparr>
             in case fstate f of
                  LS_CLOSED \<Rightarrow> fsm_sdata TERMACK i [] f
                | LS_STOPPED \<Rightarrow> fsm_sdata TERMACK i [] f
                | LS_REQSENT \<Rightarrow> f\<lparr>fstate := LS_ACKRCVD, retransmits := maxconfreqtransmits f\<rparr>
                | LS_ACKRCVD \<Rightarrow> (fsm_sconfreq C False (UNTIMEOUT f))\<lparr>fstate := LS_REQSENT\<rparr>
                | LS_ACKSENT \<Rightarrow> call (cb_up C) ((UNTIMEOUT f)\<lparr>fstate := LS_OPENED, retransmits := maxconfreqtransmits f\<rparr>)
                | LS_OPENED \<Rightarrow> (fsm_sconfreq C False (call (cb_down C) f))\<lparr>fstate := LS_REQSENT\<rparr>
                | _ \<Rightarrow> f)"

definition fsm_rconfnakrej :: "'w fsm_callbacks \<Rightarrow> u8 \<Rightarrow> u8 \<Rightarrow> u8 list \<Rightarrow> 'w fsm \<Rightarrow> 'w fsm" where
  "fsm_rconfnakrej C code i inp f =
     (if i \<noteq> reqid f \<or> seen_ack f then f
      else
        let (f, ret) = (case (if code = CONFNAK then cb_nakci C else cb_rejci C) of
                          Some proc \<Rightarrow> proc f inp | None \<Rightarrow> (f, 0))
        in if ret = 0 then f
           else
             let f = f\<lparr>seen_ack := True\<rparr>;
                 again = (\<lambda>f. let f = UNTIMEOUT f
                             in if ret < 0 then f\<lparr>fstate := LS_STOPPED\<rparr> else fsm_sconfreq C False f)
             in case fstate f of
                  LS_CLOSED \<Rightarrow> fsm_sdata TERMACK i [] f
                | LS_STOPPED \<Rightarrow> fsm_sdata TERMACK i [] f
                | LS_REQSENT \<Rightarrow> again f
                | LS_ACKSENT \<Rightarrow> again f
                | LS_ACKRCVD \<Rightarrow> (fsm_sconfreq C False (UNTIMEOUT f))\<lparr>fstate := LS_REQSENT\<rparr>
                | LS_OPENED \<Rightarrow> (fsm_sconfreq C False (call (cb_down C) f))\<lparr>fstate := LS_REQSENT\<rparr>
                | _ \<Rightarrow> f)"

definition fsm_rtermreq :: "'w fsm_callbacks \<Rightarrow> u8 \<Rightarrow> 'w fsm \<Rightarrow> 'w fsm" where
  "fsm_rtermreq C i f =
     fsm_sdata TERMACK i []
       (case fstate f of
          LS_ACKRCVD \<Rightarrow> f\<lparr>fstate := LS_REQSENT\<rparr>
        | LS_ACKSENT \<Rightarrow> f\<lparr>fstate := LS_REQSENT\<rparr>
        | LS_OPENED \<Rightarrow> TIMEOUT ((call (cb_down C) f)\<lparr>retransmits := 0, fstate := LS_STOPPING\<rparr>)
        | _ \<Rightarrow> f)"

definition fsm_rtermack :: "'w fsm_callbacks \<Rightarrow> 'w fsm \<Rightarrow> 'w fsm" where
  "fsm_rtermack C f =
     (case fstate f of
        LS_CLOSING \<Rightarrow> call (cb_finished C) ((UNTIMEOUT f)\<lparr>fstate := LS_CLOSED\<rparr>)
      | LS_STOPPING \<Rightarrow> call (cb_finished C) ((UNTIMEOUT f)\<lparr>fstate := LS_STOPPED\<rparr>)
      | LS_ACKRCVD \<Rightarrow> f\<lparr>fstate := LS_REQSENT\<rparr>
      | LS_OPENED \<Rightarrow> fsm_sconfreq C False (call (cb_down C) f)
      | _ \<Rightarrow> f)"

definition fsm_rcoderej :: "u8 list \<Rightarrow> 'w fsm \<Rightarrow> 'w fsm" where
  "fsm_rcoderej inp f =
     (if length inp < HEADERLEN then f
      else if fstate f = LS_ACKRCVD then f\<lparr>fstate := LS_REQSENT\<rparr> else f)"

definition fsm_protreject :: "'w fsm_callbacks \<Rightarrow> 'w fsm \<Rightarrow> 'w fsm" where
  "fsm_protreject C f =
     (let stop = (\<lambda>f. call (cb_finished C) (f\<lparr>fstate := LS_STOPPED\<rparr>));
          closed = (\<lambda>f. call (cb_finished C) (f\<lparr>fstate := LS_CLOSED\<rparr>))
      in case fstate f of
           LS_CLOSING \<Rightarrow> closed (UNTIMEOUT f)
         | LS_CLOSED \<Rightarrow> closed f
         | LS_STOPPING \<Rightarrow> stop (UNTIMEOUT f)
         | LS_REQSENT \<Rightarrow> stop (UNTIMEOUT f)
         | LS_ACKRCVD \<Rightarrow> stop (UNTIMEOUT f)
         | LS_ACKSENT \<Rightarrow> stop (UNTIMEOUT f)
         | LS_STOPPED \<Rightarrow> stop f
         | LS_OPENED \<Rightarrow>
             let f = call (cb_down C) f
             in (fsm_stermreq (f\<lparr>retransmits := maxtermtransmits f\<rparr>))\<lparr>fstate := LS_STOPPING\<rparr>
         | _ \<Rightarrow> f)"

text \<open>\<open>inpacket\<close> holds the \<open>l\<close> bytes of the packet.\<close>

definition fsm_input :: "'w fsm_callbacks \<Rightarrow> u8 list \<Rightarrow> 'w fsm \<Rightarrow> 'w fsm" where
  "fsm_input C inpacket f =
     (case inpacket of
        code # i # hi # lo # inp \<Rightarrow>
          let len = unat hi * 256 + unat lo
          in if len < HEADERLEN then f
             else if len > length inpacket then f
             else if fstate f = LS_INITIAL \<or> fstate f = LS_STARTING then f
             else
               let inp = take (len - HEADERLEN) inp
               in if code = CONFREQ then fsm_rconfreq C i inp f
                  else if code = CONFACK then fsm_rconfack C i inp f
                  else if code = CONFNAK \<or> code = CONFREJ then fsm_rconfnakrej C code i inp f
                  else if code = TERMREQ then fsm_rtermreq C i f
                  else if code = TERMACK then fsm_rtermack C f
                  else if code = CODEREJ then fsm_rcoderej inp f
                  else
                    let (f, known) = (case cb_extcode C of None \<Rightarrow> (f, False) | Some extcode \<Rightarrow> extcode f code i inp)
                    in if known then f
                       else
                         let f = f\<lparr>fid := fid f + 1\<rparr>
                         in fsm_sdata CODEREJ (fid f) (take len inpacket) f
      | _ \<Rightarrow> f)"

section \<open>Events\<close>

text \<open>What can happen to a machine.  A timeout event needs a pending timer, which the timer module
  removes before it calls the handler.\<close>

datatype fsm_event = Lowerup | Lowerdown | Open | Close "u8 list" | Timeout | Input "u8 list" | Protreject

definition fsm_do :: "'w fsm_callbacks \<Rightarrow> fsm_event \<Rightarrow> 'w fsm \<Rightarrow> 'w fsm" where
  "fsm_do C e f =
     (case e of
        Lowerup \<Rightarrow> fsm_lowerup C f
      | Lowerdown \<Rightarrow> fsm_lowerdown C f
      | Open \<Rightarrow> fsm_open C f
      | Close reason \<Rightarrow> fsm_close C reason f
      | Timeout \<Rightarrow> if timer f then fsm_timeout C (UNTIMEOUT f) else f
      | Input inpacket \<Rightarrow> fsm_input C inpacket f
      | Protreject \<Rightarrow> fsm_protreject C f)"

text \<open>A Terminate-Ack in \<open>LS_OPENED\<close>: the one event that breaks the invariant below.\<close>

definition stray_termack :: "fsm_event \<Rightarrow> 'w fsm \<Rightarrow> bool" where
  "stray_termack e f \<longleftrightarrow> fstate f = LS_OPENED \<and>
     (case e of Input (code # _) \<Rightarrow> code = TERMACK | _ \<Rightarrow> False)"

inductive fsm_reach :: "'w fsm_callbacks \<Rightarrow> 'w fsm \<Rightarrow> 'w fsm \<Rightarrow> bool" for C f0 where
  init: "fsm_reach C f0 (fsm_init f0)"
| event: "fsm_reach C f0 f \<Longrightarrow> \<not> stray_termack e f \<Longrightarrow> fsm_reach C f0 (fsm_do C e f)"

section \<open>The invariant\<close>

text \<open>The states with a pending timer, those of RFC 1661 in which the restart timer runs.\<close>

definition timed :: "link_state \<Rightarrow> bool" where
  "timed s \<longleftrightarrow> s \<in> {LS_CLOSING, LS_STOPPING, LS_REQSENT, LS_ACKRCVD, LS_ACKSENT}"

text \<open>\<open>isup\<close> reads from the world whether the layer above has been told that the link is up.\<close>

definition fsm_inv :: "('w \<Rightarrow> bool) \<Rightarrow> 'w fsm \<Rightarrow> bool" where
  "fsm_inv isup f \<longleftrightarrow>
     (timer f \<longleftrightarrow> timed (fstate f)) \<and>
     (isup (fworld f) \<longleftrightarrow> fstate f = LS_OPENED) \<and>
     (fstate f = LS_ACKRCVD \<or> fstate f = LS_OPENED \<longrightarrow> seen_ack f)"

text \<open>What the machine relies on.  A callback that runs in the middle of an event touches neither the
  state nor the timer; \<open>up\<close>, \<open>starting\<close> and \<open>finished\<close>, which run at the end of one, may call the
  machine again and have to restore the invariant.\<close>

definition keeps :: "('w \<Rightarrow> bool) \<Rightarrow> 'w fsm \<Rightarrow> 'w fsm \<Rightarrow> bool" where
  "keeps isup f f' \<longleftrightarrow> fstate f' = fstate f \<and> timer f' = timer f \<and> seen_ack f' = seen_ack f \<and>
     retransmits f' = retransmits f \<and> isup (fworld f') = isup (fworld f)"

definition callbacks_ok :: "('w \<Rightarrow> bool) \<Rightarrow> 'w fsm_callbacks \<Rightarrow> bool" where
  "callbacks_ok isup C \<longleftrightarrow>
     (\<forall>g f. cb_resetci C = Some g \<longrightarrow> keeps isup f (g f)) \<and>
     (\<forall>g f n. cb_addci C = Some g \<longrightarrow> keeps isup f (fst (g f n))) \<and>
     (\<forall>g f ci. cb_ackci C = Some g \<longrightarrow> keeps isup f (fst (g f ci))) \<and>
     (\<forall>g f ci. cb_nakci C = Some g \<longrightarrow> keeps isup f (fst (g f ci))) \<and>
     (\<forall>g f ci. cb_rejci C = Some g \<longrightarrow> keeps isup f (fst (g f ci))) \<and>
     (\<forall>g f ci b. cb_reqci C = Some g \<longrightarrow> keeps isup f (fst (g f ci b))) \<and>
     (\<forall>g f. cb_retransmit C = Some g \<longrightarrow> keeps isup f (g f)) \<and>
     (\<forall>g f c i ci. cb_extcode C = Some g \<longrightarrow> keeps isup f (fst (g f c i ci))) \<and>
     (\<exists>g. cb_down C = Some g \<and> (\<forall>f. \<not> isup (fworld (g f)) \<and> fstate (g f) = fstate f \<and>
        timer (g f) = timer f \<and> seen_ack (g f) = seen_ack f)) \<and>
     (\<exists>g. cb_up C = Some g \<and> (\<forall>f. fstate f = LS_OPENED \<longrightarrow> \<not> timer f \<longrightarrow> seen_ack f \<longrightarrow>
        fsm_inv isup (g f))) \<and>
     (\<forall>g f. cb_starting C = Some g \<longrightarrow> fsm_inv isup f \<longrightarrow> fsm_inv isup (g f)) \<and>
     (\<forall>g f. cb_finished C = Some g \<longrightarrow> fsm_inv isup f \<longrightarrow> fsm_inv isup (g f))"

lemma timed_simps [simp]:
  "timed LS_CLOSING" "timed LS_STOPPING" "timed LS_REQSENT" "timed LS_ACKRCVD" "timed LS_ACKSENT"
  "\<not> timed LS_INITIAL" "\<not> timed LS_STARTING" "\<not> timed LS_CLOSED" "\<not> timed LS_STOPPED" "\<not> timed LS_OPENED"
  by (simp_all add: timed_def)

lemma keeps_refl [simp]: "keeps isup f f"
  by (simp add: keeps_def)

lemma keeps_call:
  assumes "\<And>g f. cb = Some g \<Longrightarrow> keeps isup f (g f)"
  shows "keeps isup f (call cb f)"
  using assms by (cases cb) (simp_all add: call_def keeps_def)

lemma callbacks_call [simp]:
  assumes "callbacks_ok isup C"
  shows "keeps isup f (call (cb_resetci C) f)" "keeps isup f (call (cb_retransmit C) f)"
    "fstate (call (cb_down C) f) = fstate f" "timer (call (cb_down C) f) = timer f"
    "seen_ack (call (cb_down C) f) = seen_ack f" "\<not> isup (fworld (call (cb_down C) f))"
    "fsm_inv isup f \<Longrightarrow> fsm_inv isup (call (cb_starting C) f)"
    "fsm_inv isup f \<Longrightarrow> fsm_inv isup (call (cb_finished C) f)"
    "fstate f = LS_OPENED \<Longrightarrow> \<not> timer f \<Longrightarrow> seen_ack f \<Longrightarrow> fsm_inv isup (call (cb_up C) f)"
  using assms unfolding callbacks_ok_def
  by (auto intro: keeps_call simp: call_def split: option.splits)

lemma callbacks_pair:
  assumes "callbacks_ok isup C"
  shows "cb_addci C = Some addci \<Longrightarrow> addci f n = (f1, out) \<Longrightarrow> keeps isup f f1"
    "cb_ackci C = Some ackci \<Longrightarrow> ackci f ci = (f2, good) \<Longrightarrow> keeps isup f f2"
    "cb_nakci C = Some nakci \<Longrightarrow> nakci f ci = (f3, r) \<Longrightarrow> keeps isup f f3"
    "cb_rejci C = Some rejci \<Longrightarrow> rejci f ci = (f4, r) \<Longrightarrow> keeps isup f f4"
    "cb_reqci C = Some reqci \<Longrightarrow> reqci f ci b = (f5, x) \<Longrightarrow> keeps isup f f5"
    "cb_extcode C = Some extcode \<Longrightarrow> extcode f c i ci = (f6, known) \<Longrightarrow> keeps isup f f6"
  using assms unfolding callbacks_ok_def by (metis fst_conv)+

lemma fsm_sdata_keeps [simp]: "keeps isup f (fsm_sdata code i data f)"
  by (simp add: fsm_sdata_def keeps_def Let_def)

lemma fsm_sdata_fields [simp]:
  "fstate (fsm_sdata code i data f) = fstate f" "timer (fsm_sdata code i data f) = timer f"
  "seen_ack (fsm_sdata code i data f) = seen_ack f" "fworld (fsm_sdata code i data f) = fworld f"
  "retransmits (fsm_sdata code i data f) = retransmits f"
  by (simp_all add: fsm_sdata_def Let_def)

lemma fsm_stermreq_fields [simp]:
  "fstate (fsm_stermreq f) = fstate f" "timer (fsm_stermreq f)"
  "seen_ack (fsm_stermreq f) = seen_ack f" "fworld (fsm_stermreq f) = fworld f"
  "retransmits (fsm_stermreq f) = retransmits f - 1"
  by (simp_all add: fsm_stermreq_def Let_def)

lemma fsm_inv_update [simp]:
  "fsm_inv isup (f\<lparr>nakloops := n\<rparr>) = fsm_inv isup f" "fsm_inv isup (f\<lparr>term_reason := r\<rparr>) = fsm_inv isup f"
  "fsm_inv isup (fsm_sdata code i data f) = fsm_inv isup f" "fsm_inv isup (f\<lparr>fid := i\<rparr>) = fsm_inv isup f"
  by (simp_all add: fsm_inv_def)

lemma keeps_inv: "keeps isup f f' \<Longrightarrow> fsm_inv isup f' = fsm_inv isup f"
  by (simp add: keeps_def fsm_inv_def)

lemma fsm_addci_keeps:
  "callbacks_ok isup C \<Longrightarrow> keeps isup f (fst (fsm_addci C f))"
  unfolding fsm_addci_def by (auto simp: callbacks_ok_def split: option.splits)

lemma fsm_sconfreq_fields [simp]:
  assumes "callbacks_ok isup C"
  shows "fstate (fsm_sconfreq C r f) = fstate f" "timer (fsm_sconfreq C r f)"
    "\<not> seen_ack (fsm_sconfreq C r f)" "isup (fworld (fsm_sconfreq C r f)) = isup (fworld f)"
proof -
  have reset: "keeps isup f (call (cb_resetci C) f)"
    using assms by simp
  have add: "fstate (fst (fsm_addci C g)) = fstate g" "timer (fst (fsm_addci C g)) = timer g"
    "seen_ack (fst (fsm_addci C g)) = seen_ack g" "isup (fworld (fst (fsm_addci C g))) = isup (fworld g)" for g
    using fsm_addci_keeps [OF assms, of g] by (simp_all add: keeps_def)
  show "fstate (fsm_sconfreq C r f) = fstate f" "timer (fsm_sconfreq C r f)"
    "\<not> seen_ack (fsm_sconfreq C r f)" "isup (fworld (fsm_sconfreq C r f)) = isup (fworld f)"
    using reset unfolding fsm_sconfreq_def
    by (simp_all add: Let_def keeps_def split_beta add)
qed

text \<open>Every event handler keeps the invariant.\<close>

lemma fsm_lowerup_inv: "callbacks_ok isup C \<Longrightarrow> fsm_inv isup f \<Longrightarrow> fsm_inv isup (fsm_lowerup C f)"
  by (cases "fstate f") (simp_all add: fsm_lowerup_def fsm_inv_def)

lemma fsm_lowerdown_inv: "callbacks_ok isup C \<Longrightarrow> fsm_inv isup f \<Longrightarrow> fsm_inv isup (fsm_lowerdown C f)"
  using callbacks_call(7) [of isup C "f\<lparr>fstate := LS_STARTING\<rparr>"]
  by (cases "fstate f") (simp_all add: fsm_lowerdown_def fsm_inv_def)

lemma fsm_open_inv:
  assumes "callbacks_ok isup C" "fsm_inv isup f"
  shows "fsm_inv isup (fsm_open C f)"
proof -
  have restart: "fsm_inv isup (if b then fsm_lowerup C (fsm_lowerdown C g) else g)" if "fsm_inv isup g" for g b
    using fsm_lowerup_inv [OF assms(1) fsm_lowerdown_inv [OF assms(1) that]] that by simp
  have "fsm_inv isup (f\<lparr>fstate := LS_STOPPING\<rparr>)" if "fstate f = LS_CLOSING"
    using assms(2) that by (simp add: fsm_inv_def)
  moreover have "fsm_inv isup (f\<lparr>fstate := LS_STARTING\<rparr>)" if "fstate f = LS_INITIAL"
    using assms(2) that by (simp add: fsm_inv_def)
  moreover have "fsm_inv isup (f\<lparr>fstate := LS_STOPPED\<rparr>)"
    "fsm_inv isup (fsm_sconfreq C False f\<lparr>fstate := LS_REQSENT\<rparr>)" if "fstate f = LS_CLOSED"
    using assms that by (simp_all add: fsm_inv_def)
  ultimately show ?thesis
    using assms restart by (cases "fstate f") (simp_all add: fsm_open_def Let_def)
qed

lemma fsm_close_inv: "callbacks_ok isup C \<Longrightarrow> fsm_inv isup f \<Longrightarrow> fsm_inv isup (fsm_close C reason f)"
  by (cases "fstate f") (simp_all add: fsm_close_def fsm_inv_def Let_def)

lemma fsm_timeout_inv:
  assumes "callbacks_ok isup C" "fsm_inv isup f" "timer f"
  shows "fsm_inv isup (fsm_timeout C (UNTIMEOUT f))"
proof -
  have finished: "fsm_inv isup (call (cb_finished C) (f\<lparr>timer := False, fstate := s\<rparr>))"
    "fsm_inv isup (f\<lparr>timer := False, fstate := s\<rparr>)" if "s = LS_CLOSED \<or> s = LS_STOPPED" for s
  proof -
    show "fsm_inv isup (f\<lparr>timer := False, fstate := s\<rparr>)"
      using assms(2,3) that by (auto simp: fsm_inv_def)
    then show "fsm_inv isup (call (cb_finished C) (f\<lparr>timer := False, fstate := s\<rparr>))"
      using assms(1) by simp
  qed
  define g where "g = call (cb_retransmit C) (f\<lparr>timer := False\<rparr>)"
  have g: "fstate g = fstate f" "isup (fworld g) = isup (fworld f)"
    using callbacks_call(2) [OF assms(1), of "f\<lparr>timer := False\<rparr>"] by (simp_all add: keeps_def g_def)
  have again: "fsm_inv isup (let h = fsm_sconfreq C True g in if fstate h = LS_ACKRCVD then h\<lparr>fstate := LS_REQSENT\<rparr> else h)"
    if "fstate f \<in> {LS_REQSENT, LS_ACKRCVD, LS_ACKSENT}"
    using assms g that by (auto simp: fsm_inv_def Let_def)
  have stermreq: "fsm_inv isup (fsm_stermreq (f\<lparr>timer := False\<rparr>))" if "fstate f \<in> {LS_CLOSING, LS_STOPPING}"
    using assms that by (auto simp: fsm_inv_def)
  show ?thesis
    using assms(2,3) finished again stermreq
    by (cases "fstate f") (simp_all add: fsm_timeout_def Let_def g_def fsm_inv_def [of _ f])
qed

lemma fsm_rtermreq_inv: "callbacks_ok isup C \<Longrightarrow> fsm_inv isup f \<Longrightarrow> fsm_inv isup (fsm_rtermreq C i f)"
  by (cases "fstate f") (simp_all add: fsm_rtermreq_def fsm_inv_def)

lemma fsm_rtermack_inv:
  assumes "callbacks_ok isup C" "fsm_inv isup f" "fstate f \<noteq> LS_OPENED"
  shows "fsm_inv isup (fsm_rtermack C f)"
proof -
  have "fsm_inv isup (call (cb_finished C) (f\<lparr>timer := False, fstate := s\<rparr>))"
    if "s = LS_CLOSED \<or> s = LS_STOPPED" for s
    using callbacks_call(8) [OF assms(1), of "f\<lparr>timer := False, fstate := s\<rparr>"] assms(2,3) that
    by (auto simp: fsm_inv_def)
  then show ?thesis
    using assms by (cases "fstate f") (simp_all add: fsm_rtermack_def fsm_inv_def)
qed

lemma fsm_protreject_inv:
  assumes "callbacks_ok isup C" "fsm_inv isup f"
  shows "fsm_inv isup (fsm_protreject C f)"
proof -
  have stop: "fsm_inv isup (call (cb_finished C) (f\<lparr>timer := False, fstate := s\<rparr>))"
    "\<not> timer f \<Longrightarrow> fsm_inv isup (call (cb_finished C) (f\<lparr>fstate := s\<rparr>))"
    if "s = LS_CLOSED \<or> s = LS_STOPPED" "fstate f \<noteq> LS_OPENED" for s
    using callbacks_call(8) [OF assms(1), of "f\<lparr>timer := False, fstate := s\<rparr>"]
      callbacks_call(8) [OF assms(1), of "f\<lparr>fstate := s\<rparr>"] assms(2) that
    by (auto simp: fsm_inv_def)
  have "\<not> timer f" if "fstate f = LS_CLOSED \<or> fstate f = LS_STOPPED"
    using assms(2) that by (auto simp: fsm_inv_def)
  then show ?thesis
    using assms stop by (cases "fstate f") (simp_all add: fsm_protreject_def fsm_inv_def Let_def)
qed

lemma fsm_rcoderej_inv: "fsm_inv isup f \<Longrightarrow> fsm_inv isup (fsm_rcoderej inp f)"
  by (auto simp: fsm_rcoderej_def fsm_inv_def)

lemma fsm_rconfack_inv:
  assumes "callbacks_ok isup C" "fsm_inv isup f"
  shows "fsm_inv isup (fsm_rconfack C i inp f)"
proof (cases "i \<noteq> reqid f \<or> seen_ack f")
  case False
  obtain g good where ack: "(case cb_ackci C of Some ackci \<Rightarrow> ackci f inp | None \<Rightarrow> (f, inp = [])) = (g, good)"
    by fastforce
  have keep: "keeps isup f g"
    using ack callbacks_pair(2) [OF assms(1)] by (auto split: option.splits)
  then have g: "fsm_inv isup g" "\<not> seen_ack g"
    using assms(2) False by (simp_all add: keeps_inv) (simp add: keeps_def)
  have "fsm_inv isup (call (cb_up C) (g\<lparr>seen_ack := True, timer := False, fstate := LS_OPENED,
      retransmits := maxconfreqtransmits g\<rparr>))"
    using callbacks_call(9) [OF assms(1)] by simp
  moreover have "fsm_inv isup (g\<lparr>seen_ack := True\<rparr>)" if "fstate g \<noteq> LS_OPENED"
    using g that by (auto simp: fsm_inv_def)
  moreover have "fstate g \<noteq> LS_OPENED" "fstate g \<noteq> LS_ACKRCVD"
    using g by (auto simp: fsm_inv_def)
  moreover have "fsm_inv isup (g\<lparr>seen_ack := True, fstate := LS_ACKRCVD, retransmits := maxconfreqtransmits g\<rparr>)"
    if "fstate g = LS_REQSENT"
    using g that by (auto simp: fsm_inv_def)
  ultimately show ?thesis
    using False g by (cases "fstate g") (simp_all add: fsm_rconfack_def ack Let_def)
qed (auto simp: fsm_rconfack_def assms)

lemma fsm_rconfnakrej_inv:
  assumes "callbacks_ok isup C" "fsm_inv isup f"
  shows "fsm_inv isup (fsm_rconfnakrej C code i inp f)"
proof (cases "i \<noteq> reqid f \<or> seen_ack f")
  case False
  obtain g ret where nak: "(case (if code = CONFNAK then cb_nakci C else cb_rejci C) of
      Some proc \<Rightarrow> proc f inp | None \<Rightarrow> (f, 0)) = (g, ret)"
    by fastforce
  have keep: "keeps isup f g"
    using nak callbacks_pair(3,4) [OF assms(1)] by (auto split: option.splits if_splits)
  then have g: "fsm_inv isup g" "\<not> seen_ack g"
    using assms(2) False by (simp_all add: keeps_inv) (simp add: keeps_def)
  have open_free: "fstate g \<noteq> LS_OPENED" "fstate g \<noteq> LS_ACKRCVD"
    using g by (auto simp: fsm_inv_def)
  then have "fsm_inv isup (g\<lparr>seen_ack := True\<rparr>)"
    using g by (auto simp: fsm_inv_def)
  moreover have "fsm_inv isup (if ret < 0 then (UNTIMEOUT (g\<lparr>seen_ack := True\<rparr>))\<lparr>fstate := LS_STOPPED\<rparr>
      else fsm_sconfreq C False (UNTIMEOUT (g\<lparr>seen_ack := True\<rparr>)))"
    if "fstate g = LS_REQSENT \<or> fstate g = LS_ACKSENT"
    using g that assms(1) by (auto simp: fsm_inv_def)
  ultimately show ?thesis
    using False g open_free by (cases "fstate g") (simp_all add: fsm_rconfnakrej_def nak Let_def)
qed (auto simp: fsm_rconfnakrej_def assms)

text \<open>The answer to a Configure-Request is given while the timer runs and the layer above is down.\<close>

lemma fsm_answer_inv:
  assumes "callbacks_ok isup C" "timer f" "\<not> isup (fworld f)" "fstate f = LS_ACKRCVD \<longrightarrow> seen_ack f"
  shows "fsm_inv isup (fsm_answer C i inp f)"
proof -
  obtain h code out where req: "(case cb_reqci C of
             Some reqci \<Rightarrow> reqci f inp (nakloops f \<ge> maxnakloops f)
           | None \<Rightarrow> if inp \<noteq> [] then (f, CONFREJ, inp) else (f, CONFACK, inp)) = (h, code, out)"
    by (metis prod_cases3)
  have h: "fstate h = fstate f" "timer h = timer f" "seen_ack h = seen_ack f" "isup (fworld h) = isup (fworld f)"
    using req callbacks_pair(5) [OF assms(1)] by (auto simp: keeps_def split: option.splits if_splits)
  have "fsm_inv isup (call (cb_up C) ((UNTIMEOUT (fsm_sdata code i out h))\<lparr>fstate := LS_OPENED\<rparr>))"
    if "fstate f = LS_ACKRCVD"
    using callbacks_call(9) [OF assms(1)] that assms(4) h by simp
  moreover have "fsm_inv isup ((fsm_sdata code i out h)\<lparr>fstate := s\<rparr>)" if "s = LS_ACKSENT \<or> s = LS_REQSENT" for s
    using that assms(2,3) h by (auto simp: fsm_inv_def)
  moreover have "fsm_inv isup h" if "fstate f = LS_ACKRCVD"
    using that assms h by (auto simp: fsm_inv_def)
  ultimately show ?thesis
    unfolding fsm_answer_def req by (cases "code = CONFACK") (simp_all add: Let_def h)
qed

lemma fsm_rconfreq_inv:
  assumes "callbacks_ok isup C" "fsm_inv isup f" "fstate f \<noteq> LS_INITIAL" "fstate f \<noteq> LS_STARTING"
  shows "fsm_inv isup (fsm_rconfreq C i inp f)"
proof -
  have "timer f \<longleftrightarrow> timed (fstate f)" "isup (fworld f) \<longleftrightarrow> fstate f = LS_OPENED"
    "fstate f = LS_ACKRCVD \<longrightarrow> seen_ack f"
    using assms(2) by (simp_all add: fsm_inv_def)
  then show ?thesis
    using assms by (cases "fstate f") (simp_all add: fsm_rconfreq_def fsm_answer_inv)
qed

lemma fsm_input_inv:
  assumes "callbacks_ok isup C" "fsm_inv isup f" "\<not> stray_termack (Input inpacket) f"
  shows "fsm_inv isup (fsm_input C inpacket f)"
proof (cases "\<exists>code i hi lo inp. inpacket = code # i # hi # lo # inp")
  case True
  then obtain code i hi lo inp where pkt: "inpacket = code # i # hi # lo # inp"
    by blast
  obtain g known where ext: "(case cb_extcode C of None \<Rightarrow> (f, False)
      | Some extcode \<Rightarrow> extcode f code i (take (unat hi * 256 + unat lo - HEADERLEN) inp)) = (g, known)"
    by fastforce
  have "keeps isup f g"
    using ext callbacks_pair(6) [OF assms(1)] by (auto split: option.splits)
  then have "fsm_inv isup g"
    using assms(2) by (simp add: keeps_inv)
  moreover have "code = TERMACK \<Longrightarrow> fstate f \<noteq> LS_OPENED"
    using assms(3) by (auto simp: stray_termack_def pkt)
  ultimately show ?thesis
    unfolding fsm_input_def pkt list.case Let_def ext prod.case
    by (simp add: assms(2) fsm_rconfreq_inv [OF assms(1,2)] fsm_rconfack_inv [OF assms(1,2)]
        fsm_rconfnakrej_inv [OF assms(1,2)] fsm_rtermreq_inv [OF assms(1,2)]
        fsm_rtermack_inv [OF assms(1,2)] fsm_rcoderej_inv [OF assms(2)])
next
  case False
  then show ?thesis
    using assms(2) unfolding fsm_input_def by (auto split: list.splits)
qed

lemma fsm_do_inv:
  assumes "callbacks_ok isup C" "fsm_inv isup f" "\<not> stray_termack e f"
  shows "fsm_inv isup (fsm_do C e f)"
  using assms fsm_lowerup_inv fsm_lowerdown_inv fsm_open_inv fsm_close_inv fsm_timeout_inv fsm_input_inv
    fsm_protreject_inv
  by (cases e) (auto simp: fsm_do_def)

lemma fsm_reach_inv:
  assumes "callbacks_ok isup C" "\<not> timer f0" "\<not> isup (fworld f0)" "fsm_reach C f0 f"
  shows "fsm_inv isup f"
  using assms(4)
proof induction
  case init
  then show ?case
    using assms(2,3) by (simp add: fsm_init_def fsm_inv_def)
next
  case (event f e)
  then show ?case
    by (simp add: fsm_do_inv assms(1))
qed

section \<open>Timeouts\<close>

lemma fsm_sconfreq_retransmits:
  assumes "callbacks_ok isup C"
  shows "retransmits (fsm_sconfreq C True f) = retransmits f - 1"
proof -
  have "retransmits (fst (fsm_addci C g)) = retransmits g" for g
    using fsm_addci_keeps [OF assms, of g] by (simp add: keeps_def)
  moreover have "retransmits (call (cb_resetci C) f) = retransmits f"
    using callbacks_call(1) [OF assms, of f] by (simp add: keeps_def)
  ultimately show ?thesis
    unfolding fsm_sconfreq_def by (simp add: Let_def split_beta)
qed

text \<open>A timeout with retransmissions left spends one of them.\<close>

lemma fsm_timeout_resends:
  assumes "callbacks_ok isup C" "timed (fstate f)" "timer f" "0 < retransmits f"
  defines "f' \<equiv> fsm_do C Timeout f"
  shows "timed (fstate f')" "timer f'" "retransmits f' = retransmits f - 1"
    "fstate f' = LS_CLOSING \<longleftrightarrow> fstate f = LS_CLOSING"
proof -
  define g where "g = call (cb_retransmit C) (UNTIMEOUT f)"
  have g: "fstate g = fstate f" "retransmits g = retransmits f"
    using callbacks_call(2) [OF assms(1), of "UNTIMEOUT f"] by (simp_all add: keeps_def g_def)
  have "timed (fstate f') \<and> timer f' \<and> retransmits f' = retransmits f - 1 \<and>
      (fstate f' = LS_CLOSING \<longleftrightarrow> fstate f = LS_CLOSING)"
    using assms(1-4) g unfolding f'_def
    by (cases "fstate f")
      (simp_all add: fsm_do_def fsm_timeout_def Let_def fsm_sconfreq_retransmits [OF assms(1)] flip: g_def)
  then show "timed (fstate f')" "timer f'" "retransmits f' = retransmits f - 1"
    "fstate f' = LS_CLOSING \<longleftrightarrow> fstate f = LS_CLOSING"
    by blast+
qed

definition finished_quiet :: "'w fsm_callbacks \<Rightarrow> bool" where
  "finished_quiet C \<longleftrightarrow> (\<forall>g f. cb_finished C = Some g \<longrightarrow> fstate (g f) = fstate f \<and> timer (g f) = timer f)"

lemma fsm_timeout_gives_up:
  assumes "finished_quiet C" "timed (fstate f)" "timer f" "retransmits f \<le> 0"
  shows "fstate (fsm_do C Timeout f) = (if fstate f = LS_CLOSING then LS_CLOSED else LS_STOPPED)"
    "\<not> timer (fsm_do C Timeout f)"
proof -
  have fin: "fstate (call (cb_finished C) g) = fstate g" "timer (call (cb_finished C) g) = timer g" for g
    using assms(1) by (auto simp: finished_quiet_def call_def split: option.splits)
  have "fstate (fsm_do C Timeout f) = (if fstate f = LS_CLOSING then LS_CLOSED else LS_STOPPED) \<and>
      \<not> timer (fsm_do C Timeout f)"
    using assms(2-4) by (cases "fstate f") (simp_all add: fsm_do_def fsm_timeout_def Let_def fin)
  then show "fstate (fsm_do C Timeout f) = (if fstate f = LS_CLOSING then LS_CLOSED else LS_STOPPED)"
    "\<not> timer (fsm_do C Timeout f)"
    by blast+
qed

text \<open>\<open>n\<close> timeouts in a row, with nothing heard from the peer.\<close>

primrec fsm_silence :: "'w fsm_callbacks \<Rightarrow> nat \<Rightarrow> 'w fsm \<Rightarrow> 'w fsm" where
  "fsm_silence C 0 f = f"
| "fsm_silence C (Suc n) f = fsm_silence C n (fsm_do C Timeout f)"

lemma fsm_silence_timed:
  assumes "callbacks_ok isup C" "timed (fstate f)" "timer f" "int n \<le> retransmits f"
  shows "timed (fstate (fsm_silence C n f)) \<and> timer (fsm_silence C n f) \<and>
    retransmits (fsm_silence C n f) = retransmits f - int n \<and>
    (fstate (fsm_silence C n f) = LS_CLOSING \<longleftrightarrow> fstate f = LS_CLOSING)"
  using assms(2-4)
proof (induction n arbitrary: f)
  case (Suc n)
  have "0 < retransmits f"
    using Suc.prems(3) by simp
  then have step: "timed (fstate (fsm_do C Timeout f))" "timer (fsm_do C Timeout f)"
    "retransmits (fsm_do C Timeout f) = retransmits f - 1"
    "fstate (fsm_do C Timeout f) = LS_CLOSING \<longleftrightarrow> fstate f = LS_CLOSING"
    using fsm_timeout_resends [OF assms(1) Suc.prems(1,2)] by blast+
  have "int n \<le> retransmits (fsm_do C Timeout f)"
    using step(3) Suc.prems(3) by simp
  from Suc.IH [OF step(1,2) this] show ?case
    using step(3,4) by simp
qed simp

lemma fsm_silence_Suc: "fsm_silence C (Suc n) f = fsm_do C Timeout (fsm_silence C n f)"
  by (induction n arbitrary: f) simp_all

section \<open>Negotiation between two machines\<close>

text \<open>The configuration information \<open>ci\<close> a protocol proposes, and that its peer accepts.  The callbacks
  work on the world only.\<close>

definition proposes :: "'w fsm_callbacks \<Rightarrow> u8 list \<Rightarrow> bool" where
  "proposes C ci \<longleftrightarrow>
     (\<forall>f. \<exists>w. call (cb_resetci C) f = f\<lparr>fworld := w\<rparr>) \<and>
     (\<forall>f. \<exists>w. fsm_addci C f = (f\<lparr>fworld := w\<rparr>, ci)) \<and>
     (\<exists>ackci. cb_ackci C = Some ackci \<and> (\<forall>f. \<exists>w. ackci f ci = (f\<lparr>fworld := w\<rparr>, True)))"

definition accepts :: "'w fsm_callbacks \<Rightarrow> u8 list \<Rightarrow> bool" where
  "accepts C ci \<longleftrightarrow>
     (\<exists>reqci. cb_reqci C = Some reqci \<and> (\<forall>f b. \<exists>w. reqci f ci b = (f\<lparr>fworld := w\<rparr>, CONFACK, ci))) \<and>
     (\<forall>f. \<exists>w. call (cb_up C) f = f\<lparr>fworld := w\<rparr>)"

text \<open>The frame of a packet, and what the peer's PPP layer hands to \<^verbatim>\<open>fsm_input\<close> of the last one sent:
  the bytes behind address, control and protocol.\<close>

definition frame :: "u16 \<Rightarrow> u8 \<Rightarrow> u8 \<Rightarrow> u8 list \<Rightarrow> u8 list" where
  "frame p code i data = [0xff, 0x03] @ put_short (unat p) @ [code, i] @ put_short (length data + HEADERLEN) @ data"

definition delivered :: "'w fsm \<Rightarrow> u8 list" where
  "delivered f = drop 4 (last (written f))"

lemma put_short_length [simp]: "length (put_short n) = 2"
  by (simp add: put_short_def)

lemma put_short_read:
  "n < 65536 \<Longrightarrow> put_short n = [hi, lo] \<Longrightarrow> unat hi * 256 + unat lo = n"
  by (auto simp: put_short_def unat_of_nat)

lemma fsm_sdata_frame:
  "length data + HEADERLEN \<le> peer_mru f \<Longrightarrow> last (written (fsm_sdata code i data f)) = frame (protocol f) code i data"
  by (simp add: fsm_sdata_def frame_def Let_def)

lemma frame_payload:
  assumes "length data + HEADERLEN < 65536"
  shows "\<exists>hi lo. drop 4 (frame p code i data) = code # i # hi # lo # data \<and> unat hi * 256 + unat lo = length data + HEADERLEN"
proof -
  obtain hi lo where n: "put_short (length data + HEADERLEN) = [hi, lo]"
    by (simp add: put_short_def)
  obtain a b where p: "put_short (unat p) = [a, b]"
    by (simp add: put_short_def)
  have "drop 4 (frame p code i data) = code # i # hi # lo # data"
    unfolding frame_def n p by simp
  then show ?thesis
    using put_short_read [OF assms n] by blast
qed

text \<open>The first request, the answer to the peer's request and the peer's acknowledgement.\<close>

lemma fsm_lowerup_request:
  assumes "proposes C ci" "fstate f = LS_STARTING" "fflags f AND OPT_SILENT = 0" "length ci + HEADERLEN \<le> peer_mru f"
  defines "f' \<equiv> fsm_lowerup C f"
  shows "fstate f' = LS_REQSENT \<and> timer f' \<and> \<not> seen_ack f' \<and> peer_mru f' = peer_mru f \<and>
    last (written f') = frame (protocol f) CONFREQ (reqid f') ci"
proof -
  define g where "g = (call (cb_resetci C) f)\<lparr>nakloops := 0, retransmits := maxconfreqtransmits f, fid := fid f + 1,
    reqid := fid f + 1, seen_ack := False\<rparr>"
  obtain w where reset: "call (cb_resetci C) f = f\<lparr>fworld := w\<rparr>"
    using assms(1) unfolding proposes_def by blast
  have "\<exists>v. fsm_addci C g = (g\<lparr>fworld := v\<rparr>, ci)"
    using assms(1) by (simp add: proposes_def)
  then obtain v where add: "fsm_addci C (f\<lparr>fworld := w, nakloops := 0, retransmits := maxconfreqtransmits f,
      fid := fid f + 1, reqid := fid f + 1, seen_ack := False\<rparr>) = (g\<lparr>fworld := v\<rparr>, ci)"
    by (auto simp: g_def reset)
  have req: "fsm_sconfreq C False f = TIMEOUT ((fsm_sdata CONFREQ (reqid g) ci (g\<lparr>fworld := v\<rparr>))
      \<lparr>retransmits := maxconfreqtransmits f - 1\<rparr>)"
    unfolding fsm_sconfreq_def by (simp add: Let_def reset assms(2) add) (simp add: g_def reset)
  have g: "peer_mru g = peer_mru f" "protocol g = protocol f" "\<not> seen_ack g"
    by (simp_all add: g_def reset)
  have "last (written (fsm_sdata CONFREQ (reqid g) ci (g\<lparr>fworld := v\<rparr>))) = frame (protocol f) CONFREQ (reqid g) ci"
    using assms(4) g by (simp add: fsm_sdata_frame)
  then show ?thesis
    using assms(2,3) g unfolding f'_def by (simp add: fsm_lowerup_def req) (simp add: fsm_sdata_def Let_def)
qed

lemma fsm_input_accepts:
  fixes p :: u16 and i :: u8
  assumes "accepts C ci" "fstate f = LS_REQSENT" "length ci + HEADERLEN \<le> peer_mru f" "length ci + HEADERLEN < 65536"
  defines "f' \<equiv> fsm_input C (drop 4 (frame p CONFREQ i ci)) f"
  shows "fstate f' = LS_ACKSENT \<and> timer f' = timer f \<and> seen_ack f' = seen_ack f \<and> reqid f' = reqid f \<and>
    last (written f') = frame (protocol f) CONFACK i ci"
proof -
  obtain hi lo where pkt: "drop 4 (frame p CONFREQ i ci) = CONFREQ # i # hi # lo # ci"
    "unat hi * 256 + unat lo = length ci + HEADERLEN"
    using frame_payload [OF assms(4)] by blast
  obtain reqci where reqci: "cb_reqci C = Some reqci" "\<forall>f b. \<exists>w. reqci f ci b = (f\<lparr>fworld := w\<rparr>, CONFACK, ci)"
    using assms(1) by (auto simp: accepts_def)
  then obtain w where w: "reqci f ci (maxnakloops f \<le> nakloops f) = (f\<lparr>fworld := w\<rparr>, CONFACK, ci)"
    by blast
  have "f' = (fsm_sdata CONFACK i ci (f\<lparr>fworld := w\<rparr>))\<lparr>fstate := LS_ACKSENT, nakloops := 0\<rparr>"
    using assms(2) pkt w reqci(1)
    by (simp add: f'_def fsm_input_def Let_def fsm_rconfreq_def fsm_answer_def HEADERLEN_def)
  then show ?thesis
    using assms(3) by (simp add: fsm_sdata_frame) (simp add: fsm_sdata_def Let_def)
qed

lemma fsm_input_acked:
  fixes p :: u16
  assumes "proposes C ci" "accepts C cj" "fstate f = LS_ACKSENT" "\<not> seen_ack f" "length ci + HEADERLEN < 65536"
  defines "f' \<equiv> fsm_input C (drop 4 (frame p CONFACK (reqid f) ci)) f"
  shows "fstate f' = LS_OPENED \<and> \<not> timer f'"
proof -
  obtain hi lo where pkt: "drop 4 (frame p CONFACK (reqid f) ci) = CONFACK # reqid f # hi # lo # ci"
    "unat hi * 256 + unat lo = length ci + HEADERLEN"
    using frame_payload [OF assms(5)] by blast
  obtain ackci where ackci: "cb_ackci C = Some ackci" "\<forall>f. \<exists>w. ackci f ci = (f\<lparr>fworld := w\<rparr>, True)"
    using assms(1) by (auto simp: proposes_def)
  then obtain w where w: "ackci f ci = (f\<lparr>fworld := w\<rparr>, True)"
    by blast
  have up: "fstate (call (cb_up C) g) = fstate g" "timer (call (cb_up C) g) = timer g" for g
    using assms(2) unfolding accepts_def by (metis fsm.select_convs fsm.surjective fsm.update_convs)+
  have "f' = call (cb_up C) ((f\<lparr>fworld := w, seen_ack := True, timer := False, fstate := LS_OPENED,
      retransmits := maxconfreqtransmits f\<rparr>))"
    using assms(3,4) pkt w ackci(1)
    by (simp add: f'_def fsm_input_def Let_def fsm_rconfack_def HEADERLEN_def CONFREQ_def CONFACK_def)
  then show ?thesis
    by (simp add: up)
qed

section \<open>Properties\<close>

text \<open>A protocol without options whose layer above notes in the world whether it is up; a machine
  that has been opened and waits for its lower layer.\<close>

definition plain_callbacks :: "bool fsm_callbacks" where
  "plain_callbacks = \<lparr>cb_resetci = None, cb_cilen = None, cb_addci = None, cb_ackci = Some (\<lambda>f ci. (f, ci = [])),
     cb_nakci = None, cb_rejci = None,
     cb_reqci = Some (\<lambda>f ci b. if ci = [] then (f, CONFACK, []) else (f, CONFREJ, ci)),
     cb_up = Some (\<lambda>f. f\<lparr>fworld := True\<rparr>), cb_down = Some (\<lambda>f. f\<lparr>fworld := False\<rparr>),
     cb_starting = None, cb_finished = None, cb_retransmit = None, cb_extcode = None\<rparr>"

definition plain_fsm :: "u8 \<Rightarrow> bool fsm" where
  "plain_fsm i = \<lparr>protocol = 0x8021, fstate = LS_STARTING, fflags = 0, fid = i, reqid = 0, seen_ack = False,
     timeouttime = 6, maxconfreqtransmits = 10, retransmits = 0, maxtermtransmits = 2, nakloops = 0, maxnakloops = 5,
     term_reason = [], peer_mru = 1500, timer = False, written = [], fworld = False\<rparr>"

lemma plain_callbacks_ok: "callbacks_ok (\<lambda>w. w) plain_callbacks"
  by (simp add: callbacks_ok_def plain_callbacks_def fsm_inv_def keeps_def)

lemma fworld_same: "\<exists>w. f = f\<lparr>fworld := w\<rparr>"
  by (rule exI [of _ "fworld f"]) simp

lemma plain_proposes: "proposes plain_callbacks []"
  by (auto simp: proposes_def plain_callbacks_def call_def fsm_addci_def intro: fworld_same)

lemma plain_accepts: "accepts plain_callbacks []"
  by (auto simp: accepts_def plain_callbacks_def call_def intro: fworld_same)

text \<open>C9. In every state that a sequence of events (the lower layer going up or down, opening, closing,
  timeouts, packets of any content, protocol rejects) leads to after \<^verbatim>\<open>fsm_init\<close>, the restart timer is
  pending exactly in the states Closing, Stopping, Req-Sent, Ack-Rcvd and Ack-Sent, the layer above has
  been told that the link is up exactly in Opened, and in Ack-Rcvd and Opened the last request has been
  acknowledged; so an Ack or Nak received in those two states is never taken for a new one.  A
  Terminate-Ack received in Opened is left out: the next property says what it does.\<close>

theorem fsm_reachable_inv:
  assumes "callbacks_ok isup C" "\<not> timer f0" "\<not> isup (fworld f0)" "fsm_reach C f0 f"
  shows "(timer f \<longleftrightarrow> fstate f \<in> {LS_CLOSING, LS_STOPPING, LS_REQSENT, LS_ACKRCVD, LS_ACKSENT}) \<and>
    (isup (fworld f) \<longleftrightarrow> fstate f = LS_OPENED) \<and>
    (fstate f \<in> {LS_ACKRCVD, LS_OPENED} \<longrightarrow> fsm_rconfack C i inp f = f \<and> fsm_rconfnakrej C code i inp f = f)"
  using fsm_reach_inv [OF assms] by (auto simp: fsm_inv_def timed_def fsm_rconfack_def fsm_rconfnakrej_def)

lemma plain_opened_reach:
  "fsm_reach plain_callbacks (plain_fsm 0)
     (fsm_do plain_callbacks (Input [2, 1, 0, 4]) (fsm_do plain_callbacks (Input [1, 9, 0, 4])
       (fsm_do plain_callbacks Lowerup (fsm_do plain_callbacks Open (fsm_init (plain_fsm 0))))))"
  by (intro fsm_reach.intros) (simp_all add: stray_termack_def TERMACK_def)

lemmas fsm_eval = fsm_do_def fsm_init_def plain_fsm_def plain_callbacks_def fsm_open_def fsm_lowerup_def fsm_sconfreq_def
  fsm_addci_def fsm_sdata_def fsm_input_def fsm_rconfreq_def fsm_answer_def fsm_rconfack_def fsm_rtermack_def
  fsm_timeout_def call_def Let_def HEADERLEN_def
  CONFREQ_def CONFACK_def CONFNAK_def CONFREJ_def TERMREQ_def TERMACK_def CODEREJ_def OPT_SILENT_def

theorem fsm_reachable_inv_witness:
  "\<exists>f. fsm_reach plain_callbacks (plain_fsm 0) f \<and> fstate f = LS_OPENED \<and> \<not> timer f \<and> fworld f \<and>
     fsm_rconfack plain_callbacks 1 [] f = f"
proof -
  define f where "f = fsm_do plain_callbacks (Input [2, 1, 0, 4]) (fsm_do plain_callbacks (Input [1, 9, 0, 4])
       (fsm_do plain_callbacks Lowerup (fsm_do plain_callbacks Open (fsm_init (plain_fsm 0)))))"
  have reach: "fsm_reach plain_callbacks (plain_fsm 0) f"
    unfolding f_def by (rule plain_opened_reach)
  moreover have "fstate f = LS_OPENED"
    by (simp add: f_def fsm_eval)
  ultimately show ?thesis
    using fsm_reachable_inv [OF plain_callbacks_ok _ _ reach, where i = 1 and inp = "[]"]
    by (auto simp: plain_fsm_def)
qed





text \<open>C19. Two machines that have been opened and whose lower layers come up reach Opened in one exchange:
  each gets the other's Configure-Request, whose options it accepts, and then the other's
  Configure-Ack, every packet being the bytes the sender wrote, and no timer is left pending.\<close>

theorem fsm_handshake:
  assumes "proposes CA ca" "proposes CB cb" "accepts CA cb" "accepts CB ca"
    and "fstate A = LS_STARTING" "fflags A AND OPT_SILENT = 0" "fstate B = LS_STARTING" "fflags B AND OPT_SILENT = 0"
    and "length ca + HEADERLEN < 65536" "length cb + HEADERLEN < 65536"
    and "length ca + HEADERLEN \<le> peer_mru A" "length cb + HEADERLEN \<le> peer_mru A"
    and "length ca + HEADERLEN \<le> peer_mru B" "length cb + HEADERLEN \<le> peer_mru B"
  shows "let A1 = fsm_do CA Lowerup A; B1 = fsm_do CB Lowerup B;
      A2 = fsm_do CA (Input (delivered B1)) A1; B2 = fsm_do CB (Input (delivered A1)) B1;
      A3 = fsm_do CA (Input (delivered B2)) A2; B3 = fsm_do CB (Input (delivered A2)) B2
    in fstate A3 = LS_OPENED \<and> fstate B3 = LS_OPENED \<and> \<not> timer A3 \<and> \<not> timer B3"
proof -
  note A1 = fsm_lowerup_request [OF assms(1,5,6,11)]
  note B1 = fsm_lowerup_request [OF assms(2,7,8,14)]
  define A1 B1 where ab: "A1 = fsm_lowerup CA A" "B1 = fsm_lowerup CB B"
  have "fstate A1 = LS_REQSENT" "fstate B1 = LS_REQSENT" "length cb + HEADERLEN \<le> peer_mru A1"
    "length ca + HEADERLEN \<le> peer_mru B1"
    using A1 B1 assms(12,13) by (simp_all add: ab)
  note A2 = fsm_input_accepts [OF assms(3) this(1,3) assms(10), of "protocol B" "reqid B1"]
    and B2 = fsm_input_accepts [OF assms(4) this(2,4) assms(9), of "protocol A" "reqid A1"]
  have d1: "delivered A1 = drop 4 (frame (protocol A) CONFREQ (reqid A1) ca)"
    "delivered B1 = drop 4 (frame (protocol B) CONFREQ (reqid B1) cb)"
    using A1 B1 by (simp_all add: delivered_def ab)
  define A2 B2 where ab2: "A2 = fsm_input CA (delivered B1) A1" "B2 = fsm_input CB (delivered A1) B1"
  have "fstate A2 = LS_ACKSENT" "\<not> seen_ack A2" "fstate B2 = LS_ACKSENT" "\<not> seen_ack B2"
    "reqid A2 = reqid A1" "reqid B2 = reqid B1"
    using A1 B1 A2 B2 by (simp_all add: ab2 d1) (simp_all add: ab)
  note A3 = fsm_input_acked [OF assms(1,3) this(1,2) assms(9)]
    and B3 = fsm_input_acked [OF assms(2,4) this(3,4) assms(10)] and ids = this(5,6)
  have "delivered A2 = drop 4 (frame (protocol A1) CONFACK (reqid B2) cb)"
    "delivered B2 = drop 4 (frame (protocol B1) CONFACK (reqid A2) ca)"
    using A2 [folded d1, folded ab2] B2 [folded d1, folded ab2] ids by (simp_all add: delivered_def)
  then show ?thesis
    using A3 B3 by (simp add: fsm_do_def Let_def flip: ab ab2)
qed

theorem fsm_handshake_witness:
  "let C = plain_callbacks; A1 = fsm_do C Lowerup (plain_fsm 3); B1 = fsm_do C Lowerup (plain_fsm 200);
      A2 = fsm_do C (Input (delivered B1)) A1; B2 = fsm_do C (Input (delivered A1)) B1;
      A3 = fsm_do C (Input (delivered B2)) A2; B3 = fsm_do C (Input (delivered A2)) B2
    in fstate A3 = LS_OPENED \<and> fstate B3 = LS_OPENED \<and> \<not> timer A3 \<and> \<not> timer B3"
  unfolding Let_def
  by (rule fsm_handshake [OF plain_proposes plain_proposes plain_accepts plain_accepts, unfolded Let_def])
    (simp_all add: plain_fsm_def OPT_SILENT_def HEADERLEN_def)

end
