(* ===== verification/Spec2Isabelle.thy ===== *)
theory Spec2Isabelle
  imports Datagram Tcp_Runs Tcp_Props Timers Fsm
begin

text \<open>
  Verification of the lwIP 1.4.0 network stack of the \<^verbatim>\<open>teensy3\<close> repository (\<^verbatim>\<open>src/k66lwip\<close>), as
  \<^verbatim>\<open>lwip/lwipopts.h\<close> and \<^verbatim>\<open>lwipk66/arch/cc.h\<close> configure it for the K66 board: one thread of control
  (\<^verbatim>\<open>NO_SYS\<close>), 32-bit, little-endian, assertions off, IGMP, DHCP, UDP and TCP on, no reassembly.

  \<^bold>\<open>The program and its parts.\<close>  A frame comes from the ring of receive descriptors of the K66 Ethernet
  controller (\<^verbatim>\<open>ether_poll\<close>), is put into packet buffers (\<^verbatim>\<open>pbuf_alloc\<close> on the heap of \<^verbatim>\<open>mem.c\<close>) and goes to
  \<^verbatim>\<open>ethernet_input\<close>, which hands ARP packets to the ARP cache and IP packets to \<^verbatim>\<open>ip_input\<close>; from there a packet
  goes to ICMP, UDP, TCP, IGMP or raw sockets.  The way down is \<^verbatim>\<open>udp_sendto\<close>, \<^verbatim>\<open>tcp_output\<close> or an ICMP reply,
  \<^verbatim>\<open>ip_output_if\<close>, \<^verbatim>\<open>etharp_output\<close> (which resolves the Ethernet address, queueing the packet if it has to ask)
  and \<^verbatim>\<open>k66_low_level_output\<close>.  Timers drive the ageing of the ARP cache and the other protocols.  PPP is
  in the tree beside it; its control protocols share one state machine.

  \<^bold>\<open>Theories, in the order of the imports.\<close>

  \<^item> \<open>Lwip_Prelude\<close>: types \<open>u8\<close>, \<open>u16\<close>, \<open>u32\<close>, byte memory (\<open>mem_read\<close>, \<open>mem_write\<close>), error codes
    (\<^verbatim>\<open>err.h\<close>), byte order (\<^verbatim>\<open>def.c\<close>), lemmas on words.
  \<^item> \<open>Ip_Addr\<close> (\<^verbatim>\<open>ipv4/ip_addr.c\<close>, \<^verbatim>\<open>ip_addr.h\<close>): broadcast and netmask tests, parsing and printing of
    addresses.  Netmasks accepted are the prefix masks; printing and parsing are inverse.
  \<^item> \<open>Inet_Chksum\<close> (\<^verbatim>\<open>ipv4/inet_chksum.c\<close>, \<^verbatim>\<open>lwipk66/arch/checksum.c\<close>): the three portable routines and the
    Thumb-2 assembly, sums over chains and pseudo headers.  The locale \<open>inet_sum\<close> is the contract of
    \<^verbatim>\<open>LWIP_CHKSUM\<close>, interpreted on all four; the results are sums of 16-bit words in one's complement.
  \<^item> \<open>Pbuf\<close>, \<open>Pbuf_Chain\<close>, \<open>Pbuf_Data\<close> (\<^verbatim>\<open>pbuf.c\<close>): the operations; chains, reference counts and lengths; the
    contents of chains.  The structs are in a store indexed by their address, their payload is in the byte memory.
  \<^item> \<open>Mem_Heap\<close> (\<^verbatim>\<open>mem.c\<close>): the heap as a list of blocks in memory, its invariant in every reachable state.
  \<^item> \<open>Pbuf_Alloc\<close>: the locale \<open>pbuf_allocator\<close> states what \<^verbatim>\<open>pbuf_alloc\<close> relies on and is interpreted on \<open>Mem_Heap\<close>.
  \<^item> \<open>Header_Fields\<close>: 16- and 32-bit fields of packed headers.
  \<^item> \<open>Etharp\<close>, \<open>Etharp_Table\<close>, \<open>Etharp_Props\<close> (\<^verbatim>\<open>netif/etharp.c\<close>): the ARP cache as an abstract map, its reachable
    states, ageing, the packets.  The locale \<open>link_driver\<close> is what the module relies on of the driver.
  \<^item> \<open>K66_Enet\<close> (\<^verbatim>\<open>lwipk66/lwipk66.c\<close>): the descriptor rings; the locale \<open>enet_hw\<close> is the documented behaviour of the
    controller, and with it the driver meets \<open>link_driver\<close>.
  \<^item> \<open>Tcp_Pcb\<close> (\<^verbatim>\<open>tcp.h\<close>, \<^verbatim>\<open>tcp_impl.h\<close>): sequence numbers, headers, control blocks and segments, options and the announced
    window.  Options that are encoded are read back; the announced window never shrinks.
  \<^item> \<open>Ip\<close>, \<open>Icmp\<close>, \<open>Udp\<close>, \<open>Ip_Input\<close> (\<^verbatim>\<open>ipv4/ip.c\<close>, \<^verbatim>\<open>ipv4/icmp.c\<close>, \<^verbatim>\<open>udp.c\<close>): the record \<open>net\<close> is the state of the whole
    stack.  Headers that are built verify; incremental checksum updates are exact; pings are answered; the
    list of control blocks has at most one receiver for a datagram.
  \<^item> \<open>Raw\<close> (\<^verbatim>\<open>raw.c\<close>), \<open>Igmp\<close> (\<^verbatim>\<open>ipv4/igmp.c\<close>): raw sockets (off on the board) and multicast groups.  \<open>Net_Link\<close> has the locale \<open>net_link\<close>: sending
    does not touch the state of the protocols above, and \<open>fragmentation\<close>, from which it follows for \<^verbatim>\<open>etharp_output\<close>.  The
    table of groups refines a map from interface and address, in every reachable state; a query can make the
    code divide by zero.
  \<^item> \<open>Tcp_Out\<close>, \<open>Tcp\<close>, \<open>Tcp_In\<close> (\<^verbatim>\<open>tcp_out.c\<close>, \<^verbatim>\<open>tcp.c\<close>, \<^verbatim>\<open>tcp_in.c\<close>): all functions of TCP.  The queues of segments and the lists of control
    blocks are lists; a callback of the application is a function of \<open>net_env\<close> and may change the whole state, and the loops that call
    it go on with the pointers the code has kept.
  \<^item> \<open>Tcp_View\<close>, \<open>Tcp_Lists\<close>, \<open>Tcp_Runs\<close>: the comment on the lists of control blocks as an invariant, kept by the operations of the application, by segments of established
    connections and by the TIME-WAIT timer (locales \<open>tcp_app\<close> and \<open>tcp_board\<close>); the state diagram.
  \<^item> \<open>Tcp_Props\<close>: the search for a port ends, checksums of parts add up to one the receiver accepts, retransmission keeps the order of the queues, and what an
    acknowledgement frees.
  \<^item> \<open>Datagram\<close>: the composition of these, from \<^verbatim>\<open>udp_sendto_if\<close> of one machine to the receive callback of another.
  \<^item> \<open>Timers\<close> (\<^verbatim>\<open>timers.c\<close>): the list of relative times refines a queue of due times (locale \<open>timeout_queue\<close>).
  \<^item> \<open>Fsm\<close> (\<^verbatim>\<open>netif/ppp/fsm.c\<close>): the state machine of the PPP control protocols, RFC 1661.

  \<^bold>\<open>Conventions.\<close>  An operation takes the state and returns it; the result \<open>None\<close> stands for what C leaves
  undefined (reading through a pointer that is not to a live object) and for a loop that does not end, so a
  theorem that gives \<open>Some\<close> also says that the code returns and reads no dead object.  Loops over linked lists
  are recursive functions over the list or \<^theory_text>\<open>partial_function (option)\<close>; there is no fuel.  The store of structs
  is separate from the byte memory: writing packet data does not change structs, which holds for the
  code as long as packet data stays inside its buffers.  The allocator, the link, receive callbacks and
  modules that are not modelled are functions in the records \<open>alloc\<close>, \<open>arp_env\<close> and \<open>net_env\<close>; what a theorem
  needs of them is among its assumptions or the laws of a locale.  With \<^verbatim>\<open>MEM_LIBC_MALLOC\<close> the board uses the C
  library's allocator; \<^verbatim>\<open>mem.c\<close> is verified as the allocator the stack brings with it, and the pbuf
  theorems hold for any allocator that meets the contract.  Statistics, debug output and SNMP counters are left out.

  \<^bold>\<open>Not modelled.\<close>  DHCP, fragmentation and the interface functions of
  \<^verbatim>\<open>netif.c\<close> are not modelled; where \<^verbatim>\<open>ip.c\<close> and \<^verbatim>\<open>udp.c\<close> call them they are parameters.  The invariant of the TCP lists is
  not stated for the handshake states and for the loops of the timers over active connections: with callbacks that may close any
  connection these loops follow dangling pointers (the model then has no result), so the code does not have it there.  DNS, AutoIP,
  the socket and netconn interfaces, SNMP, SLIP and the rest of PPP are not compiled in this configuration.
  Register set-up of the controller, the sketches and the SD-card and W5100 code are input and output to hardware.
\<close>

end
